(* ===== verification/Prelude.thy ===== *)
theory Prelude
  imports
    Main
    "HOL-Library.Word"
    "HOL-Library.Char_ord"
    "HOL-Library.List_Lexorder"
    "HOL-Library.Product_Lexorder"
    "HOL-Library.AList"
    "HOL-Library.Multiset"
begin

text \<open>
  What the components share: the part of Go's standard library that the sources use, on Go's own
  representation of text. A Go \<open>string\<close> is a sequence of bytes and so is an Isabelle
  \<^typ>\<open>string\<close> (a list of 8-bit characters), so lengths, slices and comparisons agree byte for
  byte. Runes are decoded only where the library decodes them: \<open>strings.TrimSpace\<close> and
  \<open>strings.Fields\<close> know the UTF-8 encodings of all Unicode white space, \<open>utf8.ValidString\<close> is
  the table-driven check of \<open>unicode/utf8\<close>.

  Case mapping (\<open>strings.ToLower\<close>, \<open>strings.ToUpper\<close>, \<open>strings.EqualFold\<close>) is modelled
  on ASCII letters together with the non-ASCII runes that map to an ASCII letter; every other byte
  is kept. The sources compare the results with ASCII literals only, for which this is exact.
\<close>

named_theorems codec_simps "round-trip equations of the wire formats"
named_theorems go_simps "unfolding rules of the string library"

type_synonym uint16 = "16 word"
type_synonym uint32 = "32 word"
type_synonym uint64 = "64 word"

text \<open>Times are nanoseconds since the epoch; durations are nanoseconds.\<close>

type_synonym time = int
type_synonym duration = int

subsection \<open>Errors as sums\<close>

text \<open>A Go function with result \<open>(T, error)\<close> returns a value of \<open>'e + 'a\<close>.\<close>

definition bind_err :: "'e + 'a \<Rightarrow> ('a \<Rightarrow> 'e + 'b) \<Rightarrow> 'e + 'b" where
  "bind_err r f = (case r of Inl e \<Rightarrow> Inl e | Inr x \<Rightarrow> f x)"

definition guard_err :: "bool \<Rightarrow> 'e \<Rightarrow> 'e + unit" where
  "guard_err ok e = (if ok then Inr () else Inl e)"

definition is_ok :: "'e + 'a \<Rightarrow> bool" where
  "is_ok r \<longleftrightarrow> (case r of Inl _ \<Rightarrow> False | Inr _ \<Rightarrow> True)"

lemma bind_err_simps [simp]:
  "bind_err (Inl e) f = Inl e"
  "bind_err (Inr x) f = f x"
  by (simp_all add: bind_err_def)

lemma bind_err_Inr_iff: "bind_err r f = Inr y \<longleftrightarrow> (\<exists>x. r = Inr x \<and> f x = Inr y)"
  by (cases r) auto

lemma is_ok_simps [simp]: "is_ok (Inr x)" "\<not> is_ok (Inl e)"
  by (simp_all add: is_ok_def)

lemma is_ok_iff: "is_ok r \<longleftrightarrow> (\<exists>x. r = Inr x)"
  by (cases r) auto

lemma guard_err_Inr_iff [simp]: "guard_err ok e = Inr u \<longleftrightarrow> ok"
  by (simp add: guard_err_def)

lemma guard_err_Inl_iff [simp]: "guard_err ok e = Inl e' \<longleftrightarrow> \<not> ok \<and> e' = e"
  by (auto simp add: guard_err_def)

subsection \<open>Prefixes, suffixes, substrings\<close>

definition has_prefix :: "string \<Rightarrow> string \<Rightarrow> bool" where
  "has_prefix s p \<longleftrightarrow> take (length p) s = p"

definition has_suffix :: "string \<Rightarrow> string \<Rightarrow> bool" where
  "has_suffix s p \<longleftrightarrow> length p \<le> length s \<and> drop (length s - length p) s = p"

definition trim_prefix :: "string \<Rightarrow> string \<Rightarrow> string" where
  "trim_prefix s p = (if has_prefix s p then drop (length p) s else s)"

definition trim_suffix :: "string \<Rightarrow> string \<Rightarrow> string" where
  "trim_suffix s p = (if has_suffix s p then take (length s - length p) s else s)"

fun contains :: "string \<Rightarrow> string \<Rightarrow> bool" where
  "contains [] sub = (sub = [])"
| "contains (c # s) sub = (has_prefix (c # s) sub \<or> contains s sub)"

definition contains_any :: "string \<Rightarrow> string \<Rightarrow> bool" where
  "contains_any s cs \<longleftrightarrow> list_ex (\<lambda>c. c \<in> set cs) s"

text \<open>\<open>strings.Count\<close> for a non-empty separator: non-overlapping occurrences.\<close>

function count_sub :: "string \<Rightarrow> string \<Rightarrow> nat" where
  "count_sub s sub =
     (if sub = [] \<or> length s < length sub then 0
      else if has_prefix s sub then Suc (count_sub (drop (length sub) s) sub)
      else count_sub (tl s) sub)"
  by pat_completeness auto
termination
proof (relation "measure (\<lambda>(s, sub). length s)")
  fix s sub :: string
  assume ne: "\<not> (sub = [] \<or> length s < length sub)"
  then have "sub \<noteq> []" "s \<noteq> []" by auto
  then show "((drop (length sub) s, sub), s, sub) \<in> measure (\<lambda>(s, sub). length s)"
    and "((tl s, sub), s, sub) \<in> measure (\<lambda>(s, sub). length s)"
    by (auto intro: diff_less)
qed simp

declare count_sub.simps [simp del]

text \<open>\<open>strings.ReplaceAll\<close> for a non-empty old text: left to right, non-overlapping.\<close>

function replace_all :: "string \<Rightarrow> string \<Rightarrow> string \<Rightarrow> string" where
  "replace_all s old new =
     (if s = [] \<or> old = [] then s
      else if has_prefix s old then new @ replace_all (drop (length old) s) old new
      else hd s # replace_all (tl s) old new)"
  by pat_completeness auto
termination
  by (relation "measure (\<lambda>(s, old, new). length s)") auto

declare replace_all.simps [simp del]

lemma has_prefix_iff: "has_prefix s p \<longleftrightarrow> (\<exists>r. s = p @ r)"
  unfolding has_prefix_def by (metis append_take_drop_id append_eq_conv_conj)

lemma has_suffix_iff: "has_suffix s p \<longleftrightarrow> (\<exists>q. s = q @ p)"
proof
  assume "has_suffix s p"
  then have "s = take (length s - length p) s @ p"
    unfolding has_suffix_def by (metis append_take_drop_id)
  then show "\<exists>q. s = q @ p" ..
next
  assume "\<exists>q. s = q @ p"
  then show "has_suffix s p" by (auto simp: has_suffix_def)
qed

lemma has_suffix_append [simp]: "has_suffix (q @ p) p"
  by (auto simp: has_suffix_iff)

lemma has_prefix_append [simp]: "has_prefix (p @ r) p"
  by (auto simp: has_prefix_iff)

lemma trim_suffix_append [simp]: "trim_suffix (q @ p) p = q"
  by (simp add: trim_suffix_def)

lemma trim_prefix_append [simp]: "trim_prefix (p @ r) p = r"
  by (simp add: trim_prefix_def)

lemma trim_suffix_restore: "has_suffix s p \<Longrightarrow> trim_suffix s p @ p = s"
  by (auto simp: has_suffix_iff)

lemma trim_suffix_none: "\<not> has_suffix s p \<Longrightarrow> trim_suffix s p = s"
  by (simp add: trim_suffix_def)

lemma contains_iff: "contains s sub \<longleftrightarrow> (\<exists>a b. s = a @ sub @ b)"
proof (induction s)
  case Nil
  then show ?case by auto
next
  case (Cons c s)
  show ?case
  proof
    assume "contains (c # s) sub"
    then consider "has_prefix (c # s) sub" | "contains s sub" by auto
    then show "\<exists>a b. c # s = a @ sub @ b"
    proof cases
      case 1
      then obtain r where "c # s = [] @ sub @ r" by (auto simp: has_prefix_iff)
      then show ?thesis by blast
    next
      case 2
      then obtain a b where "s = a @ sub @ b" using Cons.IH by blast
      then have "c # s = (c # a) @ sub @ b" by simp
      then show ?thesis by blast
    qed
  next
    assume "\<exists>a b. c # s = a @ sub @ b"
    then obtain a b where ab: "c # s = a @ sub @ b" by blast
    show "contains (c # s) sub"
    proof (cases a)
      case Nil
      with ab have "has_prefix (c # s) sub" by (simp add: has_prefix_iff)
      then show ?thesis by simp
    next
      case (Cons x a')
      with ab have "s = a' @ sub @ b" by simp
      then show ?thesis using Cons.IH by auto
    qed
  qed
qed

lemma contains_any_iff: "contains_any s cs \<longleftrightarrow> set s \<inter> set cs \<noteq> {}"
  by (auto simp: contains_any_def list_ex_iff)

subsection \<open>White space\<close>

text \<open>The UTF-8 encodings of the runes for which \<open>unicode.IsSpace\<close> holds.\<close>

definition space_encodings :: "string list" where
  "space_encodings =
     [[CHR 0x09], [CHR 0x0A], [CHR 0x0B], [CHR 0x0C], [CHR 0x0D], [CHR 0x20],
      [CHR 0xC2, CHR 0x85], [CHR 0xC2, CHR 0xA0], [CHR 0xE1, CHR 0x9A, CHR 0x80],
      [CHR 0xE2, CHR 0x80, CHR 0x80], [CHR 0xE2, CHR 0x80, CHR 0x81],
      [CHR 0xE2, CHR 0x80, CHR 0x82], [CHR 0xE2, CHR 0x80, CHR 0x83],
      [CHR 0xE2, CHR 0x80, CHR 0x84], [CHR 0xE2, CHR 0x80, CHR 0x85],
      [CHR 0xE2, CHR 0x80, CHR 0x86], [CHR 0xE2, CHR 0x80, CHR 0x87],
      [CHR 0xE2, CHR 0x80, CHR 0x88], [CHR 0xE2, CHR 0x80, CHR 0x89],
      [CHR 0xE2, CHR 0x80, CHR 0x8A], [CHR 0xE2, CHR 0x80, CHR 0xA8],
      [CHR 0xE2, CHR 0x80, CHR 0xA9], [CHR 0xE2, CHR 0x80, CHR 0xAF],
      [CHR 0xE2, CHR 0x81, CHR 0x9F], [CHR 0xE3, CHR 0x80, CHR 0x80]]"

definition space_at :: "string \<Rightarrow> nat" where
  "space_at s = (case List.find (has_prefix s) space_encodings of None \<Rightarrow> 0 | Some e \<Rightarrow> length e)"

definition space_at_end :: "string \<Rightarrow> nat" where
  "space_at_end s = (case List.find (has_suffix s) space_encodings of None \<Rightarrow> 0 | Some e \<Rightarrow> length e)"

lemma space_encodings_nonempty: "e \<in> set space_encodings \<Longrightarrow> e \<noteq> []"
  by (auto simp: space_encodings_def)

lemma space_at_Nil [simp]: "space_at [] = 0" "space_at_end [] = 0"
  by (simp_all add: space_at_def space_at_end_def space_encodings_def has_prefix_def has_suffix_def)

lemma space_at_eq_0: "space_at s = 0 \<longleftrightarrow> (\<forall>e \<in> set space_encodings. \<not> has_prefix s e)"
proof (cases "List.find (has_prefix s) space_encodings")
  case None
  then have "\<forall>e \<in> set space_encodings. \<not> has_prefix s e" by (simp add: find_None_iff)
  with None show ?thesis by (simp add: space_at_def)
next
  case (Some e)
  then have "e \<in> set space_encodings \<and> has_prefix s e"
    by (metis find_Some_iff nth_mem)
  with Some show ?thesis by (auto simp: space_at_def dest: space_encodings_nonempty)
qed

lemma space_at_end_eq_0: "space_at_end s = 0 \<longleftrightarrow> (\<forall>e \<in> set space_encodings. \<not> has_suffix s e)"
proof (cases "List.find (has_suffix s) space_encodings")
  case None
  then have "\<forall>e \<in> set space_encodings. \<not> has_suffix s e" by (simp add: find_None_iff)
  with None show ?thesis by (simp add: space_at_end_def)
next
  case (Some e)
  then have "e \<in> set space_encodings \<and> has_suffix s e"
    by (metis find_Some_iff nth_mem)
  with Some show ?thesis by (auto simp: space_at_end_def dest: space_encodings_nonempty)
qed

function trim_left_space :: "string \<Rightarrow> string" where
  "trim_left_space s =
     (let n = space_at s in if n = 0 then s else trim_left_space (drop n s))"
  by pat_completeness auto
termination
proof (relation "measure length")
  fix s :: string and n assume n: "n = space_at s" "n \<noteq> 0"
  then have "s \<noteq> []" by auto
  with n show "(drop n s, s) \<in> measure length" by simp
qed simp

function trim_right_space :: "string \<Rightarrow> string" where
  "trim_right_space s =
     (let n = space_at_end s in if n = 0 then s else trim_right_space (take (length s - n) s))"
  by pat_completeness auto
termination
proof (relation "measure length")
  fix s :: string and n assume n: "n = space_at_end s" "n \<noteq> 0"
  then have "s \<noteq> []" by auto
  with n show "(take (length s - n) s, s) \<in> measure length" by simp
qed simp

declare trim_left_space.simps [simp del] trim_right_space.simps [simp del]

definition trim_space :: "string \<Rightarrow> string" where
  "trim_space s = trim_right_space (trim_left_space s)"

text \<open>\<open>strings.Fields\<close>: the maximal runs of bytes between white space.\<close>

function fields_from :: "string \<Rightarrow> string \<Rightarrow> string list" where
  "fields_from cur s =
     (if s = [] then (if cur = [] then [] else [cur])
      else let n = space_at s in
        if n = 0 then fields_from (cur @ [hd s]) (tl s)
        else (if cur = [] then [] else [cur]) @ fields_from [] (drop n s))"
  by pat_completeness auto
termination
  by (relation "measure (\<lambda>(cur, s). length s)") auto

declare fields_from.simps [simp del]

definition str_fields :: "string \<Rightarrow> string list" where
  "str_fields s = fields_from [] s"

lemma trim_left_space_done: "space_at (trim_left_space s) = 0"
proof (induction s rule: trim_left_space.induct)
  case (1 s)
  then show ?case by (cases "space_at s = 0") (simp_all add: trim_left_space.simps [of s] Let_def)
qed

lemma trim_right_space_done: "space_at_end (trim_right_space s) = 0"
proof (induction s rule: trim_right_space.induct)
  case (1 s)
  then show ?case
    by (cases "space_at_end s = 0") (simp_all add: trim_right_space.simps [of s] Let_def)
qed

lemma trim_right_space_prefix: "\<exists>r. s = trim_right_space s @ r"
proof (induction s rule: trim_right_space.induct)
  case (1 s)
  show ?case
  proof (cases "space_at_end s = 0")
    case True
    then show ?thesis by (simp add: trim_right_space.simps [of s])
  next
    case False
    let ?t = "take (length s - space_at_end s) s"
    from 1 False obtain r where "?t = trim_right_space ?t @ r" by auto
    then have "s = trim_right_space ?t @ (r @ drop (length s - space_at_end s) s)"
      by (metis append.assoc append_take_drop_id)
    with False show ?thesis by (auto simp: trim_right_space.simps [of s] Let_def)
  qed
qed

lemma space_at_prefix: "space_at (t @ r) = 0 \<Longrightarrow> space_at t = 0"
  by (auto simp: space_at_eq_0 has_prefix_iff)

lemma trim_space_ends: "space_at (trim_space s) = 0" "space_at_end (trim_space s) = 0"
proof -
  obtain r where "trim_left_space s = trim_space s @ r"
    using trim_right_space_prefix unfolding trim_space_def by blast
  then show "space_at (trim_space s) = 0"
    by (metis space_at_prefix trim_left_space_done)
  show "space_at_end (trim_space s) = 0"
    by (simp add: trim_space_def trim_right_space_done)
qed

lemma trim_space_id: "space_at s = 0 \<Longrightarrow> space_at_end s = 0 \<Longrightarrow> trim_space s = s"
  by (simp add: trim_space_def trim_left_space.simps [of s] trim_right_space.simps [of s])

lemma trim_space_idem [simp]: "trim_space (trim_space s) = trim_space s"
  by (simp add: trim_space_id trim_space_ends)

lemma trim_space_Nil [simp]: "trim_space [] = []"
  by (simp add: trim_space_id)

lemma set_trim_left: "set (trim_left_space s) \<subseteq> set s"
proof (induction s rule: trim_left_space.induct)
  case (1 s)
  then show ?case
    by (cases "space_at s = 0") (auto simp: trim_left_space.simps [of s] Let_def dest: in_set_dropD)
qed

lemma set_trim_space: "set (trim_space s) \<subseteq> set s"
proof -
  obtain r where "trim_left_space s = trim_right_space (trim_left_space s) @ r" using trim_right_space_prefix by blast
  then have "set (trim_right_space (trim_left_space s)) \<subseteq> set (trim_left_space s)"
    by (metis Un_upper1 set_append)
  with set_trim_left [of s] show ?thesis by (auto simp: trim_space_def)
qed

lemma set_trim_suffix: "set (trim_suffix s p) \<subseteq> set s"
  by (auto simp: trim_suffix_def dest: in_set_takeD)

lemma set_trimmed: "set (trim_suffix (trim_space x) p) \<subseteq> set x"
  using set_trim_suffix set_trim_space by (rule subset_trans)

lemma trim_suffix_prefix: "\<exists>r. s = trim_suffix s p @ r"
  by (metis append_Nil2 trim_suffix_none trim_suffix_restore)

lemma space_at_service:
  assumes "space_at v = 0" "v \<noteq> []"
  shows "space_at (v @ ''.service'') = 0"
  unfolding space_at_eq_0
proof (intro ballI notI)
  fix e assume e: "e \<in> set space_encodings" and "has_prefix (v @ ''.service'') e"
  then obtain r where r: "v @ ''.service'' = e @ r" by (auto simp: has_prefix_iff)
  have nodot: "CHR ''.'' \<notin> set e" using e by (auto simp: space_encodings_def)
  from r obtain us where "v = e @ us \<or> v @ us = e \<and> ''.service'' = us @ r"
    by (auto simp: append_eq_append_conv2)
  moreover have "us = []" if "v @ us = e" "''.service'' = us @ r"
    using that nodot by (cases us) auto
  ultimately have "has_prefix v e" by (auto simp: has_prefix_iff)
  with e assms(1) show False by (auto simp: space_at_eq_0)
qed

lemma space_at_end_service: "space_at_end (v @ ''.service'') = 0"
  unfolding space_at_end_eq_0
proof (intro ballI notI)
  fix e assume e: "e \<in> set space_encodings" and "has_suffix (v @ ''.service'') e"
  then obtain q where "v @ ''.service'' = q @ e" by (auto simp: has_suffix_iff)
  moreover from e have "e \<noteq> []" by (rule space_encodings_nonempty)
  ultimately have "last e = CHR ''e''" by (metis last_appendR last_ConsR list.distinct(1) last.simps)
  with e show False by (auto simp: space_encodings_def)
qed

lemmas space_eval = trim_space_def trim_left_space.simps trim_right_space.simps space_at_def
  space_at_end_def space_encodings_def has_prefix_def has_suffix_def

text \<open>\<open>strings.Trim(s, cutset)\<close> for a cutset of ASCII characters.\<close>

definition trim_set :: "string \<Rightarrow> string \<Rightarrow> string" where
  "trim_set s cutset =
     rev (dropWhile (\<lambda>c. c \<in> set cutset) (rev (dropWhile (\<lambda>c. c \<in> set cutset) s)))"

text \<open>\<open>strings.TrimRight(s, cutset)\<close> for a cutset of ASCII characters.\<close>

definition trim_right_set :: "string \<Rightarrow> string \<Rightarrow> string" where
  "trim_right_set s cutset = rev (dropWhile (\<lambda>c. c \<in> set cutset) (rev s))"

lemma trim_right_set_stop: "p \<noteq> [] \<Longrightarrow> last p \<notin> set cs \<Longrightarrow> trim_right_set p cs = p"
  by (cases p rule: rev_cases) (simp_all add: trim_right_set_def)

lemma trim_right_set_more: "p \<noteq> [] \<Longrightarrow> last p \<notin> set cs \<Longrightarrow> set q \<subseteq> set cs \<Longrightarrow> trim_right_set (p @ q) cs = p"
proof (induction q rule: rev_induct)
  case (snoc x q)
  then show ?case by (simp add: trim_right_set_def)
qed (simp add: trim_right_set_stop)

subsection \<open>Case mapping\<close>

definition lower_char :: "char \<Rightarrow> char" where
  "lower_char c = (let n = of_char c :: nat in if 65 \<le> n \<and> n \<le> 90 then char_of (n + 32) else c)"

definition upper_char :: "char \<Rightarrow> char" where
  "upper_char c = (let n = of_char c :: nat in if 97 \<le> n \<and> n \<le> 122 then char_of (n - 32) else c)"

text \<open>U+0130 and U+212A have the ASCII lower-case forms \<open>i\<close> and \<open>k\<close>.\<close>

fun to_lower :: "string \<Rightarrow> string" where
  "to_lower [] = []"
| "to_lower (c # s) =
     (case s of
        b # t \<Rightarrow>
          if c = CHR 0xC4 \<and> b = CHR 0xB0 then CHR ''i'' # to_lower t
          else if c = CHR 0xE2 \<and> b = CHR 0x84 \<and> t \<noteq> [] \<and> hd t = CHR 0xAA
            then CHR ''k'' # to_lower (tl t)
          else lower_char c # to_lower s
      | [] \<Rightarrow> [lower_char c])"

text \<open>U+0131 and U+017F have the ASCII upper-case forms \<open>I\<close> and \<open>S\<close>.\<close>

fun to_upper :: "string \<Rightarrow> string" where
  "to_upper [] = []"
| "to_upper (c # s) =
     (case s of
        b # t \<Rightarrow>
          if c = CHR 0xC4 \<and> b = CHR 0xB1 then CHR ''I'' # to_upper t
          else if c = CHR 0xC5 \<and> b = CHR 0xBF then CHR ''S'' # to_upper t
          else upper_char c # to_upper s
      | [] \<Rightarrow> [upper_char c])"

text \<open>
  \<open>strings.EqualFold\<close>: simple folding puts U+212A with \<open>k\<close> and U+017F with \<open>s\<close>, and U+0130,
  U+0131 with no ASCII letter.
\<close>

fun fold_case :: "string \<Rightarrow> string" where
  "fold_case [] = []"
| "fold_case (c # s) =
     (case s of
        b # t \<Rightarrow>
          if c = CHR 0xC5 \<and> b = CHR 0xBF then CHR ''s'' # fold_case t
          else if c = CHR 0xE2 \<and> b = CHR 0x84 \<and> t \<noteq> [] \<and> hd t = CHR 0xAA
            then CHR ''k'' # fold_case (tl t)
          else lower_char c # fold_case s
      | [] \<Rightarrow> [lower_char c])"

definition equal_fold :: "string \<Rightarrow> string \<Rightarrow> bool" where
  "equal_fold s t \<longleftrightarrow> fold_case s = fold_case t"

subsection \<open>Splitting and joining\<close>

text \<open>\<open>strings.Split\<close> at a one-byte separator and \<open>strings.Join\<close>.\<close>

fun split_on :: "char \<Rightarrow> string \<Rightarrow> string list" where
  "split_on c [] = [[]]"
| "split_on c (x # xs) =
     (if x = c then [] # split_on c xs
      else case split_on c xs of [] \<Rightarrow> [[x]] | y # ys \<Rightarrow> (x # y) # ys)"

fun join :: "string \<Rightarrow> string list \<Rightarrow> string" where
  "join sep [] = []"
| "join sep [s] = s"
| "join sep (s # t # ts) = s @ sep @ join sep (t # ts)"

text \<open>\<open>strings.Cut\<close> at a one-byte separator: the text before and after its first occurrence.\<close>

fun cut :: "string \<Rightarrow> char \<Rightarrow> (string \<times> string) option" where
  "cut [] c = None"
| "cut (x # xs) c =
     (if x = c then Some ([], xs) else map_option (\<lambda>(a, b). (x # a, b)) (cut xs c))"

lemma split_on_nonempty [simp]: "split_on c s \<noteq> []"
  by (induction s) (auto split: list.splits)

lemma join_Cons: "ts \<noteq> [] \<Longrightarrow> join sep (s # ts) = s @ sep @ join sep ts"
  by (cases ts) auto

lemma join_split_on: "join [c] (split_on c s) = s"
proof (induction s)
  case Nil
  then show ?case by simp
next
  case (Cons x xs)
  obtain y ys where ys: "split_on c xs = y # ys"
    by (cases "split_on c xs") auto
  show ?case
  proof (cases "x = c")
    case True
    with Cons show ?thesis by (simp add: join_Cons)
  next
    case False
    with Cons ys show ?thesis by (cases ys) auto
  qed
qed

lemma split_on_no_sep: "y \<in> set (split_on c s) \<Longrightarrow> c \<notin> set y"
  by (induction s arbitrary: y) (auto split: if_splits list.splits)

lemma split_on_absent: "c \<notin> set s \<Longrightarrow> split_on c s = [s]"
  by (induction s) auto

lemma split_on_append: "c \<notin> set s \<Longrightarrow> split_on c (s @ c # t) = s # split_on c t"
  by (induction s) auto

text \<open>Lines, each with its line feed, and what splitting the text gives back.\<close>

definition linesText :: "string list \<Rightarrow> string" where
  "linesText ls = concat (map (\<lambda>l. l @ [CHR 0x0A]) ls)"

lemma split_linesText: "\<forall>l \<in> set ls. CHR 0x0A \<notin> set l \<Longrightarrow> split_on CHR 0x0A (linesText ls) = ls @ [[]]"
  by (induction ls) (auto simp: linesText_def split_on_append)

lemma split_on_join:
  "xs \<noteq> [] \<Longrightarrow> (\<forall>x \<in> set xs. c \<notin> set x) \<Longrightarrow> split_on c (join [c] xs) = xs"
  by (induction "[c]" xs rule: join.induct) (auto simp: split_on_absent split_on_append)

lemma cut_Some_iff: "cut s c = Some (a, b) \<longleftrightarrow> s = a @ c # b \<and> c \<notin> set a"
proof (induction s arbitrary: a)
  case Nil
  then show ?case by simp
next
  case (Cons x xs)
  show ?case
  proof (cases a)
    case Nil
    then show ?thesis by auto
  next
    case (Cons y a')
    then show ?thesis using Cons.IH [of a'] by auto
  qed
qed

lemma cut_None_iff: "cut s c = None \<longleftrightarrow> c \<notin> set s"
  by (induction s) auto

subsection \<open>Decimal numbers\<close>

fun dec_digits :: "nat \<Rightarrow> nat list" where
  "dec_digits n = (if n < 10 then [n] else dec_digits (n div 10) @ [n mod 10])"

declare dec_digits.simps [simp del]

definition digit_char :: "nat \<Rightarrow> char" where
  "digit_char d = char_of (48 + d)"

lemma digit_char_eval [simp]:
  "digit_char 0 = CHR ''0''" "digit_char (Suc 0) = CHR ''1''" "digit_char 1 = CHR ''1''"
  "digit_char 2 = CHR ''2''" "digit_char 3 = CHR ''3''" "digit_char 4 = CHR ''4''"
  "digit_char 5 = CHR ''5''" "digit_char 6 = CHR ''6''" "digit_char 7 = CHR ''7''"
  "digit_char 8 = CHR ''8''" "digit_char 9 = CHR ''9''"
  by code_simp+

definition is_digit :: "char \<Rightarrow> bool" where
  "is_digit c \<longleftrightarrow> 48 \<le> (of_char c :: nat) \<and> (of_char c :: nat) \<le> 57"

definition digit_val :: "char \<Rightarrow> nat" where
  "digit_val c = of_char c - 48"

text \<open>\<open>strconv.FormatUint\<close> and \<open>strconv.Itoa\<close> in base 10.\<close>

definition utoa :: "nat \<Rightarrow> string" where
  "utoa n = map digit_char (dec_digits n)"

definition itoa :: "int \<Rightarrow> string" where
  "itoa i = (if i < 0 then CHR ''-'' # utoa (nat (- i)) else utoa (nat i))"

text \<open>A non-empty run of digits, of any size.\<close>

definition parse_dec :: "string \<Rightarrow> nat option" where
  "parse_dec s =
     (if s \<noteq> [] \<and> list_all is_digit s then Some (foldl (\<lambda>n c. 10 * n + digit_val c) 0 s) else None)"

text \<open>\<open>strconv.ParseUint(s, 10, bits)\<close>; \<open>strconv.Atoi\<close> on a 64-bit \<open>int\<close>.\<close>

definition parse_uint :: "nat \<Rightarrow> string \<Rightarrow> nat option" where
  "parse_uint bits s =
     (case parse_dec s of None \<Rightarrow> None | Some n \<Rightarrow> if n < 2 ^ bits then Some n else None)"

definition atoi :: "string \<Rightarrow> int option" where
  "atoi s =
     (case s of
        [] \<Rightarrow> None
      | c # r \<Rightarrow>
          (case parse_dec (if c = CHR ''-'' \<or> c = CHR ''+'' then r else s) of
             None \<Rightarrow> None
           | Some n \<Rightarrow>
               let v = (if c = CHR ''-'' then - int n else int n)
               in if - (2 ^ 63) \<le> v \<and> v < 2 ^ 63 then Some v else None))"

lemma dec_digits_small: "d \<in> set (dec_digits n) \<Longrightarrow> d < 10"
proof (induction n rule: dec_digits.induct)
  case (1 n)
  then show ?case by (cases "n < 10") (auto simp: dec_digits.simps [of n])
qed

lemma dec_digits_value: "foldl (\<lambda>n d. 10 * n + d) 0 (dec_digits n) = n"
proof (induction n rule: dec_digits.induct)
  case (1 n)
  then show ?case by (cases "n < 10") (simp_all add: dec_digits.simps [of n])
qed

lemma dec_digits_nonempty: "dec_digits n \<noteq> []"
  by (subst dec_digits.simps) simp

lemma digit_char_props [simp]:
  assumes "d < 10"
  shows "is_digit (digit_char d)" and "digit_val (digit_char d) = d"
  using assms by (simp_all add: is_digit_def digit_char_def digit_val_def)

lemma utoa_digits: "c \<in> set (utoa n) \<Longrightarrow> is_digit c"
  by (auto simp: utoa_def dest: dec_digits_small)

lemma utoa_nonempty [simp]: "utoa n \<noteq> []"
  by (simp add: utoa_def dec_digits_nonempty)

lemma foldl_digit_chars:
  "(\<forall>d \<in> set ds. d < 10) \<Longrightarrow>
   foldl (\<lambda>n c. 10 * n + digit_val c) a (map digit_char ds) = foldl (\<lambda>n d. 10 * n + d) a ds"
  by (induction ds arbitrary: a) auto

lemma parse_dec_utoa [codec_simps, simp]: "parse_dec (utoa n) = Some n"
  using dec_digits_value [of n]
  by (simp add: parse_dec_def list_all_iff utoa_digits)
     (simp add: utoa_def foldl_digit_chars dec_digits_small)

lemma parse_uint_utoa [codec_simps]: "n < 2 ^ bits \<Longrightarrow> parse_uint bits (utoa n) = Some n"
  by (simp add: parse_uint_def)

lemma sign_not_digit: "is_digit c \<Longrightarrow> c \<noteq> CHR ''-'' \<and> c \<noteq> CHR ''+''"
  by (auto simp: is_digit_def)

lemma atoi_itoa [codec_simps]:
  assumes "- (2 ^ 63) \<le> i" and "i < 2 ^ 63"
  shows "atoi (itoa i) = Some i"
proof (cases "i < 0")
  case True
  with assms show ?thesis by (simp add: atoi_def itoa_def)
next
  case False
  obtain c r where cr: "utoa (nat i) = c # r"
    by (cases "utoa (nat i)") auto
  then have "c \<noteq> CHR ''-'' \<and> c \<noteq> CHR ''+''"
    using utoa_digits [of c "nat i"] sign_not_digit by auto
  with False cr parse_dec_utoa [of "nat i"] assms show ?thesis
    by (simp add: atoi_def itoa_def)
qed

lemma utoa_inj: "utoa m = utoa n \<Longrightarrow> m = n"
  by (metis option.inject parse_dec_utoa)

lemma itoa_inj: "itoa i = itoa j \<Longrightarrow> i = j"
proof -
  have sign: "\<And>n r. utoa n \<noteq> CHR ''-'' # r"
    using utoa_digits sign_not_digit by (metis list.set_intros(1))
  assume "itoa i = itoa j"
  then show ?thesis
    using sign by (auto simp: itoa_def split: if_splits dest!: utoa_inj) (metis sign)+
qed

subsection \<open>UTF-8\<close>

definition byte_in :: "nat \<Rightarrow> nat \<Rightarrow> char \<Rightarrow> bool" where
  "byte_in lo hi c \<longleftrightarrow> lo \<le> of_char c \<and> of_char c \<le> hi"

text \<open>
  The table \<open>first\<close> of \<open>unicode/utf8\<close>: the width that the first byte announces (0 for a byte that
  starts no rune) and the range in which the second byte must lie.
\<close>

definition rune_first :: "char \<Rightarrow> nat \<times> nat \<times> nat" where
  "rune_first a =
     (if byte_in 0 0x7F a then (1, 0x80, 0xBF)
      else if byte_in 0xC2 0xDF a then (2, 0x80, 0xBF)
      else if a = CHR 0xE0 then (3, 0xA0, 0xBF)
      else if a = CHR 0xED then (3, 0x80, 0x9F)
      else if byte_in 0xE1 0xEF a then (3, 0x80, 0xBF)
      else if a = CHR 0xF0 then (4, 0x90, 0xBF)
      else if a = CHR 0xF4 then (4, 0x80, 0x8F)
      else if byte_in 0xF1 0xF3 a then (4, 0x80, 0xBF)
      else (0, 0x80, 0xBF))"

text \<open>The number of bytes of the first rune; 0 where the text starts with no well-formed rune.\<close>

definition rune_len :: "string \<Rightarrow> nat" where
  "rune_len s =
     (case s of
        [] \<Rightarrow> 0
      | a # r \<Rightarrow>
          let (w, lo, hi) = rune_first a
          in if length s < w then 0
             else if w \<le> 1 then w
             else if byte_in lo hi (hd r) \<and> list_all (byte_in 0x80 0xBF) (take (w - 2) (tl r))
             then w else 0)"

lemma rune_len_le: "rune_len s \<le> length s"
  by (auto simp: rune_len_def not_less split: list.splits prod.splits)

lemma rune_len_append:
  assumes "rune_len s \<noteq> 0"
  shows "rune_len (s @ t) = rune_len s"
proof -
  from assms obtain a r where s: "s = a # r"
    by (cases s) (simp_all add: rune_len_def)
  obtain w lo hi where w: "rune_first a = (w, lo, hi)"
    by (cases "rune_first a") auto
  show ?thesis
  proof (cases "w \<le> 1")
    case True
    with s w show ?thesis by (simp add: rune_len_def)
  next
    case False
    with assms s w have len: "w \<le> Suc (length r)"
      by (auto simp: rune_len_def split: if_splits)
    with False have r: "r \<noteq> []" and tl: "w - 2 \<le> length (tl r)" by auto
    from r have "hd (r @ t) = hd r" "tl (r @ t) = tl r @ t" by auto
    with tl s w len False show ?thesis by (simp add: rune_len_def)
  qed
qed

text \<open>\<open>utf8.ValidString\<close>: a sequence of well-formed runes.\<close>

function valid_utf8 :: "string \<Rightarrow> bool" where
  "valid_utf8 s =
     (if s = [] then True else let n = rune_len s in if n = 0 then False else valid_utf8 (drop n s))"
  by pat_completeness auto
termination
proof (relation "measure length")
  fix s :: string and n assume "s \<noteq> []" "n = rune_len s" "n \<noteq> 0"
  then show "(drop n s, s) \<in> measure length" by simp
qed simp

declare valid_utf8.simps [simp del]

lemma valid_utf8_Nil [simp]: "valid_utf8 []"
  by (subst valid_utf8.simps) simp

lemma valid_utf8_append: "valid_utf8 s \<Longrightarrow> valid_utf8 (s @ t) = valid_utf8 t"
proof (induction s rule: valid_utf8.induct)
  case (1 s)
  show ?case
  proof (cases "s = []")
    case False
    with "1.prems" have ok: "rune_len s \<noteq> 0" "valid_utf8 (drop (rune_len s) s)"
      by (simp_all add: valid_utf8.simps [of s] Let_def split: if_splits)
    have "valid_utf8 (s @ t) = valid_utf8 (drop (rune_len s) s @ t)"
      using False ok rune_len_append [of s t] rune_len_le [of s]
      by (subst valid_utf8.simps) (simp add: Let_def)
    also have "\<dots> = valid_utf8 t" using "1.IH" False ok by simp
    finally show ?thesis .
  qed simp
qed

lemma valid_utf8_ascii: "(\<forall>c \<in> set s. of_char c < (128::nat)) \<Longrightarrow> valid_utf8 s"
proof (induction s)
  case (Cons c s)
  then show ?case
    by (subst valid_utf8.simps) (simp add: rune_len_def rune_first_def byte_in_def less_eq_Suc_le)
qed simp

text \<open>
  The runes a \<open>range\<close> over a string visits, each as the bytes \<open>WriteRune\<close> writes for it: a byte that
  starts no well-formed rune is visited alone, as U+FFFD.
\<close>

definition rune_error :: string where
  "rune_error = [CHR 0xEF, CHR 0xBF, CHR 0xBD]"

function runes :: "string \<Rightarrow> string list" where
  "runes s =
     (if s = [] then []
      else let n = rune_len s in
        if n = 0 then rune_error # runes (tl s) else take n s # runes (drop n s))"
  by pat_completeness auto
termination
  by (relation "measure length") auto

declare runes.simps [simp del]

lemma runes_Nil [simp]: "runes [] = []"
  by (subst runes.simps) simp

lemma runes_append: "valid_utf8 s \<Longrightarrow> runes (s @ t) = runes s @ runes t"
proof (induction s rule: valid_utf8.induct)
  case (1 s)
  show ?case
  proof (cases "s = []")
    case False
    with "1.prems" have ok: "rune_len s \<noteq> 0" "valid_utf8 (drop (rune_len s) s)"
      by (simp_all add: valid_utf8.simps [of s] Let_def split: if_splits)
    have "runes (s @ t) = take (rune_len s) s # runes (drop (rune_len s) s @ t)"
      using False ok rune_len_append [of s t] rune_len_le [of s] by (subst runes.simps) (simp add: Let_def)
    also have "\<dots> = runes s @ runes t"
      using "1.IH" False ok by (simp add: runes.simps [of s] Let_def)
    finally show ?thesis .
  qed simp
qed

lemma concat_runes: "valid_utf8 s \<Longrightarrow> concat (runes s) = s"
proof (induction s rule: valid_utf8.induct)
  case (1 s)
  then show ?case
    by (cases "s = []") (auto simp: runes.simps [of s] valid_utf8.simps [of s] Let_def split: if_splits)
qed

lemma rune_len_ascii: "of_char c < (128::nat) \<Longrightarrow> rune_len (c # s) = 1"
  by (simp add: rune_len_def rune_first_def byte_in_def)

lemma runes_ascii: "of_char c < (128::nat) \<Longrightarrow> runes (c # s) = [c] # runes s"
  by (subst runes.simps) (simp add: rune_len_ascii)

lemma rune_first_cases:
  assumes "rune_first a = (w, lo, hi)"
  shows "w = 1 \<and> of_char a < (128::nat) \<or> w \<noteq> 1 \<and> 128 \<le> (of_char a :: nat) \<and> 128 \<le> lo"
  using assms by (auto simp: rune_first_def byte_in_def split: if_splits)

lemma rune_bytes:
  assumes "rune_len s \<noteq> 0"
  shows "(\<exists>c. take (rune_len s) s = [c] \<and> of_char c < (128::nat)) \<or> (\<forall>c \<in> set (take (rune_len s) s). 128 \<le> (of_char c :: nat))"
proof -
  from assms obtain a r where s: "s = a # r" by (cases s) (simp_all add: rune_len_def)
  obtain w lo hi where w: "rune_first a = (w, lo, hi)" by (cases "rune_first a") auto
  show ?thesis
  proof (cases "w = 1")
    case True
    with rune_first_cases [OF w] s w show ?thesis by (simp add: rune_len_def)
  next
    case False
    from assms s w False have len: "rune_len s = w" "2 \<le> w" "w \<le> Suc (length r)"
      and bytes: "byte_in lo hi (hd r)" "list_all (byte_in 0x80 0xBF) (take (w - 2) (tl r))"
      by (auto simp: rune_len_def split: if_splits)
    then obtain b t where r: "r = b # t" by (cases r) auto
    from len r s have "take (rune_len s) s = a # b # take (w - 2) t"
      by (cases w) (auto simp: take_Cons' numeral_2_eq_2)
    with rune_first_cases [OF w] False bytes r show ?thesis by (auto simp: byte_in_def list_all_iff)
  qed
qed

lemma runes_bytes:
  "r \<in> set (runes s) \<Longrightarrow> (\<exists>c. r = [c] \<and> of_char c < (128::nat)) \<or> (\<forall>c \<in> set r. 128 \<le> (of_char c :: nat))"
proof (induction s rule: runes.induct)
  case (1 s)
  show ?case
  proof (cases "s = [] \<or> rune_len s = 0")
    case True
    show ?thesis
    proof (cases "s = []")
      case False
      with True have "runes s = rune_error # runes (tl s)" by (simp add: runes.simps [of s])
      with "1.prems" have "r = rune_error \<or> r \<in> set (runes (tl s))" by simp
      then show ?thesis
      proof
        assume r: "r \<in> set (runes (tl s))"
        from True False have "rune_len s = 0" by simp
        from "1.IH"(1) [OF False refl this r] show ?thesis .
      qed (simp add: rune_error_def)
    qed (use "1.prems" in simp)
  next
    case False
    then have "runes s = take (rune_len s) s # runes (drop (rune_len s) s)"
      by (simp add: runes.simps [of s] Let_def)
    with "1.prems" have "r = take (rune_len s) s \<or> r \<in> set (runes (drop (rune_len s) s))" by simp
    then show ?thesis
    proof
      assume r: "r = take (rune_len s) s"
      from False have "rune_len s \<noteq> 0" by simp
      from rune_bytes [OF this] show ?thesis by (simp only: r)
    next
      assume r: "r \<in> set (runes (drop (rune_len s) s))"
      from False have ne: "s \<noteq> []" "rune_len s \<noteq> 0" by simp_all
      from "1.IH"(2) [OF ne(1) refl ne(2) r] show ?thesis .
    qed
  qed
qed

lemma runes_nonempty: "r \<in> set (runes s) \<Longrightarrow> r \<noteq> []"
proof (induction s rule: runes.induct)
  case (1 s)
  then show ?case
    by (auto simp: runes.simps [of s] rune_error_def Let_def split: if_splits)
qed

subsection \<open>Sorting with a comparison function\<close>

text \<open>
  \<open>sort.SliceStable\<close>: the stable sort for the given strict order. \<open>sort.Slice\<close> is modelled by
  the same function; where two elements compare equal its order is unspecified, so the properties
  use it only for orders that separate the elements.
\<close>

fun insert_by :: "('a \<Rightarrow> 'a \<Rightarrow> bool) \<Rightarrow> 'a \<Rightarrow> 'a list \<Rightarrow> 'a list" where
  "insert_by lt x [] = [x]"
| "insert_by lt x (y # ys) = (if lt y x then y # insert_by lt x ys else x # y # ys)"

definition sort_slice :: "('a \<Rightarrow> 'a \<Rightarrow> bool) \<Rightarrow> 'a list \<Rightarrow> 'a list" where
  "sort_slice lt xs = foldr (insert_by lt) xs []"

lemma pair_less_if: "(a, b) < (c, d) \<longleftrightarrow> (if a \<noteq> c then a < c else b < d)"
  for a c :: "'a::linorder" and b d :: "'b::ord"
  by (auto simp: less_prod_def)

lemma insert_by_key:
  "(\<And>x y. lt x y \<longleftrightarrow> f x < f y) \<Longrightarrow> insert_by lt x ys = insort_key f x ys"
  for f :: "'a \<Rightarrow> 'b::linorder"
  by (induction ys) (auto simp: not_less)

lemma sort_slice_key:
  fixes f :: "'a \<Rightarrow> 'b::linorder"
  assumes "\<And>x y. lt x y \<longleftrightarrow> f x < f y"
  shows "sort_slice lt xs = sort_key f xs"
proof -
  have "insert_by lt = insort_key f"
    by (rule ext, rule ext) (rule insert_by_key [OF assms])
  then show ?thesis by (simp add: sort_slice_def sort_key_def)
qed

lemma mset_insert_by [simp]: "mset (insert_by lt x ys) = add_mset x (mset ys)"
  by (induction ys) auto

lemma mset_sort_slice [simp]: "mset (sort_slice lt xs) = mset xs"
  by (induction xs) (auto simp: sort_slice_def)

lemma set_sort_slice [simp]: "set (sort_slice lt xs) = set xs"
  by (metis mset_sort_slice set_mset_mset)

lemma length_sort_slice [simp]: "length (sort_slice lt xs) = length xs"
  by (metis mset_sort_slice size_mset)

subsection \<open>Lists and paths\<close>

lemma filter_singleton:
  "distinct xs \<Longrightarrow> x \<in> set xs \<Longrightarrow> (\<forall>y \<in> set xs. Q y \<longleftrightarrow> y = x) \<Longrightarrow> filter Q xs = [x]"
proof (induction xs)
  case (Cons y ys)
  then show ?case by (cases "y = x") (auto simp: filter_empty_conv)
qed simp

lemma map_fst_zip_tl: "map fst (zip p (tl p)) = butlast p"
  by (simp add: map_fst_zip_take butlast_conv_take)

lemma map_snd_zip_tl: "map snd (zip p (tl p)) = tl p"
  by (simp add: map_snd_zip_take)

lemma in_tl_zip: "p \<noteq> [] \<Longrightarrow> x \<in> set p \<Longrightarrow> x = hd p \<or> (\<exists>y. (y, x) \<in> set (zip p (tl p)))"
proof (induction p)
  case (Cons z q)
  then show ?case by (cases q) auto
qed simp

lemma set_butlast_tl: "2 \<le> length p \<Longrightarrow> set (butlast p) \<union> set (tl p) = set p"
  by (cases p) (auto dest: in_set_butlastD)

subsection \<open>Errors of the operating system\<close>

datatype os_error = NotExist | Exist | Busy | NotEmpty | OsError string

subsection \<open>Positions in a text\<close>

text \<open>\<open>strings.IndexByte\<close> and \<open>strings.LastIndexByte\<close>; \<open>None\<close> is Go's \<open>-1\<close>.\<close>

fun index_byte :: "string \<Rightarrow> char \<Rightarrow> nat option" where
  "index_byte [] c = None"
| "index_byte (x # xs) c = (if x = c then Some 0 else map_option Suc (index_byte xs c))"

definition last_index_byte :: "string \<Rightarrow> char \<Rightarrow> nat option" where
  "last_index_byte s c = map_option (\<lambda>i. length s - 1 - i) (index_byte (rev s) c)"

lemma index_byte_append: "c \<notin> set a \<Longrightarrow> index_byte (a @ c # b) c = Some (length a)"
  by (induction a) auto

lemma last_index_byte_append: "c \<notin> set b \<Longrightarrow> last_index_byte (a @ c # b) c = Some (length a)"
  by (simp add: last_index_byte_def index_byte_append)

text \<open>
  \<open>bufio.Scanner\<close> with its default limits: the lines without their end (a carriage return before
  the newline included), up to the first line that does not fit in the buffer (64 KiB unless
  \<open>Buffer\<close> sets another maximum); the flag is \<open>bufio.ErrTooLong\<close>.
\<close>

definition drop_cr :: "string \<Rightarrow> string" where
  "drop_cr l = (if l \<noteq> [] \<and> last l = CHR 0x0D then butlast l else l)"

definition scan_lines_max :: "nat \<Rightarrow> string \<Rightarrow> string list \<times> bool" where
  "scan_lines_max maximum s =
     (let raw = split_on CHR 0x0A s;
          ls = (if last raw = [] then butlast raw else raw)
      in (map drop_cr (takeWhile (\<lambda>l. length l < maximum) ls), list_ex (\<lambda>l. maximum \<le> length l) ls))"

definition scan_lines :: "string \<Rightarrow> string list \<times> bool" where
  "scan_lines s = scan_lines_max 65536 s"

lemma fields_from_word:
  "(\<forall>n < length w. space_at (drop n w @ r) = 0) \<Longrightarrow> fields_from cur (w @ r) = fields_from (cur @ w) r"
proof (induction w arbitrary: cur)
  case (Cons c w)
  from Cons.prems have "space_at (c # w @ r) = 0" by (metis append_Cons drop0 length_greater_0_conv list.discI)
  moreover have "\<forall>n < length w. space_at (drop n w @ r) = 0"
    using Cons.prems by (metis Suc_less_eq drop_Suc_Cons length_Cons)
  ultimately show ?case using Cons.IH [of "cur @ [c]"] by (subst fields_from.simps) (simp add: Let_def)
qed simp

subsection \<open>Big-endian integers\<close>

fun be_bytes :: "nat \<Rightarrow> nat \<Rightarrow> string" where
  "be_bytes 0 x = []"
| "be_bytes (Suc n) x = char_of (x div 256 ^ n) # be_bytes n x"

definition be_val :: "string \<Rightarrow> nat" where
  "be_val s = foldl (\<lambda>a c. a * 256 + of_char c) 0 s"

lemma length_be_bytes [simp]: "length (be_bytes n x) = n"
  by (induction n) auto

lemma be_bytes_2: "be_bytes 2 x = [char_of (x div 256), char_of x]"
  by (simp add: numeral_2_eq_2)

lemma be_bytes_4:
  "be_bytes 4 x = [char_of (x div 16777216), char_of (x div 65536), char_of (x div 256), char_of x]"
proof -
  have "be_bytes (Suc (Suc 2)) x = [char_of (x div 16777216), char_of (x div 65536), char_of (x div 256), char_of x]"
    by (simp only: be_bytes.simps be_bytes_2) simp
  then show ?thesis by simp
qed

lemma be_val_snoc: "be_val (xs @ [x]) = be_val xs * 256 + of_char x"
  by (simp add: be_val_def)

lemma be_val_Nil [simp]: "be_val [] = 0"
  by (simp add: be_val_def)

lemma be_fold: "foldl (\<lambda>a c. a * 256 + of_char c) a s = a * 256 ^ length s + be_val s" for a :: nat
proof (induction s arbitrary: a rule: rev_induct)
  case (snoc x xs)
  then show ?case by (simp add: be_val_snoc algebra_simps)
qed simp

lemma be_val_Cons: "be_val (c # s) = of_char c * 256 ^ length s + be_val s"
  using be_fold [of "of_char c" s] by (simp add: be_val_def)

lemma be_val_be_bytes_mod: "be_val (be_bytes n x) = x mod 256 ^ n"
proof (induction n)
  case (Suc n)
  have "x mod (256 ^ n * 256) = 256 ^ n * (x div 256 ^ n mod 256) + x mod 256 ^ n"
    by (rule mod_mult2_eq)
  with Suc show ?case by (simp add: be_val_Cons mult.commute)
qed simp

lemma be_val_be_bytes [codec_simps]: "x < 256 ^ n \<Longrightarrow> be_val (be_bytes n x) = x"
  by (simp add: be_val_be_bytes_mod)

lemma be_val_less: "be_val s < 256 ^ length s"
proof (induction s)
  case (Cons c s)
  have "of_char c + 1 \<le> (256::nat)" using nat_of_char_less_256 [of c] by linarith
  then have "(of_char c + 1) * 256 ^ length s \<le> 256 * (256::nat) ^ length s"
    by (rule mult_right_mono) simp
  then have "of_char c * 256 ^ length s + 256 ^ length s \<le> 256 * (256::nat) ^ length s"
    by (simp only: add_mult_distrib mult_1)
  with Cons show ?case by (simp only: be_val_Cons length_Cons power_Suc)
qed simp

lemma be_bytes_add: "be_bytes n (b * 256 ^ n + v) = be_bytes n v"
proof -
  have "be_bytes k (b * 256 ^ n + v) = be_bytes k v" if "k \<le> n" for k
    using that
  proof (induction k)
    case (Suc k)
    obtain d where d: "n = k + Suc d" using Suc.prems less_iff_Suc_add by (metis Suc_le_eq add_Suc_right)
    have "(b * 256 ^ n + v) div 256 ^ k = b * 256 ^ Suc d + v div 256 ^ k"
      using div_mult_self1 [of "256 ^ k" v "b * 256 ^ Suc d"]
      by (simp add: d power_add ac_simps)
    then have "char_of ((b * 256 ^ n + v) div 256 ^ k) = char_of (v div 256 ^ k)"
      using mod_mult_self3 [of "b * 256 ^ d" 256 "v div 256 ^ k"]
      by (simp add: char_of_eq_iff take_bit_eq_mod ac_simps)
    with Suc show ?case by simp
  qed simp
  then show ?thesis by simp
qed

lemma be_bytes_be_val [codec_simps]: "be_bytes (length s) (be_val s) = s"
proof (induction s)
  case (Cons c s)
  have "(of_char c * 256 ^ length s + be_val s) div 256 ^ length s = of_char c"
    using be_val_less [of s] by simp
  with Cons show ?case by (simp add: be_val_Cons be_bytes_add)
qed simp
subsection \<open>Worklists\<close>

lemma card_unseen_less:
  assumes "set new \<subseteq> set xs - set seen" and "new \<noteq> []"
  shows "card (set xs - set (seen @ new)) < card (set xs - set seen)"
proof (rule psubset_card_mono)
  from assms(2) obtain x where "x \<in> set new" by (cases new) auto
  with assms(1) show "set xs - set (seen @ new) \<subset> set xs - set seen" by auto
qed simp

lemma closed_reachable:
  assumes "r \<in> S" and "S \<subseteq> E\<^sup>* `` {r}" and "\<And>x y. x \<in> S \<Longrightarrow> (x, y) \<in> E \<Longrightarrow> y \<in> S"
  shows "S = E\<^sup>* `` {r}"
proof -
  have "y \<in> S" if "(r, y) \<in> E\<^sup>*" for y
    using that by induction (auto intro: assms(1,3))
  with assms(2) show ?thesis by auto
qed

end
