(* ===== verification/Interfaces.thy ===== *)
theory Interfaces
  imports Prelude
begin

text \<open>
  The contracts that several components share, as locales. The laws are discharged for each
  component by an interpretation in the component's own theory.

  \<^item> \<open>machine\<close>: a component that reacts to events and keeps an invariant.
  \<^item> \<open>wire_format\<close>: a writer that appends to a buffer and the reader that takes it off again.
  \<^item> \<open>severity\<close>: values combined by keeping the one of higher rank.
\<close>

subsection \<open>Event-driven components\<close>

locale machine =
  fixes step :: "'s \<Rightarrow> 'e \<Rightarrow> 's"
    and inv :: "'s \<Rightarrow> bool"
  assumes step_inv: "inv s \<Longrightarrow> inv (step s e)"
begin

lemma run_inv: "inv s \<Longrightarrow> inv (foldl step s es)"
  by (induction es arbitrary: s) (auto intro: step_inv)

lemma run_inv_prefix: "inv s \<Longrightarrow> inv (foldl step s (take n es))"
  by (rule run_inv)

end

subsection \<open>Wire formats\<close>

text \<open>
  \<open>put\<close> refuses the values that have no encoding; \<open>get\<close> returns the value it read and the rest
  of the input.
\<close>

locale wire_format =
  fixes put :: "'a \<Rightarrow> 'e + string"
    and get :: "string \<Rightarrow> 'd + ('a \<times> string)"
  assumes get_put: "put x = Inr b \<Longrightarrow> get (b @ rest) = Inr (x, rest)"
begin

lemma get_put_exact: "put x = Inr b \<Longrightarrow> get b = Inr (x, [])"
  using get_put [of x b "[]"] by simp

lemma put_prefix_free:
  assumes "put x = Inr a" and "put y = Inr b" and "a @ r = b @ s"
  shows "x = y \<and> r = s"
  using get_put [OF assms(1), of r] get_put [OF assms(2), of s] assms(3) by simp

lemma put_inj: "put x = Inr b \<Longrightarrow> put y = Inr b \<Longrightarrow> x = y"
  using put_prefix_free by blast

end

text \<open>A format whose reader accepts nothing but what the writer writes.\<close>

locale canonical_format = wire_format put get
  for put :: "'a \<Rightarrow> 'e + string" and get :: "string \<Rightarrow> 'd + ('a \<times> string)" +
  assumes put_get: "get s = Inr (x, rest) \<Longrightarrow> \<exists>b. put x = Inr b \<and> s = b @ rest"
begin

lemma get_iff: "get s = Inr (x, rest) \<longleftrightarrow> (\<exists>b. put x = Inr b \<and> s = b @ rest)"
  using put_get get_put by blast

lemma get_exact_iff: "get s = Inr (x, []) \<longleftrightarrow> put x = Inr s"
  by (auto simp: get_iff)

end

subsection \<open>Severities\<close>

locale severity =
  fixes rank :: "'h \<Rightarrow> nat"
    and worse :: "'h \<Rightarrow> 'h \<Rightarrow> 'h"
  assumes worse_def: "worse l r = (if rank l < rank r then r else l)"
begin

lemma rank_worse: "rank (worse l r) = max (rank l) (rank r)"
  by (simp add: worse_def max_def)

lemma rank_fold: "rank (foldl worse h hs) = Max (insert (rank h) (rank ` set hs))"
proof (induction hs arbitrary: h)
  case Nil
  then show ?case by simp
next
  case (Cons x hs)
  have "rank (foldl worse h (x # hs)) = Max (insert (max (rank h) (rank x)) (rank ` set hs))"
    using Cons.IH [of "worse h x"] by (simp add: rank_worse)
  also have "\<dots> = Max (insert (rank h) (rank ` set (x # hs)))"
  proof (cases "set hs = {}")
    case False
    then show ?thesis by (simp add: max.assoc)
  qed simp
  finally show ?case .
qed

lemma fold_mem: "foldl worse h hs \<in> insert h (set hs)"
  by (induction hs arbitrary: h) (auto simp: worse_def)

lemma fold_keep: "rank (foldl worse h hs) = rank h \<Longrightarrow> foldl worse h hs = h"
proof (induction hs arbitrary: h)
  case (Cons x hs)
  have "rank (worse h x) \<le> rank (foldl worse (worse h x) hs)"
    by (auto simp: rank_fold)
  with Cons.prems have "rank (worse h x) \<le> rank h" by simp
  then have keep: "worse h x = h" by (auto simp: worse_def split: if_splits)
  from Cons.prems have "rank (foldl worse h hs) = rank h" by (simp add: keep)
  then show ?case by (simp add: keep Cons.IH)
qed simp

lemma fold_lower_bound: "x \<in> insert h (set hs) \<Longrightarrow> rank x \<le> rank (foldl worse h hs)"
  by (auto simp: rank_fold)

lemma fold_bottom: "rank (foldl worse h hs) = rank h \<longleftrightarrow> (\<forall>x \<in> set hs. rank x \<le> rank h)"
proof -
  have "Max (insert (rank h) (rank ` set hs)) = rank h \<longleftrightarrow> (\<forall>x \<in> set hs. rank x \<le> rank h)"
    by (subst Max_eq_iff) auto
  then show ?thesis by (simp add: rank_fold)
qed

end

end
