(* ===== verification/Status_Model.thy ===== *)
theory Status_Model
  imports Interfaces
begin

text \<open>
  The status topology of \<open>internal/statusview/model.go\<close>: the data model, node identifiers, the
  validation of the orchestration graph, the derivation of health and the deterministic order that
  \<open>Finalize\<close> applies.

  The string-typed enumerations of the source (\<open>Health\<close>, \<open>RuntimeState\<close>, \<open>Relation\<close>, severities,
  domains) are open: a value is any string and the zero value is the empty one. They stay strings
  here, with the source's constants as abbreviations.
\<close>

subsection \<open>Data\<close>

type_synonym health = string
type_synonym runtimeState = string

abbreviation RuntimeFailed :: runtimeState where "RuntimeFailed \<equiv> ''failed''"
abbreviation RuntimeUnknown :: runtimeState where "RuntimeUnknown \<equiv> ''unknown''"

abbreviation HealthHealthy :: health where "HealthHealthy \<equiv> ''healthy''"
abbreviation HealthFailed :: health where "HealthFailed \<equiv> ''failed''"
abbreviation HealthDegraded :: health where "HealthDegraded \<equiv> ''degraded''"
abbreviation HealthUnknown :: health where "HealthUnknown \<equiv> ''unknown''"

abbreviation SeverityFailed :: string where "SeverityFailed \<equiv> ''failed''"
abbreviation SeverityDegraded :: string where "SeverityDegraded \<equiv> ''degraded''"
abbreviation SeverityUnknown :: string where "SeverityUnknown \<equiv> ''unknown''"

abbreviation DomainOrchestration :: string where "DomainOrchestration \<equiv> ''orchestration''"

record identity =
  id_unit :: string
  id_name :: string
  id_description :: string
  id_type :: string
  id_scope :: string
  id_sourcePath :: string

record summary =
  runtimeState :: runtimeState
  orchestrationHealth :: health
  aggregateHealthOf :: health
  displayStateOf :: string
  enabledState :: string
  mainPID :: int
  startedAt :: "time option"
  activeSeconds :: int

record evidence =
  ev_source :: string
  ev_result :: string
  ev_authoritative :: bool
  ev_checkedAt :: time
  ev_sourceObservedAt :: "time option"
  ev_detail :: string

record node =
  nodeID :: string
  nodeType :: string
  nodeName :: string
  nodeScope :: string
  nodeHealth :: health
  nodeState :: string
  nodeExpected :: bool
  nodeObservedAt :: time
  nodeEvidence :: "evidence list"
  nodePID :: int
  nodeManagerPID :: int
  nodeChildPIDs :: "int list"
  nodeEndpoint :: string
  nodeBusOwner :: string
  nodeCgroupPath :: string
  nodeStartedAt :: "time option"
  nodeActiveSeconds :: int
  nodeLastSeenAt :: "time option"

record edge =
  edgeFrom :: string
  edgeTo :: string
  edgeRelation :: string
  edgePrimary :: bool

record diagnostic =
  dg_severity :: string
  dg_domain :: string
  dg_code :: string
  dg_message :: string
  dg_affectsHealth :: bool
  dg_observedAt :: time
  dg_nodeID :: string
  dg_hint :: string
  dg_source :: string

record logEntry =
  log_timestamp :: time
  log_sequence :: uint64
  log_stream :: string
  log_severity :: string
  log_message :: string

record model =
  schemaVersion :: int
  modelObservedAt :: time
  modelIdentity :: identity
  modelSummary :: summary
  modelNodes :: "node list"
  modelEdges :: "edge list"
  modelDiagnostics :: "diagnostic list"
  modelLogs :: "logEntry list"

definition NewModel :: model where
  "NewModel =
     \<lparr>schemaVersion = 2, modelObservedAt = 0,
      modelIdentity = \<lparr>id_unit = '''', id_name = '''', id_description = '''', id_type = '''',
        id_scope = '''', id_sourcePath = ''''\<rparr>,
      modelSummary = \<lparr>runtimeState = '''', orchestrationHealth = '''', aggregateHealthOf = '''',
        displayStateOf = '''', enabledState = '''', mainPID = 0, startedAt = None, activeSeconds = 0\<rparr>,
      modelNodes = [], modelEdges = [], modelDiagnostics = [], modelLogs = []\<rparr>"

definition NewNode :: "string \<Rightarrow> string \<Rightarrow> string \<Rightarrow> string \<Rightarrow> node" where
  "NewNode ident typeName name scope =
     \<lparr>nodeID = ident, nodeType = typeName, nodeName = name, nodeScope = scope, nodeHealth = '''',
      nodeState = '''', nodeExpected = False, nodeObservedAt = 0, nodeEvidence = [], nodePID = 0,
      nodeManagerPID = 0, nodeChildPIDs = [], nodeEndpoint = '''', nodeBusOwner = '''',
      nodeCgroupPath = '''', nodeStartedAt = None, nodeActiveSeconds = 0, nodeLastSeenAt = None\<rparr>"

datatype status_error =
    NegativeUID
  | UnsupportedMode string
  | EmptyUnitName
  | IncompleteNodeID
  | InvalidScope string
  | DuplicateNodeID string
  | MultipleServiceNodes string string
  | NoServiceNode
  | MissingFrom string
  | MissingTo string
  | MultipleOutgoing string
  | MultipleIncoming string
  | PrimaryRoots nat
  | ServiceNotTerminal string
  | TerminalNotService string
  | PrimaryCycle string
  | PrimaryDisconnected nat nat

subsection \<open>Names and identifiers\<close>

definition CanonicalScope :: "string \<Rightarrow> int \<Rightarrow> status_error + string" where
  "CanonicalScope mode uid =
     (let m = to_lower (trim_space mode) in
      if m = ''system'' then Inr ''system''
      else if m = ''user'' then
        (if uid < 0 then Inl NegativeUID else Inr (''user@'' @ itoa uid))
      else Inl (UnsupportedMode mode))"

definition CanonicalUnitName :: "string \<Rightarrow> status_error + string" where
  "CanonicalUnitName name =
     (let n = trim_space name in
      if n = '''' then Inl EmptyUnitName
      else Inr (if has_suffix n ''.service'' then n else n @ ''.service''))"

definition isCanonicalScope :: "string \<Rightarrow> bool" where
  "isCanonicalScope scope =
     (if scope = ''system'' then True
      else if \<not> has_prefix scope ''user@'' \<or> length scope = length ''user@'' then False
      else list_all is_digit (drop (length ''user@'') scope))"

definition isIDByte :: "char \<Rightarrow> bool" where
  "isIDByte c \<longleftrightarrow>
     byte_in 65 90 c \<or> byte_in 97 122 c \<or> byte_in 48 57 c \<or>
     c = CHR ''.'' \<or> c = CHR ''_'' \<or> c = CHR ''@'' \<or> c = CHR ''-''"

definition hexDigit :: "nat \<Rightarrow> char" where
  "hexDigit n = ''0123456789ABCDEF'' ! n"

fun encodeIDSegment :: "string \<Rightarrow> string" where
  "encodeIDSegment [] = []"
| "encodeIDSegment (c # s) =
     (if isIDByte c then c # encodeIDSegment s
      else CHR ''%'' # hexDigit (of_char c div 16) # hexDigit (of_char c mod 16) # encodeIDSegment s)"

definition NewNodeID :: "string \<Rightarrow> string \<Rightarrow> string \<Rightarrow> status_error + string" where
  "NewNodeID typeName scope ident =
     (let t = to_lower (trim_space typeName); s = trim_space scope; i = trim_space ident in
      if t = '''' \<or> s = '''' \<or> i = '''' then Inl IncompleteNodeID
      else if \<not> isCanonicalScope s then Inl (InvalidScope s)
      else Inr (encodeIDSegment t @ '':'' @ encodeIDSegment s @ '':'' @ encodeIDSegment i))"

subsection \<open>Validation of the graph\<close>

fun checkNodeIDs :: "string list \<Rightarrow> node list \<Rightarrow> status_error + unit" where
  "checkNodeIDs seen [] = Inr ()"
| "checkNodeIDs seen (n # ns) =
     (if nodeID n \<in> set seen then Inl (DuplicateNodeID (nodeID n))
      else checkNodeIDs (nodeID n # seen) ns)"

definition ValidateNodeIDs :: "model \<Rightarrow> status_error + unit" where
  "ValidateNodeIDs m = checkNodeIDs [] (modelNodes m)"

fun findService :: "string \<Rightarrow> node list \<Rightarrow> status_error + string" where
  "findService sid [] = (if sid = '''' then Inl NoServiceNode else Inr sid)"
| "findService sid (n # ns) =
     (if nodeType n = ''service'' then
        (if sid \<noteq> '''' then Inl (MultipleServiceNodes sid (nodeID n)) else findService (nodeID n) ns)
      else findService sid ns)"

record primaryScan =
  ps_incoming :: "string \<Rightarrow> nat"
  ps_outgoing :: "string \<Rightarrow> nat"
  ps_next :: "(string \<times> string) list"
  ps_nodes :: "string list"
  ps_edges :: nat

definition emptyScan :: primaryScan where
  "emptyScan = \<lparr>ps_incoming = (\<lambda>_. 0), ps_outgoing = (\<lambda>_. 0), ps_next = [], ps_nodes = [], ps_edges = 0\<rparr>"

definition bump :: "('k \<Rightarrow> nat) \<Rightarrow> 'k \<Rightarrow> 'k \<Rightarrow> nat" where
  "bump m k = m(k := Suc (m k))"

text \<open>The loop over the edges; \<open>ids\<close> are the keys of the map \<open>nodes\<close>.\<close>

fun scanEdges :: "string list \<Rightarrow> edge list \<Rightarrow> primaryScan \<Rightarrow> status_error + primaryScan" where
  "scanEdges ids [] ps = Inr ps"
| "scanEdges ids (e # es) ps =
     (if edgeFrom e \<notin> set ids then Inl (MissingFrom (edgeFrom e))
      else if edgeTo e \<notin> set ids then Inl (MissingTo (edgeTo e))
      else if \<not> edgePrimary e then scanEdges ids es ps
      else
        let out = bump (ps_outgoing ps) (edgeFrom e); inc = bump (ps_incoming ps) (edgeTo e) in
        if 1 < out (edgeFrom e) then Inl (MultipleOutgoing (edgeFrom e))
        else if 1 < inc (edgeTo e) then Inl (MultipleIncoming (edgeTo e))
        else scanEdges ids es
          (ps\<lparr>ps_edges := Suc (ps_edges ps),
              ps_nodes := List.insert (edgeTo e) (List.insert (edgeFrom e) (ps_nodes ps)),
              ps_outgoing := out, ps_incoming := inc,
              ps_next := AList.update (edgeFrom e) (edgeTo e) (ps_next ps)\<rparr>))"

definition nextOf :: "(string \<times> string) list \<Rightarrow> string \<Rightarrow> string" where
  "nextOf nxt c = (case map_of nxt c of None \<Rightarrow> '''' | Some d \<Rightarrow> d)"

lemma nextOf_range: "nextOf nxt c = '''' \<or> nextOf nxt c \<in> snd ` set nxt"
proof (cases "map_of nxt c")
  case (Some d)
  then have "(c, d) \<in> set nxt" by (rule map_of_SomeD)
  with Some show ?thesis by (force simp: nextOf_def)
qed (simp add: nextOf_def)

text \<open>
  The walk along the primary edges. It ends: a step adds an unvisited target, and there are only as
  many targets as edges.
\<close>

function walkPrimary ::
  "(string \<times> string) list \<Rightarrow> string list \<Rightarrow> string \<Rightarrow> status_error + string list" where
  "walkPrimary nxt visited current =
     (if current = '''' then Inr visited
      else if current \<in> set visited then Inl (PrimaryCycle current)
      else walkPrimary nxt (visited @ [current]) (nextOf nxt current))"
  by pat_completeness auto
termination
proof (relation "measure (\<lambda>(nxt, visited, current).
    if current = '''' then 0 else Suc (card (insert current (snd ` set nxt) - set visited)))")
  fix nxt :: "(string \<times> string) list" and visited and current :: string
  assume c: "current \<noteq> ''''" "current \<notin> set visited"
  let ?f = "\<lambda>(nxt, visited, current). if current = '''' then 0
      else Suc (card (insert current (snd ` set nxt) - set visited))"
  have less: "card (snd ` set nxt - set (visited @ [current]))
      < card (insert current (snd ` set nxt) - set visited)"
    using c by (intro psubset_card_mono) auto
  consider "nextOf nxt current = ''''" | "nextOf nxt current \<in> snd ` set nxt"
    using nextOf_range by blast
  then show "((nxt, visited @ [current], nextOf nxt current), nxt, visited, current) \<in> measure ?f"
  proof cases
    case 2
    with less c show ?thesis by (simp add: insert_absorb)
  qed (use c in simp)
qed simp

declare walkPrimary.simps [simp del]

definition validateGraph :: "model \<Rightarrow> status_error + string" where
  "validateGraph m =
     bind_err (ValidateNodeIDs m) (\<lambda>_.
     bind_err (findService '''' (modelNodes m)) (\<lambda>sid.
     bind_err (scanEdges (map nodeID (modelNodes m)) (modelEdges m) emptyScan) (\<lambda>ps.
       if ps_edges ps = 0 then Inr sid
       else
         let roots = filter (\<lambda>i. ps_incoming ps i = 0) (ps_nodes ps);
             terminals = filter (\<lambda>i. ps_outgoing ps i = 0) (ps_nodes ps) in
         if length roots \<noteq> 1 then Inl (PrimaryRoots (length roots))
         else if ps_outgoing ps sid \<noteq> 0 then Inl (ServiceNotTerminal sid)
         else if length terminals \<noteq> 1 \<or> terminals ! 0 \<noteq> sid then Inl (TerminalNotService sid)
         else bind_err (walkPrimary (ps_next ps) [] (roots ! 0)) (\<lambda>visited.
           if length visited \<noteq> length (ps_nodes ps)
           then Inl (PrimaryDisconnected (length visited) (length (ps_nodes ps)))
           else Inr sid))))"

subsection \<open>Health\<close>

definition healthRank :: "health \<Rightarrow> nat" where
  "healthRank h =
     (if h = HealthFailed then 3 else if h = HealthDegraded then 2 else if h = HealthUnknown then 1 else 0)"

definition moreSevere :: "health \<Rightarrow> health \<Rightarrow> health" where
  "moreSevere left right = (if healthRank right > healthRank left then right else left)"

definition diagnosticHealth :: "diagnostic \<Rightarrow> health" where
  "diagnosticHealth d =
     (if dg_severity d = SeverityFailed then HealthFailed
      else if dg_severity d = SeverityDegraded then HealthDegraded
      else if dg_severity d = SeverityUnknown then HealthUnknown
      else HealthHealthy)"

definition displayState :: "runtimeState \<Rightarrow> health \<Rightarrow> string" where
  "displayState runtime aggregate =
     (if runtime = RuntimeFailed then RuntimeFailed
      else if aggregate = HealthHealthy then runtime
      else runtime @ '' ('' @ aggregate @ '')'')"

definition derivedHealth :: "runtimeState \<Rightarrow> string \<Rightarrow> node \<Rightarrow> health" where
  "derivedHealth runtime sid n =
     (if nodeID n = sid then
        (if runtime = RuntimeFailed then HealthFailed
         else if runtime = RuntimeUnknown then HealthUnknown else HealthHealthy)
      else if nodeHealth n = HealthFailed then HealthDegraded else nodeHealth n)"

definition deriveNodeHealth :: "string \<Rightarrow> model \<Rightarrow> model" where
  "deriveNodeHealth sid m =
     m\<lparr>modelNodes := map (\<lambda>n. n\<lparr>nodeHealth := derivedHealth (runtimeState (modelSummary m)) sid n\<rparr>)
                       (modelNodes m)\<rparr>"

text \<open>The two accumulators of \<open>aggregateHealth\<close>: orchestration, aggregate.\<close>

definition aggregateNode :: "string \<Rightarrow> health \<times> health \<Rightarrow> node \<Rightarrow> health \<times> health" where
  "aggregateNode sid acc n =
     (if nodeID n = sid then (fst acc, moreSevere (snd acc) (nodeHealth n))
      else (moreSevere (fst acc) (nodeHealth n), moreSevere (snd acc) (nodeHealth n)))"

definition aggregateDiagnostic :: "health \<times> health \<Rightarrow> diagnostic \<Rightarrow> health \<times> health" where
  "aggregateDiagnostic acc d =
     (if \<not> dg_affectsHealth d then acc
      else
        let h = diagnosticHealth d in
        (if dg_domain d = DomainOrchestration then moreSevere (fst acc) h else fst acc,
         if dg_severity d \<noteq> SeverityFailed then moreSevere (snd acc) h else snd acc))"

definition aggregateHealth :: "string \<Rightarrow> model \<Rightarrow> model" where
  "aggregateHealth sid m =
     (let acc = foldl aggregateDiagnostic
                  (foldl (aggregateNode sid) (HealthHealthy, HealthHealthy) (modelNodes m))
                  (modelDiagnostics m)
      in m\<lparr>modelSummary := (modelSummary m)
             \<lparr>orchestrationHealth := fst acc, aggregateHealthOf := snd acc,
              displayStateOf := displayState (runtimeState (modelSummary m)) (snd acc)\<rparr>\<rparr>)"

definition ExitCode :: "model \<Rightarrow> int" where
  "ExitCode m = (if aggregateHealthOf (modelSummary m) = HealthHealthy then 0 else 3)"

subsection \<open>Order\<close>

definition nodeLess :: "node \<Rightarrow> node \<Rightarrow> bool" where
  "nodeLess l r =
     (if nodeType l \<noteq> nodeType r then nodeType l < nodeType r
      else if nodeScope l \<noteq> nodeScope r then nodeScope l < nodeScope r
      else nodeID l < nodeID r)"

text \<open>The type and the scope of \<open>nodeByID[id]\<close>; the zero node where there is none.\<close>

definition targetKey :: "node list \<Rightarrow> string \<Rightarrow> string \<times> string" where
  "targetKey ns i =
     (case map_of (rev (map (\<lambda>n. (nodeID n, (nodeType n, nodeScope n))) ns)) i of
        None \<Rightarrow> ('''', '''') | Some k \<Rightarrow> k)"

definition edgeLess :: "node list \<Rightarrow> edge \<Rightarrow> edge \<Rightarrow> bool" where
  "edgeLess ns l r =
     (if edgeFrom l \<noteq> edgeFrom r then edgeFrom l < edgeFrom r
      else if edgeRelation l \<noteq> edgeRelation r then edgeRelation l < edgeRelation r
      else
        let lt = targetKey ns (edgeTo l); rt = targetKey ns (edgeTo r) in
        if fst lt \<noteq> fst rt then fst lt < fst rt
        else if snd lt \<noteq> snd rt then snd lt < snd rt
        else if edgeTo l \<noteq> edgeTo r then edgeTo l < edgeTo r
        else if edgePrimary l \<noteq> edgePrimary r then edgePrimary l
        else False)"

definition sortGraph :: "model \<Rightarrow> model" where
  "sortGraph m =
     (let ns = sort_slice nodeLess (modelNodes m)
      in m\<lparr>modelNodes := ns, modelEdges := sort_slice (edgeLess ns) (modelEdges m)\<rparr>)"

text \<open>Values are immutable here, so the deep copy of \<open>cloneModel\<close> is the model itself.\<close>

definition cloneModel :: "model \<Rightarrow> model" where
  "cloneModel m = m"

definition Finalize :: "model \<Rightarrow> status_error + model" where
  "Finalize m =
     (let finalized = cloneModel m in
      bind_err (validateGraph finalized) (\<lambda>sid.
        Inr (aggregateHealth sid (sortGraph (deriveNodeHealth sid finalized)))))"

subsection \<open>The validation accepts exactly the well-formed topologies\<close>

definition primaryPairs :: "edge list \<Rightarrow> (string \<times> string) list" where
  "primaryPairs es = map (\<lambda>e. (edgeFrom e, edgeTo e)) (filter edgePrimary es)"

text \<open>
  The specification: node identifiers are unique, exactly one node is the service, every edge joins
  two nodes, and the primary edges, if there are any, are the consecutive pairs of one path without
  repetitions that ends in the service.
\<close>

definition wellFormed :: "model \<Rightarrow> string \<Rightarrow> bool" where
  "wellFormed m sid \<longleftrightarrow>
     distinct (map nodeID (modelNodes m)) \<and>
     map nodeID (filter (\<lambda>n. nodeType n = ''service'') (modelNodes m)) = [sid] \<and>
     (\<forall>e \<in> set (modelEdges m). edgeFrom e \<in> nodeID ` set (modelNodes m) \<and>
        edgeTo e \<in> nodeID ` set (modelNodes m)) \<and>
     (primaryPairs (modelEdges m) = [] \<or>
      (\<exists>path. distinct path \<and> 2 \<le> length path \<and> last path = sid \<and>
         mset (primaryPairs (modelEdges m)) = mset (zip path (tl path))))"

lemma checkNodeIDs_iff:
  "is_ok (checkNodeIDs seen ns) \<longleftrightarrow> distinct (map nodeID ns) \<and> set seen \<inter> nodeID ` set ns = {}"
  by (induction seen ns rule: checkNodeIDs.induct) auto

lemma findService_iff:
  assumes "\<forall>n \<in> set ns. nodeID n \<noteq> ''''"
  shows "findService sid ns = Inr s \<longleftrightarrow>
    s \<noteq> '''' \<and> (if sid = '''' then [] else [sid]) @
      map nodeID (filter (\<lambda>n. nodeType n = ''service'') ns) = [s]"
  using assms by (induction sid ns rule: findService.induct) auto

text \<open>What the scan has collected after the primary edges \<open>P\<close>.\<close>

definition scanned :: "(string \<times> string) list \<Rightarrow> primaryScan \<Rightarrow> bool" where
  "scanned P ps \<longleftrightarrow>
     (\<forall>x. ps_outgoing ps x = count_list (map fst P) x) \<and>
     (\<forall>x. ps_incoming ps x = count_list (map snd P) x) \<and>
     distinct (map fst P) \<and> distinct (map snd P) \<and>
     map_of (ps_next ps) = map_of P \<and>
     distinct (ps_nodes ps) \<and> set (ps_nodes ps) = fst ` set P \<union> snd ` set P \<and>
     ps_edges ps = length P"

lemma scanned_empty: "scanned [] emptyScan"
  by (simp add: scanned_def emptyScan_def)

lemma map_of_snoc: "a \<notin> fst ` set P \<Longrightarrow> map_of (P @ [(a, b)]) = (map_of P)(a \<mapsto> b)"
proof -
  assume "a \<notin> fst ` set P"
  then have "[a \<mapsto> b] ++ map_of P = map_of P ++ [a \<mapsto> b]"
    by (intro map_add_comm) (simp add: dom_map_of_conv_image_fst)
  then show ?thesis by simp
qed

lemma scanned_snoc:
  assumes "scanned P ps" and "a \<notin> fst ` set P" and "b \<notin> snd ` set P"
  shows "scanned (P @ [(a, b)])
    (ps\<lparr>ps_edges := Suc (ps_edges ps), ps_nodes := List.insert b (List.insert a (ps_nodes ps)),
        ps_outgoing := bump (ps_outgoing ps) a, ps_incoming := bump (ps_incoming ps) b,
        ps_next := AList.update a b (ps_next ps)\<rparr>)"
  using assms by (auto simp: scanned_def bump_def map_of_snoc update_conv' simp del: map_of_append)

lemma scanned_counts:
  assumes "scanned P ps"
  shows "1 < bump (ps_outgoing ps) a a \<longleftrightarrow> a \<in> fst ` set P"
    and "1 < bump (ps_incoming ps) b b \<longleftrightarrow> b \<in> snd ` set P"
proof -
  have "count_list (map fst P) a = 0 \<longleftrightarrow> a \<notin> set (map fst P)"
    and "count_list (map snd P) b = 0 \<longleftrightarrow> b \<notin> set (map snd P)"
    by (simp_all only: count_list_0_iff)
  with assms show "1 < bump (ps_outgoing ps) a a \<longleftrightarrow> a \<in> fst ` set P"
    and "1 < bump (ps_incoming ps) b b \<longleftrightarrow> b \<in> snd ` set P"
    by (simp_all add: scanned_def bump_def) (metis image_set neq0_conv)+
qed

lemma scanEdges_sound:
  assumes "scanned P ps" and "scanEdges ids es ps = Inr ps'"
  shows "scanned (P @ primaryPairs es) ps' \<and>
    (\<forall>e \<in> set es. edgeFrom e \<in> set ids \<and> edgeTo e \<in> set ids)"
  using assms
proof (induction es arbitrary: P ps)
  case (Cons e es)
  show ?case
  proof (cases "edgePrimary e")
    case False
    with Cons.prems have "scanEdges ids es ps = Inr ps'" "edgeFrom e \<in> set ids" "edgeTo e \<in> set ids"
      by (auto split: if_splits)
    with Cons.IH [OF Cons.prems(1)] False show ?thesis by (simp add: primaryPairs_def)
  next
    case True
    from Cons.prems True scanned_counts [OF Cons.prems(1)]
    have new: "edgeFrom e \<notin> fst ` set P" "edgeTo e \<notin> snd ` set P"
      by (auto simp: Let_def split: if_splits)
    from Cons.prems True have ends: "edgeFrom e \<in> set ids" "edgeTo e \<in> set ids"
      by (auto split: if_splits)
    show ?thesis
      using Cons.IH [OF scanned_snoc [OF Cons.prems(1) new]] Cons.prems(2) True ends new
        scanned_counts [OF Cons.prems(1)]
      by (simp add: primaryPairs_def Let_def)
  qed
qed (simp add: primaryPairs_def)
lemma scanEdges_complete:
  assumes "scanned P ps"
    and "\<forall>e \<in> set es. edgeFrom e \<in> set ids \<and> edgeTo e \<in> set ids"
    and "distinct (map fst (P @ primaryPairs es))" and "distinct (map snd (P @ primaryPairs es))"
  shows "is_ok (scanEdges ids es ps)"
  using assms
proof (induction es arbitrary: P ps)
  case (Cons e es)
  show ?case
  proof (cases "edgePrimary e")
    case False
    with Cons show ?thesis by (simp add: primaryPairs_def)
  next
    case True
    with Cons.prems have new: "edgeFrom e \<notin> fst ` set P" "edgeTo e \<notin> snd ` set P"
      by (auto simp: primaryPairs_def)
    show ?thesis
      using Cons.IH [OF scanned_snoc [OF Cons.prems(1) new]] Cons.prems(2-4) True new
        scanned_counts [OF Cons.prems(1)]
      by (simp add: primaryPairs_def Let_def)
  qed
qed simp
text \<open>A path that follows \<open>nextOf\<close> to its end.\<close>

fun isChain :: "(string \<times> string) list \<Rightarrow> string list \<Rightarrow> bool" where
  "isChain nxt [] = True"
| "isChain nxt [x] = (nextOf nxt x = '''')"
| "isChain nxt (x # y # r) = (nextOf nxt x = y \<and> isChain nxt (y # r))"

lemma isChain_Cons: "isChain nxt (x # p) \<longleftrightarrow>
    (if p = [] then nextOf nxt x = '''' else nextOf nxt x = hd p) \<and> isChain nxt p"
  by (cases p) auto

lemma nextOf_cong: "map_of a = map_of b \<Longrightarrow> nextOf a = nextOf b"
  by (simp add: fun_eq_iff nextOf_def)

lemma isChain_cong: "map_of a = map_of b \<Longrightarrow> isChain a p = isChain b p"
  by (induction p) (auto simp: isChain_Cons nextOf_cong [of a b])

lemma walkPrimary_iff:
  "walkPrimary nxt vis cur = Inr v \<longleftrightarrow>
     (\<exists>p. v = vis @ p \<and> isChain nxt p \<and> '''' \<notin> set p \<and> distinct p \<and> set p \<inter> set vis = {} \<and>
        (if cur = '''' then p = [] else p \<noteq> [] \<and> hd p = cur))"
proof (induction nxt vis cur rule: walkPrimary.induct)
  case (1 nxt vis cur)
  consider (stop) "cur = ''''" | (cycle) "cur \<noteq> ''''" "cur \<in> set vis"
    | (go) "cur \<noteq> ''''" "cur \<notin> set vis" by blast
  then show ?case
  proof cases
    case stop
    then show ?thesis by (subst walkPrimary.simps) auto
  next
    case cycle
    then show ?thesis
      by (auto simp: walkPrimary.simps [of nxt vis cur]) (metis disjoint_iff hd_in_set)
  next
    case go
    have "walkPrimary nxt vis cur = Inr v \<longleftrightarrow>
        (\<exists>q. v = vis @ cur # q \<and> isChain nxt (cur # q) \<and> '''' \<notin> set q \<and> distinct (cur # q) \<and>
           set (cur # q) \<inter> set vis = {})"
    proof -
      have "walkPrimary nxt vis cur = Inr v \<longleftrightarrow>
          walkPrimary nxt (vis @ [cur]) (nextOf nxt cur) = Inr v"
        using go by (subst walkPrimary.simps) simp
      also have "\<dots> \<longleftrightarrow> (\<exists>q. v = (vis @ [cur]) @ q \<and> isChain nxt q \<and> '''' \<notin> set q \<and> distinct q \<and>
          set q \<inter> set (vis @ [cur]) = {} \<and>
          (if nextOf nxt cur = '''' then q = [] else q \<noteq> [] \<and> hd q = nextOf nxt cur))"
        using go by (intro 1) auto
      also have "\<dots> \<longleftrightarrow> (\<exists>q. v = vis @ cur # q \<and> isChain nxt (cur # q) \<and> '''' \<notin> set q \<and>
          distinct (cur # q) \<and> set (cur # q) \<inter> set vis = {})"
        using go by (intro ex_cong1) (auto simp: isChain_Cons dest: hd_in_set)
      finally show ?thesis .
    qed
    also have "\<dots> \<longleftrightarrow> (\<exists>p. v = vis @ p \<and> isChain nxt p \<and> '''' \<notin> set p \<and> distinct p \<and>
        set p \<inter> set vis = {} \<and> (if cur = '''' then p = [] else p \<noteq> [] \<and> hd p = cur))"
      (is "?l = ?r")
    proof
      assume ?l then show ?r using go by (metis list.sel(1) list.distinct(1) set_ConsD)
    next
      assume ?r
      with go obtain p where p: "v = vis @ p" "isChain nxt p" "'''' \<notin> set p" "distinct p"
        "set p \<inter> set vis = {}" "p \<noteq> []" "hd p = cur" by auto
      then obtain q where "p = cur # q" by (cases p) auto
      with p show ?l by auto
    qed
    finally show ?thesis .
  qed
qed

lemma isChain_next:
  "isChain nxt p \<Longrightarrow> x \<in> set p \<Longrightarrow>
   (x = last p \<and> nextOf nxt x = '''') \<or> (x, nextOf nxt x) \<in> set (zip p (tl p))"
proof (induction p)
  case (Cons y q)
  then show ?case by (cases q) auto
qed simp

lemma isChain_zip:
  "isChain nxt p \<Longrightarrow> (x, y) \<in> set (zip p (tl p)) \<Longrightarrow> nextOf nxt x = y"
proof (induction p)
  case (Cons z q)
  then show ?case by (cases q) auto
qed simp

lemma isChain_last: "isChain nxt p \<Longrightarrow> p \<noteq> [] \<Longrightarrow> nextOf nxt (last p) = ''''"
proof (induction p)
  case (Cons z q)
  then show ?case by (cases q) auto
qed simp

text \<open>The pairs of a path determine it as a chain.\<close>

lemma isChain_of_pairs:
  assumes "distinct p"
    and "\<forall>(x, y) \<in> set (zip p (tl p)). map_of P x = Some y" and "p \<noteq> [] \<longrightarrow> map_of P (last p) = None"
  shows "isChain P p"
  using assms
proof (induction p)
  case (Cons x q)
  then show ?case by (cases q) (auto simp: nextOf_def)
qed simp

lemma chain_pairs:
  assumes P: "distinct (map fst P)" "'''' \<notin> snd ` set P"
    and v: "isChain P v" "'''' \<notin> set v" "set v = fst ` set P \<union> snd ` set P"
  shows "set (zip v (tl v)) = set P"
proof (intro equalityI subrelI)
  fix a b assume ab: "(a, b) \<in> set (zip v (tl v))"
  then have "nextOf P a = b" "b \<noteq> ''''"
    using v isChain_zip by (auto dest: set_zip_rightD list.set_sel(2) [rotated])
       (metis list.set_sel(2) list.sel(2) set_zip_rightD v(2))
  then show "(a, b) \<in> set P" by (auto simp: nextOf_def split: option.splits dest: map_of_SomeD)
next
  fix a b assume ab: "(a, b) \<in> set P"
  then have "nextOf P a = b" using P by (simp add: nextOf_def)
  moreover have "a \<in> set v" using ab v(3) by force
  moreover have "b \<noteq> ''''" using ab P(2) by force
  ultimately show "(a, b) \<in> set (zip v (tl v))" using isChain_next [OF v(1)] by auto
qed

lemma scanned_degrees:
  assumes "scanned P ps"
  shows "ps_outgoing ps x = 0 \<longleftrightarrow> x \<notin> fst ` set P" and "ps_incoming ps x = 0 \<longleftrightarrow> x \<notin> snd ` set P"
  using assms by (simp_all add: scanned_def count_list_0_iff)

lemma walk_is_path:
  assumes sc: "scanned P ps" and nonempty: "'''' \<notin> fst ` set P \<union> snd ` set P"
    and root: "r \<in> set (ps_nodes ps)"
    and terminals: "filter (\<lambda>i. ps_outgoing ps i = 0) (ps_nodes ps) = [sid]"
    and walk: "walkPrimary (ps_next ps) [] r = Inr v" and len: "length v = length (ps_nodes ps)"
  shows "distinct v \<and> last v = sid \<and> mset P = mset (zip v (tl v))"
proof -
  from sc have next_P: "map_of (ps_next ps) = map_of P" and dP: "distinct (map fst P)"
    and nodes: "set (ps_nodes ps) = fst ` set P \<union> snd ` set P" "distinct (ps_nodes ps)"
    by (simp_all add: scanned_def)
  from root nodes nonempty have "r \<noteq> ''''" by auto
  with walk have v: "isChain P v" "'''' \<notin> set v" "distinct v" "v \<noteq> []" "hd v = r"
    by (auto simp: walkPrimary_iff isChain_cong [OF next_P])
  have sub: "set v \<subseteq> set (ps_nodes ps)"
  proof
    fix x assume "x \<in> set v"
    with in_tl_zip [OF v(4)] v(5) consider "x = r" | y where "(y, x) \<in> set (zip v (tl v))"
      by auto
    then show "x \<in> set (ps_nodes ps)"
    proof cases
      case 2
      then have "nextOf P y = x" using isChain_zip [OF v(1)] by blast
      with nextOf_range [of P y] \<open>x \<in> set v\<close> v(2) nodes show ?thesis by auto
    qed (use root in simp)
  qed
  with v(3) nodes(2) len have eq: "set v = fst ` set P \<union> snd ` set P"
    by (metis card_subset_eq distinct_card List.finite_set nodes(1))
  with chain_pairs [OF dP _ v(1,2)] nonempty have "set (zip v (tl v)) = set P" by auto
  then have "mset P = mset (zip v (tl v))"
    using v(3) dP by (metis distinct_map distinct_zipI1 set_eq_iff_mset_eq_distinct)
  moreover have "last v = sid"
  proof -
    have "nextOf P (last v) = ''''" using isChain_last v(1,4) by blast
    moreover have "\<forall>b. map_of P (last v) = Some b \<longrightarrow> b \<noteq> ''''"
      using nonempty by (force dest!: map_of_SomeD)
    ultimately have "map_of P (last v) = None" by (auto simp: nextOf_def split: option.splits)
    then have "last v \<notin> fst ` set P" by (simp add: map_of_eq_None_iff)
    with v(4) eq nodes(1) scanned_degrees [OF sc]
    have "last v \<in> set (filter (\<lambda>i. ps_outgoing ps i = 0) (ps_nodes ps))" by auto
    with terminals show ?thesis by simp
  qed
  ultimately show ?thesis using v(3) by blast
qed

lemma path_is_walked:
  assumes sc: "scanned P ps" and nonempty: "'''' \<notin> fst ` set P \<union> snd ` set P"
    and path: "distinct p" "2 \<le> length p" "mset P = mset (zip p (tl p))"
  shows "filter (\<lambda>i. ps_incoming ps i = 0) (ps_nodes ps) = [hd p]"
    and "filter (\<lambda>i. ps_outgoing ps i = 0) (ps_nodes ps) = [last p]"
    and "walkPrimary (ps_next ps) [] (hd p) = Inr p" and "length p = length (ps_nodes ps)"
    and "ps_outgoing ps (last p) = 0" and "P \<noteq> []"
proof -
  from path(3) have sP: "set P = set (zip p (tl p))" by (metis set_mset_mset)
  have fsts: "fst ` set P = set (butlast p)" and snds: "snd ` set P = set (tl p)"
    using map_fst_zip_tl [of p] map_snd_zip_tl [of p] by (simp_all add: sP image_set)
  have ne: "p \<noteq> []" using path(2) by auto
  have nodes: "set (ps_nodes ps) = set p" "distinct (ps_nodes ps)"
    using sc fsts snds set_butlast_tl [OF path(2)] by (simp_all add: scanned_def)
  have split: "p = butlast p @ [last p]" "p = hd p # tl p" using ne by auto
  have hd: "\<forall>x \<in> set p. x \<notin> set (tl p) \<longleftrightarrow> x = hd p"
    using path(1) by (subst (asm) split(2), subst split(2)) auto
  have last: "\<forall>x \<in> set p. x \<notin> set (butlast p) \<longleftrightarrow> x = last p"
    using path(1) by (subst (asm) split(1), subst split(1)) auto
  show "filter (\<lambda>i. ps_incoming ps i = 0) (ps_nodes ps) = [hd p]"
    using nodes ne hd by (intro filter_singleton) (auto simp: scanned_degrees [OF sc] snds)
  show "filter (\<lambda>i. ps_outgoing ps i = 0) (ps_nodes ps) = [last p]"
    using nodes ne last by (intro filter_singleton) (auto simp: scanned_degrees [OF sc] fsts)
  show "ps_outgoing ps (last p) = 0"
    using ne last by (simp add: scanned_degrees [OF sc] fsts)
  show "length p = length (ps_nodes ps)" using nodes path(1) by (metis distinct_card)
  show "P \<noteq> []" using path(2) snds by (cases p) auto
  have dP: "distinct (map fst P)" using sc by (simp add: scanned_def)
  then have "isChain P p"
    using path(1) ne last fsts by (intro isChain_of_pairs)
      (auto simp: sP [symmetric] map_of_eq_None_iff intro: map_of_is_SomeI)
  moreover have "'''' \<notin> set p" using nonempty nodes sc by (auto simp: scanned_def)
  moreover have "isChain (ps_next ps) p = isChain P p"
    using sc by (intro isChain_cong) (simp add: scanned_def)
  ultimately show "walkPrimary (ps_next ps) [] (hd p) = Inr p"
    using path(1) ne by (auto simp: walkPrimary_iff) (metis hd_in_set)
qed

lemma primaryPairs_ends:
  "(a, b) \<in> set (primaryPairs es) \<Longrightarrow> \<exists>e \<in> set es. a = edgeFrom e \<and> b = edgeTo e"
  by (auto simp: primaryPairs_def)

lemma validateGraph_wellFormed:
  assumes ids: "\<forall>n \<in> set (modelNodes m). nodeID n \<noteq> ''''" and ok: "validateGraph m = Inr sid"
  shows "wellFormed m sid"
proof -
  let ?P = "primaryPairs (modelEdges m)"
  from ok obtain ps where
    dist: "is_ok (ValidateNodeIDs m)" and service: "findService '''' (modelNodes m) = Inr sid" and
    scan: "scanEdges (map nodeID (modelNodes m)) (modelEdges m) emptyScan = Inr ps"
    by (auto simp: validateGraph_def bind_err_Inr_iff is_ok_iff Let_def split: if_splits)
  from scanEdges_sound [OF scanned_empty scan]
  have sc: "scanned ?P ps" and ends: "\<forall>e \<in> set (modelEdges m).
      edgeFrom e \<in> nodeID ` set (modelNodes m) \<and> edgeTo e \<in> nodeID ` set (modelNodes m)"
    by auto
  have nonempty: "'''' \<notin> fst ` set ?P \<union> snd ` set ?P"
    using ends ids by (force dest!: primaryPairs_ends)
  have "?P = [] \<or> (\<exists>path. distinct path \<and> 2 \<le> length path \<and> last path = sid \<and>
      mset ?P = mset (zip path (tl path)))"
  proof (cases "?P = []")
    case False
    then have e0: "ps_edges ps \<noteq> 0" using sc by (simp add: scanned_def)
    let ?roots = "filter (\<lambda>i. ps_incoming ps i = 0) (ps_nodes ps)"
    let ?terminals = "filter (\<lambda>i. ps_outgoing ps i = 0) (ps_nodes ps)"
    from ok scan service dist e0 obtain v where
      one: "length ?roots = 1" "length ?terminals = 1" "?terminals ! 0 = sid" and
      walk: "walkPrimary (ps_next ps) [] (?roots ! 0) = Inr v" "length v = length (ps_nodes ps)"
      by (auto simp: validateGraph_def bind_err_Inr_iff is_ok_iff Let_def split: if_splits)
    from one(1) have "?roots ! 0 \<in> set ?roots" by (intro nth_mem) simp
    then have "?roots ! 0 \<in> set (ps_nodes ps)" by simp
    moreover from one(2,3) have "?terminals = [sid]" by (cases ?terminals) auto
    ultimately have path: "distinct v \<and> last v = sid \<and> mset ?P = mset (zip v (tl v))"
      using walk_is_path [OF sc nonempty _ _ walk] by blast
    moreover have "2 \<le> length v"
    proof (rule ccontr)
      assume "\<not> 2 \<le> length v"
      then have "zip v (tl v) = []" by (cases v) (auto simp: Suc_le_eq)
      with path False show False by simp
    qed
    ultimately show ?thesis by blast
  qed simp
  with dist service ends show ?thesis
    by (simp add: wellFormed_def findService_iff [OF ids] ValidateNodeIDs_def checkNodeIDs_iff)
qed

lemma wellFormed_validateGraph:
  assumes ids: "\<forall>n \<in> set (modelNodes m). nodeID n \<noteq> ''''" and wf: "wellFormed m sid"
  shows "validateGraph m = Inr sid"
proof -
  let ?P = "primaryPairs (modelEdges m)"
  from wf have service: "map nodeID (filter (\<lambda>n. nodeType n = ''service'') (modelNodes m)) = [sid]"
    and ends: "\<forall>e \<in> set (modelEdges m). edgeFrom e \<in> nodeID ` set (modelNodes m) \<and>
        edgeTo e \<in> nodeID ` set (modelNodes m)"
    and "distinct (map nodeID (modelNodes m))"
    by (simp_all add: wellFormed_def)
  then have nodes_ok: "is_ok (ValidateNodeIDs m)" by (simp add: ValidateNodeIDs_def checkNodeIDs_iff)
  have "sid \<in> nodeID ` set (modelNodes m)"
    using arg_cong [OF service, of set] by auto
  then have find: "findService '''' (modelNodes m) = Inr sid"
    using service ids by (auto simp: findService_iff [OF ids])
  have nonempty: "'''' \<notin> fst ` set ?P \<union> snd ` set ?P"
    using ends ids by (force dest!: primaryPairs_ends)
  from wf consider (none) "?P = []" | (path) p where "distinct p" "2 \<le> length p" "last p = sid"
      "mset ?P = mset (zip p (tl p))"
    by (auto simp: wellFormed_def)
  then show ?thesis
  proof cases
    case none
    from scanEdges_complete [OF scanned_empty, of "modelEdges m" "map nodeID (modelNodes m)"] ends none
    obtain ps where scan: "scanEdges (map nodeID (modelNodes m)) (modelEdges m) emptyScan = Inr ps"
      by (auto simp: is_ok_iff)
    from scanEdges_sound [OF scanned_empty scan] none have "ps_edges ps = 0" by (simp add: scanned_def)
    with nodes_ok find scan show ?thesis by (auto simp: validateGraph_def is_ok_iff)
  next
    case path
    have fsts: "mset (map fst ?P) = mset (butlast p)" and snds: "mset (map snd ?P) = mset (tl p)"
      using path(4) map_fst_zip_tl [of p] map_snd_zip_tl [of p] by (metis mset_map)+
    have "distinct (map fst ?P)" "distinct (map snd ?P)"
      using mset_eq_imp_distinct_iff [OF fsts] mset_eq_imp_distinct_iff [OF snds] path(1)
      by (simp_all add: distinct_butlast distinct_tl)
    with scanEdges_complete [OF scanned_empty, of "modelEdges m" "map nodeID (modelNodes m)"] ends
    obtain ps where scan: "scanEdges (map nodeID (modelNodes m)) (modelEdges m) emptyScan = Inr ps"
      by (auto simp: is_ok_iff)
    from scanEdges_sound [OF scanned_empty scan] have sc: "scanned ?P ps" by simp
    note walked = path_is_walked [OF sc nonempty path(1,2,4)]
    have "ps_edges ps \<noteq> 0" using walked(6) sc by (simp add: scanned_def)
    with nodes_ok find scan walked path(3) show ?thesis
      by (auto simp: validateGraph_def is_ok_iff)
  qed
qed

lemma validateGraph_wf:
  assumes "\<forall>n \<in> set (modelNodes m). nodeID n \<noteq> ''''"
  shows "validateGraph m = Inr sid \<longleftrightarrow> wellFormed m sid"
  using assms validateGraph_wellFormed wellFormed_validateGraph by blast

text \<open>Property C2. The validation of the status graph accepts a model and names \<open>sid\<close> as its service
  exactly when the topology is well formed: unique identifiers, one service node, no dangling edge,
  and primary edges that form a single simple path ending in the service. (Identifiers made by
  \<open>NewNodeID\<close> are never empty.)\<close>

theorem validateGraph_iff:
  assumes "\<forall>n \<in> set (modelNodes m). nodeID n \<noteq> ''''"
  shows "validateGraph m = Inr sid \<longleftrightarrow> wellFormed m sid"
  by (rule validateGraph_wf [OF assms])

subsection \<open>Aggregation of health\<close>

interpretation health: severity healthRank moreSevere
  by unfold_locales (simp add: moreSevere_def)

lemma healthRank_simps [simp]:
  "healthRank HealthFailed = 3" "healthRank HealthDegraded = 2" "healthRank HealthUnknown = 1"
  "healthRank HealthHealthy = 0"
  by (simp_all add: healthRank_def)

lemma healthRank_eq:
  "healthRank h = 3 \<longleftrightarrow> h = HealthFailed" "healthRank h = 2 \<longleftrightarrow> h = HealthDegraded"
  "healthRank h = 1 \<longleftrightarrow> h = HealthUnknown" "healthRank h = Suc 0 \<longleftrightarrow> h = HealthUnknown"
  by (simp_all add: healthRank_def)

lemma healthRank_le: "healthRank h \<le> 3"
  by (simp add: healthRank_def)

lemma aggregateNodes_eq:
  "foldl (aggregateNode sid) acc ns =
     (foldl moreSevere (fst acc) (map nodeHealth (filter (\<lambda>n. nodeID n \<noteq> sid) ns)),
      foldl moreSevere (snd acc) (map nodeHealth ns))"
  by (induction ns arbitrary: acc) (auto simp: aggregateNode_def)

lemma aggregateDiagnostics_eq:
  "foldl aggregateDiagnostic acc ds =
     (foldl moreSevere (fst acc) (map diagnosticHealth
        (filter (\<lambda>d. dg_affectsHealth d \<and> dg_domain d = DomainOrchestration) ds)),
      foldl moreSevere (snd acc) (map diagnosticHealth
        (filter (\<lambda>d. dg_affectsHealth d \<and> dg_severity d \<noteq> SeverityFailed) ds)))"
  by (induction ds arbitrary: acc) (auto simp: aggregateDiagnostic_def Let_def)

text \<open>The healths that enter the aggregate.\<close>

definition contributions :: "node list \<Rightarrow> diagnostic list \<Rightarrow> health list" where
  "contributions ns ds = map nodeHealth ns @
     map diagnosticHealth (filter (\<lambda>d. dg_affectsHealth d \<and> dg_severity d \<noteq> SeverityFailed) ds)"

lemma aggregateHealth_sel [simp]:
  "aggregateHealthOf (modelSummary (aggregateHealth sid m)) =
     foldl moreSevere HealthHealthy (contributions (modelNodes m) (modelDiagnostics m))"
  "modelNodes (aggregateHealth sid m) = modelNodes m"
  "modelEdges (aggregateHealth sid m) = modelEdges m"
  "modelDiagnostics (aggregateHealth sid m) = modelDiagnostics m"
  "runtimeState (modelSummary (aggregateHealth sid m)) = runtimeState (modelSummary m)"
  by (simp_all add: aggregateHealth_def Let_def aggregateNodes_eq aggregateDiagnostics_eq contributions_def)

text \<open>The worst of a list of healths, as the ordered case distinction of the design.\<close>

lemma worst_health:
  "foldl moreSevere HealthHealthy hs =
     (if HealthFailed \<in> set hs then HealthFailed
      else if HealthDegraded \<in> set hs then HealthDegraded
      else if HealthUnknown \<in> set hs then HealthUnknown else HealthHealthy)"
proof -
  let ?w = "foldl moreSevere HealthHealthy hs"
  have mem: "?w = HealthHealthy \<or> ?w \<in> set hs" using health.fold_mem [of HealthHealthy hs] by auto
  have bound: "\<And>h. h \<in> set hs \<Longrightarrow> healthRank h \<le> healthRank ?w"
    using health.fold_lower_bound [of _ HealthHealthy hs] by simp
  have keep: "healthRank ?w = 0 \<Longrightarrow> ?w = HealthHealthy"
    using health.fold_keep [of HealthHealthy hs] by simp
  consider "healthRank ?w = 3" | "healthRank ?w = 2" | "healthRank ?w = 1" | "healthRank ?w = 0"
    using healthRank_le [of ?w] by linarith
  then show ?thesis
    by cases (use mem bound [of HealthFailed] bound [of HealthDegraded] bound [of HealthUnknown] keep
        in \<open>auto simp: healthRank_eq\<close>)
qed

lemma diagnosticHealth_eq [simp]:
  "diagnosticHealth d = HealthFailed \<longleftrightarrow> dg_severity d = SeverityFailed"
  "diagnosticHealth d = HealthDegraded \<longleftrightarrow> dg_severity d = SeverityDegraded"
  "diagnosticHealth d = HealthUnknown \<longleftrightarrow> dg_severity d = SeverityUnknown"
  by (auto simp: diagnosticHealth_def)

lemma sortGraph_sel [simp]:
  "set (modelNodes (sortGraph m)) = set (modelNodes m)"
  "mset (modelNodes (sortGraph m)) = mset (modelNodes m)"
  "mset (modelEdges (sortGraph m)) = mset (modelEdges m)"
  "modelDiagnostics (sortGraph m) = modelDiagnostics m" "modelSummary (sortGraph m) = modelSummary m"
  by (simp_all add: sortGraph_def Let_def)

lemma deriveNodeHealth_sel [simp]:
  "modelEdges (deriveNodeHealth sid m) = modelEdges m"
  "modelDiagnostics (deriveNodeHealth sid m) = modelDiagnostics m"
  "modelSummary (deriveNodeHealth sid m) = modelSummary m"
  by (simp_all add: deriveNodeHealth_def)

lemma Finalize_Inr_iff:
  "Finalize m = Inr m' \<longleftrightarrow> (\<exists>sid. validateGraph m = Inr sid \<and>
     m' = aggregateHealth sid (sortGraph (deriveNodeHealth sid m)))"
  by (auto simp: Finalize_def cloneModel_def bind_err_Inr_iff Let_def)

lemma derivedHealth_eq:
  "derivedHealth rt sid n = HealthFailed \<longleftrightarrow> nodeID n = sid \<and> rt = RuntimeFailed"
  "derivedHealth rt sid n = HealthDegraded \<longleftrightarrow>
     nodeID n \<noteq> sid \<and> nodeHealth n \<in> {HealthFailed, HealthDegraded}"
  "derivedHealth rt sid n = HealthUnknown \<longleftrightarrow>
     (if nodeID n = sid then rt = RuntimeUnknown else nodeHealth n = HealthUnknown)"
  by (auto simp: derivedHealth_def)

lemma mem_image_eq: "y \<in> f ` S \<longleftrightarrow> (\<exists>x \<in> S. f x = y)"
  by auto

lemma derived_healths:
  assumes "sid \<in> nodeID ` set ns"
  shows "HealthFailed \<in> derivedHealth rt sid ` set ns \<longleftrightarrow> rt = RuntimeFailed"
    and "HealthDegraded \<in> derivedHealth rt sid ` set ns \<longleftrightarrow>
      (\<exists>n \<in> set ns. nodeID n \<noteq> sid \<and> nodeHealth n \<in> {HealthFailed, HealthDegraded})"
    and "HealthUnknown \<in> derivedHealth rt sid ` set ns \<longleftrightarrow>
      rt = RuntimeUnknown \<or> (\<exists>n \<in> set ns. nodeID n \<noteq> sid \<and> nodeHealth n = HealthUnknown)"
  using assms unfolding mem_image_eq derivedHealth_eq by (auto split: if_splits)

lemma validateGraph_service:
  assumes "validateGraph m = Inr sid"
  shows "sid \<in> nodeID ` set (modelNodes m)"
proof -
  have "findService s ns = Inr sid \<Longrightarrow> s = sid \<or> sid \<in> nodeID ` set ns" for s ns
    by (induction s ns rule: findService.induct) (auto split: if_splits)
  moreover from assms have "findService '''' (modelNodes m) = Inr sid" and "sid \<noteq> ''''"
  proof -
    show find: "findService '''' (modelNodes m) = Inr sid"
      using assms by (auto simp: validateGraph_def bind_err_Inr_iff Let_def split: if_splits)
    have "findService s ns = Inr sid \<Longrightarrow> sid \<noteq> ''''" for s ns
      by (induction s ns rule: findService.induct) (auto split: if_splits)
    with find show "sid \<noteq> ''''" by blast
  qed
  ultimately show ?thesis by blast
qed

text \<open>The four rules of the design document for the aggregate health.\<close>

definition aggregateSpec :: "string \<Rightarrow> model \<Rightarrow> health" where
  "aggregateSpec sid m =
    (if runtimeState (modelSummary m) = RuntimeFailed then HealthFailed
     else if (\<exists>n \<in> set (modelNodes m). nodeID n \<noteq> sid \<and> nodeHealth n \<in> {HealthFailed, HealthDegraded}) \<or>
       (\<exists>d \<in> set (modelDiagnostics m). dg_affectsHealth d \<and> dg_severity d = SeverityDegraded)
     then HealthDegraded
     else if runtimeState (modelSummary m) = RuntimeUnknown \<or>
       (\<exists>n \<in> set (modelNodes m). nodeID n \<noteq> sid \<and> nodeHealth n = HealthUnknown) \<or>
       (\<exists>d \<in> set (modelDiagnostics m). dg_affectsHealth d \<and> dg_severity d = SeverityUnknown)
     then HealthUnknown else HealthHealthy)"

text \<open>Fact. \<open>Finalize\<close> implements the four rules of aggregation: the aggregate is \<open>failed\<close>
  exactly when the runtime is, otherwise \<open>degraded\<close> when a component other than the service failed
  or is degraded or a health-affecting diagnostic says so, otherwise \<open>unknown\<close> when the runtime, a
  component or a diagnostic is unknown, and \<open>healthy\<close> otherwise; the exit status is 0 exactly for
  \<open>healthy\<close>.\<close>

theorem Finalize_aggregate_rules:
  assumes "Finalize m = Inr m'" and "validateGraph m = Inr sid"
  shows "aggregateHealthOf (modelSummary m') = aggregateSpec sid m \<and>
    (ExitCode m' = 0 \<longleftrightarrow> aggregateSpec sid m = HealthHealthy)"
proof -
  let ?m = "sortGraph (deriveNodeHealth sid m)" and ?rt = "runtimeState (modelSummary m)"
  let ?hs = "contributions (modelNodes ?m) (modelDiagnostics m)"
  from assms have m': "m' = aggregateHealth sid ?m" by (auto simp: Finalize_Inr_iff)
  have "set (modelNodes ?m) = (\<lambda>n. n\<lparr>nodeHealth := derivedHealth ?rt sid n\<rparr>) ` set (modelNodes m)"
    by (simp add: deriveNodeHealth_def)
  then have hs: "set ?hs = derivedHealth ?rt sid ` set (modelNodes m) \<union> diagnosticHealth `
      {d \<in> set (modelDiagnostics m). dg_affectsHealth d \<and> dg_severity d \<noteq> SeverityFailed}"
    by (auto simp: contributions_def image_iff)
  note healths = derived_healths [OF validateGraph_service [OF assms(2)], of ?rt]
  have "foldl moreSevere HealthHealthy ?hs = aggregateSpec sid m"
    unfolding worst_health hs Un_iff healths mem_image_eq [of _ diagnosticHealth] aggregateSpec_def
    by auto
  then show ?thesis by (simp add: m' ExitCode_def)
qed
subsection \<open>The order is deterministic\<close>

definition nodeKey :: "node \<Rightarrow> string \<times> string \<times> string" where
  "nodeKey n = (nodeType n, nodeScope n, nodeID n)"

definition edgeKey :: "node list \<Rightarrow> edge \<Rightarrow> string \<times> string \<times> string \<times> string \<times> string \<times> bool" where
  "edgeKey ns e =
     (edgeFrom e, edgeRelation e, fst (targetKey ns (edgeTo e)), snd (targetKey ns (edgeTo e)),
      edgeTo e, \<not> edgePrimary e)"

lemma nodeLess_key: "nodeLess l r \<longleftrightarrow> nodeKey l < nodeKey r"
  unfolding nodeLess_def nodeKey_def pair_less_if by (rule refl)

lemma edgeLess_key: "edgeLess ns l r \<longleftrightarrow> edgeKey ns l < edgeKey ns r"
  unfolding edgeLess_def edgeKey_def pair_less_if Let_def by (intro if_cong refl) auto

lemma sort_nodes: "sort_slice nodeLess = sort_key nodeKey"
  by (rule ext) (rule sort_slice_key [OF nodeLess_key])

lemma sort_edges: "sort_slice (edgeLess ns) = sort_key (edgeKey ns)"
  by (rule ext) (rule sort_slice_key [OF edgeLess_key])

lemma inj_edgeKey: "inj_on (edgeKey ns) A"
  by (rule inj_onI) (auto simp: edgeKey_def intro: edge.equality)

lemma inj_nodeKey: "distinct (map nodeID ns) \<Longrightarrow> inj_on nodeKey (set ns)"
  by (auto simp: inj_on_def nodeKey_def distinct_map)

lemma sort_key_perm:
  assumes "mset xs = mset ys" and "inj_on f (set xs)"
  shows "sort_key f xs = sort_key f ys"
  using assms by (intro sort_key_inj_key_eq) auto

lemma sort_key_again [simp]: "sort_key f (sort_key f xs) = sort_key f xs"
  by (simp add: sort_key_id_if_sorted)

lemma wellFormed_perm:
  assumes ids: "mset (map (\<lambda>n. (nodeID n, nodeType n)) (modelNodes m)) =
      mset (map (\<lambda>n. (nodeID n, nodeType n)) (modelNodes m'))"
    and es: "mset (modelEdges m) = mset (modelEdges m')" and wf: "wellFormed m sid"
  shows "wellFormed m' sid"
proof -
  have services: "map nodeID (filter (\<lambda>n. nodeType n = ''service'') ns) =
      map fst (filter (\<lambda>p. snd p = ''service'') (map (\<lambda>n. (nodeID n, nodeType n)) ns))" for ns
    by (induction ns) auto
  have "mset (map nodeID (modelNodes m)) = mset (map nodeID (modelNodes m'))"
    using arg_cong [OF ids, of "image_mset fst"] by (simp add: multiset.map_comp comp_def)
  then have names: "distinct (map nodeID (modelNodes m)) = distinct (map nodeID (modelNodes m'))"
    "nodeID ` set (modelNodes m) = nodeID ` set (modelNodes m')"
    using mset_eq_imp_distinct_iff mset_eq_setD by (blast, metis list.set_map)
  have "mset (map nodeID (filter (\<lambda>n. nodeType n = ''service'') (modelNodes m))) =
      mset (map nodeID (filter (\<lambda>n. nodeType n = ''service'') (modelNodes m')))"
    unfolding services mset_map [of fst] mset_filter ids ..
  with wf have "mset (map nodeID (filter (\<lambda>n. nodeType n = ''service'') (modelNodes m'))) = mset [sid]"
    unfolding wellFormed_def by metis
  then have "map nodeID (filter (\<lambda>n. nodeType n = ''service'') (modelNodes m')) = [sid]"
    by (metis mset_single_iff_right mset.simps)
  moreover have "mset (primaryPairs (modelEdges m)) = mset (primaryPairs (modelEdges m'))"
    by (simp add: primaryPairs_def es)
  moreover have "set (modelEdges m) = set (modelEdges m')" using es by (rule mset_eq_setD)
  ultimately show ?thesis using wf names unfolding wellFormed_def by (metis mset_zero_iff)
qed

lemma derive_ids:
  "map (\<lambda>n. (nodeID n, nodeType n)) (modelNodes (deriveNodeHealth sid m)) =
   map (\<lambda>n. (nodeID n, nodeType n)) (modelNodes m)"
  by (simp add: deriveNodeHealth_def comp_def)

lemma derivedHealth_idem [simp]:
  "derivedHealth rt sid (n\<lparr>nodeHealth := derivedHealth rt sid n\<rparr>) = derivedHealth rt sid n"
  by (simp add: derivedHealth_def)

lemma deriveNodeHealth_fixed:
  assumes "set (modelNodes m') = set (modelNodes (deriveNodeHealth sid m))"
    and "runtimeState (modelSummary m') = runtimeState (modelSummary m)"
  shows "deriveNodeHealth sid m' = m'"
proof -
  have "n\<lparr>nodeHealth := derivedHealth (runtimeState (modelSummary m')) sid n\<rparr> = n"
    if "n \<in> set (modelNodes m')" for n
  proof -
    from that assms obtain k where n: "n = k\<lparr>nodeHealth := derivedHealth (runtimeState (modelSummary m)) sid k\<rparr>"
      by (auto simp: deriveNodeHealth_def)
    show ?thesis unfolding n assms(2) derivedHealth_idem by simp
  qed
  then have "map (\<lambda>n. n\<lparr>nodeHealth := derivedHealth (runtimeState (modelSummary m')) sid n\<rparr>)
      (modelNodes m') = modelNodes m'"
    by (simp add: map_idI)
  then show ?thesis by (simp add: deriveNodeHealth_def)
qed

text \<open>Fact. \<open>Finalize\<close> applies a deterministic order: reordering the nodes and the edges of
  its argument in any way does not change its result.\<close>

theorem Finalize_order_independent:
  assumes ids: "\<forall>n \<in> set (modelNodes m). nodeID n \<noteq> ''''"
    and ns: "mset ns = mset (modelNodes m)" and es: "mset es = mset (modelEdges m)"
    and ok: "Finalize m = Inr r"
  shows "Finalize (m\<lparr>modelNodes := ns, modelEdges := es\<rparr>) = Inr r"
proof -
  let ?m = "m\<lparr>modelNodes := ns, modelEdges := es\<rparr>"
  from ok obtain sid where sid: "validateGraph m = Inr sid"
    and r: "r = aggregateHealth sid (sortGraph (deriveNodeHealth sid m))"
    by (auto simp: Finalize_Inr_iff)
  from sid ids have wf: "wellFormed m sid" by (simp add: validateGraph_wf)
  moreover have ids': "\<forall>n \<in> set (modelNodes ?m). nodeID n \<noteq> ''''"
    using ids mset_eq_setD [OF ns] by simp
  ultimately have sid': "validateGraph ?m = Inr sid"
    using wellFormed_perm [of m ?m sid] ns es by (simp add: validateGraph_wf)
  let ?d = "modelNodes (deriveNodeHealth sid m)" and ?d' = "modelNodes (deriveNodeHealth sid ?m)"
  have "distinct (map fst (map (\<lambda>n. (nodeID n, nodeType n)) ?d))"
    using wf unfolding derive_ids by (simp add: wellFormed_def comp_def)
  then have "inj_on nodeKey (set ?d)" by (intro inj_nodeKey) (simp add: comp_def)
  moreover have "mset ?d = mset ?d'" using ns by (simp add: deriveNodeHealth_def)
  ultimately have nodes: "sort_key nodeKey ?d' = sort_key nodeKey ?d"
    by (metis sort_key_perm)
  have edges: "sort_key (edgeKey k) es = sort_key (edgeKey k) (modelEdges m)" for k
    using es inj_edgeKey by (intro sort_key_perm) auto
  have "sortGraph (deriveNodeHealth sid ?m) = sortGraph (deriveNodeHealth sid m)"
    using nodes edges by (simp add: sortGraph_def sort_nodes sort_edges Let_def)
      (simp add: deriveNodeHealth_def)
  with sid' r show ?thesis by (auto simp: Finalize_Inr_iff)
qed

text \<open>Fact. A finalized model is a fixed point: \<open>Finalize\<close> accepts its own result and leaves
  it unchanged.\<close>

theorem Finalize_idempotent:
  assumes ids: "\<forall>n \<in> set (modelNodes m). nodeID n \<noteq> ''''" and ok: "Finalize m = Inr r"
  shows "Finalize r = Inr r"
proof -
  from ok obtain sid where sid: "validateGraph m = Inr sid"
    and r: "r = aggregateHealth sid (sortGraph (deriveNodeHealth sid m))"
    by (auto simp: Finalize_Inr_iff)
  let ?s = "sortGraph (deriveNodeHealth sid m)"
  have pairs: "mset (map (\<lambda>n. (nodeID n, nodeType n)) (modelNodes m)) =
      mset (map (\<lambda>n. (nodeID n, nodeType n)) (modelNodes r))"
    unfolding r aggregateHealth_sel mset_map sortGraph_sel
    unfolding mset_map [symmetric] derive_ids ..
  from arg_cong [OF mset_eq_setD [OF pairs], of "image fst"]
  have "nodeID ` set (modelNodes m) = nodeID ` set (modelNodes r)" by (simp add: image_image)
  with ids have ids': "\<forall>n \<in> set (modelNodes r). nodeID n \<noteq> ''''" by (metis imageE imageI)
  from sid ids have "wellFormed m sid" by (simp add: validateGraph_wf)
  then have "wellFormed r sid" using pairs by (intro wellFormed_perm [of m r]) (simp_all add: r)
  with ids' have sid': "validateGraph r = Inr sid" by (simp add: validateGraph_wf)
  have "deriveNodeHealth sid r = r"
    by (rule deriveNodeHealth_fixed [of _ _ m]) (simp_all add: r)
  moreover have "sortGraph r = r"
    by (simp add: r sortGraph_def aggregateHealth_def Let_def sort_nodes sort_edges)
  moreover have "aggregateHealth sid r = r"
    by (simp add: r aggregateHealth_def Let_def)
  ultimately show ?thesis using sid' by (auto simp: Finalize_Inr_iff)
qed

subsection \<open>Node identifiers\<close>

lemma hexDigit_inj: "i < 16 \<Longrightarrow> j < 16 \<Longrightarrow> hexDigit i = hexDigit j \<Longrightarrow> i = j"
proof -
  have "distinct ''0123456789ABCDEF''" by simp
  then show "i < 16 \<Longrightarrow> j < 16 \<Longrightarrow> hexDigit i = hexDigit j \<Longrightarrow> i = j"
    unfolding hexDigit_def by (subst (asm) nth_eq_iff_index_eq) auto
qed

lemma hexDigit_IDByte: "i < 16 \<Longrightarrow> isIDByte (hexDigit i)"
proof -
  have "\<forall>c \<in> set ''0123456789ABCDEF''. isIDByte c" by (simp add: isIDByte_def byte_in_def)
  moreover assume "i < 16"
  then have "hexDigit i \<in> set ''0123456789ABCDEF''"
    unfolding hexDigit_def by (intro nth_mem) simp
  ultimately show ?thesis by blast
qed

lemma of_char_nibbles:
  fixes c d :: char
  assumes "(of_char c :: nat) div 16 = of_char d div 16" and "(of_char c :: nat) mod 16 = of_char d mod 16"
  shows "c = d"
proof -
  have "(of_char c :: nat) = of_char d" by (metis assms div_mult_mod_eq)
  then show ?thesis by simp
qed

lemma special_not_IDByte [simp]: "\<not> isIDByte CHR ''%''" "\<not> isIDByte CHR '':''"
  by (simp_all add: isIDByte_def byte_in_def)

lemma encodeIDSegment_inj: "encodeIDSegment s = encodeIDSegment t \<Longrightarrow> s = t"
proof (induction s arbitrary: t)
  case Nil
  then show ?case by (cases t) (auto split: if_splits)
next
  case (Cons c s)
  then obtain d t' where t: "t = d # t'" by (cases t) (auto split: if_splits)
  have nib: "(of_char x :: nat) div 16 < 16" "(of_char x :: nat) mod 16 < 16" for x :: char
    using nat_of_char_less_256 [of x] by (simp_all add: div_less_iff_less_mult)
  from Cons.prems t have "c = d" "encodeIDSegment s = encodeIDSegment t'"
    by (auto split: if_splits intro: of_char_nibbles dest: hexDigit_inj [OF nib(1) nib(1)] hexDigit_inj [OF nib(2) nib(2)])
  with t Cons.IH show ?case by blast
qed

lemma encodeIDSegment_no_colon: "CHR '':'' \<notin> set (encodeIDSegment s)"
proof (induction s)
  case (Cons c s)
  have "CHR '':'' \<noteq> hexDigit i" if "i < 16" for i
    using hexDigit_IDByte [OF that] special_not_IDByte(2) by metis
  moreover have "(of_char c :: nat) div 16 < 16" using nat_of_char_less_256 [of c] by (simp add: div_less_iff_less_mult)
  ultimately show ?case using Cons by auto
qed simp

text \<open>Fact. Node identifiers never collide: equal identifiers come from the same type (up to
  case and surrounding blanks), scope and identity, and no identifier is empty.\<close>

theorem NewNodeID_injective:
  assumes "NewNodeID t s i = Inr x" and "NewNodeID t' s' i' = Inr x"
  shows "to_lower (trim_space t) = to_lower (trim_space t') \<and> trim_space s = trim_space s' \<and>
    trim_space i = trim_space i' \<and> x \<noteq> ''''"
proof -
  have split: "split_on CHR '':'' x =
      [encodeIDSegment (to_lower (trim_space t)), encodeIDSegment (trim_space s), encodeIDSegment (trim_space i)]"
    if "NewNodeID t s i = Inr x" for t s i
    using that by (auto simp: NewNodeID_def Let_def split_on_append split_on_absent encodeIDSegment_no_colon
        split: if_splits)
  from split [OF assms(1)] split [OF assms(2)] show ?thesis
    by (auto dest: encodeIDSegment_inj)
qed

subsection \<open>Examples\<close>

definition demoModel :: model where
  "demoModel = NewModel\<lparr>
     modelNodes := [(NewNode ''svc'' ''service'' ''demo'' ''system''),
                    (NewNode ''s6'' ''manager'' ''s6'' ''system'')\<lparr>nodeHealth := HealthFailed\<rparr>],
     modelEdges := [\<lparr>edgeFrom = ''s6'', edgeTo = ''svc'', edgeRelation = ''supervises'', edgePrimary = True\<rparr>]\<rparr>"

lemma demoModel_ids: "\<forall>n \<in> set (modelNodes demoModel). nodeID n \<noteq> ''''"
  by (simp add: demoModel_def NewModel_def NewNode_def)

lemma demoModel_valid: "validateGraph demoModel = Inr ''svc''"
  by code_simp

theorem validateGraph_iff_witness:
  "list_all (\<lambda>n. nodeID n \<noteq> '''') (modelNodes demoModel) \<and> wellFormed demoModel ''svc''"
  using validateGraph_iff [OF demoModel_ids, of "''svc''"] demoModel_ids demoModel_valid
  by (simp add: list_all_iff)

lemma demoModel_final: "Finalize demoModel = Inr (projr (Finalize demoModel))"
  by (simp add: Finalize_def cloneModel_def demoModel_valid)

theorem Finalize_aggregate_rules_witness:
  "aggregateHealthOf (modelSummary (projr (Finalize demoModel))) = HealthDegraded"
proof -
  have "aggregateSpec ''svc'' demoModel = HealthDegraded" by code_simp
  with Finalize_aggregate_rules [OF demoModel_final demoModel_valid] show ?thesis by simp
qed

theorem Finalize_order_independent_witness:
  "Finalize (demoModel\<lparr>modelNodes := rev (modelNodes demoModel), modelEdges := modelEdges demoModel\<rparr>) =
   Finalize demoModel"
  using Finalize_order_independent [OF demoModel_ids _ refl demoModel_final, of "rev (modelNodes demoModel)"]
    demoModel_final by simp

theorem Finalize_idempotent_witness:
  "Finalize (projr (Finalize demoModel)) = Inr (projr (Finalize demoModel))"
  using Finalize_idempotent [OF demoModel_ids demoModel_final] .

theorem NewNodeID_injective_witness:
  "NewNodeID '' Service'' ''user@7'' ''a b'' = Inr ''service:user@7:a%20b'' \<and>
   to_lower (trim_space '' Service'') = to_lower (trim_space ''service'')"
proof -
  have a: "NewNodeID '' Service'' ''user@7'' ''a b'' = Inr ''service:user@7:a%20b''" by code_simp
  have b: "NewNodeID ''service'' ''user@7'' ''a b'' = Inr ''service:user@7:a%20b''" by code_simp
  from NewNodeID_injective [OF a b] a show ?thesis by simp
qed

end
