(* ===== verification/Unit_Key.thy ===== *)
theory Unit_Key
  imports Interfaces
begin

text \<open>
  The identity of a tracked unit (\<open>internal/cgrouptrack/types.go\<close>), the directory names of its
  cgroup (the current scheme and the base64 scheme of older releases), the components of its path
  (\<open>internal/cgrouptrack/cgroupfs.go\<close>) and the validation of the persisted registry
  (\<open>internal/cgrouptrack/registry.go\<close>).
\<close>

subsection \<open>Keys\<close>

abbreviation ModeSystem :: string where "ModeSystem \<equiv> ''system''"
abbreviation ModeUser :: string where "ModeUser \<equiv> ''user''"

record unitKey =
  keyMode :: string
  keyUID :: uint32
  keyUnit :: string

datatype key_error =
    SystemUIDNotZero
  | InvalidMode string
  | UnitNameLength
  | ForbiddenComponent
  | ControlCharacter
  | NotCanonicalService
  | ForbiddenStem
  | EmptyDirectory
  | DirectoryNotCanonical
  | LegacyDecode
  | MissingBootOrEpoch
  | NonPositiveIdentity
  | UnsupportedVersion int
  | DuplicateUnit string
  | InvalidRecord

definition validateUnitName :: "string \<Rightarrow> key_error + unit" where
  "validateUnitName name =
     (if length name = 0 \<or> length name > 255 \<or> \<not> valid_utf8 name then Inl UnitNameLength
      else if name = ''.'' \<or> name = ''..'' \<or> contains_any name [CHR ''/'', CHR 0x5C, CHR 0x00]
      then Inl ForbiddenComponent
      else if list_ex (\<lambda>r. byte_in 0 0x1F r \<or> r = CHR 0x7F) name then Inl ControlCharacter
      else if \<not> has_suffix name ''.service'' \<or> count_sub name ''.service'' \<noteq> 1 \<or> name = ''.service''
      then Inl NotCanonicalService
      else let stem = trim_suffix name ''.service'' in
        if stem = ''.'' \<or> stem = ''..'' then Inl ForbiddenStem else Inr ())"

definition validateKey :: "unitKey \<Rightarrow> key_error + unit" where
  "validateKey k =
     (if keyMode k = ModeSystem then
        (if keyUID k \<noteq> 0 then Inl SystemUIDNotZero else validateUnitName (keyUnit k))
      else if keyMode k = ModeUser then validateUnitName (keyUnit k)
      else Inl (InvalidMode (keyMode k)))"

definition DirectoryName :: "unitKey \<Rightarrow> key_error + string" where
  "DirectoryName k = bind_err (validateKey k) (\<lambda>_. Inr (trim_suffix (keyUnit k) ''.service''))"

definition DecodeUnitDirectory :: "string \<Rightarrow> uint32 \<Rightarrow> string \<Rightarrow> key_error + unitKey" where
  "DecodeUnitDirectory mode uid directory =
     (if directory = '''' then Inl EmptyDirectory
      else
        let key = \<lparr>keyMode = mode, keyUID = uid, keyUnit = directory @ ''.service''\<rparr> in
        bind_err (validateKey key) (\<lambda>_.
          if DirectoryName key \<noteq> Inr directory then Inl DirectoryNotCanonical else Inr key))"

subsection \<open>The base64 alphabet of older releases\<close>

text \<open>
  \<open>base64.RawURLEncoding\<close>: no padding; the decoder skips line breaks and ignores the bits that are
  left over in the last character.
\<close>

definition b64Alphabet :: string where
  "b64Alphabet = ''ABCDEFGHIJKLMNOPQRSTUVWXYZabcdefghijklmnopqrstuvwxyz0123456789-_''"

definition b64Char :: "nat \<Rightarrow> char" where
  "b64Char n = b64Alphabet ! n"

fun indexOf :: "string \<Rightarrow> char \<Rightarrow> nat option" where
  "indexOf [] c = None"
| "indexOf (x # xs) c = (if x = c then Some 0 else map_option Suc (indexOf xs c))"

definition b64Val :: "char \<Rightarrow> nat option" where
  "b64Val c = indexOf b64Alphabet c"

fun b64Encode :: "nat list \<Rightarrow> nat list" where
  "b64Encode [] = []"
| "b64Encode [a] = [a div 4, (a mod 4) * 16]"
| "b64Encode [a, b] = [a div 4, (a mod 4) * 16 + b div 16, (b mod 16) * 4]"
| "b64Encode (a # b # c # r) =
     [a div 4, (a mod 4) * 16 + b div 16, (b mod 16) * 4 + c div 64, c mod 64] @ b64Encode r"

fun b64Decode :: "nat list \<Rightarrow> nat list option" where
  "b64Decode [] = Some []"
| "b64Decode [w] = None"
| "b64Decode [w, x] = Some [w * 4 + x div 16]"
| "b64Decode [w, x, y] = Some [w * 4 + x div 16, (x mod 16) * 16 + y div 4]"
| "b64Decode (w # x # y # z # r) =
     map_option (\<lambda>t. [w * 4 + x div 16, (x mod 16) * 16 + y div 4, (y mod 4) * 64 + z] @ t) (b64Decode r)"

definition EncodeToString :: "string \<Rightarrow> string" where
  "EncodeToString data = map b64Char (b64Encode (map of_char data))"

definition DecodeString :: "string \<Rightarrow> string option" where
  "DecodeString s =
     (let vals = map b64Val (filter (\<lambda>c. c \<noteq> CHR 0x0A \<and> c \<noteq> CHR 0x0D) s) in
      if list_all (\<lambda>v. v \<noteq> None) vals
      then map_option (map char_of) (b64Decode (map the vals)) else None)"

definition legacyUnitDirectory :: "unitKey \<Rightarrow> key_error + string" where
  "legacyUnitDirectory k = bind_err (validateKey k) (\<lambda>_. Inr (EncodeToString (keyUnit k)))"

definition decodeLegacyUnitDirectory :: "string \<Rightarrow> uint32 \<Rightarrow> string \<Rightarrow> key_error + unitKey" where
  "decodeLegacyUnitDirectory mode uid directory =
     (if directory = '''' then Inl EmptyDirectory
      else case DecodeString directory of
        None \<Rightarrow> Inl LegacyDecode
      | Some data \<Rightarrow>
          let key = \<lparr>keyMode = mode, keyUID = uid, keyUnit = data\<rparr> in
          bind_err (validateKey key) (\<lambda>_.
            if legacyUnitDirectory key \<noteq> Inr directory then Inl DirectoryNotCanonical else Inr key))"

subsection \<open>Paths of the groups\<close>

definition componentsFor :: "unitKey \<Rightarrow> string \<Rightarrow> string list" where
  "componentsFor k directory =
     (if keyMode k = ModeSystem then [''system'', directory]
      else [''user'', utoa (unat (keyUID k)), directory])"

definition groupComponents :: "unitKey \<Rightarrow> key_error + string list" where
  "groupComponents k = bind_err (DirectoryName k) (\<lambda>d. Inr (componentsFor k d))"

definition legacyGroupComponents :: "unitKey \<Rightarrow> key_error + string list" where
  "legacyGroupComponents k = bind_err (legacyUnitDirectory k) (\<lambda>d. Inr (componentsFor k d))"

subsection \<open>Instances and the registry\<close>

record instanceIdentity =
  idKey :: unitKey
  idBootID :: string
  idMainPID :: int
  idStartTime :: uint64
  idEpoch :: string
  idGeneration :: uint64

definition validateIdentity :: "instanceIdentity \<Rightarrow> key_error + unit" where
  "validateIdentity i =
     bind_err (validateKey (idKey i)) (\<lambda>_.
       if trim_space (idBootID i) = '''' \<or> trim_space (idEpoch i) = '''' then Inl MissingBootOrEpoch
       else if idMainPID i \<le> 0 \<or> idStartTime i = 0 \<or> idGeneration i = 0 then Inl NonPositiveIdentity
       else Inr ())"

abbreviation StatePending :: string where "StatePending \<equiv> ''pending''"
abbreviation StateTracked :: string where "StateTracked \<equiv> ''tracked''"
abbreviation StatePartial :: string where "StatePartial \<equiv> ''partial''"
abbreviation StateDegraded :: string where "StateDegraded \<equiv> ''degraded''"
abbreviation StateStopped :: string where "StateStopped \<equiv> ''stopped''"
abbreviation StateOrphanedPopulated :: string where "StateOrphanedPopulated \<equiv> ''orphaned-populated''"
abbreviation StateUnknownUnit :: string where "StateUnknownUnit \<equiv> ''unknown-unit''"
abbreviation StateEventSourceOffline :: string where "StateEventSourceOffline \<equiv> ''event-source-offline''"

record unitRecord =
  recIdentity :: instanceIdentity
  recState :: string
  recLastMigration :: string
  recRetryCount :: int
  recLastError :: string

record registry =
  regVersion :: int
  regUnits :: "unitRecord list"
  regNative :: "unitKey list"

fun validateNative :: "unitKey list \<Rightarrow> key_error + unit" where
  "validateNative [] = Inr ()"
| "validateNative (k # ks) = bind_err (validateKey k) (\<lambda>_. validateNative ks)"

fun validateRecords :: "unitKey list \<Rightarrow> unitRecord list \<Rightarrow> key_error + unit" where
  "validateRecords seen [] = Inr ()"
| "validateRecords seen (r # rs) =
     bind_err (validateIdentity (recIdentity r)) (\<lambda>_.
       if idKey (recIdentity r) \<in> set seen then Inl (DuplicateUnit (keyUnit (idKey (recIdentity r))))
       else if recState r = '''' \<or> recRetryCount r < 0 then Inl InvalidRecord
       else validateRecords (idKey (recIdentity r) # seen) rs)"

definition validateRegistry :: "registry \<Rightarrow> key_error + unit" where
  "validateRegistry reg =
     (if regVersion reg \<noteq> 1 then Inl (UnsupportedVersion (regVersion reg))
      else bind_err (validateNative (regNative reg)) (\<lambda>_. validateRecords [] (regUnits reg)))"

subsection \<open>The contract of a directory scheme\<close>

text \<open>
  A scheme names the directory of a valid key and recovers the key from it; \<open>dec\<close> accepts nothing
  but what \<open>enc\<close> writes.
\<close>

locale directory_scheme =
  fixes enc :: "unitKey \<Rightarrow> key_error + string"
    and dec :: "string \<Rightarrow> uint32 \<Rightarrow> string \<Rightarrow> key_error + unitKey"
  assumes enc_dec: "enc k = Inr d \<Longrightarrow> dec (keyMode k) (keyUID k) d = Inr k"
    and dec_enc: "dec mode uid d = Inr k \<Longrightarrow> enc k = Inr d"
    and enc_valid: "enc k = Inr d \<Longrightarrow> validateKey k = Inr ()"
begin

lemma enc_inj:
  "enc k = Inr d \<Longrightarrow> enc l = Inr d \<Longrightarrow> keyMode k = keyMode l \<Longrightarrow> keyUID k = keyUID l \<Longrightarrow> k = l"
  by (metis enc_dec sum.inject(2))

lemma dec_unique: "dec mode uid d = Inr k \<Longrightarrow> dec mode uid d' = Inr k \<Longrightarrow> d = d'"
  by (metis dec_enc sum.inject(2))

lemma components_inj:
  assumes "enc k = Inr d" and "enc l = Inr e" and eq: "componentsFor k d = componentsFor l e"
  shows "k = l"
proof -
  from enc_valid [OF assms(1)] enc_valid [OF assms(2)]
  have modes: "keyMode k = ModeSystem \<and> keyUID k = 0 \<or> keyMode k = ModeUser"
    "keyMode l = ModeSystem \<and> keyUID l = 0 \<or> keyMode l = ModeUser"
    by (auto simp: validateKey_def split: if_splits)
  with eq have "keyMode k = keyMode l \<and> keyUID k = keyUID l \<and> d = e"
    by (auto simp: componentsFor_def unsigned_word_eqI split: if_splits dest!: utoa_inj)
  with assms enc_inj show ?thesis by blast
qed

end

lemma validateUnitName_ok:
  assumes "validateUnitName name = Inr ()"
  shows "has_suffix name ''.service''" and "trim_suffix name ''.service'' \<noteq> ''''"
    and "trim_suffix name ''.service'' \<notin> {''.'', ''..''}" and "CHR ''/'' \<notin> set name"
    and "CHR 0x00 \<notin> set name" and "name \<noteq> []" and "length name \<le> 255"
  using assms
  by (auto simp: validateUnitName_def Let_def contains_any_iff trim_suffix_def has_suffix_iff split: if_splits)

lemma validateKey_name: "validateKey k = Inr () \<Longrightarrow> validateUnitName (keyUnit k) = Inr ()"
  by (auto simp: validateKey_def split: if_splits)

interpretation plain: directory_scheme DirectoryName DecodeUnitDirectory
proof
  fix k d assume d: "DirectoryName k = Inr d"
  then have valid: "validateKey k = Inr ()" and name: "d = trim_suffix (keyUnit k) ''.service''"
    by (auto simp: DirectoryName_def bind_err_Inr_iff)
  show "validateKey k = Inr ()" by (rule valid)
  from validateUnitName_ok [OF validateKey_name [OF valid]] name
  have unit: "d @ ''.service'' = keyUnit k" and "d \<noteq> ''''" by (auto simp: trim_suffix_restore)
  have "\<lparr>keyMode = keyMode k, keyUID = keyUID k, keyUnit = d @ ''.service''\<rparr> = k"
    by (simp add: unit)
  with valid d \<open>d \<noteq> ''''\<close> show "DecodeUnitDirectory (keyMode k) (keyUID k) d = Inr k"
    by (simp add: DecodeUnitDirectory_def Let_def)
next
  fix mode uid d k assume "DecodeUnitDirectory mode uid d = Inr k"
  then show "DirectoryName k = Inr d"
    by (auto simp: DecodeUnitDirectory_def Let_def bind_err_Inr_iff split: if_splits)
qed

lemma b64Encode_range: "(\<forall>x \<in> set bs. x < 256) \<Longrightarrow> y \<in> set (b64Encode bs) \<Longrightarrow> y < 64"
  by (induction bs rule: b64Encode.induct) auto

lemma b64_pack:
  fixes a b c :: nat
  shows "b < 256 \<Longrightarrow> a div 4 * 4 + ((a mod 4) * 16 + b div 16) div 16 = a"
    and "b < 256 \<Longrightarrow> c < 256 \<Longrightarrow>
      ((a mod 4) * 16 + b div 16) mod 16 * 16 + ((b mod 16) * 4 + c div 64) div 4 = b"
    and "c < 256 \<Longrightarrow> ((b mod 16) * 4 + c div 64) mod 4 * 64 + c mod 64 = c"
  by (simp_all add: less_mult_imp_div_less)

lemma b64Decode_b64Encode: "(\<forall>x \<in> set bs. x < 256) \<Longrightarrow> b64Decode (b64Encode bs) = Some bs"
proof (induction bs rule: b64Encode.induct)
  case (2 a)
  then show ?case using b64_pack(1) [of 0 a] by simp
next
  case (3 a b)
  then show ?case using b64_pack(1) [of b a] b64_pack(2) [of b 0 a] by simp
next
  case (4 a b c r)
  then show ?case using b64_pack(1) [of b a] b64_pack(2) [of b c a] b64_pack(3) [of c b] by simp
qed simp

lemma indexOf_nth: "distinct xs \<Longrightarrow> n < length xs \<Longrightarrow> indexOf xs (xs ! n) = Some n"
proof (induction xs arbitrary: n)
  case (Cons x xs)
  then show ?case by (cases n) auto
qed simp

lemma b64Val_b64Char [simp]: "n < 64 \<Longrightarrow> b64Val (b64Char n) = Some n"
  unfolding b64Val_def b64Char_def by (rule indexOf_nth) (simp_all add: b64Alphabet_def)

lemma b64Char_alphabet: "n < 64 \<Longrightarrow> b64Char n \<in> set b64Alphabet"
  unfolding b64Char_def by (rule nth_mem) (simp add: b64Alphabet_def)

lemma b64Encode_bytes: "n \<in> set (b64Encode (map of_char (s :: string))) \<Longrightarrow> n < 64"
  by (rule b64Encode_range [rotated]) auto

lemma EncodeToString_alphabet: "set (EncodeToString s) \<subseteq> set b64Alphabet"
  by (auto simp: EncodeToString_def intro: b64Char_alphabet b64Encode_bytes)

lemma DecodeString_EncodeToString [codec_simps]: "DecodeString (EncodeToString s) = Some s"
proof -
  let ?ns = "b64Encode (map of_char s :: nat list)"
  have "CHR 0x0A \<notin> set b64Alphabet" "CHR 0x0D \<notin> set b64Alphabet" by (simp_all add: b64Alphabet_def)
  with EncodeToString_alphabet [of s]
  have keep: "filter (\<lambda>c. c \<noteq> CHR 0x0A \<and> c \<noteq> CHR 0x0D) (EncodeToString s) = EncodeToString s"
    by (auto simp: filter_id_conv)
  have vals: "map b64Val (EncodeToString s) = map Some ?ns"
    by (simp add: EncodeToString_def b64Encode_bytes)
  have "map the (map Some ?ns) = ?ns" by (simp add: comp_def)
  moreover have "b64Decode ?ns = Some (map of_char s)" by (rule b64Decode_b64Encode) auto
  ultimately show ?thesis
    unfolding DecodeString_def Let_def keep vals by (simp add: list_all_iff comp_def)
qed

lemma EncodeToString_nonempty: "s \<noteq> [] \<Longrightarrow> EncodeToString s \<noteq> []"
  using DecodeString_EncodeToString [of s] by (auto simp: DecodeString_def)

interpretation legacy: directory_scheme legacyUnitDirectory decodeLegacyUnitDirectory
proof
  fix k d assume d: "legacyUnitDirectory k = Inr d"
  then have valid: "validateKey k = Inr ()" and name: "d = EncodeToString (keyUnit k)"
    by (auto simp: legacyUnitDirectory_def bind_err_Inr_iff)
  show "validateKey k = Inr ()" by (rule valid)
  have key: "\<lparr>keyMode = keyMode k, keyUID = keyUID k, keyUnit = keyUnit k\<rparr> = k" by (cases k) simp
  from validateUnitName_ok(6) [OF validateKey_name [OF valid]] have "d \<noteq> ''''"
    by (simp add: name EncodeToString_nonempty)
  with valid d show "decodeLegacyUnitDirectory (keyMode k) (keyUID k) d = Inr k"
    unfolding decodeLegacyUnitDirectory_def name by (simp add: codec_simps key)
next
  fix mode uid d k assume "decodeLegacyUnitDirectory mode uid d = Inr k"
  then show "legacyUnitDirectory k = Inr d"
    by (auto simp: decodeLegacyUnitDirectory_def Let_def bind_err_Inr_iff split: if_splits option.splits)
qed

subsection \<open>Properties of the directory schemes\<close>

text \<open>A path component that cannot leave its parent directory.\<close>

definition safeComponent :: "string \<Rightarrow> bool" where
  "safeComponent c \<longleftrightarrow>
     c \<noteq> '''' \<and> c \<noteq> ''.'' \<and> c \<noteq> ''..'' \<and> CHR ''/'' \<notin> set c \<and> CHR 0x00 \<notin> set c"

lemma safeComponent_utoa: "safeComponent (utoa n)"
proof -
  have "\<And>c. c \<in> set (utoa n) \<Longrightarrow> c \<noteq> CHR ''.'' \<and> c \<noteq> CHR ''/'' \<and> c \<noteq> CHR 0x00"
    by (drule utoa_digits) (auto simp: is_digit_def)
  moreover have "utoa n \<noteq> ''''" by simp
  ultimately show ?thesis unfolding safeComponent_def
    by (metis list.set_intros(1))
qed

lemma safeComponent_stem:
  assumes "validateUnitName name = Inr ()"
  shows "safeComponent (trim_suffix name ''.service'')"
proof -
  have "name = trim_suffix name ''.service'' @ ''.service''"
    using validateUnitName_ok(1) [OF assms] by (simp add: trim_suffix_restore)
  then have "set (trim_suffix name ''.service'') \<subseteq> set name" by (metis Un_upper1 set_append)
  with validateUnitName_ok [OF assms] show ?thesis by (auto simp: safeComponent_def)
qed

lemma safeComponent_encoded: "s \<noteq> [] \<Longrightarrow> safeComponent (EncodeToString s)"
proof -
  assume ne: "s \<noteq> []"
  have "\<And>c. c \<in> set b64Alphabet \<Longrightarrow> c \<noteq> CHR ''.'' \<and> c \<noteq> CHR ''/'' \<and> c \<noteq> CHR 0x00"
    by (auto simp: b64Alphabet_def)
  with EncodeToString_alphabet [of s]
  have "\<And>c. c \<in> set (EncodeToString s) \<Longrightarrow> c \<noteq> CHR ''.'' \<and> c \<noteq> CHR ''/'' \<and> c \<noteq> CHR 0x00" by blast
  with EncodeToString_nonempty [OF ne] show ?thesis unfolding safeComponent_def
    by (metis list.set_intros(1))
qed

lemma componentsFor_safe:
  "safeComponent d \<Longrightarrow> list_all safeComponent (componentsFor k d)"
  by (simp add: componentsFor_def safeComponent_utoa) (simp add: safeComponent_def)

text \<open>
  Fact. Every unit has a cgroup leaf of its own below the managed root: when
  \<open>groupComponents\<close> accepts a key, each path component is non-empty, is neither \<open>.\<close> nor \<open>..\<close>
  and holds no slash and no NUL, and no other key has the same components.
\<close>

theorem groupComponents_safe_injective:
  assumes "groupComponents k = Inr cs"
  shows "list_all safeComponent cs \<and> (groupComponents l = Inr cs \<longrightarrow> k = l)"
proof -
  from assms obtain d where d: "DirectoryName k = Inr d" and cs: "cs = componentsFor k d"
    by (auto simp: groupComponents_def bind_err_Inr_iff)
  from d have "d = trim_suffix (keyUnit k) ''.service''" "validateKey k = Inr ()"
    by (auto simp: DirectoryName_def bind_err_Inr_iff)
  then have "safeComponent d" by (simp add: safeComponent_stem validateKey_name)
  moreover have "k = l" if "groupComponents l = Inr cs"
  proof -
    from that obtain e where "DirectoryName l = Inr e" "cs = componentsFor l e"
      by (auto simp: groupComponents_def bind_err_Inr_iff)
    with d cs show ?thesis by (auto intro: plain.components_inj)
  qed
  ultimately show ?thesis by (simp add: cs componentsFor_safe)
qed

lemmas key_eval = validateKey_def validateUnitName_def DirectoryName_def Let_def has_suffix_def
  trim_suffix_def contains_any_def count_sub.simps has_prefix_def valid_utf8.simps rune_len_def
  rune_first_def byte_in_def

definition fooKey :: unitKey where
  "fooKey = \<lparr>keyMode = ''user'', keyUID = 1000, keyUnit = ''foo.service''\<rparr>"

lemma validateKey_foo: "validateKey fooKey = Inr ()"
  by (simp add: fooKey_def key_eval)

lemma groupComponents_foo: "groupComponents fooKey = Inr [''user'', ''1000'', ''foo'']"
  by (simp add: groupComponents_def DirectoryName_def validateKey_foo)
     (simp add: fooKey_def componentsFor_def trim_suffix_def has_suffix_def utoa_def dec_digits.simps)

theorem groupComponents_safe_injective_witness:
  "groupComponents fooKey = Inr [''user'', ''1000'', ''foo''] \<and>
   list_all safeComponent [''user'', ''1000'', ''foo'']"
  using groupComponents_safe_injective [OF groupComponents_foo] groupComponents_foo by simp

text \<open>
  Property C21. Both naming schemes round-trip and accept nothing but their own output: for a valid
  key, decoding the directory name gives the key back, and a directory that decodes to a key is the
  canonical name of that key. The scheme of older releases includes base64 without padding.
\<close>

theorem unit_directory_roundtrip:
  assumes "validateKey k = Inr ()"
  shows "bind_err (DirectoryName k) (DecodeUnitDirectory (keyMode k) (keyUID k)) = Inr k \<and>
    bind_err (legacyUnitDirectory k) (decodeLegacyUnitDirectory (keyMode k) (keyUID k)) = Inr k \<and>
    (DecodeUnitDirectory mode uid d = Inr l \<longrightarrow> DirectoryName l = Inr d) \<and>
    (decodeLegacyUnitDirectory mode uid e = Inr l \<longrightarrow> legacyUnitDirectory l = Inr e)"
proof (intro conjI impI)
  from assms have "DirectoryName k = Inr (trim_suffix (keyUnit k) ''.service'')"
    by (simp add: DirectoryName_def)
  then show "bind_err (DirectoryName k) (DecodeUnitDirectory (keyMode k) (keyUID k)) = Inr k"
    by (simp add: plain.enc_dec)
  from assms have "legacyUnitDirectory k = Inr (EncodeToString (keyUnit k))"
    by (simp add: legacyUnitDirectory_def)
  then show "bind_err (legacyUnitDirectory k) (decodeLegacyUnitDirectory (keyMode k) (keyUID k)) = Inr k"
    by (simp add: legacy.enc_dec)
qed (simp_all add: plain.dec_enc legacy.dec_enc)

theorem unit_directory_roundtrip_witness:
  "validateKey fooKey = Inr () \<and>
   bind_err (DirectoryName fooKey) (DecodeUnitDirectory ''user'' 1000) = Inr fooKey \<and>
   bind_err (legacyUnitDirectory fooKey) (decodeLegacyUnitDirectory ''user'' 1000) = Inr fooKey"
  using unit_directory_roundtrip [OF validateKey_foo] validateKey_foo by (simp add: fooKey_def)

text \<open>
  Fact. The two schemes overlap: the canonical directory of one valid unit is the legacy
  directory of another. \<open>MigrateLegacy\<close> for \<open>foo.service\<close> therefore renames the group of
  \<open>Zm9vLnNlcnZpY2U.service\<close>.
\<close>

theorem legacy_scheme_overlaps:
  "groupComponents \<lparr>keyMode = ''system'', keyUID = 0, keyUnit = ''Zm9vLnNlcnZpY2U.service''\<rparr> =
     Inr [''system'', ''Zm9vLnNlcnZpY2U''] \<and>
   legacyGroupComponents \<lparr>keyMode = ''system'', keyUID = 0, keyUnit = ''foo.service''\<rparr> =
     Inr [''system'', ''Zm9vLnNlcnZpY2U'']"
  by (simp add: groupComponents_def legacyGroupComponents_def legacyUnitDirectory_def componentsFor_def
      EncodeToString_def b64Char_def b64Alphabet_def key_eval)

subsection \<open>Properties of the registry\<close>

definition recordKey :: "unitRecord \<Rightarrow> unitKey" where
  "recordKey r = idKey (recIdentity r)"

definition recordValid :: "unitRecord \<Rightarrow> bool" where
  "recordValid r \<longleftrightarrow> validateIdentity (recIdentity r) = Inr () \<and> recState r \<noteq> '''' \<and> 0 \<le> recRetryCount r"

lemma validateNative_iff: "validateNative ks = Inr () \<longleftrightarrow> list_all (\<lambda>k. validateKey k = Inr ()) ks"
  by (induction ks) (auto simp: bind_err_Inr_iff)

lemma validateRecords_iff:
  "validateRecords seen rs = Inr () \<longleftrightarrow>
     list_all recordValid rs \<and> distinct (map recordKey rs) \<and> set (map recordKey rs) \<inter> set seen = {}"
  by (induction rs arbitrary: seen) (auto simp: bind_err_Inr_iff recordValid_def recordKey_def not_less)

text \<open>
  Fact. \<open>validateRegistry\<close> accepts a registry exactly when its version is 1, every native key
  is valid, every record has a valid identity, a state and a non-negative retry count, and no unit
  occurs twice.
\<close>

theorem validateRegistry_iff:
  "validateRegistry reg = Inr () \<longleftrightarrow>
     regVersion reg = 1 \<and> list_all (\<lambda>k. validateKey k = Inr ()) (regNative reg) \<and>
     list_all recordValid (regUnits reg) \<and> distinct (map recordKey (regUnits reg))"
  by (auto simp: validateRegistry_def bind_err_Inr_iff validateNative_iff validateRecords_iff)

end
