(* ===== verification/Go_Path.thy ===== *)
theory Go_Path
  imports Prelude
begin

text \<open>
  The lexical functions of Go's \<open>path/filepath\<close> on Unix: \<open>Clean\<close>, \<open>Join\<close>, \<open>Rel\<close>,
  \<open>IsAbs\<close>, \<open>Base\<close> and \<open>Dir\<close>. A path is cleaned component by component: empty components and \<open>.\<close>
  vanish, \<open>..\<close> removes the component before it, vanishes at the root and stays at the front of a
  relative path.
\<close>

definition is_abs :: "string \<Rightarrow> bool" where
  "is_abs p \<longleftrightarrow> has_prefix p ''/''"

fun clean_step :: "bool \<Rightarrow> string list \<Rightarrow> string \<Rightarrow> string list" where
  "clean_step rooted acc c =
     (if c = '''' \<or> c = ''.'' then acc
      else if c = ''..'' then
        (if acc \<noteq> [] \<and> last acc \<noteq> ''..'' then butlast acc
         else if rooted then acc else acc @ [''..''])
      else acc @ [c])"

definition clean_comps :: "string \<Rightarrow> string list" where
  "clean_comps p = foldl (clean_step (is_abs p)) [] (split_on CHR ''/'' p)"

definition render_path :: "bool \<Rightarrow> string list \<Rightarrow> string" where
  "render_path rooted cs =
     (if rooted then CHR ''/'' # join ''/'' cs else if cs = [] then ''.'' else join ''/'' cs)"

definition clean :: "string \<Rightarrow> string" where
  "clean p = render_path (is_abs p) (clean_comps p)"

fun path_join :: "string list \<Rightarrow> string" where
  "path_join [] = ''''"
| "path_join (e # es) = (if e = '''' then path_join es else clean (join ''/'' (e # es)))"

fun drop_common :: "string list \<Rightarrow> string list \<Rightarrow> string list \<times> string list" where
  "drop_common (b # bs) (t # ts) = (if b = t then drop_common bs ts else (b # bs, t # ts))"
| "drop_common bs ts = (bs, ts)"

text \<open>\<open>None\<close> is the error \<open>can't make target relative to base\<close>.\<close>

definition path_rel :: "string \<Rightarrow> string \<Rightarrow> string option" where
  "path_rel base targ =
     (let b = clean base; t = clean targ in
      if t = b then Some ''.''
      else if is_abs b \<noteq> is_abs t then None
      else case drop_common (clean_comps base) (clean_comps targ) of
        (bs, ts) \<Rightarrow>
          if bs \<noteq> [] \<and> hd bs = ''..'' then None
          else Some (join ''/'' (replicate (length bs) ''..'' @ ts)))"

text \<open>\<open>filepath.Base\<close>: the last component; \<open>filepath.Dir\<close>: all but the last, cleaned.\<close>

definition path_base :: "string \<Rightarrow> string" where
  "path_base p =
     (if p = '''' then ''.''
      else let cs = filter (\<lambda>c. c \<noteq> '''') (split_on CHR ''/'' p) in
        if cs = [] then ''/'' else last cs)"

definition path_dir :: "string \<Rightarrow> string" where
  "path_dir p = clean (let cs = split_on CHR ''/'' p in
     if length cs = 1 then '''' else join ''/'' (butlast cs @ ['''']))"

subsection \<open>Absolute paths as lists of components\<close>

definition normal :: "string \<Rightarrow> bool" where
  "normal c \<longleftrightarrow> c \<noteq> '''' \<and> c \<noteq> ''.'' \<and> c \<noteq> ''..'' \<and> CHR ''/'' \<notin> set c"

text \<open>The absolute path with the given components.\<close>

definition abs_path :: "string list \<Rightarrow> string" where
  "abs_path cs = CHR ''/'' # join ''/'' cs"

lemma is_abs_abs_path [simp]: "is_abs (abs_path cs)"
  by (simp add: is_abs_def abs_path_def has_prefix_def)

lemma is_abs_Cons [simp]: "is_abs (c # s) \<longleftrightarrow> c = CHR ''/''"
  by (auto simp: is_abs_def has_prefix_def)

lemma clean_abs: "is_abs p \<Longrightarrow> clean p = abs_path (clean_comps p)"
  by (simp add: clean_def render_path_def abs_path_def)

lemma clean_fold_normal:
  "list_all normal acc \<Longrightarrow> (\<forall>c \<in> set cs. CHR ''/'' \<notin> set c) \<Longrightarrow>
   list_all normal (foldl (clean_step True) acc cs)"
proof (induction cs arbitrary: acc)
  case (Cons c cs)
  from Cons.prems have "list_all normal (clean_step True acc c)"
    by (auto simp: normal_def list_all_iff dest: in_set_butlastD)
  with Cons show ?case by simp
qed simp

lemma clean_comps_normal: "is_abs p \<Longrightarrow> list_all normal (clean_comps p)"
  using clean_fold_normal [of "[]" "split_on CHR ''/'' p"] split_on_no_sep [of _ "CHR ''/''" p]
  by (simp add: clean_comps_def del: clean_step.simps)

lemma clean_fold_id: "list_all normal cs \<Longrightarrow> foldl (clean_step r) acc cs = acc @ cs"
  by (induction cs arbitrary: acc) (auto simp: normal_def)

lemma join_normal_nonempty: "list_all normal cs \<Longrightarrow> cs \<noteq> [] \<Longrightarrow> join ''/'' cs \<noteq> []"
  by (cases cs; cases "tl cs") (auto simp: normal_def join_Cons)

lemma clean_comps_abs_path [simp]: "list_all normal cs \<Longrightarrow> clean_comps (abs_path cs) = cs"
proof (cases "cs = []")
  case False
  assume "list_all normal cs"
  moreover from this False have "split_on CHR ''/'' (join ''/'' cs) = cs"
    by (intro split_on_join) (auto simp: list_all_iff normal_def)
  ultimately show ?thesis
    by (simp add: clean_comps_def abs_path_def clean_fold_id del: clean_step.simps) (simp add: clean_fold_id)
qed (simp add: clean_comps_def abs_path_def)

lemma clean_abs_path [simp]: "list_all normal cs \<Longrightarrow> clean (abs_path cs) = abs_path cs"
  by (simp add: clean_abs)

lemma clean_idem_abs: "is_abs p \<Longrightarrow> clean (clean p) = clean p"
  by (simp add: clean_abs clean_comps_normal)

lemma abs_path_inj:
  "list_all normal cs \<Longrightarrow> list_all normal ds \<Longrightarrow> abs_path cs = abs_path ds \<longleftrightarrow> cs = ds"
  by (metis clean_comps_abs_path)

lemma join_append: "cs \<noteq> [] \<Longrightarrow> ds \<noteq> [] \<Longrightarrow> join sep (cs @ ds) = join sep cs @ sep @ join sep ds"
proof (induction cs)
  case (Cons c cs)
  then show ?case by (cases cs) (auto simp: join_Cons)
qed simp

lemma abs_path_append:
  "cs \<noteq> [] \<Longrightarrow> ds \<noteq> [] \<Longrightarrow> abs_path (cs @ ds) = abs_path cs @ ''/'' @ join ''/'' ds"
  by (simp add: abs_path_def join_append)

text \<open>A textual prefix that ends at a slash is a prefix of the components.\<close>

lemma abs_path_prefix:
  assumes cs: "list_all normal cs" "cs \<noteq> []" and ds: "list_all normal ds"
  shows "has_prefix (abs_path ds) (abs_path cs @ ''/'') \<longleftrightarrow> (\<exists>r. r \<noteq> [] \<and> ds = cs @ r)"
proof
  assume "\<exists>r. r \<noteq> [] \<and> ds = cs @ r"
  with cs show "has_prefix (abs_path ds) (abs_path cs @ ''/'')"
    by (auto simp: abs_path_append has_prefix_iff)
next
  assume "has_prefix (abs_path ds) (abs_path cs @ ''/'')"
  then obtain r where r: "join ''/'' ds = join ''/'' cs @ CHR ''/'' # r"
    by (auto simp: has_prefix_iff abs_path_def)
  then have "ds \<noteq> []" by auto
  have split: "split_on CHR ''/'' (join ''/'' xs) = xs" if "list_all normal xs" "xs \<noteq> []" for xs
    using that by (intro split_on_join) (auto simp: list_all_iff normal_def)
  have "ds = split_on CHR ''/'' (join ''/'' cs @ CHR ''/'' # r)"
    using split [OF ds \<open>ds \<noteq> []\<close>] r by simp
  also have "\<dots> = split_on CHR ''/'' (join ''/'' (cs @ split_on CHR ''/'' r))"
    using cs(2) by (simp add: join_append join_split_on)
  also have "\<dots> = cs @ split_on CHR ''/'' r"
    using cs by (intro split_on_join) (auto simp: list_all_iff normal_def dest: split_on_no_sep)
  finally show "\<exists>r. r \<noteq> [] \<and> ds = cs @ r" by (metis split_on_nonempty)
qed

lemma abs_path_below:
  assumes cs: "list_all normal cs" "cs \<noteq> []" and ds: "list_all normal ds"
  shows "abs_path ds = abs_path cs \<or> has_prefix (abs_path ds) (abs_path cs @ ''/'') \<longleftrightarrow>
    (\<exists>r. ds = cs @ r)"
  using abs_path_prefix [OF assms] abs_path_inj [OF ds cs(1)] by (metis append_Nil2)

lemma path_join_abs:
  assumes "list_all normal cs" "list_all normal ds"
  shows "path_join (abs_path cs # ds) = abs_path (cs @ ds)"
proof (cases "cs = [] \<or> ds = []")
  case False
  then have "join ''/'' (abs_path cs # ds) = abs_path (cs @ ds)"
    by (simp add: join_Cons abs_path_append)
  with assms show ?thesis by (simp add: abs_path_def) (simp add: abs_path_def [symmetric])
next
  case True
  show ?thesis
  proof (cases "ds = []")
    case True
    with assms show ?thesis using clean_abs_path [of cs] by (simp add: abs_path_def)
  next
    case False
    with True have cs: "cs = []" by simp
    have "split_on CHR ''/'' (join ''/'' ds) = ds"
      using assms False by (intro split_on_join) (auto simp: list_all_iff normal_def)
    moreover have "join ''/'' (abs_path cs # ds) = ''//'' @ join ''/'' ds"
      using False by (simp add: cs join_Cons abs_path_def)
    ultimately have "clean_comps (join ''/'' (abs_path cs # ds)) = ds"
      using assms by (simp add: clean_comps_def clean_fold_id)
    with False show ?thesis
      by (simp add: cs abs_path_def join_Cons) (simp add: clean_def render_path_def)
  qed
qed

subsection \<open>Relative paths between absolute paths\<close>

lemma drop_common_prefix: "drop_common bs (bs @ r) = ([], r)"
proof (induction bs)
  case Nil
  then show ?case by (cases r) auto
qed auto

lemma drop_common_not_prefix:
  "\<not> (\<exists>r. ts = bs @ r) \<Longrightarrow> fst (drop_common bs ts) \<noteq> []"
  by (induction bs ts rule: drop_common.induct) auto

lemma drop_common_subset: "set (fst (drop_common bs ts)) \<subseteq> set bs" "set (snd (drop_common bs ts)) \<subseteq> set ts"
  by (induction bs ts rule: drop_common.induct) auto

lemma hd_join_normal: "list_all normal (c # cs) \<Longrightarrow> \<not> has_prefix (join ''/'' (c # cs)) ''../'' \<and> join ''/'' (c # cs) \<noteq> ''..''"
proof -
  assume n: "list_all normal (c # cs)"
  have "split_on CHR ''/'' (join ''/'' (c # cs)) = c # cs"
    using n by (intro split_on_join) (auto simp: list_all_iff normal_def)
  moreover have "c \<noteq> ''..''" using n by (simp add: normal_def)
  ultimately show ?thesis by (auto simp: has_prefix_iff)
qed

text \<open>
  \<open>Rel\<close> between two absolute paths always succeeds, and its result leaves the base (it is \<open>..\<close> or
  starts with \<open>../\<close>) exactly when the base is no ancestor of the target.
\<close>

lemma path_rel_abs:
  assumes "list_all normal cs" "list_all normal ds"
  shows "path_rel (abs_path cs) (abs_path ds) =
    (if ds = cs then Some ''.''
     else case drop_common cs ds of (bs, ts) \<Rightarrow> Some (join ''/'' (replicate (length bs) ''..'' @ ts)))"
proof -
  obtain bs ts where d: "drop_common cs ds = (bs, ts)" by (cases "drop_common cs ds") auto
  have "bs \<noteq> [] \<Longrightarrow> hd bs \<noteq> ''..''"
    using drop_common_subset(1) [of cs ds] assms(1) d
    by (cases bs) (auto simp: list_all_iff normal_def)
  with assms d show ?thesis by (auto simp: path_rel_def abs_path_inj)
qed

lemma path_rel_below:
  assumes "list_all normal cs" "list_all normal r"
  shows "path_rel (abs_path cs) (abs_path (cs @ r)) = Some (if r = [] then ''.'' else join ''/'' r)"
  using assms path_rel_abs [of cs "cs @ r"] by (simp add: drop_common_prefix)

definition escapes :: "string \<Rightarrow> bool" where
  "escapes rel \<longleftrightarrow> rel = ''..'' \<or> has_prefix rel ''../''"

lemma path_rel_escapes:
  assumes "list_all normal cs" "list_all normal ds"
  shows "\<exists>rel. path_rel (abs_path cs) (abs_path ds) = Some rel \<and> (escapes rel \<longleftrightarrow> \<not> (\<exists>r. ds = cs @ r))"
proof (cases "\<exists>r. ds = cs @ r")
  case True
  then obtain r where r: "ds = cs @ r" by blast
  with assms have n: "list_all normal r" by simp
  show ?thesis
  proof (cases r)
    case Nil
    with path_rel_below [OF assms(1) n] r show ?thesis by (auto simp: escapes_def has_prefix_def)
  next
    case (Cons c r')
    with hd_join_normal [of c r'] n path_rel_below [OF assms(1) n] r
    show ?thesis by (auto simp: escapes_def)
  qed
next
  case False
  obtain bs ts where d: "drop_common cs ds = (bs, ts)" by (cases "drop_common cs ds") auto
  with drop_common_not_prefix [OF False] obtain b bs' where bs: "bs = b # bs'" by (cases bs) auto
  have "escapes (join ''/'' (replicate (length bs) ''..'' @ ts))"
    by (cases "replicate (length bs') ''..'' @ ts") (auto simp: bs escapes_def join_Cons has_prefix_def)
  moreover have "ds \<noteq> cs" using False by auto
  ultimately show ?thesis using False path_rel_abs [OF assms] d by auto
qed

end
