(* ===== verification/Cgroup_Proc.thy ===== *)
theory Cgroup_Proc
  imports Unit_Key Go_Path
begin

text \<open>
  What the cgroup daemon reads of \<open>/proc\<close> (\<open>internal/procinfo/stat.go\<close>,
  \<open>internal/cgrouptrack/proc.go\<close>): the parsers of \<open>stat\<close>, \<open>status\<close> and \<open>cgroup\<close>, the
  inspection of a process, the descendants of a main process; and the member lists of a cgroup
  (\<open>parsePIDs\<close>, \<open>compactPIDs\<close> of \<open>internal/cgrouptrack/cgroupfs.go\<close>, the binary search of
  \<open>containsPID\<close> of \<open>cmd/sys-cgroupd/main.go\<close>). The files themselves are arguments: a content or the
  error of the system call.
\<close>

subsection \<open>Errors\<close>

datatype proc_error =
    InvalidStatSize | MalformedComm | InvalidStatPID | TruncatedStat | InvalidPPID | InvalidStartTime
  | PIDNotPositive | StatTooLarge | OSFailure os_error | FileTooLarge | InvalidUID | LineTooLong
  | StatusWithoutUID | InvalidUnifiedPath | NoUnifiedEntry | ErrZombieProcess | ErrKernelThread
  | InvalidProcsPID string

subsection \<open>The stat line\<close>

record stat =
  statPID :: int
  statComm :: string
  statState :: char
  statPPID :: int
  statStartTime :: uint64

abbreviation MaxStatBytes :: nat where "MaxStatBytes \<equiv> 65536"

definition parseStatFields :: "int \<Rightarrow> string \<Rightarrow> string list \<Rightarrow> proc_error + stat" where
  "parseStatFields pid comm fs =
     (if length fs < 20 \<or> length (fs ! 0) \<noteq> 1 then Inl TruncatedStat
      else case atoi (fs ! 1) of
        None \<Rightarrow> Inl InvalidPPID
      | Some ppid \<Rightarrow>
          if ppid < 0 then Inl InvalidPPID
          else case parse_uint 64 (fs ! 19) of
            None \<Rightarrow> Inl InvalidStartTime
          | Some t \<Rightarrow>
              Inr \<lparr>statPID = pid, statComm = comm, statState = hd (fs ! 0), statPPID = ppid,
                   statStartTime = of_nat t\<rparr>)"

definition ParseStat :: "string \<Rightarrow> proc_error + stat" where
  "ParseStat line =
     (if length line = 0 \<or> length line > MaxStatBytes then Inl InvalidStatSize
      else case (index_byte line CHR ''('', last_index_byte line CHR '')'') of
        (Some open, Some close) \<Rightarrow>
          if open = 0 \<or> close \<le> open \<or> close + 2 \<ge> length line then Inl MalformedComm
          else (case atoi (trim_space (take open line)) of
            None \<Rightarrow> Inl InvalidStatPID
          | Some pid \<Rightarrow>
              if pid \<le> 0 then Inl InvalidStatPID
              else parseStatFields pid (drop (open + 1) (take close line)) (str_fields (drop (close + 1) line)))
      | _ \<Rightarrow> Inl MalformedComm)"

definition ReadStat :: "int \<Rightarrow> os_error + string \<Rightarrow> proc_error + stat" where
  "ReadStat pid file =
     (if pid \<le> 0 then Inl PIDNotPositive
      else case file of
        Inl e \<Rightarrow> Inl (OSFailure e)
      | Inr data \<Rightarrow>
          if length data > MaxStatBytes then Inl StatTooLarge else ParseStat (trim_space data))"

subsection \<open>Status, cgroup and the list of processes\<close>

abbreviation maxProcFileBytes :: nat where "maxProcFileBytes \<equiv> 1048576"

definition readBoundedFile :: "nat \<Rightarrow> os_error + string \<Rightarrow> proc_error + string" where
  "readBoundedFile maximum file =
     (case file of
        Inl e \<Rightarrow> Inl (OSFailure e)
      | Inr data \<Rightarrow> if length data > maximum then Inl FileTooLarge else Inr data)"

fun uidFromLines :: "string list \<Rightarrow> (proc_error + uint32) option" where
  "uidFromLines [] = None"
| "uidFromLines (l # ls) =
     (let fs = str_fields l in
      if length fs < 2 \<or> fs ! 0 \<noteq> ''Uid:'' then uidFromLines ls
      else case parse_uint 32 (fs ! 1) of
        None \<Rightarrow> Some (Inl InvalidUID)
      | Some u \<Rightarrow> Some (Inr (of_nat u)))"

definition ReadStatus :: "os_error + string \<Rightarrow> proc_error + uint32" where
  "ReadStatus file =
     bind_err (readBoundedFile maxProcFileBytes file) (\<lambda>data.
       case scan_lines data of
         (ls, tooLong) \<Rightarrow>
           (case uidFromLines ls of
              Some r \<Rightarrow> r
            | None \<Rightarrow> if tooLong then Inl LineTooLong else Inl StatusWithoutUID))"

fun cgroupFromLines :: "string list \<Rightarrow> proc_error + string" where
  "cgroupFromLines [] = Inl NoUnifiedEntry"
| "cgroupFromLines (l # ls) =
     (let t = trim_space l in
      if has_prefix t ''0::'' then
        (let v = trim_prefix t ''0::'' in
         if v = '''' \<or> hd v \<noteq> CHR ''/'' then Inl InvalidUnifiedPath else Inr v)
      else cgroupFromLines ls)"

definition ReadCgroup :: "os_error + string \<Rightarrow> proc_error + string" where
  "ReadCgroup file =
     bind_err (readBoundedFile maxProcFileBytes file) (\<lambda>data. cgroupFromLines (split_on CHR 0x0A data))"

text \<open>A directory entry is its name and whether it is a directory.\<close>

definition pidOfEntry :: "string \<times> bool \<Rightarrow> int option" where
  "pidOfEntry e =
     (if \<not> snd e then None
      else case atoi (fst e) of
        None \<Rightarrow> None
      | Some pid \<Rightarrow> if pid \<le> 0 \<or> itoa pid \<noteq> fst e then None else Some pid)"

definition ListPIDs :: "os_error + (string \<times> bool) list \<Rightarrow> proc_error + int list" where
  "ListPIDs entries =
     (case entries of
        Inl e \<Rightarrow> Inl (OSFailure e)
      | Inr es \<Rightarrow> Inr (sort (List.map_filter pidOfEntry es)))"

subsection \<open>Inspection\<close>

record process =
  prPID :: int
  prPPID :: int
  prUID :: uint32
  prStartTime :: uint64
  prState :: char
  prComm :: string
  prCgroup :: string

text \<open>The files of one process: \<open>stat\<close>, \<open>exe\<close>, \<open>status\<close>, \<open>cgroup\<close> and the pidfd.\<close>

record procFiles =
  pfStat :: "os_error + string"
  pfExe :: "os_error + string"
  pfStatus :: "os_error + string"
  pfCgroup :: "os_error + string"
  pfPIDFD :: "os_error + unit"

definition ReadExecutable :: "procFiles \<Rightarrow> proc_error + string" where
  "ReadExecutable fs =
     (case pfExe fs of
        Inl NotExist \<Rightarrow> Inl ErrKernelThread
      | Inl e \<Rightarrow> Inl (OSFailure e)
      | Inr path \<Rightarrow> Inr path)"

definition OpenPIDFD :: "int \<Rightarrow> procFiles \<Rightarrow> proc_error + unit" where
  "OpenPIDFD pid fs =
     (if pid \<le> 0 then Inl PIDNotPositive
      else case pfPIDFD fs of Inl e \<Rightarrow> Inl (OSFailure e) | Inr u \<Rightarrow> Inr u)"

definition Inspect :: "int \<Rightarrow> procFiles \<Rightarrow> proc_error + process" where
  "Inspect pid fs =
     bind_err (ReadStat pid (pfStat fs)) (\<lambda>st.
       if statState st = CHR ''Z'' then Inl ErrZombieProcess
       else bind_err (ReadExecutable fs) (\<lambda>_.
         bind_err (ReadStatus (pfStatus fs)) (\<lambda>uid.
         bind_err (ReadCgroup (pfCgroup fs)) (\<lambda>cg.
         bind_err (OpenPIDFD pid fs) (\<lambda>_.
           Inr \<lparr>prPID = pid, prPPID = statPPID st, prUID = uid, prStartTime = statStartTime st,
                prState = statState st, prComm = statComm st, prCgroup = cg\<rparr>)))))"

subsection \<open>Descendants\<close>

definition childrenOf :: "int \<Rightarrow> process list \<Rightarrow> int \<Rightarrow> int list" where
  "childrenOf root ps parent =
     sort (map prPID (filter (\<lambda>p. \<not> (prPID p \<le> 0 \<or> prPID p = root) \<and> prPPID p = parent) ps))"

fun unseenChildren :: "int list \<Rightarrow> int list \<Rightarrow> int list" where
  "unseenChildren seen [] = []"
| "unseenChildren seen (c # cs) =
     (if c \<in> set seen then unseenChildren seen cs else c # unseenChildren (c # seen) cs)"

lemma unseenChildren_props:
  "set (unseenChildren seen cs) = set cs - set seen" "distinct (unseenChildren seen cs)"
  by (induction cs arbitrary: seen) auto

lemma childrenOf_subset: "set (childrenOf root ps p) \<subseteq> set (map prPID ps)"
  by (auto simp: childrenOf_def)

function descendantsLoop :: "int \<Rightarrow> process list \<Rightarrow> int list \<Rightarrow> int list \<Rightarrow> int list \<Rightarrow> int list" where
  "descendantsLoop root ps seen [] result = result"
| "descendantsLoop root ps seen (parent # queue) result =
     (let new = unseenChildren seen (childrenOf root ps parent)
      in descendantsLoop root ps (seen @ new) (queue @ new) (result @ new))"
  by pat_completeness auto
termination
proof (relation "measures [\<lambda>(root, ps, seen, queue, result). card (set (map prPID ps) - set seen),
    \<lambda>(root, ps, seen, queue, result). length queue]")
  fix root ps seen parent queue result new
  assume new: "new = unseenChildren seen (childrenOf root ps parent)"
  let ?R = "set (map prPID ps)"
  have sub: "set new \<subseteq> ?R - set seen"
    using childrenOf_subset [of root ps parent] by (auto simp: new unseenChildren_props)
  have "card (?R - set (seen @ new)) < card (?R - set seen)" if "new \<noteq> []"
    using sub that by (rule card_unseen_less)
  then show "((root, ps, seen @ new, queue @ new, result @ new), root, ps, seen, parent # queue, result)
    \<in> measures [\<lambda>(root, ps, seen, queue, result). card (set (map prPID ps) - set seen),
    \<lambda>(root, ps, seen, queue, result). length queue]"
    by (cases "new = []") auto
qed simp

definition Descendants :: "int \<Rightarrow> process list \<Rightarrow> int list" where
  "Descendants root ps = descendantsLoop root ps [root] [root] []"

subsection \<open>Member lists\<close>

fun pidsOfFields :: "string list \<Rightarrow> proc_error + int list" where
  "pidsOfFields [] = Inr []"
| "pidsOfFields (f # fs) =
     (case atoi f of
        None \<Rightarrow> Inl (InvalidProcsPID f)
      | Some pid \<Rightarrow>
          if pid \<le> 0 then Inl (InvalidProcsPID f)
          else bind_err (pidsOfFields fs) (\<lambda>pids. Inr (pid # pids)))"

definition parsePIDs :: "string \<Rightarrow> proc_error + int list" where
  "parsePIDs data = bind_err (pidsOfFields (str_fields data)) (\<lambda>pids. Inr (sort (remdups pids)))"

fun compactFrom :: "int list \<Rightarrow> int list \<Rightarrow> int list" where
  "compactFrom kept [] = kept"
| "compactFrom kept (x # xs) = (if x = last kept then compactFrom kept xs else compactFrom (kept @ [x]) xs)"

definition compactPIDs :: "int list \<Rightarrow> int list" where
  "compactPIDs pids = (if length pids < 2 then pids else compactFrom [hd pids] (tl pids))"

text \<open>\<open>sort.SearchInts\<close>: the binary search of package \<open>sort\<close>.\<close>

function searchFrom :: "int list \<Rightarrow> int \<Rightarrow> nat \<Rightarrow> nat \<Rightarrow> nat" where
  "searchFrom xs x i j =
     (if i < j then
        let h = (i + j) div 2 in
        if \<not> xs ! h \<ge> x then searchFrom xs x (h + 1) j else searchFrom xs x i h
      else i)"
  by pat_completeness auto
termination by (relation "measure (\<lambda>(xs, x, i, j). j - i)") auto

declare searchFrom.simps [simp del]

definition SearchInts :: "int list \<Rightarrow> int \<Rightarrow> nat" where
  "SearchInts xs x = searchFrom xs x 0 (length xs)"

definition containsPID :: "int list \<Rightarrow> int \<Rightarrow> bool" where
  "containsPID pids pid =
     (let index = SearchInts pids pid in index < length pids \<and> pids ! index = pid)"

subsection \<open>Properties of the parsers\<close>

text \<open>The line the kernel writes: \<open>pid (comm) state ppid\<close> and the numeric fields.\<close>

definition formatStat :: "int \<Rightarrow> string \<Rightarrow> string list \<Rightarrow> string" where
  "formatStat pid comm fs = itoa pid @ '' ('' @ comm @ '') '' @ join '' '' fs"

definition plainWord :: "string \<Rightarrow> bool" where
  "plainWord w \<longleftrightarrow> w \<noteq> [] \<and> list_all (\<lambda>c. byte_in 0x21 0x7E c \<and> c \<noteq> CHR '')'') w"

lemma space_at_plain: "byte_in 0x21 0x7E c \<Longrightarrow> space_at (c # s) = 0"
  by (auto simp: space_at_eq_0 space_encodings_def has_prefix_def byte_in_def)

lemma space_at_blank [simp]: "space_at (CHR '' '' # s) = 1"
  by (simp add: space_at_def space_encodings_def has_prefix_def)

lemma fields_from_plain:
  assumes "plainWord w"
  shows "fields_from cur (w @ r) = fields_from (cur @ w) r"
proof (rule fields_from_word, intro allI impI)
  fix n assume n: "n < length w"
  then have "drop n w @ r = (w ! n) # (drop (Suc n) w @ r)" by (simp add: Cons_nth_drop_Suc [symmetric])
  moreover have "byte_in 0x21 0x7E (w ! n)"
    using assms n by (auto simp: plainWord_def list_all_iff)
  ultimately show "space_at (drop n w @ r) = 0" by (simp add: space_at_plain)
qed

lemma fields_from_blank: "cur \<noteq> [] \<Longrightarrow> fields_from cur (CHR '' '' # s) = cur # fields_from [] s"
  by (subst fields_from.simps) simp

lemma fields_from_end: "cur \<noteq> [] \<Longrightarrow> fields_from cur [] = [cur]"
  by (subst fields_from.simps) simp

lemma fields_join: "fs \<noteq> [] \<Longrightarrow> list_all plainWord fs \<Longrightarrow> fields_from [] (join '' '' fs) = fs"
proof (induction fs)
  case (Cons f fs)
  then have f: "plainWord f" "f \<noteq> []" by (auto simp: plainWord_def)
  show ?case
  proof (cases fs)
    case Nil
    with f fields_from_plain [of f "[]" "[]"] show ?thesis by (simp add: fields_from_end)
  next
    case (Cons g gs)
    with f Cons.IH Cons.prems fields_from_plain [of f "[]" "'' '' @ join '' '' fs"]
    show ?thesis by (simp add: join_Cons fields_from_blank)
  qed
qed simp

lemma str_fields_join: "fs \<noteq> [] \<Longrightarrow> list_all plainWord fs \<Longrightarrow> str_fields ('' '' @ join '' '' fs) = fs"
  unfolding str_fields_def by (subst fields_from.simps) (simp add: fields_join)

lemma join_plain_no_paren: "list_all plainWord fs \<Longrightarrow> CHR '')'' \<notin> set (join '' '' fs)"
  by (induction "'' ''" fs rule: join.induct) (auto simp: plainWord_def list_all_iff)

lemma itoa_pos_digits: "0 < pid \<Longrightarrow> c \<in> set (itoa pid) \<Longrightarrow> is_digit c"
  by (auto simp: itoa_def split: if_splits dest: utoa_digits)

lemma digits_plain: "w \<noteq> [] \<Longrightarrow> (\<forall>c \<in> set w. is_digit c) \<Longrightarrow> plainWord w"
  by (auto simp: plainWord_def list_all_iff is_digit_def byte_in_def)

lemma space_at_end_plain: "plainWord w \<Longrightarrow> space_at_end w = 0"
proof -
  assume w: "plainWord w"
  then have "w \<noteq> []" "byte_in 0x21 0x7E (last w)" by (auto simp: plainWord_def list_all_iff)
  moreover have "e \<in> set space_encodings \<Longrightarrow> \<not> byte_in 0x21 0x7E (last e) \<and> e \<noteq> []" for e
    by (auto simp: space_encodings_def byte_in_def)
  ultimately show ?thesis unfolding space_at_end_eq_0 has_suffix_iff by (metis last_appendR)
qed

lemma trim_space_pid:
  assumes "plainWord w" shows "trim_space (w @ '' '') = w"
proof -
  obtain c r where w: "w = c # r" "byte_in 0x21 0x7E c" using assms by (cases w) (auto simp: plainWord_def)
  have "trim_left_space (w @ '' '') = w @ '' ''"
    by (subst trim_left_space.simps) (simp add: w space_at_plain)
  moreover have "space_at_end (w @ '' '') = 1"
    by (simp add: space_at_end_def space_encodings_def has_suffix_def)
  ultimately show ?thesis using space_at_end_plain [OF assms]
    by (simp add: trim_space_def trim_right_space.simps [of "w @ '' ''"] trim_right_space.simps [of w])
qed

text \<open>
  Fact. \<open>ParseStat\<close> reads the line of every process, whatever the command name holds (blanks
  and unbalanced parentheses included), and returns the name unchanged: the positions of the
  first opening and the last closing parenthesis delimit it.
\<close>

theorem ParseStat_kernel_line:
  assumes "0 < pid" "pid < 2 ^ 63" and "20 \<le> length fs" and "list_all plainWord fs"
    and "length (fs ! 0) = 1" and "atoi (fs ! 1) = Some ppid" "0 \<le> ppid"
    and "parse_uint 64 (fs ! 19) = Some start"
    and "length (formatStat pid comm fs) \<le> MaxStatBytes"
  shows "ParseStat (formatStat pid comm fs) =
    Inr \<lparr>statPID = pid, statComm = comm, statState = hd (fs ! 0), statPPID = ppid,
         statStartTime = of_nat start\<rparr>"
proof -
  let ?p = "itoa pid @ '' ''" and ?r = "join '' '' fs"
  let ?line = "formatStat pid comm fs"
  from assms(3) have ne: "fs \<noteq> []" by auto
  have line: "?line = ?p @ CHR ''('' # (comm @ CHR '')'' # '' '' @ ?r)"
    and line': "?line = (?p @ CHR ''('' # comm) @ CHR '')'' # '' '' @ ?r"
    by (simp_all add: formatStat_def)
  have digits: "\<And>c. c \<in> set (itoa pid) \<Longrightarrow> is_digit c" using assms(1) by (rule itoa_pos_digits)
  have itoa_ne: "itoa pid \<noteq> []" by (simp add: itoa_def)
  have "CHR ''('' \<notin> set ?p" using digits [of "CHR ''(''"] by (auto simp: is_digit_def)
  then have open_at: "index_byte ?line CHR ''('' = Some (length ?p)"
    unfolding line by (rule index_byte_append)
  have "CHR '')'' \<notin> set ('' '' @ ?r)" using join_plain_no_paren [OF assms(4)] by simp
  then have close_at: "last_index_byte ?line CHR '')'' = Some (length (?p @ CHR ''('' # comm))"
    unfolding line' by (rule last_index_byte_append)
  have "plainWord (itoa pid)" using digits itoa_ne by (intro digits_plain) auto
  then have pid: "atoi (trim_space (take (length ?p) ?line)) = Some pid"
    using assms(1,2) by (simp add: line trim_space_pid atoi_itoa)
  have comm: "drop (length ?p + 1) (take (length (?p @ CHR ''('' # comm)) ?line) = comm"
    by (simp add: line')
  have "plainWord (hd fs)" using ne assms(4) by (simp add: list_all_iff)
  then have "?r \<noteq> []" using ne by (cases fs; cases "tl fs") (auto simp: plainWord_def join_Cons)
  have rest: "str_fields (drop (length (?p @ CHR ''('' # comm) + 1) ?line) = fs"
    using ne assms(4) by (simp add: line' str_fields_join del: append_assoc) (simp add: str_fields_join [simplified])
  have "length (?p @ CHR ''('' # comm) + 2 < length ?line"
    using \<open>?r \<noteq> []\<close> by (simp add: line')
  with assms pid comm rest open_at close_at show ?thesis
    by (simp add: ParseStat_def parseStatFields_def formatStat_def)
qed

definition sampleStatFields :: "string list" where
  "sampleStatFields =
     [''S'', ''7'', ''0'', ''0'', ''0'', ''0'', ''0'', ''0'', ''0'', ''0'', ''0'', ''0'', ''0'', ''0'',
      ''0'', ''0'', ''0'', ''0'', ''0'', ''99'']"

theorem ParseStat_kernel_line_witness:
  "ParseStat (formatStat 42 ''a) (b '' sampleStatFields) =
    Inr \<lparr>statPID = 42, statComm = ''a) (b '', statState = CHR ''S'', statPPID = 7, statStartTime = 99\<rparr>"
proof -
  have "list_all plainWord sampleStatFields"
    by (simp add: plainWord_def byte_in_def sampleStatFields_def)
  moreover have "parse_uint 64 (sampleStatFields ! 19) = Some 99"
    by (simp add: parse_uint_def parse_dec_def is_digit_def digit_val_def sampleStatFields_def)
  moreover have "atoi (sampleStatFields ! 1) = Some 7"
    by (simp add: atoi_def parse_dec_def is_digit_def digit_val_def sampleStatFields_def)
  moreover have "length (formatStat 42 ''a) (b '' sampleStatFields) \<le> MaxStatBytes"
    by (simp add: formatStat_def itoa_def utoa_def dec_digits.simps sampleStatFields_def)
  moreover have "length sampleStatFields = 20" "sampleStatFields ! 0 = ''S''"
    by (simp_all add: sampleStatFields_def)
  ultimately show ?thesis
    using ParseStat_kernel_line [of 42 sampleStatFields 7 99 "''a) (b ''"] by simp
qed
subsection \<open>Properties of the descendants\<close>

text \<open>The parent relation of the snapshot, without the root as a child.\<close>

definition parentOf :: "int \<Rightarrow> process list \<Rightarrow> (int \<times> int) set" where
  "parentOf root ps = {(prPPID p, prPID p) | p. p \<in> set ps \<and> 0 < prPID p \<and> prPID p \<noteq> root}"

lemma childrenOf_parentOf: "c \<in> set (childrenOf root ps p) \<longleftrightarrow> (p, c) \<in> parentOf root ps"
  by (auto simp: childrenOf_def parentOf_def)

lemma descendantsLoop_reach:
  assumes "distinct seen" "set seen = insert root (set result)" "set queue \<subseteq> set seen"
    and "distinct (root # result)" "set seen \<subseteq> (parentOf root ps)\<^sup>* `` {root}"
    and "\<forall>x \<in> set seen - set queue. parentOf root ps `` {x} \<subseteq> set seen"
  shows "insert root (set (descendantsLoop root ps seen queue result)) = (parentOf root ps)\<^sup>* `` {root} \<and>
    distinct (root # descendantsLoop root ps seen queue result)"
  using assms
proof (induction root ps seen queue result rule: descendantsLoop.induct)
  case (1 root ps seen result)
  have "set seen = (parentOf root ps)\<^sup>* `` {root}"
    using "1.prems" by (intro closed_reachable) auto
  with "1.prems" show ?case by simp
next
  case (2 root ps seen parent queue result)
  let ?new = "unseenChildren seen (childrenOf root ps parent)"
  have new: "set ?new = parentOf root ps `` {parent} - set seen" "distinct ?new"
    by (auto simp: unseenChildren_props childrenOf_parentOf)
  have "set ?new \<subseteq> (parentOf root ps)\<^sup>* `` {root}"
  proof
    fix x assume "x \<in> set ?new"
    then have "(parent, x) \<in> parentOf root ps" using new by auto
    moreover have "(root, parent) \<in> (parentOf root ps)\<^sup>*" using "2.prems" by auto
    ultimately show "x \<in> (parentOf root ps)\<^sup>* `` {root}" by auto
  qed
  moreover have "\<forall>x \<in> set (seen @ ?new) - set (queue @ ?new). parentOf root ps `` {x} \<subseteq> set (seen @ ?new)"
    using "2.prems"(6) new by auto
  moreover have "distinct (seen @ ?new)" "distinct (root # result @ ?new)"
    "set (seen @ ?new) = insert root (set (result @ ?new))"
    using "2.prems"(1,2,4) new by auto
  moreover have "set (queue @ ?new) \<subseteq> set (seen @ ?new)" using "2.prems"(3) by auto
  moreover have "set (seen @ ?new) \<subseteq> (parentOf root ps)\<^sup>* `` {root}"
    using "2.prems"(5) calculation(1) by simp
  ultimately show ?case unfolding descendantsLoop.simps Let_def by (intro "2.IH" [OF refl])
qed

lemma Descendants_set:
  "insert root (set (Descendants root ps)) = (parentOf root ps)\<^sup>* `` {root}"
  "distinct (root # Descendants root ps)"
  using descendantsLoop_reach [of "[root]" root "[]" "[root]" ps] by (simp_all add: Descendants_def)

text \<open>
  Fact. \<open>Descendants\<close> returns exactly the proper descendants of the main process in the
  snapshot (the processes reached from it by one or more parent links), each once and never the main
  process itself, and returns for every snapshot, parent cycles from reused PIDs included.
\<close>

theorem Descendants_reachable:
  "set (Descendants root ps) = (parentOf root ps)\<^sup>+ `` {root} - {root} \<and>
   distinct (Descendants root ps) \<and> root \<notin> set (Descendants root ps)"
proof -
  note all = Descendants_set(1) [of root ps] and dist = Descendants_set(2) [of root ps]
  have "(parentOf root ps)\<^sup>* `` {root} - {root} = (parentOf root ps)\<^sup>+ `` {root} - {root}"
    by (auto simp: rtrancl_eq_or_trancl)
  with all dist show ?thesis by auto
qed

subsection \<open>Properties of the member lists\<close>

lemma searchFrom_bounds:
  assumes "sorted xs" "i \<le> j" "j \<le> length xs"
    and "\<forall>k < i. xs ! k < x" "\<forall>k. j \<le> k \<and> k < length xs \<longrightarrow> x \<le> xs ! k"
  shows "searchFrom xs x i j \<le> length xs \<and> (\<forall>k < searchFrom xs x i j. xs ! k < x) \<and>
    (\<forall>k. searchFrom xs x i j \<le> k \<and> k < length xs \<longrightarrow> x \<le> xs ! k)"
  using assms
proof (induction xs x i j rule: searchFrom.induct)
  case (1 xs x i j)
  let ?h = "(i + j) div 2"
  consider "\<not> i < j" | "i < j" "x \<le> xs ! ?h" | "i < j" "\<not> x \<le> xs ! ?h" by blast
  then show ?case
  proof cases
    case 1
    then have "searchFrom xs x i j = i" by (subst searchFrom.simps) simp
    with 1 "1.prems" show ?thesis by auto
  next
    case 2
    have "\<forall>k. ?h \<le> k \<and> k < length xs \<longrightarrow> x \<le> xs ! k"
      using 2 "1.prems"(1) by (meson order_trans sorted_nth_mono)
    note upper = this
    have eq: "searchFrom xs x i j = searchFrom xs x i ?h"
      unfolding searchFrom.simps [of xs x i j] using 2 by (simp only: Let_def if_True not_True_eq_False if_False)
    have "\<not> \<not> x \<le> xs ! ?h" "i \<le> ?h" "?h \<le> length xs" using 2 "1.prems"(2,3) by auto
    from "1.IH"(2) [OF 2(1) refl this(1) "1.prems"(1) this(2,3) "1.prems"(4) upper]
    show ?thesis unfolding eq .
  next
    case 3
    have "xs ! k < x" if "k < ?h + 1" for k
    proof -
      have "k \<le> ?h" "?h < length xs" using that 3(1) "1.prems"(3) by auto
      then have "xs ! k \<le> xs ! ?h" using "1.prems"(1) by (rule sorted_nth_mono [rotated])
      with 3(2) show ?thesis by simp
    qed
    then have lower: "\<forall>k < ?h + 1. xs ! k < x" by blast
    have eq: "searchFrom xs x i j = searchFrom xs x (?h + 1) j"
      unfolding searchFrom.simps [of xs x i j] using 3 by (simp only: Let_def if_True not_False_eq_True)
    have "?h + 1 \<le> j" using 3 by auto
    from "1.IH"(1) [OF 3(1) refl 3(2) "1.prems"(1) this "1.prems"(3) lower "1.prems"(5)]
    show ?thesis unfolding eq .
  qed
qed

lemma containsPID_iff: "sorted pids \<Longrightarrow> containsPID pids pid \<longleftrightarrow> pid \<in> set pids"
proof
  assume "sorted pids" "pid \<in> set pids"
  then obtain k where k: "k < length pids" "pids ! k = pid" by (auto simp: in_set_conv_nth)
  from searchFrom_bounds [of pids 0 "length pids" pid] \<open>sorted pids\<close>
  have b: "\<forall>k < SearchInts pids pid. pids ! k < pid"
    "\<forall>k. SearchInts pids pid \<le> k \<and> k < length pids \<longrightarrow> pid \<le> pids ! k"
    by (auto simp: SearchInts_def)
  from b(1) k have le: "SearchInts pids pid \<le> k" by (metis less_irrefl not_le)
  with k have "SearchInts pids pid < length pids" by simp
  moreover from this b(2) have "pid \<le> pids ! SearchInts pids pid" by simp
  moreover have "pids ! SearchInts pids pid \<le> pid"
    using \<open>sorted pids\<close> le k by (metis sorted_nth_mono)
  ultimately show "containsPID pids pid" by (simp add: containsPID_def)
qed (auto simp: containsPID_def Let_def dest: nth_mem)

lemma pidsOfFields_Inr:
  "pidsOfFields fs = Inr pids \<longleftrightarrow> map atoi fs = map Some pids \<and> list_all (\<lambda>p. 0 < p) pids"
proof (induction fs arbitrary: pids)
  case (Cons f fs)
  show ?case by (cases pids) (auto simp: bind_err_Inr_iff Cons.IH not_le split: option.splits)
qed auto

lemma parsePIDs_Inr:
  "parsePIDs data = Inr pids \<Longrightarrow> sorted pids \<and> distinct pids \<and> list_all (\<lambda>p. 0 < p) pids \<and>
     set (map Some pids) = set (map atoi (str_fields data))"
proof -
  assume "parsePIDs data = Inr pids"
  then obtain ps where ps: "map atoi (str_fields data) = map Some ps" "list_all (\<lambda>p. 0 < p) ps"
    and pids: "pids = sort (remdups ps)"
    by (auto simp: parsePIDs_def bind_err_Inr_iff pidsOfFields_Inr)
  have "set (map atoi (str_fields data)) = Some ` set ps" by (simp add: ps(1))
  with ps(2) show ?thesis by (simp add: pids list_all_iff)
qed

lemma compactFrom_remdups:
  "kept \<noteq> [] \<Longrightarrow> sorted (kept @ xs) \<Longrightarrow> distinct kept \<Longrightarrow>
   sorted (compactFrom kept xs) \<and> distinct (compactFrom kept xs) \<and>
   set (compactFrom kept xs) = set kept \<union> set xs"
proof (induction kept xs rule: compactFrom.induct)
  case (2 kept x xs)
  show ?case
  proof (cases "x = last kept")
    case True
    with 2 show ?thesis by (auto simp: sorted_append)
  next
    case False
    obtain k l where k: "kept = k @ [l]" using "2.prems"(1) by (metis rev_exhaust)
    have "x \<notin> set kept" using "2.prems"(2) False by (force simp: k sorted_append)
    with False 2 show ?thesis by auto
  qed
qed auto

text \<open>
  Fact. The member lists of a cgroup: \<open>parsePIDs\<close> returns the positive PIDs of
  \<open>cgroup.procs\<close> in ascending order and without duplicates, on such a list the binary search of
  \<open>containsPID\<close> decides membership, and compacting the sorted concatenation of two lists gives the
  ascending list of their union.
\<close>

theorem member_lists_correct:
  assumes "parsePIDs data = Inr pids" and "parsePIDs data' = Inr pids'"
  shows "sorted pids \<and> distinct pids \<and> list_all (\<lambda>p. 0 < p) pids \<and>
    (containsPID pids pid \<longleftrightarrow> Some pid \<in> set (map atoi (str_fields data))) \<and>
    compactPIDs (sort (pids @ pids')) = sort (remdups (pids @ pids'))"
proof -
  have p: "sorted pids" "distinct pids" "list_all (\<lambda>p. 0 < p) pids"
    "set (map Some pids) = set (map atoi (str_fields data))"
    using parsePIDs_Inr [OF assms(1)] by auto
  have "containsPID pids pid \<longleftrightarrow> Some pid \<in> set (map Some pids)"
    using p(1) by (auto simp: containsPID_iff)
  moreover have compact: "compactPIDs xs = sorted_list_of_set (set xs)" if "sorted xs" for xs
  proof (cases "length xs < 2")
    case True
    with that show ?thesis by (cases xs) (auto simp: compactPIDs_def)
  next
    case False
    then obtain x ys where xs: "xs = x # ys" by (cases xs) auto
    with that compactFrom_remdups [of "[x]" ys]
    have "sorted (compactPIDs xs)" "distinct (compactPIDs xs)" "set (compactPIDs xs) = set xs"
      using False by (auto simp: compactPIDs_def)
    then show ?thesis by (metis sorted_list_of_set.idem_if_sorted_distinct)
  qed
  have "compactPIDs (sort (pids @ pids')) = sort (remdups (pids @ pids'))"
    by (simp only: compact sorted_sort set_sort sorted_list_of_set_sort_remdups)
  ultimately show ?thesis using p by simp
qed

lemmas fields_eval = str_fields_def fields_from.simps space_at_def space_encodings_def has_prefix_def
  atoi_def parse_dec_def is_digit_def digit_val_def

lemma parsePIDs_sample: "parsePIDs [CHR ''9'', CHR 0x0A, CHR ''4'', CHR 0x0A, CHR ''9''] = Inr [4, 9]"
  by (simp add: parsePIDs_def fields_eval)

theorem member_lists_correct_witness:
  "parsePIDs [CHR ''9'', CHR 0x0A, CHR ''4'', CHR 0x0A, CHR ''9''] = Inr [4, 9] \<and>
   containsPID [4, 9] 9 \<and> compactPIDs (sort ([4, 9] @ [4, 9])) = [4, 9]"
  using member_lists_correct [OF parsePIDs_sample parsePIDs_sample, of 9] parsePIDs_sample
  by (simp add: fields_eval)

end
