(* ===== verification/Cgroup_Protocol.thy ===== *)
theory Cgroup_Protocol
  imports Cgroup_Proc
begin

text \<open>
  The request protocol of the cgroup daemon (\<open>internal/cgrouptrack/protocol.go\<close>): the validation
  of requests and the length-prefixed JSON frames. JSON itself is a parameter: \<open>marshal\<close> is
  \<open>json.Marshal\<close>, \<open>decode\<close> reads one value off the front of a text and \<open>decodeAny\<close> does so for the
  check that nothing follows. A connection for writing is what has been written so far and the
  outcomes of the coming calls of \<open>Write\<close>: a short count, an error, or (when the list is used up)
  everything.
\<close>

subsection \<open>Requests\<close>

abbreviation OpStatus :: string where "OpStatus \<equiv> ''status''"
abbreviation OpListUnits :: string where "OpListUnits \<equiv> ''list-units''"
abbreviation OpGetUnit :: string where "OpGetUnit \<equiv> ''get-unit''"
abbreviation OpListPIDs :: string where "OpListPIDs \<equiv> ''list-pids''"
abbreviation OpAttach :: string where "OpAttach \<equiv> ''attach''"
abbreviation OpPrepare :: string where "OpPrepare \<equiv> ''prepare''"
abbreviation OpRelease :: string where "OpRelease \<equiv> ''release''"

record request =
  reqOperation :: string
  reqMode :: string
  reqUID :: uint32
  reqUnit :: string
  reqPID :: int

datatype request_error =
    UnitOrPIDNotAccepted | PIDNotAccepted | AttachPIDNotPositive | UnknownOperation string
  | GlobalUIDNotZero | ModeRequired | KeyError key_error

definition liftKey :: "key_error + 'a \<Rightarrow> request_error + 'a" where
  "liftKey r = (case r of Inl e \<Rightarrow> Inl (KeyError e) | Inr x \<Rightarrow> Inr x)"

definition validateScopeFields :: "string \<Rightarrow> uint32 \<Rightarrow> request_error + unit" where
  "validateScopeFields mode uid =
     (if mode = '''' then if uid \<noteq> 0 then Inl GlobalUIDNotZero else Inr ()
      else liftKey (validateKey \<lparr>keyMode = mode, keyUID = uid, keyUnit = ''scope.service''\<rparr>))"

definition validateUnitFields :: "string \<Rightarrow> uint32 \<Rightarrow> string \<Rightarrow> request_error + unit" where
  "validateUnitFields mode uid unit =
     (if mode = '''' then Inl ModeRequired
      else liftKey (validateKey \<lparr>keyMode = mode, keyUID = uid, keyUnit = unit\<rparr>))"

definition validateRequest :: "request \<Rightarrow> request_error + unit" where
  "validateRequest r =
     (let op = reqOperation r in
      if op \<in> {OpStatus, OpListUnits} then
        (if reqUnit r \<noteq> '''' \<or> reqPID r \<noteq> 0 then Inl UnitOrPIDNotAccepted
         else validateScopeFields (reqMode r) (reqUID r))
      else if op \<in> {OpGetUnit, OpListPIDs, OpPrepare, OpRelease} then
        (if reqPID r \<noteq> 0 then Inl PIDNotAccepted
         else validateUnitFields (reqMode r) (reqUID r) (reqUnit r))
      else if op = OpAttach then
        (if reqPID r \<le> 0 then Inl AttachPIDNotPositive
         else validateUnitFields (reqMode r) (reqUID r) (reqUnit r))
      else Inl (UnknownOperation op))"

subsection \<open>Responses\<close>

record apiError =
  apiCode :: string
  apiMessage :: string

definition apiErrorText :: "apiError option \<Rightarrow> string" where
  "apiErrorText e =
     (case e of None \<Rightarrow> ''''
      | Some a \<Rightarrow> if apiCode a = '''' then apiMessage a else apiCode a @ '': '' @ apiMessage a)"

subsection \<open>Connections\<close>

datatype write_outcome = WroteShort nat | WriteFailed nat

record connection =
  connWritten :: string
  connOutcomes :: "write_outcome list"

datatype frame_error =
    RequestInvalid request_error | MarshalFailed | FrameTooLarge nat | ErrShortWrite | ErrWrite
  | ErrEOF | ErrUnexpectedEOF | EmptyFrame | DecodeFailed | TrailingData

text \<open>One call of \<open>Write\<close>: the number of bytes it took and whether it failed.\<close>

definition writeCall :: "connection \<Rightarrow> string \<Rightarrow> connection \<times> nat \<times> bool" where
  "writeCall c data =
     (case connOutcomes c of
        [] \<Rightarrow> (c\<lparr>connWritten := connWritten c @ data\<rparr>, length data, False)
      | WroteShort n # os \<Rightarrow>
          (c\<lparr>connWritten := connWritten c @ take n data, connOutcomes := os\<rparr>, min n (length data), False)
      | WriteFailed n # os \<Rightarrow>
          (c\<lparr>connWritten := connWritten c @ take n data, connOutcomes := os\<rparr>, min n (length data), True))"

function writeAll :: "connection \<Rightarrow> string \<Rightarrow> connection \<times> frame_error option" where
  "writeAll c data =
     (if data = [] then (c, None)
      else case writeCall c data of
        (c', n, failed) \<Rightarrow>
          if failed then (c', Some ErrWrite)
          else if n = 0 then (c', Some ErrShortWrite)
          else writeAll c' (drop n data))"
  by pat_completeness auto
termination by (relation "measure (\<lambda>(c, data). length data)") auto

declare writeAll.simps [simp del]

subsection \<open>Frames\<close>

abbreviation MaxRequestBytes :: nat where "MaxRequestBytes \<equiv> 65536"
abbreviation MaxResponseBytes :: nat where "MaxResponseBytes \<equiv> 65536"

definition encodeFrame ::
  "('a \<Rightarrow> string option) \<Rightarrow> nat \<Rightarrow> connection \<Rightarrow> 'a \<Rightarrow> connection \<times> frame_error option" where
  "encodeFrame marshal maximum c v =
     (case marshal v of
        None \<Rightarrow> (c, Some MarshalFailed)
      | Some body \<Rightarrow>
          if length body > maximum then (c, Some (FrameTooLarge maximum))
          else case writeAll c (be_bytes 4 (length body)) of
            (c', Some e) \<Rightarrow> (c', Some e)
          | (c', None) \<Rightarrow> writeAll c' body)"

text \<open>\<open>io.ReadFull\<close> on what the peer has sent before it closed.\<close>

definition readFull :: "nat \<Rightarrow> string \<Rightarrow> frame_error + (string \<times> string)" where
  "readFull n input =
     (if length input < n then Inl (if input = [] then ErrEOF else ErrUnexpectedEOF)
      else Inr (take n input, drop n input))"

datatype 'a decoded = DecodedEOF | DecodedError | Decoded 'a string

definition decodeFrame ::
  "(string \<Rightarrow> 'a decoded) \<Rightarrow> (string \<Rightarrow> 'b decoded) \<Rightarrow> nat \<Rightarrow> string \<Rightarrow> frame_error + ('a \<times> string)" where
  "decodeFrame decode decodeAny maximum input =
     bind_err (readFull 4 input) (\<lambda>(header, r).
       let size = be_val header in
       if size = 0 then Inl EmptyFrame
       else if size > maximum then Inl (FrameTooLarge maximum)
       else bind_err (readFull size r) (\<lambda>(body, r').
         case decode body of
           DecodedEOF \<Rightarrow> Inl DecodeFailed
         | DecodedError \<Rightarrow> Inl DecodeFailed
         | Decoded v trailing \<Rightarrow>
             (case decodeAny trailing of
                DecodedEOF \<Rightarrow> Inr (v, r')
              | Decoded _ _ \<Rightarrow> Inl TrailingData
              | DecodedError \<Rightarrow> Inl DecodeFailed)))"

definition EncodeRequest ::
  "(request \<Rightarrow> string option) \<Rightarrow> connection \<Rightarrow> request \<Rightarrow> connection \<times> frame_error option" where
  "EncodeRequest marshal c r =
     (case validateRequest r of
        Inl e \<Rightarrow> (c, Some (RequestInvalid e))
      | Inr _ \<Rightarrow> encodeFrame marshal MaxRequestBytes c r)"

definition DecodeRequest ::
  "(string \<Rightarrow> request decoded) \<Rightarrow> (string \<Rightarrow> 'b decoded) \<Rightarrow> string \<Rightarrow> frame_error + (request \<times> string)" where
  "DecodeRequest decode decodeAny input =
     bind_err (decodeFrame decode decodeAny MaxRequestBytes input) (\<lambda>(r, rest).
       case validateRequest r of
         Inl e \<Rightarrow> Inl (RequestInvalid e)
       | Inr _ \<Rightarrow> Inr (r, rest))"

definition EncodeResponse ::
  "('r \<Rightarrow> string option) \<Rightarrow> connection \<Rightarrow> 'r \<Rightarrow> connection \<times> frame_error option" where
  "EncodeResponse marshal c r = encodeFrame marshal MaxResponseBytes c r"

definition DecodeResponse ::
  "(string \<Rightarrow> 'r decoded) \<Rightarrow> (string \<Rightarrow> 'b decoded) \<Rightarrow> string \<Rightarrow> frame_error + ('r \<times> string)" where
  "DecodeResponse decode decodeAny input = decodeFrame decode decodeAny MaxResponseBytes input"

subsection \<open>Writing\<close>

lemma writeCall_written:
  assumes "writeCall c data = (c', n, failed)"
  shows "connWritten c' = connWritten c @ take n data" and "n \<le> length data"
  using assms by (auto simp: writeCall_def min_def split: list.splits write_outcome.splits)

lemma writeAll_written:
  "writeAll c data = (c', e) \<Longrightarrow>
   \<exists>n \<le> length data. connWritten c' = connWritten c @ take n data \<and> (e = None \<longrightarrow> n = length data)"
proof (induction c data arbitrary: c' rule: writeAll.induct)
  case (1 c data)
  obtain d n failed where call: "writeCall c data = (d, n, failed)" by (cases "writeCall c data") auto
  note step = writeCall_written [OF call]
  show ?case
  proof (cases "data = [] \<or> failed \<or> n = 0")
    case True
    with "1.prems" call step show ?thesis
      by (auto simp: writeAll.simps [of c data] split: if_splits intro: exI [of _ n])
  next
    case False
    with "1.prems" call have "writeAll d (drop n data) = (c', e)" by (simp add: writeAll.simps [of c data])
    with "1.IH" False call obtain m where m: "m \<le> length data - n"
      "connWritten c' = connWritten d @ take m (drop n data)" "e = None \<longrightarrow> m = length data - n"
      by fastforce
    then show ?thesis using step by (intro exI [of _ "n + m"]) (auto simp: take_add)
  qed
qed

text \<open>A connection on which every remaining call of \<open>Write\<close> makes progress.\<close>

lemma writeAll_progress:
  "(\<forall>w \<in> set (connOutcomes c). \<exists>n. w = WroteShort (Suc n)) \<Longrightarrow> snd (writeAll c data) = None"
proof (induction c data rule: writeAll.induct)
  case (1 c data)
  show ?case
  proof (cases "data = []")
    case False
    obtain d n failed where call: "writeCall c data = (d, n, failed)" by (cases "writeCall c data") auto
    with "1.prems" False have "\<not> failed" "n \<noteq> 0" "\<forall>w \<in> set (connOutcomes d). \<exists>n. w = WroteShort (Suc n)"
      by (auto simp: writeCall_def split: list.splits write_outcome.splits)
    with "1.IH" False call show ?thesis by (simp add: writeAll.simps [of c data])
  qed (simp add: writeAll.simps)
qed

lemma encodeFrame_Some:
  assumes "encodeFrame marshal maximum c v = (c', None)"
  obtains body where "marshal v = Some body" "length body \<le> maximum"
    "connWritten c' = connWritten c @ be_bytes 4 (length body) @ body"
proof -
  from assms obtain body d where b: "marshal v = Some body" "length body \<le> maximum"
    "writeAll c (be_bytes 4 (length body)) = (d, None)" "writeAll d body = (c', None)"
    by (auto simp: encodeFrame_def split: option.splits if_splits prod.splits)
  from writeAll_written [OF b(3)] writeAll_written [OF b(4)]
  have "connWritten c' = connWritten c @ be_bytes 4 (length body) @ body" by auto
  with b that show ?thesis by blast
qed

lemma decodeFrame_frame:
  assumes "body \<noteq> []" "length body \<le> maximum" "maximum < 2 ^ 32"
  shows "decodeFrame decode decodeAny maximum (be_bytes 4 (length body) @ body @ rest) =
    (case decode body of
       Decoded v trailing \<Rightarrow>
         (case decodeAny trailing of DecodedEOF \<Rightarrow> Inr (v, rest) | Decoded _ _ \<Rightarrow> Inl TrailingData
          | DecodedError \<Rightarrow> Inl DecodeFailed)
     | _ \<Rightarrow> Inl DecodeFailed)"
  using assms
  by (simp add: decodeFrame_def readFull_def be_val_be_bytes_mod split: decoded.splits)

text \<open>
  Fact. Requests survive the socket, however the kernel splits the writes: a request that
  \<open>EncodeRequest\<close> has sent is what \<open>DecodeRequest\<close> reads, and what follows in the stream is left
  alone. The hypotheses say that JSON decodes what it has encoded and that nothing follows the value.
\<close>

theorem request_roundtrip:
  assumes sent: "EncodeRequest marshal c r = (c', None)"
    and json: "\<And>body. marshal r = Some body \<Longrightarrow> body \<noteq> [] \<and> decode body = Decoded r trailing"
    and eof: "decodeAny trailing = DecodedEOF"
  shows "\<exists>frame. connWritten c' = connWritten c @ frame \<and>
    DecodeRequest decode decodeAny (frame @ rest) = Inr (r, rest)"
proof -
  from sent have valid: "validateRequest r = Inr ()"
    and enc: "encodeFrame marshal MaxRequestBytes c r = (c', None)"
    by (auto simp: EncodeRequest_def split: sum.splits)
  from enc obtain body where body: "marshal r = Some body" "length body \<le> MaxRequestBytes"
    and w: "connWritten c' = connWritten c @ be_bytes 4 (length body) @ body"
    by (rule encodeFrame_Some)
  from json [OF body(1)] body(2) eof
  have "decodeFrame decode decodeAny MaxRequestBytes (be_bytes 4 (length body) @ body @ rest) = Inr (r, rest)"
    by (simp add: decodeFrame_frame)
  with valid have "DecodeRequest decode decodeAny ((be_bytes 4 (length body) @ body) @ rest) = Inr (r, rest)"
    by (simp add: DecodeRequest_def)
  with w show ?thesis by blast
qed

definition statusRequest :: request where
  "statusRequest = \<lparr>reqOperation = ''status'', reqMode = '''', reqUID = 0, reqUnit = '''', reqPID = 0\<rparr>"

definition oneByteWrites :: connection where
  "oneByteWrites = \<lparr>connWritten = ''x'', connOutcomes = [WroteShort 1, WroteShort 2]\<rparr>"

lemma statusRequest_sent:
  "EncodeRequest (\<lambda>r. Some ''{}'') oneByteWrites statusRequest =
     (\<lparr>connWritten = ''x'' @ be_bytes 4 2 @ ''{}'', connOutcomes = []\<rparr>, None)"
  by (simp add: EncodeRequest_def validateRequest_def validateScopeFields_def statusRequest_def
      encodeFrame_def oneByteWrites_def writeAll.simps writeCall_def be_bytes_4)

theorem request_roundtrip_witness:
  "\<exists>frame. ''x'' @ be_bytes 4 2 @ ''{}'' = ''x'' @ frame \<and>
    DecodeRequest (\<lambda>b. if b = ''{}'' then Decoded statusRequest '''' else DecodedError)
      (\<lambda>b. if b = '''' then DecodedEOF else Decoded () '''') (frame @ ''tail'') = Inr (statusRequest, ''tail'')"
  using request_roundtrip [OF statusRequest_sent, of
      "\<lambda>b. if b = ''{}'' then Decoded statusRequest '''' else DecodedError" "''''"
      "\<lambda>b. if b = '''' then DecodedEOF else Decoded () ''''" "''tail''"]
  by (simp add: oneByteWrites_def)
end
