(* ===== verification/Cgroup_Server.thy ===== *)
theory Cgroup_Server
  imports Cgroup_Protocol
begin

text \<open>
  The socket server of the cgroup daemon (\<open>internal/cgrouptrack/server.go\<close>): who may ask for
  what (\<open>authorizeRequestWithRoot\<close>), how much (\<open>acquireUID\<close>, \<open>releaseUID\<close>, \<open>allowAttach\<close>, the
  connection slots), and the handler of a connection. The service behind it is a record of
  operations on a state of its own.

  A bucket counts attach tokens in units of \<open>10\<^sup>-\<^sup>9\<close>: a duration in nanoseconds refills as many
  units. The code keeps the same quantity in a \<open>float64\<close>; its rounding is not modelled.
\<close>

subsection \<open>Data\<close>

record fileIdentity =
  fiDevice :: uint64
  fiInode :: uint64

definition noIdentity :: fileIdentity where
  "noIdentity = \<lparr>fiDevice = 0, fiInode = 0\<rparr>"

record peer =
  peerPID :: int
  peerUID :: uint32
  peerGID :: uint32
  peerNamespace :: fileIdentity

record scope =
  scMode :: string
  scUID :: uint32
  scGlobal :: bool

record daemonStatus =
  dsHealthy :: bool
  dsCgroupRoot :: string
  dsLastReconcile :: string
  dsPending :: int
  dsAbnormal :: int

record unitStatus =
  usIdentity :: instanceIdentity
  usState :: string
  usPath :: string
  usMemberCount :: int
  usLastMigration :: string
  usLastError :: string

record processStatus =
  psPID :: int
  psStartTime :: uint64
  psUID :: uint32
  psComm :: string
  psMainPID :: bool

record response =
  rspOK :: bool
  rspError :: "apiError option"
  rspStatus :: "daemonStatus option"
  rspUnits :: "unitStatus list"
  rspUnit :: "unitStatus option"
  rspPIDs :: "processStatus list"

text \<open>The zero value of a response.\<close>

definition emptyResponse :: response where
  "emptyResponse =
     \<lparr>rspOK = False, rspError = None, rspStatus = None, rspUnits = [], rspUnit = None, rspPIDs = []\<rparr>"

definition failureResponse :: "string \<Rightarrow> string \<Rightarrow> response" where
  "failureResponse code message =
     emptyResponse\<lparr>rspError := Some \<lparr>apiCode = code, apiMessage = message\<rparr>\<rparr>"

definition okResponse :: response where
  "okResponse = emptyResponse\<lparr>rspOK := True\<rparr>"

text \<open>The client's view of a response (\<open>internal/cgrouptrack/client.go\<close>).\<close>

definition responseError :: "response \<Rightarrow> string option" where
  "responseError r =
     (if rspOK r then None
      else case rspError r of
        Some e \<Rightarrow> Some (apiErrorText (Some e))
      | None \<Rightarrow> Some ''cgroup daemon request failed'')"

subsection \<open>Scopes of cgroup paths\<close>

definition managedProcessScope :: "string \<Rightarrow> string \<Rightarrow> string \<times> uint32 \<times> bool" where
  "managedProcessScope path managedRoot =
     (let root = ''/'' @ trim_set (trim_space managedRoot) ''/'';
          cl = clean path;
          prefix = (if root \<noteq> ''/'' then root @ ''/'' else root)
      in if cl \<noteq> root \<and> \<not> has_prefix cl prefix then ('''', 0, False)
         else
           let relative = (if root = ''/'' then trim_prefix cl ''/'' else trim_prefix cl prefix);
               parts = split_on CHR ''/'' relative
           in if length parts \<ge> 1 \<and> parts ! 0 = ''system'' then (ModeSystem, 0, True)
              else if length parts \<ge> 2 \<and> parts ! 0 = ''user'' then
                (case parse_uint 32 (parts ! 1) of
                   Some uid \<Rightarrow> (ModeUser, of_nat uid, True)
                 | None \<Rightarrow> ('''', 0, True))
              else ('''', 0, True))"

subsection \<open>Authorization\<close>

datatype auth_error =
    ErrPIDNamespaceMismatch | ErrAccessDenied | AuthRequest request_error | NotDelegated
  | AuthInspect proc_error

definition authorizeAttachPID ::
  "peer \<Rightarrow> request \<Rightarrow> (int \<Rightarrow> proc_error + process) \<Rightarrow> string \<Rightarrow> auth_error + unit" where
  "authorizeAttachPID p req inspect managedRoot =
     (case inspect (reqPID req) of
        Inl e \<Rightarrow> Inl (AuthInspect e)
      | Inr pr \<Rightarrow>
          if prUID pr \<noteq> reqUID req then Inl ErrAccessDenied
          else if peerUID p \<noteq> 0 \<and> prUID pr \<noteq> peerUID p then Inl ErrAccessDenied
          else case managedProcessScope (prCgroup pr) managedRoot of
            (mode, uid, managed) \<Rightarrow>
              if \<not> managed then Inr ()
              else if mode \<noteq> ModeUser \<or> uid \<noteq> reqUID req then Inl ErrAccessDenied
              else Inr ())"

definition authorizeRequestWithRoot ::
  "peer \<Rightarrow> request \<Rightarrow> fileIdentity \<Rightarrow> (int \<Rightarrow> proc_error + process) \<Rightarrow> (int \<Rightarrow> proc_error + string) \<Rightarrow>
   string \<Rightarrow> auth_error + scope" where
  "authorizeRequestWithRoot p req daemonNamespace inspect readCgroup managedRoot =
     (if peerNamespace p \<noteq> noIdentity \<and> daemonNamespace \<noteq> noIdentity \<and> peerNamespace p \<noteq> daemonNamespace
      then Inl ErrPIDNamespaceMismatch
      else case validateRequest req of
        Inl e \<Rightarrow> Inl (AuthRequest e)
      | Inr _ \<Rightarrow>
          if peerUID p = 0 then
            let sc = \<lparr>scMode = reqMode req, scUID = reqUID req, scGlobal = (reqMode req = '''')\<rparr> in
            if reqOperation req = OpAttach \<and> reqMode req = ModeUser
            then bind_err (authorizeAttachPID p req inspect managedRoot) (\<lambda>_. Inr sc)
            else Inr sc
          else if reqMode req \<noteq> ModeUser \<or> reqUID req \<noteq> peerUID p then Inl ErrAccessDenied
          else
            let prefix = path_join [managedRoot, ''user'', utoa (unat (peerUID p))];
                delegated = (case readCgroup (peerPID p) of
                    Inl _ \<Rightarrow> False
                  | Inr grp \<Rightarrow> grp = prefix \<or> has_prefix grp (prefix @ ''/''))
            in if reqOperation req = OpPrepare \<and> \<not> delegated then Inl NotDelegated
               else
                 let sc = \<lparr>scMode = ModeUser, scUID = peerUID p, scGlobal = False\<rparr> in
                 if reqOperation req = OpAttach
                 then bind_err (authorizeAttachPID p req inspect managedRoot) (\<lambda>_. Inr sc)
                 else Inr sc)"

definition authorizeRequest ::
  "peer \<Rightarrow> request \<Rightarrow> fileIdentity \<Rightarrow> (int \<Rightarrow> proc_error + process) \<Rightarrow> (int \<Rightarrow> proc_error + string) \<Rightarrow>
   auth_error + scope" where
  "authorizeRequest p req daemonNamespace inspect readCgroup =
     authorizeRequestWithRoot p req daemonNamespace inspect readCgroup ''/servicectl.slice''"

subsection \<open>The state of the server\<close>

record attachBucket =
  bkTokens :: int
  bkLast :: time

record server =
  svPath :: string
  svRequestTimeout :: duration
  svMaxConnections :: int
  svConnections :: int
  svMaxRequestsPerUID :: int
  svManagedPath :: string
  svActiveByUID :: "uint32 \<Rightarrow> int"
  svAttachByUID :: "uint32 \<rightharpoonup> attachBucket"

definition cleanManagedPath :: "string \<Rightarrow> string" where
  "cleanManagedPath path =
     (if clean path = ''.'' \<or> path = '''' then ''/servicectl.slice'' else clean path)"

definition NewServer :: "string \<Rightarrow> duration \<Rightarrow> int \<Rightarrow> int \<Rightarrow> string \<Rightarrow> server" where
  "NewServer path timeout maxConnections maxPerUID managed =
     \<lparr>svPath = path,
      svRequestTimeout = (if timeout \<le> 0 then 5 * 10 ^ 9 else timeout),
      svMaxConnections = (if maxConnections \<le> 0 then 32 else maxConnections),
      svConnections = 0,
      svMaxRequestsPerUID = (if maxPerUID \<le> 0 then 4 else maxPerUID),
      svManagedPath = cleanManagedPath managed,
      svActiveByUID = (\<lambda>_. 0), svAttachByUID = Map.empty\<rparr>"

definition SetManagedCgroupPath :: "server \<Rightarrow> string \<Rightarrow> server" where
  "SetManagedCgroupPath s path = s\<lparr>svManagedPath := cleanManagedPath path\<rparr>"

text \<open>A missing entry of \<open>activeByUID\<close> counts as 0, so deleting it is setting it to 0.\<close>

definition acquireUID :: "server \<Rightarrow> uint32 \<Rightarrow> server \<times> bool" where
  "acquireUID s uid =
     (if svActiveByUID s uid \<ge> svMaxRequestsPerUID s then (s, False)
      else (s\<lparr>svActiveByUID := (svActiveByUID s)(uid := svActiveByUID s uid + 1)\<rparr>, True))"

definition releaseUID :: "server \<Rightarrow> uint32 \<Rightarrow> server" where
  "releaseUID s uid =
     (let n = svActiveByUID s uid - 1 in
      s\<lparr>svActiveByUID := (svActiveByUID s)(uid := (if n \<le> 0 then 0 else n))\<rparr>)"

abbreviation tokenUnit :: int where "tokenUnit \<equiv> 1000000000"
abbreviation bucketCapacity :: int where "bucketCapacity \<equiv> 4 * tokenUnit"

definition refill :: "attachBucket \<Rightarrow> time \<Rightarrow> attachBucket" where
  "refill b now =
     (if now - bkLast b > 0
      then \<lparr>bkTokens = min bucketCapacity (bkTokens b + (now - bkLast b)), bkLast = now\<rparr>
      else b)"

definition allowAttach :: "server \<Rightarrow> uint32 \<Rightarrow> time \<Rightarrow> server \<times> bool" where
  "allowAttach s uid now =
     (let b = refill (case svAttachByUID s uid of
                        None \<Rightarrow> \<lparr>bkTokens = bucketCapacity, bkLast = now\<rparr>
                      | Some b \<Rightarrow> b) now
      in if bkTokens b < tokenUnit
         then (s\<lparr>svAttachByUID := (svAttachByUID s)(uid \<mapsto> b)\<rparr>, False)
         else (s\<lparr>svAttachByUID := (svAttachByUID s)(uid \<mapsto> b\<lparr>bkTokens := bkTokens b - tokenUnit\<rparr>)\<rparr>, True))"

subsection \<open>The service and the handler\<close>

record 's service =
  opStatus :: "scope \<Rightarrow> 's \<Rightarrow> 's \<times> (string + daemonStatus)"
  opListUnits :: "scope \<Rightarrow> 's \<Rightarrow> 's \<times> (string + unitStatus list)"
  opGetUnit :: "scope \<Rightarrow> string \<Rightarrow> 's \<Rightarrow> 's \<times> (string + unitStatus)"
  opListPIDs :: "scope \<Rightarrow> string \<Rightarrow> 's \<Rightarrow> 's \<times> (string + processStatus list)"
  opAttach :: "scope \<Rightarrow> string \<Rightarrow> int \<Rightarrow> 's \<Rightarrow> 's \<times> (string + unitStatus)"
  opNative :: "((scope \<Rightarrow> string \<Rightarrow> 's \<Rightarrow> 's \<times> (string + unitStatus)) \<times>
               (scope \<Rightarrow> string \<Rightarrow> 's \<Rightarrow> 's \<times> (string + unit))) option"

definition reply :: "string \<Rightarrow> ('a \<Rightarrow> response) \<Rightarrow> 's \<times> (string + 'a) \<Rightarrow> 's \<times> response" where
  "reply code ok r =
     (fst r, case snd r of Inl e \<Rightarrow> failureResponse code e | Inr x \<Rightarrow> ok x)"

definition dispatch :: "'s service \<Rightarrow> scope \<Rightarrow> request \<Rightarrow> 's \<Rightarrow> 's \<times> response" where
  "dispatch sv sc req s =
     (let op = reqOperation req in
      if op \<in> {OpPrepare, OpRelease} then
        (case opNative sv of
           None \<Rightarrow> (s, failureResponse ''unavailable'' ''native preparation is unavailable'')
         | Some (prepare, release) \<Rightarrow>
             if op = OpRelease
             then reply ''release-failed'' (\<lambda>_. okResponse) (release sc (reqUnit req) s)
             else reply ''prepare-failed'' (\<lambda>u. okResponse\<lparr>rspUnit := Some u\<rparr>) (prepare sc (reqUnit req) s))
      else if op = OpStatus
        then reply ''status-failed'' (\<lambda>d. okResponse\<lparr>rspStatus := Some d\<rparr>) (opStatus sv sc s)
      else if op = OpListUnits
        then reply ''list-units-failed'' (\<lambda>us. okResponse\<lparr>rspUnits := us\<rparr>) (opListUnits sv sc s)
      else if op = OpGetUnit
        then reply ''get-unit-failed'' (\<lambda>u. okResponse\<lparr>rspUnit := Some u\<rparr>) (opGetUnit sv sc (reqUnit req) s)
      else if op = OpListPIDs
        then reply ''list-pids-failed'' (\<lambda>ps. okResponse\<lparr>rspPIDs := ps\<rparr>) (opListPIDs sv sc (reqUnit req) s)
      else if op = OpAttach
        then reply ''attach-failed'' (\<lambda>u. okResponse\<lparr>rspUnit := Some u\<rparr>)
               (opAttach sv sc (reqUnit req) (reqPID req) s)
      else (s, failureResponse ''invalid-operation'' ''unknown operation''))"

text \<open>
  What a connection brings: the decoded request, the credentials of the peer, the namespace of the
  daemon (the zero identity when it cannot be read), the process file system and the clock at the
  rate check. \<open>errText\<close> stands for the texts of the errors.
\<close>

record 'e incoming =
  inRequest :: "frame_error + request"
  inPeer :: "'e + peer"
  inNamespace :: fileIdentity
  inInspect :: "int \<Rightarrow> proc_error + process"
  inReadCgroup :: "int \<Rightarrow> proc_error + string"
  inNow :: time

record 'e errorTexts =
  textFrame :: "frame_error \<Rightarrow> string"
  textPeer :: "'e \<Rightarrow> string"
  textAuth :: "auth_error \<Rightarrow> string"

text \<open>
  The handler up to the call of the service: \<open>Inl\<close> is the response of a refusal, \<open>Inr\<close> the scope,
  the request and the peer whose slot is held.
\<close>

definition admit ::
  "'e errorTexts \<Rightarrow> server \<Rightarrow> 'e incoming \<Rightarrow> server \<times> (response + scope \<times> request \<times> uint32)" where
  "admit txt s i =
     (case inRequest i of
        Inl e \<Rightarrow> (s, Inl (failureResponse ''invalid-request'' (textFrame txt e)))
      | Inr req \<Rightarrow>
          (case inPeer i of
             Inl e \<Rightarrow> (s, Inl (failureResponse ''peer-credentials'' (textPeer txt e)))
           | Inr p \<Rightarrow>
               (case authorizeRequestWithRoot p req (inNamespace i) (inInspect i) (inReadCgroup i)
                       (svManagedPath s) of
                  Inl e \<Rightarrow> (s, Inl (failureResponse ''access-denied'' (textAuth txt e)))
                | Inr sc \<Rightarrow>
                    (case acquireUID s (peerUID p) of
                       (s1, False) \<Rightarrow>
                         (s1, Inl (failureResponse ''busy'' ''too many concurrent requests for peer UID''))
                     | (s1, True) \<Rightarrow>
                         if reqOperation req = OpAttach then
                           (case allowAttach s1 (peerUID p) (inNow i) of
                              (s2, False) \<Rightarrow>
                                (releaseUID s2 (peerUID p),
                                 Inl (failureResponse ''rate-limited'' ''attach rate limit exceeded''))
                            | (s2, True) \<Rightarrow> (s2, Inr (sc, req, peerUID p)))
                         else (s1, Inr (sc, req, peerUID p))))))"

definition handleConnection ::
  "'e errorTexts \<Rightarrow> 's service \<Rightarrow> server \<Rightarrow> 's \<Rightarrow> 'e incoming \<Rightarrow> server \<times> 's \<times> response" where
  "handleConnection txt sv s st i =
     (case admit txt s i of
        (s1, Inl r) \<Rightarrow> (s1, st, r)
      | (s1, Inr (sc, req, uid)) \<Rightarrow>
          (case dispatch sv sc req st of (st', r) \<Rightarrow> (releaseUID s1 uid, st', r)))"

text \<open>\<open>Serve\<close>: a connection beyond the slots is closed at once; a handler gives its slot back.\<close>

definition acceptConnection :: "server \<Rightarrow> server \<times> bool" where
  "acceptConnection s =
     (if svConnections s < svMaxConnections s then (s\<lparr>svConnections := svConnections s + 1\<rparr>, True)
      else (s, False))"

definition closeConnection :: "server \<Rightarrow> server" where
  "closeConnection s = s\<lparr>svConnections := svConnections s - 1\<rparr>"

subsection \<open>Managed scopes by components\<close>

definition scopeOf :: "string list \<Rightarrow> string \<times> uint32 \<times> bool" where
  "scopeOf r =
     (if r \<noteq> [] \<and> hd r = ''system'' then (ModeSystem, 0, True)
      else if 2 \<le> length r \<and> hd r = ''user'' then
        (case parse_uint 32 (r ! 1) of Some uid \<Rightarrow> (ModeUser, of_nat uid, True) | None \<Rightarrow> ('''', 0, True))
      else ('''', 0, True))"

lemma join_normal_ends:
  assumes "list_all normal cs" "cs \<noteq> []"
  shows "hd (join ''/'' cs) \<noteq> CHR ''/''" "last (join ''/'' cs) \<noteq> CHR ''/''"
proof -
  have ends: "c \<noteq> [] \<and> hd c \<noteq> CHR ''/'' \<and> last c \<noteq> CHR ''/''" if "normal c" for c
    using that unfolding normal_def by (metis hd_in_set last_in_set)
  show "hd (join ''/'' cs) \<noteq> CHR ''/''"
    using assms ends by (cases cs; cases "tl cs") (auto simp: join_Cons)
  from assms(2) obtain ds c where c: "cs = ds @ [c]" by (metis rev_exhaust)
  with assms(1) have "normal c" by simp
  then show "last (join ''/'' cs) \<noteq> CHR ''/''"
    using c ends [of c] by (cases "ds = []") (auto simp: join_append)
qed

lemma trim_set_slash:
  assumes "list_all normal cs"
  shows "trim_set (abs_path cs) ''/'' = join ''/'' cs"
proof (cases "cs = []")
  case False
  let ?j = "join ''/'' cs"
  have ne: "?j \<noteq> []" using assms False by (rule join_normal_nonempty)
  with join_normal_ends [OF assms False]
  have "dropWhile (\<lambda>c. c = CHR ''/'') ?j = ?j" "dropWhile (\<lambda>c. c = CHR ''/'') (rev ?j) = rev ?j"
    by (auto simp: dropWhile_eq_self_iff hd_rev)
  then show ?thesis by (simp add: trim_set_def abs_path_def)
qed (simp add: trim_set_def abs_path_def)

lemma managedProcessScope_components:
  assumes root: "list_all normal root" "trim_space (abs_path root) = abs_path root" and path: "is_abs path"
  shows "managedProcessScope path (abs_path root) =
    (if \<exists>r. clean_comps path = root @ r then scopeOf (drop (length root) (clean_comps path))
     else ('''', 0, False))"
proof -
  let ?ds = "clean_comps path"
  have ds: "list_all normal ?ds" and cl: "clean path = abs_path ?ds"
    using path by (simp_all add: clean_comps_normal clean_abs)
  have split: "split_on CHR ''/'' (join ''/'' r) = r" if "list_all normal r" "r \<noteq> []" for r
    using that by (intro split_on_join) (auto simp: list_all_iff normal_def)
  have rt: "''/'' @ trim_set (trim_space (abs_path root)) ''/'' = abs_path root"
    using root by (simp add: trim_set_slash) (simp add: abs_path_def)
  show ?thesis
  proof (cases "root = []")
    case True
    have "trim_prefix (abs_path ?ds) ''/'' = join ''/'' ?ds"
      using trim_prefix_append [of "''/''" "join ''/'' ?ds"] by (simp add: abs_path_def)
    moreover have "has_prefix (abs_path ?ds) ''/''" by (simp add: abs_path_def has_prefix_def)
    ultimately show ?thesis
      using split [OF ds] unfolding managedProcessScope_def Let_def rt
      by (cases "?ds = []") (auto simp: True cl abs_path_def scopeOf_def hd_conv_nth neq_Nil_conv Suc_le_eq)
  next
    case False
    have nr: "abs_path root \<noteq> ''/''"
      using root(1) False by (auto simp: abs_path_def dest!: join_normal_nonempty)
    show ?thesis
    proof (cases "\<exists>r. ?ds = root @ r")
      case below: True
      then obtain r where r: "?ds = root @ r" by blast
      then have nrm: "list_all normal r" using ds by simp
      show ?thesis
      proof (cases "r = []")
        case True
        then have "trim_prefix (abs_path ?ds) (abs_path root @ ''/'') = abs_path root"
          by (simp add: r trim_prefix_def has_prefix_def)
        moreover have "split_on CHR ''/'' (abs_path root) = '''' # split_on CHR ''/'' (join ''/'' root)"
          by (simp add: abs_path_def)
        ultimately show ?thesis
          unfolding managedProcessScope_def Let_def rt using nr True by (simp add: cl r scopeOf_def)
      next
        case r_ne: False
        have eq: "abs_path ?ds = (abs_path root @ ''/'') @ join ''/'' r"
          using False r_ne by (simp add: r abs_path_append)
        then have "has_prefix (abs_path ?ds) (abs_path root @ ''/'')"
          "trim_prefix (abs_path ?ds) (abs_path root @ ''/'') = join ''/'' r"
          by (simp_all only: has_prefix_append trim_prefix_append)
        then show ?thesis
          unfolding managedProcessScope_def Let_def rt using nr r_ne split [OF nrm r_ne]
          by (simp add: cl r scopeOf_def hd_conv_nth Suc_le_eq split: option.split)
      qed
    next
      case outside: False
      then have "abs_path ?ds \<noteq> abs_path root" "\<not> has_prefix (abs_path ?ds) (abs_path root @ ''/'')"
        using abs_path_below [OF root(1) False ds] by blast+
      with outside nr show ?thesis unfolding managedProcessScope_def Let_def rt by (simp add: cl)
    qed
  qed
qed

subsection \<open>Who may do what\<close>

definition namespaceOK :: "peer \<Rightarrow> fileIdentity \<Rightarrow> bool" where
  "namespaceOK p ns \<longleftrightarrow> peerNamespace p = noIdentity \<or> ns = noIdentity \<or> peerNamespace p = ns"

text \<open>
  The process belongs to \<open>uid\<close> and, where its group lies below the managed root, the group is in
  the subtree of that user.
\<close>

definition attachable :: "string list \<Rightarrow> uint32 \<Rightarrow> process \<Rightarrow> bool" where
  "attachable root uid pr \<longleftrightarrow>
     prUID pr = uid \<and>
     (take (length root) (clean_comps (prCgroup pr)) = root \<longrightarrow>
       scopeOf (drop (length root) (clean_comps (prCgroup pr))) = (ModeUser, uid, True))"

definition insideUserTree :: "string list \<Rightarrow> uint32 \<Rightarrow> string \<Rightarrow> bool" where
  "insideUserTree root uid grp \<longleftrightarrow>
     (let top = abs_path (root @ [''user'', utoa (unat uid)]) in grp = top \<or> has_prefix grp (top @ ''/''))"

lemma prefix_take: "(\<exists>r. ds = root @ r) \<longleftrightarrow> take (length root) ds = root"
  by (metis append_eq_conv_conj append_take_drop_id)

lemma scopeOf_managed: "\<exists>m u. scopeOf r = (m, u, True)"
  by (simp add: scopeOf_def split: option.split)

lemma authorizeAttachPID_iff:
  assumes root: "list_all normal root" "trim_space (abs_path root) = abs_path root"
    and abs: "\<And>pid pr. inspect pid = Inr pr \<Longrightarrow> is_abs (prCgroup pr)"
    and peer: "peerUID p = 0 \<or> peerUID p = reqUID req"
  shows "authorizeAttachPID p req inspect (abs_path root) = Inr () \<longleftrightarrow>
    (\<exists>pr. inspect (reqPID req) = Inr pr \<and> attachable root (reqUID req) pr)"
proof (cases "inspect (reqPID req)")
  case (Inr pr)
  from abs [OF Inr] root have
    "managedProcessScope (prCgroup pr) (abs_path root) =
      (if take (length root) (clean_comps (prCgroup pr)) = root
       then scopeOf (drop (length root) (clean_comps (prCgroup pr))) else ('''', 0, False))"
    by (simp only: managedProcessScope_components prefix_take)
  moreover obtain m u where "scopeOf (drop (length root) (clean_comps (prCgroup pr))) = (m, u, True)"
    using scopeOf_managed by blast
  ultimately show ?thesis
    using peer
    by (cases "take (length root) (clean_comps (prCgroup pr)) = root"; cases "prUID pr = reqUID req")
       (auto simp: authorizeAttachPID_def attachable_def Inr)
qed (simp add: authorizeAttachPID_def)

lemma normal_user_tree: "normal ''user''" "normal (utoa n)"
  using safeComponent_utoa [of n] by (auto simp: safeComponent_def normal_def)

lemma user_prefix:
  assumes "list_all normal root"
  shows "path_join [abs_path root, ''user'', utoa n] = abs_path (root @ [''user'', utoa n])"
  using path_join_abs [of root "[''user'', utoa n]"] assms by (simp add: normal_user_tree del: path_join.simps)

text \<open>
  Property C4. An unprivileged peer is confined to its own user: the request is authorized exactly
  when it comes from the daemon's PID namespace (or one of the two is unknown), is valid, asks for
  the \<open>user\<close> mode and the peer's own UID, and
  \<^item> for \<open>attach\<close>, the process exists, belongs to the peer and is either outside the managed hierarchy
    or inside the peer's own subtree;
  \<^item> for \<open>prepare\<close>, the peer itself runs inside its own subtree.
  The scope it gets is always its own.
\<close>

theorem authorize_unprivileged_iff:
  assumes root: "list_all normal root" "trim_space (abs_path root) = abs_path root"
    and abs: "\<And>pid pr. inspect pid = Inr pr \<Longrightarrow> is_abs (prCgroup pr)"
    and unprivileged: "peerUID p \<noteq> 0"
  shows "authorizeRequestWithRoot p req ns inspect readCgroup (abs_path root) = Inr sc \<longleftrightarrow>
    namespaceOK p ns \<and> validateRequest req = Inr () \<and> reqMode req = ModeUser \<and> reqUID req = peerUID p \<and>
    (reqOperation req = OpAttach \<longrightarrow>
      (\<exists>pr. inspect (reqPID req) = Inr pr \<and> attachable root (peerUID p) pr)) \<and>
    (reqOperation req = OpPrepare \<longrightarrow>
      (\<exists>grp. readCgroup (peerPID p) = Inr grp \<and> insideUserTree root (peerUID p) grp)) \<and>
    sc = \<lparr>scMode = ModeUser, scUID = peerUID p, scGlobal = False\<rparr>"
proof (cases "namespaceOK p ns \<and> validateRequest req = Inr () \<and> reqMode req = ModeUser \<and> reqUID req = peerUID p")
  case True
  have attach: "authorizeAttachPID p req inspect (abs_path root) = Inr () \<longleftrightarrow>
      (\<exists>pr. inspect (reqPID req) = Inr pr \<and> attachable root (peerUID p) pr)"
    using authorizeAttachPID_iff [of root inspect p req] root abs True by simp
  have prep: "(case readCgroup (peerPID p) of Inl _ \<Rightarrow> False
      | Inr grp \<Rightarrow> grp = abs_path (root @ [''user'', utoa (unat (peerUID p))]) \<or>
          has_prefix grp (abs_path (root @ [''user'', utoa (unat (peerUID p))]) @ ''/'')) \<longleftrightarrow>
      (\<exists>grp. readCgroup (peerPID p) = Inr grp \<and> insideUserTree root (peerUID p) grp)"
    by (cases "readCgroup (peerPID p)") (auto simp: insideUserTree_def)
  show ?thesis
    using True unprivileged unfolding authorizeRequestWithRoot_def user_prefix [OF root(1)] Let_def prep
    by (auto simp: namespaceOK_def bind_err_Inr_iff attach)
next
  case False
  then show ?thesis
    using unprivileged by (auto simp: authorizeRequestWithRoot_def namespaceOK_def Let_def split: sum.splits)
qed

definition userPeer :: peer where
  "userPeer = \<lparr>peerPID = 77, peerUID = 1000, peerGID = 1000, peerNamespace = noIdentity\<rparr>"

definition attachRequest :: request where
  "attachRequest = \<lparr>reqOperation = ''attach'', reqMode = ''user'', reqUID = 1000, reqUnit = ''foo.service'', reqPID = 5\<rparr>"

definition userProcess :: process where
  "userProcess = \<lparr>prPID = 5, prPPID = 1, prUID = 1000, prStartTime = 9, prState = CHR ''S'', prComm = ''sh'',
     prCgroup = ''/s/user/1000/foo''\<rparr>"

lemma attachRequest_valid: "validateRequest attachRequest = Inr ()"
  using validateKey_foo by (simp add: validateRequest_def attachRequest_def validateUnitFields_def liftKey_def fooKey_def)

lemma userProcess_attachable: "attachable [''s''] 1000 userProcess"
  by (simp add: attachable_def userProcess_def clean_comps_def scopeOf_def parse_uint_def parse_dec_def
      is_digit_def digit_val_def)

theorem authorize_unprivileged_iff_witness:
  "authorizeRequestWithRoot userPeer attachRequest noIdentity (\<lambda>_. Inr userProcess) (\<lambda>_. Inl NoUnifiedEntry)
     (abs_path [''s'']) = Inr \<lparr>scMode = ModeUser, scUID = 1000, scGlobal = False\<rparr>"
proof -
  have "trim_space (abs_path [''s'']) = abs_path [''s'']"
    by (simp add: abs_path_def trim_space_id space_at_def space_at_end_def space_encodings_def has_prefix_def has_suffix_def)
  moreover have "list_all normal [''s'']" by (simp add: normal_def)
  moreover have "peerUID userPeer = 1000" by (simp add: userPeer_def)
  ultimately show ?thesis
    using authorize_unprivileged_iff [of "[''s'']" "\<lambda>_. Inr userProcess" userPeer attachRequest noIdentity
        "\<lambda>_. Inl NoUnifiedEntry" "\<lparr>scMode = ModeUser, scUID = 1000, scGlobal = False\<rparr>"]
      attachRequest_valid userProcess_attachable
    by (simp add: namespaceOK_def) (simp add: attachRequest_def userProcess_def)
qed

subsection \<open>Concurrency per user\<close>

text \<open>
  The handlers run concurrently: a handler is admitted, later it finishes. The second component
  lists the users of the handlers in flight.
\<close>

datatype 'e server_event = Begin "'e incoming" | Finish nat

definition serverStep ::
  "'e errorTexts \<Rightarrow> server \<times> uint32 list \<Rightarrow> 'e server_event \<Rightarrow> server \<times> uint32 list" where
  "serverStep txt st e =
     (case e of
        Begin i \<Rightarrow>
          (case admit txt (fst st) i of
             (s, Inl _) \<Rightarrow> (s, snd st)
           | (s, Inr (_, _, uid)) \<Rightarrow> (s, uid # snd st))
      | Finish n \<Rightarrow>
          if n < length (snd st)
          then (releaseUID (fst st) (snd st ! n), take n (snd st) @ drop (Suc n) (snd st))
          else st)"

definition slotsInv :: "int \<Rightarrow> server \<times> uint32 list \<Rightarrow> bool" where
  "slotsInv m st \<longleftrightarrow>
     svMaxRequestsPerUID (fst st) = m \<and>
     (\<forall>uid. svActiveByUID (fst st) uid = int (count_list (snd st) uid) \<and> int (count_list (snd st) uid) \<le> m)"

lemma allowAttach_frame:
  "svActiveByUID (fst (allowAttach s uid now)) = svActiveByUID s"
  "svMaxRequestsPerUID (fst (allowAttach s uid now)) = svMaxRequestsPerUID s"
  by (simp_all add: allowAttach_def Let_def)

lemma release_acquired:
  assumes "svActiveByUID s' = (svActiveByUID s)(uid := svActiveByUID s uid + 1)" and "0 \<le> svActiveByUID s uid"
  shows "svActiveByUID (releaseUID s' uid) = svActiveByUID s"
  using assms by (auto simp: releaseUID_def Let_def)

lemma failure_ex: "\<exists>code message. failureResponse c m = failureResponse code message"
  by blast

lemma reply_unit:
  assumes "reply code f sr = (s', rsp)" "u \<in> set (rspUnits rsp) \<union> set_option (rspUnit rsp)"
  obtains a where "snd sr = Inr a" "rsp = f a"
  using assms by (cases sr; cases "snd sr") (auto simp: reply_def failureResponse_def emptyResponse_def)

lemma okResponse_units [simp]: "rspUnits okResponse = []" "rspUnit okResponse = None"
  by (simp_all add: okResponse_def emptyResponse_def)

lemma dispatch_unit_origin:
  assumes d: "dispatch sv sc req s = (s', r)" and u: "u \<in> set (rspUnits r) \<union> set_option (rspUnit r)"
  shows "(\<exists>us. snd (opListUnits sv sc s) = Inr us \<and> u \<in> set us) \<or> snd (opGetUnit sv sc (reqUnit req) s) = Inr u \<or>
    snd (opAttach sv sc (reqUnit req) (reqPID req) s) = Inr u \<or>
    (\<exists>prepare release. opNative sv = Some (prepare, release) \<and> snd (prepare sc (reqUnit req) s) = Inr u)"
  using d u unfolding dispatch_def Let_def
  by (auto split: if_splits option.splits prod.splits elim!: reply_unit simp: failureResponse_def emptyResponse_def)

lemma admit_cases:
  assumes "\<forall>uid. 0 \<le> svActiveByUID s uid"
  shows "case admit txt s i of
      (s', Inl r) \<Rightarrow> svActiveByUID s' = svActiveByUID s \<and> svMaxRequestsPerUID s' = svMaxRequestsPerUID s \<and>
        (\<exists>code message. r = failureResponse code message)
    | (s', Inr (sc, req, uid)) \<Rightarrow>
        svActiveByUID s uid < svMaxRequestsPerUID s \<and>
        svActiveByUID s' = (svActiveByUID s)(uid := svActiveByUID s uid + 1) \<and>
        svMaxRequestsPerUID s' = svMaxRequestsPerUID s \<and>
        (\<exists>p. inPeer i = Inr p \<and> inRequest i = Inr req \<and> uid = peerUID p \<and>
          authorizeRequestWithRoot p req (inNamespace i) (inInspect i) (inReadCgroup i) (svManagedPath s) = Inr sc)"
proof (cases "inRequest i")
  case Inl
  then show ?thesis by (simp add: admit_def failure_ex)
next
  case req: (Inr req)
  show ?thesis
  proof (cases "inPeer i")
    case Inl
    then show ?thesis by (simp add: admit_def req failure_ex)
  next
    case p: (Inr p)
    show ?thesis
    proof (cases "authorizeRequestWithRoot p req (inNamespace i) (inInspect i) (inReadCgroup i) (svManagedPath s)")
      case Inl
      then show ?thesis by (simp add: admit_def req p failure_ex)
    next
      case auth: (Inr sc)
      let ?uid = "peerUID p"
      let ?s1 = "s\<lparr>svActiveByUID := (svActiveByUID s)(?uid := svActiveByUID s ?uid + 1)\<rparr>"
      obtain s2 b where a: "allowAttach ?s1 ?uid (inNow i) = (s2, b)" by (cases "allowAttach ?s1 ?uid (inNow i)") auto
      have s2: "svActiveByUID s2 = (svActiveByUID s)(?uid := svActiveByUID s ?uid + 1)"
        "svMaxRequestsPerUID s2 = svMaxRequestsPerUID s"
        using allowAttach_frame [of ?s1 ?uid "inNow i"] by (simp_all add: a)
      have "svActiveByUID (releaseUID s2 ?uid) = svActiveByUID s"
        "svMaxRequestsPerUID (releaseUID s2 ?uid) = svMaxRequestsPerUID s"
        using release_acquired [OF s2(1)] assms s2(2) by (simp_all add: releaseUID_def Let_def)
      then show ?thesis using s2
        by (cases b) (simp_all add: admit_def acquireUID_def req p auth a failure_ex)
    qed
  qed
qed

lemma count_list_split:
  "n < length xs \<Longrightarrow>
   count_list xs x = count_list (take n xs) x + count_list (drop (Suc n) xs) x + (if xs ! n = x then 1 else 0)"
  by (subst id_take_nth_drop [of n xs]) auto
lemma count_list_nth_pos: "n < length xs \<Longrightarrow> 0 < count_list xs (xs ! n)"
  by (simp add: count_list_0_iff zero_less_iff_neq_zero)

interpretation slots: machine "serverStep txt" "slotsInv m"
proof
  fix st and e :: "'a server_event" assume inv: "slotsInv m st"
  then have nonneg: "\<forall>uid. 0 \<le> svActiveByUID (fst st) uid" by (simp add: slotsInv_def)
  show "slotsInv m (serverStep txt st e)"
  proof (cases e)
    case (Begin i)
    with inv admit_cases [OF nonneg, of i "txt"] show ?thesis
      by (auto simp: serverStep_def slotsInv_def split: prod.splits sum.splits)
  next
    case (Finish n)
    show ?thesis
    proof (cases "n < length (snd st)")
      case True
      let ?u = "snd st ! n"
      from count_list_nth_pos [OF True] inv
      have active: "svActiveByUID (releaseUID (fst st) ?u) =
          (svActiveByUID (fst st))(?u := svActiveByUID (fst st) ?u - 1)"
        by (auto simp: releaseUID_def Let_def slotsInv_def)
      have "svMaxRequestsPerUID (releaseUID (fst st) ?u) = svMaxRequestsPerUID (fst st)"
        by (simp add: releaseUID_def Let_def)
      moreover have "svActiveByUID (releaseUID (fst st) ?u) uid =
            int (count_list (take n (snd st) @ drop (Suc n) (snd st)) uid) \<and>
          int (count_list (take n (snd st) @ drop (Suc n) (snd st)) uid) \<le> m" for uid
        using inv count_list_split [OF True, of uid] by (cases "?u = uid") (auto simp: slotsInv_def active dest!: spec [of _ uid])
      ultimately show ?thesis using inv by (simp add: serverStep_def Finish True slotsInv_def)
    next
      case False
      with inv show ?thesis by (simp add: serverStep_def Finish)
    qed
  qed
qed

text \<open>
  Property C19. The limit on concurrent requests holds under every interleaving: starting from a new
  server, after any sequence of arrivals and completions the counter of each user is the number of
  its requests in flight and is at most the configured maximum.
\<close>

theorem concurrent_requests_bounded:
  fixes evs :: "'e server_event list"
  shows "let s0 = NewServer path timeout conns perUID managed;
         st = foldl (serverStep txt) (s0, []) evs
     in svActiveByUID (fst st) uid = int (count_list (snd st) uid) \<and>
        int (count_list (snd st) uid) \<le> (if perUID \<le> 0 then 4 else perUID)"
proof -
  let ?m = "if perUID \<le> 0 then 4 else perUID"
  have "slotsInv ?m (NewServer path timeout conns perUID managed, [])"
    by (simp add: slotsInv_def NewServer_def)
  from slots.run_inv [OF this, of "txt" evs] show ?thesis
    unfolding slotsInv_def Let_def by metis
qed

lemma handleConnection_cases:
  assumes "\<forall>uid. 0 \<le> svActiveByUID s uid" and "handleConnection txt sv s st i = (s', st', r)"
  shows "svActiveByUID s' = svActiveByUID s \<and>
    (st' = st \<and> (\<exists>code message. r = failureResponse code message) \<or>
     (\<exists>p req sc. inPeer i = Inr p \<and> inRequest i = Inr req \<and> (st', r) = dispatch sv sc req st \<and>
        authorizeRequestWithRoot p req (inNamespace i) (inInspect i) (inReadCgroup i) (svManagedPath s) = Inr sc))"
proof (cases "admit txt s i")
  case (Pair s1 x)
  show ?thesis
  proof (cases x)
    case (Inl e)
    with assms(2) Pair admit_cases [OF assms(1), of i "txt"] show ?thesis
      by (auto simp: handleConnection_def)
  next
    case (Inr y)
    obtain sc req uid where y: "y = (sc, req, uid)" by (cases y)
    from admit_cases [OF assms(1), of i "txt"]
    have a: "svActiveByUID s1 = (svActiveByUID s)(uid := svActiveByUID s uid + 1)"
      "\<exists>p. inPeer i = Inr p \<and> inRequest i = Inr req \<and> uid = peerUID p \<and>
        authorizeRequestWithRoot p req (inNamespace i) (inInspect i) (inReadCgroup i) (svManagedPath s) = Inr sc"
      by (simp_all add: Pair Inr y)
    from assms(2) have "s' = releaseUID s1 uid" "(st', r) = dispatch sv sc req st"
      by (auto simp: handleConnection_def Pair Inr y split: prod.splits)
    with a release_acquired [OF a(1)] assms(1) show ?thesis by auto
  qed
qed

text \<open>
  Property C22. The handler gives its slot back on every path, refusals and rate limiting included,
  and the service is called only for an authorized request with the scope of the authorization:
  without one the state of the service is unchanged and the response is a failure.
\<close>

theorem handleConnection_guarded:
  assumes "\<forall>uid. 0 \<le> svActiveByUID s uid" and "handleConnection txt sv s st i = (s', st', r)"
  shows "svActiveByUID s' = svActiveByUID s \<and>
    (st' = st \<and> (\<exists>code message. r = failureResponse code message) \<or>
     (\<exists>p req sc. inPeer i = Inr p \<and> inRequest i = Inr req \<and> (st', r) = dispatch sv sc req st \<and>
        authorizeRequestWithRoot p req (inNamespace i) (inInspect i) (inReadCgroup i) (svManagedPath s) = Inr sc))"
  using handleConnection_cases [OF assms] .

definition quietTexts :: "unit errorTexts" where
  "quietTexts = \<lparr>textFrame = \<lambda>_. ''frame'', textPeer = \<lambda>_. ''peer'', textAuth = \<lambda>_. ''auth''\<rparr>"

definition countingService :: "nat service" where
  "countingService =
     \<lparr>opStatus = \<lambda>_ n. (n + 1, Inl ''no''), opListUnits = \<lambda>_ n. (n + 1, Inr []),
      opGetUnit = \<lambda>_ _ n. (n + 1, Inl ''no''), opListPIDs = \<lambda>_ _ n. (n + 1, Inr []),
      opAttach = \<lambda>_ _ _ n. (n + 1, Inl ''no''), opNative = None\<rparr>"

definition foreignAttach :: "unit incoming" where
  "foreignAttach =
     \<lparr>inRequest = Inr (attachRequest\<lparr>reqUID := 1\<rparr>), inPeer = Inr userPeer, inNamespace = noIdentity,
      inInspect = \<lambda>_. Inr userProcess, inReadCgroup = \<lambda>_. Inl NoUnifiedEntry, inNow = 0\<rparr>"

lemma foreignAttach_denied:
  "handleConnection quietTexts countingService (NewServer '''' 0 0 0 '''') 0 foreignAttach =
     (NewServer '''' 0 0 0 '''', 0, failureResponse ''access-denied'' ''auth'')"
proof -
  have "validateRequest (attachRequest\<lparr>reqUID := 1\<rparr>) = Inr ()"
    using attachRequest_valid by (simp add: validateRequest_def attachRequest_def validateUnitFields_def validateKey_def)
  then show ?thesis
    by (simp add: handleConnection_def admit_def foreignAttach_def authorizeRequestWithRoot_def userPeer_def
        attachRequest_def quietTexts_def)
qed

theorem handleConnection_guarded_witness:
  "handleConnection quietTexts countingService (NewServer '''' 0 0 0 '''') 0 foreignAttach =
     (NewServer '''' 0 0 0 '''', 0, failureResponse ''access-denied'' ''auth'') \<and>
   svActiveByUID (NewServer '''' 0 0 0 '''') = (\<lambda>_. 0)"
  using handleConnection_guarded [OF _ foreignAttach_denied] foreignAttach_denied
  by (simp add: NewServer_def)

subsection \<open>The rate of attach requests\<close>

fun attachGrants :: "server \<Rightarrow> uint32 \<Rightarrow> time list \<Rightarrow> int" where
  "attachGrants s uid [] = 0"
| "attachGrants s uid (t # ts) =
     (case allowAttach s uid t of (s', ok) \<Rightarrow> (if ok then 1 else 0) + attachGrants s' uid ts)"

lemma refill_bounds:
  assumes "0 \<le> bkTokens b" "bkTokens b \<le> bucketCapacity" "bkLast b \<le> t"
  shows "0 \<le> bkTokens (refill b t)" "bkTokens (refill b t) \<le> bucketCapacity" "bkLast (refill b t) = t"
    "bkTokens (refill b t) \<le> bkTokens b + (t - bkLast b)"
  using assms by (auto simp: refill_def min_def)

lemma attachGrants_bucket:
  assumes "svAttachByUID s uid = Some b" "0 \<le> bkTokens b" "bkTokens b \<le> bucketCapacity"
    and "sorted (bkLast b # ts)"
  shows "attachGrants s uid ts * tokenUnit \<le> bkTokens b + (last (bkLast b # ts) - bkLast b)"
  using assms
proof (induction ts arbitrary: s b)
  case (Cons t ts)
  let ?r = "refill b t"
  from Cons.prems have t: "bkLast b \<le> t" "sorted (t # ts)" by auto
  note r = refill_bounds [OF Cons.prems(2,3) t(1)]
  let ?b = "if bkTokens ?r < tokenUnit then ?r else ?r\<lparr>bkTokens := bkTokens ?r - tokenUnit\<rparr>"
  obtain s' ok where a: "allowAttach s uid t = (s', ok)" by (cases "allowAttach s uid t")
  then have s': "svAttachByUID s' uid = Some ?b" and ok: "ok \<longleftrightarrow> \<not> bkTokens ?r < tokenUnit"
    using Cons.prems(1) by (auto simp: allowAttach_def Let_def split: if_splits)
  have b: "0 \<le> bkTokens ?b" "bkTokens ?b \<le> bucketCapacity" "bkLast ?b = t" using r by auto
  have ih: "attachGrants s' uid ts * tokenUnit \<le> bkTokens ?b + (last (t # ts) - t)"
    using Cons.IH [OF s' b(1,2)] t(2) by (simp only: b(3))
  have tok: "bkTokens ?b = bkTokens ?r - (if ok then tokenUnit else 0)" using ok by auto
  have "attachGrants s uid (t # ts) * tokenUnit = (if ok then tokenUnit else 0) + attachGrants s' uid ts * tokenUnit"
    by (simp add: a algebra_simps)
  also have "\<dots> \<le> bkTokens ?r + (last (t # ts) - t)" using ih by (simp only: tok)
  also have "\<dots> \<le> bkTokens b + (last (bkLast b # t # ts) - bkLast b)" using r(4) by simp
  finally show ?case .
qed simp

text \<open>
  Fact. The attach limit: however often a user asks, in a period that starts with a full
  bucket at most four requests plus one per elapsed second are let through.
\<close>

theorem attach_rate_bounded:
  assumes "svAttachByUID s uid = None" and "sorted (t # ts)"
  shows "attachGrants s uid (t # ts) * tokenUnit \<le> bucketCapacity + (last (t # ts) - t)"
proof -
  obtain s' ok where a: "allowAttach s uid t = (s', ok)" by (cases "allowAttach s uid t")
  with assms(1) have ok: ok and s': "svAttachByUID s' uid = Some \<lparr>bkTokens = 3 * tokenUnit, bkLast = t\<rparr>"
    by (auto simp: allowAttach_def refill_def Let_def)
  from attachGrants_bucket [OF s'] assms(2)
  have "attachGrants s' uid ts * tokenUnit \<le> 3 * tokenUnit + (last (t # ts) - t)" by simp
  with ok show ?thesis by (simp add: a)
qed

theorem attach_rate_bounded_witness:
  "attachGrants (NewServer '''' 0 0 0 '''') 7 [0, 0, 0, 0, 0, 1000000000] * tokenUnit \<le> bucketCapacity + (1000000000 - 0) \<and>
   attachGrants (NewServer '''' 0 0 0 '''') 7 [0, 0, 0, 0, 0, 1000000000] = 5"
  using attach_rate_bounded [of "NewServer '''' 0 0 0 ''''" 7 0 "[0, 0, 0, 0, 1000000000]"]
  by (simp add: NewServer_def allowAttach_def refill_def Let_def)

end
