(* ===== verification/Cgroup_Migrate.thy ===== *)
theory Cgroup_Migrate
  imports Cgroup_Proc
begin

text \<open>
  The migration of a service into its cgroup (\<open>internal/cgrouptrack/migrate.go\<close>). The process file
  system, the cgroup file system and the deadline are the world of the migrator: a record of
  operations on a state \<open>'w\<close>, each of which may change that state, because processes fork and exit
  while the migration runs.
\<close>

subsection \<open>The world of the migrator\<close>

datatype group_error = GroupKey key_error | GroupOS os_error | GroupProcs proc_error | GroupUnavailable string

record 'w world =
  doInspect :: "int \<Rightarrow> 'w \<Rightarrow> 'w \<times> (proc_error + process)"
  doListPIDs :: "'w \<Rightarrow> 'w \<times> (proc_error + int list)"
  doEnsure :: "unitKey \<Rightarrow> 'w \<Rightarrow> 'w \<times> group_error option"
  doMovePID :: "unitKey \<Rightarrow> int \<Rightarrow> 'w \<Rightarrow> 'w \<times> group_error option"
  doPIDs :: "unitKey \<Rightarrow> 'w \<Rightarrow> 'w \<times> (group_error + int list)"
  doExpired :: "duration \<Rightarrow> 'w \<Rightarrow> 'w \<times> bool"

datatype migrate_error =
    IdentityInvalid key_error | NotConfigured | InspectFailed proc_error | ErrProcessIdentityChanged
  | GroupFailed group_error | ContextDone | ErrMembershipNotObserved | UIDMismatch | NotConverged
  | VisionUnavailable string

record migrationResult =
  mrState :: string
  mrMoved :: "int list"
  mrSkipped :: "(int \<times> migrate_error) list"
  mrErr :: "migrate_error option"

definition degraded :: "migrate_error \<Rightarrow> migrationResult" where
  "degraded e = \<lparr>mrState = StateDegraded, mrMoved = [], mrSkipped = [], mrErr = Some e\<rparr>"

subsection \<open>Moving one process\<close>

definition moveAndVerify ::
  "'w world \<Rightarrow> duration \<Rightarrow> unitKey \<Rightarrow> process \<Rightarrow> 'w \<Rightarrow> 'w \<times> migrate_error option" where
  "moveAndVerify W deadline key before w =
     (case doExpired W deadline w of (w, expired) \<Rightarrow>
      if expired then (w, Some ContextDone)
      else case doInspect W (prPID before) w of
        (w, Inl e) \<Rightarrow> (w, Some (InspectFailed e))
      | (w, Inr current) \<Rightarrow>
          if prStartTime current \<noteq> prStartTime before \<or> prUID current \<noteq> prUID before
          then (w, Some ErrProcessIdentityChanged)
          else case doMovePID W key (prPID before) w of
            (w, Some e) \<Rightarrow> (w, Some (GroupFailed e))
          | (w, None) \<Rightarrow>
              (case doInspect W (prPID before) w of
                 (w, Inl e) \<Rightarrow> (w, Some (InspectFailed e))
               | (w, Inr after) \<Rightarrow>
                   if prStartTime after \<noteq> prStartTime before \<or> prUID after \<noteq> prUID before
                   then (w, Some ErrProcessIdentityChanged)
                   else case doPIDs W key w of
                     (w, Inl e) \<Rightarrow> (w, Some (GroupFailed e))
                   | (w, Inr pids) \<Rightarrow>
                       let index = SearchInts pids (prPID before) in
                       if index = length pids \<or> pids ! index \<noteq> prPID before
                       then (w, Some ErrMembershipNotObserved)
                       else (w, None)))"

subsection \<open>Snapshots\<close>

fun snapshotLoop ::
  "'w world \<Rightarrow> instanceIdentity \<Rightarrow> int list \<Rightarrow> process list \<Rightarrow> (int \<times> migrate_error) list \<Rightarrow> 'w \<Rightarrow>
   'w \<times> process list \<times> (int \<times> migrate_error) list \<times> migrate_error option" where
  "snapshotLoop W identity [] ps skipped w = (w, sort_slice (\<lambda>p q. prPID p < prPID q) ps, skipped, None)"
| "snapshotLoop W identity (pid # pids) ps skipped w =
     (case doInspect W pid w of
        (w, Inl e) \<Rightarrow>
          if pid = idMainPID identity then (w, [], skipped, Some (InspectFailed e))
          else snapshotLoop W identity pids ps (skipped @ [(pid, InspectFailed e)]) w
      | (w, Inr p) \<Rightarrow>
          if keyMode (idKey identity) = ModeUser \<and> prUID p \<noteq> keyUID (idKey identity)
          then snapshotLoop W identity pids ps (skipped @ [(pid, UIDMismatch)]) w
          else snapshotLoop W identity pids (ps @ [p]) skipped w)"

definition processSnapshot ::
  "'w world \<Rightarrow> instanceIdentity \<Rightarrow> 'w \<Rightarrow>
   'w \<times> process list \<times> (int \<times> migrate_error) list \<times> migrate_error option" where
  "processSnapshot W identity w =
     (case doListPIDs W w of
        (w, Inl e) \<Rightarrow> (w, [], [], Some (InspectFailed e))
      | (w, Inr pids) \<Rightarrow> snapshotLoop W identity pids [] [] w)"

subsection \<open>The migration\<close>

definition zeroProcess :: process where
  "zeroProcess = \<lparr>prPID = 0, prPPID = 0, prUID = 0, prStartTime = 0, prState = CHR 0x00, prComm = '''', prCgroup = ''''\<rparr>"

text \<open>\<open>byPID[pid]\<close>: a later process of the snapshot replaces an earlier one.\<close>

definition byPID :: "process list \<Rightarrow> int \<Rightarrow> process" where
  "byPID ps pid = (case List.find (\<lambda>p. prPID p = pid) (rev ps) of Some p \<Rightarrow> p | None \<Rightarrow> zeroProcess)"

text \<open>The moves of one round; \<open>True\<close> says that the deadline has passed.\<close>

fun moveAll ::
  "'w world \<Rightarrow> duration \<Rightarrow> unitKey \<Rightarrow> process list \<Rightarrow> int list \<Rightarrow> migrationResult \<Rightarrow> 'w \<Rightarrow>
   'w \<times> migrationResult \<times> bool" where
  "moveAll W deadline key ps [] res w = (w, res, False)"
| "moveAll W deadline key ps (pid # pids) res w =
     (case moveAndVerify W deadline key (byPID ps pid) w of
        (w, Some e) \<Rightarrow>
          if e = ContextDone then (w, res\<lparr>mrState := StatePartial, mrErr := Some e\<rparr>, True)
          else moveAll W deadline key ps pids (res\<lparr>mrSkipped := mrSkipped res @ [(pid, e)]\<rparr>) w
      | (w, None) \<Rightarrow> moveAll W deadline key ps pids (res\<lparr>mrMoved := mrMoved res @ [pid]\<rparr>) w)"

fun migrateRounds ::
  "'w world \<Rightarrow> duration \<Rightarrow> instanceIdentity \<Rightarrow> nat \<Rightarrow> migrationResult \<Rightarrow> 'w \<Rightarrow> 'w \<times> migrationResult" where
  "migrateRounds W deadline identity 0 res w = (w, res\<lparr>mrState := StatePartial, mrErr := Some NotConverged\<rparr>)"
| "migrateRounds W deadline identity (Suc n) res w =
     (case doExpired W deadline w of
        (w, True) \<Rightarrow> (w, res\<lparr>mrState := StatePartial, mrErr := Some ContextDone\<rparr>)
      | (w, False) \<Rightarrow>
          (case processSnapshot W identity w of
             (w, ps, skipped, err) \<Rightarrow>
               let res1 = res\<lparr>mrSkipped := mrSkipped res @ skipped\<rparr> in
               (case err of
                  Some e \<Rightarrow> (w, res1\<lparr>mrState := StateDegraded, mrErr := Some e\<rparr>)
                | None \<Rightarrow>
                    let newPIDs = filter (\<lambda>pid. pid \<notin> set (mrMoved res1)) (Descendants (idMainPID identity) ps) in
                    if newPIDs = [] then (w, res1)
                    else (case moveAll W deadline (idKey identity) ps newPIDs res1 w of
                      (w, res2, True) \<Rightarrow> (w, res2)
                    | (w, res2, False) \<Rightarrow> migrateRounds W deadline identity n res2 w))))"

record 'w migrator =
  mgWorld :: "'w world option"
  mgMaxRounds :: int
  mgDeadline :: duration

definition Migrate :: "'w migrator \<Rightarrow> instanceIdentity \<Rightarrow> 'w \<Rightarrow> 'w \<times> migrationResult" where
  "Migrate m identity w =
     (case validateIdentity identity of
        Inl e \<Rightarrow> (w, degraded (IdentityInvalid e))
      | Inr _ \<Rightarrow>
          (case mgWorld m of
             None \<Rightarrow> (w, degraded NotConfigured)
           | Some W \<Rightarrow>
               let maxRounds = (if mgMaxRounds m \<le> 0 then 8 else nat (mgMaxRounds m));
                   deadline = (if mgDeadline m \<le> 0 then 250000000 else mgDeadline m)
               in (case doInspect W (idMainPID identity) w of
                     (w, Inl e) \<Rightarrow> (w, degraded (InspectFailed e))
                   | (w, Inr main) \<Rightarrow>
                       if prStartTime main \<noteq> idStartTime identity \<or>
                          keyMode (idKey identity) = ModeUser \<and> prUID main \<noteq> keyUID (idKey identity)
                       then (w, degraded ErrProcessIdentityChanged)
                       else (case doEnsure W (idKey identity) w of
                         (w, Some e) \<Rightarrow> (w, degraded (GroupFailed e))
                       | (w, None) \<Rightarrow>
                           (case moveAndVerify W deadline (idKey identity) main w of
                              (w, Some e) \<Rightarrow> (w, degraded e)
                            | (w, None) \<Rightarrow>
                                migrateRounds W deadline identity maxRounds
                                  \<lparr>mrState = StateTracked, mrMoved = [prPID main], mrSkipped = [], mrErr = None\<rparr> w)))))"

subsection \<open>The log of a migration\<close>

text \<open>
  To say what has been observed when, the world is extended by the list of the calls made on it and
  of their answers.
\<close>

datatype call =
    CallInspect int "proc_error + process"
  | CallListPIDs "proc_error + int list"
  | CallEnsure unitKey "group_error option"
  | CallMovePID unitKey int "group_error option"
  | CallPIDs unitKey "group_error + int list"

definition logging :: "('r \<Rightarrow> call) \<Rightarrow> ('w \<Rightarrow> 'w \<times> 'r) \<Rightarrow> 'w \<times> call list \<Rightarrow> ('w \<times> call list) \<times> 'r" where
  "logging ev f wl = (case f (fst wl) of (w, r) \<Rightarrow> ((w, snd wl @ [ev r]), r))"

definition logged :: "'w world \<Rightarrow> ('w \<times> call list) world" where
  "logged W =
     \<lparr>doInspect = \<lambda>pid. logging (CallInspect pid) (doInspect W pid),
      doListPIDs = logging CallListPIDs (doListPIDs W),
      doEnsure = \<lambda>key. logging (CallEnsure key) (doEnsure W key),
      doMovePID = \<lambda>key pid. logging (CallMovePID key pid) (doMovePID W key pid),
      doPIDs = \<lambda>key. logging (CallPIDs key) (doPIDs W key),
      doExpired = \<lambda>d (w, l). case doExpired W d w of (w', b) \<Rightarrow> ((w', l), b)\<rparr>"

text \<open>
  The evidence for a member: the process was inspected, moved, inspected again with the same start
  time and user, and then seen in the group, in four consecutive calls.
\<close>

definition evidence :: "unitKey \<Rightarrow> (process \<Rightarrow> bool) \<Rightarrow> call list \<Rightarrow> int \<Rightarrow> bool" where
  "evidence key ok l pid \<longleftrightarrow>
     (\<exists>a b p q pids. l = a @ [CallInspect pid (Inr p), CallMovePID key pid None,
         CallInspect pid (Inr q), CallPIDs key (Inr pids)] @ b \<and>
       prStartTime p = prStartTime q \<and> prUID p = prUID q \<and> ok p \<and> containsPID pids pid)"

lemma evidence_append: "evidence key ok l pid \<Longrightarrow> evidence key ok (l @ m) pid"
  unfolding evidence_def by (metis append.assoc)

lemma searchFrom_le: "i \<le> j \<Longrightarrow> searchFrom xs x i j \<le> j"
proof (induction xs x i j rule: searchFrom.induct)
  case (1 xs x i j)
  show ?case
  proof (cases "i < j")
    case True
    let ?h = "(i + j) div 2"
    have "searchFrom xs x (?h + 1) j \<le> j" if "\<not> x \<le> xs ! ?h"
      using "1.IH"(1) [OF True refl that] True by simp
    moreover have "searchFrom xs x i ?h \<le> j" if "x \<le> xs ! ?h"
      using "1.IH"(2) [OF True refl] that True by (simp add: le_trans [of _ ?h])
    ultimately show ?thesis using True by (subst searchFrom.simps) (simp add: Let_def)
  next
    case False
    with "1.prems" show ?thesis by (subst searchFrom.simps) simp
  qed
qed

lemma observed_containsPID:
  "\<not> (SearchInts pids pid = length pids \<or> pids ! SearchInts pids pid \<noteq> pid) \<longleftrightarrow> containsPID pids pid"
  using searchFrom_le [of 0 "length pids" pids pid] by (auto simp: containsPID_def SearchInts_def Let_def)

lemma logged_simps:
  "doInspect (logged W) pid (w, l) = (case doInspect W pid w of (w', r) \<Rightarrow> ((w', l @ [CallInspect pid r]), r))"
  "doListPIDs (logged W) (w, l) = (case doListPIDs W w of (w', r) \<Rightarrow> ((w', l @ [CallListPIDs r]), r))"
  "doEnsure (logged W) key (w, l) = (case doEnsure W key w of (w', r) \<Rightarrow> ((w', l @ [CallEnsure key r]), r))"
  "doMovePID (logged W) key pid (w, l) = (case doMovePID W key pid w of (w', r) \<Rightarrow> ((w', l @ [CallMovePID key pid r]), r))"
  "doPIDs (logged W) key (w, l) = (case doPIDs W key w of (w', r) \<Rightarrow> ((w', l @ [CallPIDs key r]), r))"
  "doExpired (logged W) d (w, l) = (case doExpired W d w of (w', b) \<Rightarrow> ((w', l), b))"
  by (simp_all add: logged_def logging_def)

lemma moveAndVerify_logged:
  assumes "moveAndVerify (logged W) d key before (w, l) = ((w', l'), e)"
  shows "\<exists>m. l' = l @ m"
    and "e = None \<Longrightarrow> prUID before = u \<Longrightarrow> prStartTime before = t \<Longrightarrow>
      evidence key (\<lambda>p. prUID p = u \<and> prStartTime p = t) l' (prPID before)"
proof -
  show "\<exists>m. l' = l @ m"
    using assms by (auto simp: moveAndVerify_def logged_simps Let_def split: prod.splits if_splits sum.splits option.splits)
  assume "e = None" "prUID before = u" "prStartTime before = t"
  with assms obtain p q pids where "l' = l @ [CallInspect (prPID before) (Inr p), CallMovePID key (prPID before) None,
      CallInspect (prPID before) (Inr q), CallPIDs key (Inr pids)]"
    "prUID p = u" "prStartTime p = t" "prUID q = u" "prStartTime q = t" "containsPID pids (prPID before)"
    by (auto simp: moveAndVerify_def logged_simps Let_def observed_containsPID [simplified] split: prod.splits if_splits sum.splits option.splits)
  then show "evidence key (\<lambda>p. prUID p = u \<and> prStartTime p = t) l' (prPID before)"
    unfolding evidence_def by force
qed

subsection \<open>Every reported member was observed\<close>

text \<open>The processes a migration may touch: in user mode only those of the user.\<close>

definition ownProcess :: "instanceIdentity \<Rightarrow> process \<Rightarrow> bool" where
  "ownProcess identity p \<longleftrightarrow> (keyMode (idKey identity) = ModeUser \<longrightarrow> prUID p = keyUID (idKey identity))"

lemma evidence_mono: "(\<And>p. ok p \<Longrightarrow> ok' p) \<Longrightarrow> evidence key ok l pid \<Longrightarrow> evidence key ok' l pid"
  unfolding evidence_def by metis

lemma snapshotLoop_logged:
  assumes "snapshotLoop (logged W) identity pids ps sk (w, l) = ((w', l'), ps', sk', e)"
    and "\<forall>p \<in> set ps. ownProcess identity p"
  shows "(\<exists>m. l' = l @ m) \<and> (\<forall>p \<in> set ps'. ownProcess identity p)"
  using assms
proof (induction pids arbitrary: ps sk w l)
  case Nil
  then show ?case by auto
next
  case (Cons pid pids)
  obtain w1 r where i: "doInspect W pid w = (w1, r)" by (cases "doInspect W pid w")
  show ?case
  proof (cases r)
    case (Inl x)
    with Cons.prems i Cons.IH show ?thesis by (fastforce simp: logged_simps split: if_splits)
  next
    case (Inr p)
    show ?thesis
    proof (cases "ownProcess identity p")
      case True
      with Cons.prems(1) i Inr have
        "snapshotLoop (logged W) identity pids (ps @ [p]) sk (w1, l @ [CallInspect pid r]) = ((w', l'), ps', sk', e)"
        by (auto simp: logged_simps ownProcess_def)
      from Cons.IH [OF this] True Cons.prems(2) show ?thesis by auto
    next
      case False
      with Cons.prems(1) i Inr have
        "snapshotLoop (logged W) identity pids ps (sk @ [(pid, UIDMismatch)]) (w1, l @ [CallInspect pid r]) = ((w', l'), ps', sk', e)"
        by (auto simp: logged_simps ownProcess_def)
      from Cons.IH [OF this Cons.prems(2)] show ?thesis by auto
    qed
  qed
qed

lemma processSnapshot_logged:
  assumes "processSnapshot (logged W) identity (w, l) = ((w', l'), ps, sk, e)"
  shows "\<exists>m. l' = l @ m" and "p \<in> set ps \<Longrightarrow> ownProcess identity p"
proof -
  obtain w1 r where r: "doListPIDs W w = (w1, r)" by (cases "doListPIDs W w")
  have "(\<exists>m. l' = l @ m) \<and> (\<forall>p \<in> set ps. ownProcess identity p)"
  proof (cases r)
    case (Inl x)
    with assms r show ?thesis by (auto simp: processSnapshot_def logged_simps)
  next
    case (Inr pids)
    with assms r have "snapshotLoop (logged W) identity pids [] [] (w1, l @ [CallListPIDs (Inr pids)]) = ((w', l'), ps, sk, e)"
      by (simp add: processSnapshot_def logged_simps)
    from snapshotLoop_logged [OF this] show ?thesis by auto
  qed
  then show "\<exists>m. l' = l @ m" and "p \<in> set ps \<Longrightarrow> ownProcess identity p" by auto
qed

lemma byPID_member:
  assumes "pid \<in> set (map prPID ps)"
  shows "prPID (byPID ps pid) = pid \<and> byPID ps pid \<in> set ps"
proof (cases "List.find (\<lambda>p. prPID p = pid) (rev ps)")
  case None
  with assms show ?thesis by (auto simp: find_None_iff)
next
  case (Some p)
  then obtain i where "i < length (rev ps)" "prPID (rev ps ! i) = pid" "p = rev ps ! i"
    by (auto simp: find_Some_iff)
  moreover from this have "p \<in> set ps" by (metis nth_mem set_rev)
  ultimately show ?thesis using Some by (simp add: byPID_def)
qed

lemma Descendants_in_snapshot:
  assumes "pid \<in> set (Descendants root ps)"
  shows "pid \<in> set (map prPID ps)"
proof -
  have "set (Descendants root ps) \<subseteq> (parentOf root ps)\<^sup>+ `` {root}"
    using Descendants_set [of root ps] by (auto simp: rtrancl_eq_or_trancl)
  with assms have "(root, pid) \<in> (parentOf root ps)\<^sup>+" by blast
  then show ?thesis by (cases rule: trancl.cases) (auto simp: parentOf_def)
qed

definition movedOK :: "instanceIdentity \<Rightarrow> migrationResult \<Rightarrow> call list \<Rightarrow> bool" where
  "movedOK identity res l \<longleftrightarrow> (\<forall>pid \<in> set (mrMoved res). evidence (idKey identity) (ownProcess identity) l pid)"

lemma movedOK_append: "movedOK identity res l \<Longrightarrow> movedOK identity res (l @ m)"
  by (simp add: movedOK_def evidence_append)

lemma moveAll_logged:
  assumes "moveAll (logged W) d (idKey identity) ps pids res (w, l) = ((w', l'), res', done)"
    and "\<forall>p \<in> set ps. ownProcess identity p" and "set pids \<subseteq> set (map prPID ps)"
    and "movedOK identity res l"
  shows "movedOK identity res' l' \<and> set (mrMoved res) \<subseteq> set (mrMoved res')"
  using assms
proof (induction pids arbitrary: res w l)
  case Nil
  then show ?case by auto
next
  case (Cons pid pids)
  let ?p = "byPID ps pid"
  obtain w1 l1 e where m: "moveAndVerify (logged W) d (idKey identity) ?p (w, l) = ((w1, l1), e)"
    by (metis prod.collapse)
  from moveAndVerify_logged(1) [OF m] Cons.prems(4) have kept: "movedOK identity res l1"
    by (auto intro: movedOK_append)
  show ?case
  proof (cases e)
    case (Some x)
    with Cons.prems m kept Cons.IH [of "res\<lparr>mrSkipped := mrSkipped res @ [(pid, x)]\<rparr>" w1 l1]
    show ?thesis by (auto simp: movedOK_def split: if_splits)
  next
    case None
    from byPID_member [of pid ps] Cons.prems(2,3) have p: "prPID ?p = pid" "ownProcess identity ?p" by auto
    have "evidence (idKey identity) (ownProcess identity) l1 pid"
      using moveAndVerify_logged(2) [OF m None refl refl] p
      by (auto intro: evidence_mono [rotated] simp: ownProcess_def)
    with kept have "movedOK identity (res\<lparr>mrMoved := mrMoved res @ [pid]\<rparr>) l1" by (simp add: movedOK_def)
    with Cons.prems m None Cons.IH [of "res\<lparr>mrMoved := mrMoved res @ [pid]\<rparr>" w1 l1]
    show ?thesis by auto
  qed
qed

lemma moveAll_state:
  "moveAll W d key ps pids res w = (w', res', done) \<Longrightarrow>
   if done then mrState res' = StatePartial \<and> mrErr res' = Some ContextDone
   else mrState res' = mrState res \<and> mrErr res' = mrErr res"
proof (induction pids arbitrary: res w)
  case (Cons pid pids)
  show ?case
  proof (cases "moveAndVerify W d key (byPID ps pid) w")
    case (Pair w1 e)
    with Cons.prems show ?thesis
      by (cases e) (fastforce dest: Cons.IH split: if_splits)+
  qed
qed auto

lemma migrateRounds_logged:
  assumes "migrateRounds (logged W) d identity n res (w, l) = ((w', l'), res')"
    and "movedOK identity res l" and "mrState res = StateTracked" "mrErr res = None"
  shows "movedOK identity res' l' \<and> set (mrMoved res) \<subseteq> set (mrMoved res') \<and>
    (mrErr res' = None \<longleftrightarrow> mrState res' = StateTracked) \<and>
    (mrState res' = StateTracked \<longrightarrow>
      (\<exists>wl ps sk. processSnapshot (logged W) identity wl = ((w', l'), ps, sk, None) \<and>
        set (Descendants (idMainPID identity) ps) \<subseteq> set (mrMoved res')))"
  using assms
proof (induction n arbitrary: res w l)
  case 0
  then show ?case by (auto simp: movedOK_def)
next
  case (Suc n)
  obtain w1 expired where ex: "doExpired W d w = (w1, expired)" by (cases "doExpired W d w")
  obtain w2 l2 ps sk err where snap: "processSnapshot (logged W) identity (w1, l) = ((w2, l2), ps, sk, err)"
    by (metis prod.collapse)
  let ?res1 = "res\<lparr>mrSkipped := mrSkipped res @ sk\<rparr>"
  let ?new = "filter (\<lambda>pid. pid \<notin> set (mrMoved res)) (Descendants (idMainPID identity) ps)"
  have ok1: "movedOK identity ?res1 l2"
    using Suc.prems(2) processSnapshot_logged(1) [OF snap] by (auto simp: movedOK_def evidence_append)
  show ?case
  proof (cases "expired \<or> err \<noteq> None \<or> ?new = []")
    case True
    with Suc.prems ex snap ok1 show ?thesis
      by (cases expired; cases err)
         (auto simp: logged_simps Let_def movedOK_def filter_empty_conv, blast)
  next
    case False
    obtain w3 l3 res2 dn where mv:
      "moveAll (logged W) d (idKey identity) ps ?new ?res1 (w2, l2) = ((w3, l3), res2, dn)" by (metis prod.collapse)
    have "set ?new \<subseteq> set (map prPID ps)" using Descendants_in_snapshot by auto
    with moveAll_logged [OF mv] processSnapshot_logged(2) [OF snap] ok1
    have ok2: "movedOK identity res2 l3" "set (mrMoved res) \<subseteq> set (mrMoved res2)" by auto
    note st = moveAll_state [OF mv]
    from False Suc.prems(1) ex snap mv
    have eq: "(if dn then ((w3, l3), res2) else migrateRounds (logged W) d identity n res2 (w3, l3)) = ((w', l'), res')"
      by (auto simp: logged_simps Let_def split: bool.splits)
    show ?thesis
    proof (cases dn)
      case True
      with eq st ok2 show ?thesis by auto
    next
      case False
      with eq st Suc.prems(3,4) Suc.IH [of res2 w3 l3] ok2 show ?thesis by auto
    qed
  qed
qed

lemma Migrate_rounds:
  assumes "mgWorld m = Some (logged W)" and "Migrate m identity (w, []) = ((w', l'), r)"
  shows "(mrMoved r = [] \<and> mrErr r \<noteq> None \<and> mrState r = StateDegraded) \<or>
    (\<exists>main n d w1 l1.
      evidence (idKey identity) (\<lambda>p. ownProcess identity p \<and> prStartTime p = idStartTime identity) l1 (prPID main) \<and>
      (\<exists>w0 w0'. doInspect W (idMainPID identity) w0 = (w0', Inr main)) \<and> validateIdentity identity = Inr () \<and>
      migrateRounds (logged W) d identity n
        \<lparr>mrState = StateTracked, mrMoved = [prPID main], mrSkipped = [], mrErr = None\<rparr> (w1, l1) = ((w', l'), r))"
proof (cases "validateIdentity identity")
  case Inl
  with assms show ?thesis by (auto simp: Migrate_def degraded_def)
next
  case valid: (Inr u)
  obtain w1 x where insp: "doInspect W (idMainPID identity) w = (w1, x)" by (cases "doInspect W (idMainPID identity) w")
  show ?thesis
  proof (cases x)
    case Inl
    with assms valid insp show ?thesis by (auto simp: Migrate_def degraded_def logged_simps Let_def)
  next
    case main: (Inr main)
    let ?d = "if mgDeadline m \<le> 0 then 250000000 else mgDeadline m"
    let ?l1 = "[CallInspect (idMainPID identity) (Inr main)]"
    obtain w2 e where ens: "doEnsure W (idKey identity) w1 = (w2, e)" by (cases "doEnsure W (idKey identity) w1")
    obtain w3 l3 e' where mv:
      "moveAndVerify (logged W) ?d (idKey identity) main (w2, ?l1 @ [CallEnsure (idKey identity) None]) = ((w3, l3), e')"
      by (metis prod.collapse)
    show ?thesis
    proof (cases "prStartTime main = idStartTime identity \<and> ownProcess identity main \<and> e = None \<and> e' = None")
      case False
      with assms valid insp main ens mv show ?thesis
        by (auto simp: Migrate_def degraded_def logged_simps Let_def ownProcess_def split: if_splits option.splits)
    next
      case True
      with moveAndVerify_logged(2) [OF mv _ refl refl]
      have "evidence (idKey identity) (\<lambda>p. ownProcess identity p \<and> prStartTime p = idStartTime identity) l3 (prPID main)"
        by (auto intro: evidence_mono [rotated] simp: ownProcess_def)
      moreover from True assms valid insp main ens mv have
        "\<exists>n. migrateRounds (logged W) ?d identity n
          \<lparr>mrState = StateTracked, mrMoved = [prPID main], mrSkipped = [], mrErr = None\<rparr> (w3, l3) = ((w', l'), r)"
        by (auto simp: Migrate_def logged_simps Let_def ownProcess_def)
      ultimately show ?thesis using valid insp main by (cases u) blast
    qed
  qed
qed

lemma Migrate_summary:
  assumes "mgWorld m = Some (logged W)" and "Migrate m identity (w, []) = ((w', l), r)"
  shows "movedOK identity r l \<and> (mrErr r = None \<longleftrightarrow> mrState r = StateTracked) \<and>
    (mrState r = StateTracked \<longrightarrow>
      (\<exists>wl ps sk. processSnapshot (logged W) identity wl = ((w', l), ps, sk, None) \<and>
        set (Descendants (idMainPID identity) ps) \<subseteq> set (mrMoved r)))"
proof (cases "mrMoved r = [] \<and> mrErr r \<noteq> None \<and> mrState r = StateDegraded")
  case True
  then show ?thesis by (auto simp: movedOK_def)
next
  case False
  with Migrate_rounds [OF assms] obtain main :: process and n d w1 l1 where
    ev: "evidence (idKey identity) (\<lambda>p. ownProcess identity p \<and> prStartTime p = idStartTime identity) l1 (prPID main)"
    and run: "migrateRounds (logged W) d identity n
      \<lparr>mrState = StateTracked, mrMoved = [prPID main], mrSkipped = [], mrErr = None\<rparr> (w1, l1) = ((w', l), r)"
    by blast
  from ev have "evidence (idKey identity) (ownProcess identity) l1 (prPID main)"
    by (auto intro: evidence_mono [rotated])
  with migrateRounds_logged [OF run] show ?thesis by (auto simp: movedOK_def)
qed

text \<open>
  Property C5. No process is reported as moved on trust: for every PID in the result, the log of the
  migration holds an inspection, the move, a second inspection with the same start time and user,
  and a reading of the group's members that contains the PID, one right after the other; and in
  user mode the process belonged to that user.
\<close>

theorem Migrate_moved_observed:
  assumes "mgWorld m = Some (logged W)" and "Migrate m identity (w, []) = ((w', l), r)"
    and "pid \<in> set (mrMoved r)"
  shows "evidence (idKey identity) (ownProcess identity) l pid"
  using Migrate_summary [OF assms(1,2)] assms(3) by (simp add: movedOK_def)

text \<open>
  Fact. A migration reports \<open>tracked\<close> exactly when it reports no error, and then it is
  complete: the last thing it did was a snapshot of the processes in which every descendant of the
  main process had already been moved.
\<close>

theorem Migrate_tracked_complete:
  assumes "mgWorld m = Some (logged W)" and "Migrate m identity (w, []) = ((w', l), r)"
  shows "(mrErr r = None \<longleftrightarrow> mrState r = StateTracked) \<and>
    (mrState r = StateTracked \<longrightarrow>
      (\<exists>wl ps sk. processSnapshot (logged W) identity wl = ((w', l), ps, sk, None) \<and>
        set (Descendants (idMainPID identity) ps) \<subseteq> set (mrMoved r)))"
  using Migrate_summary [OF assms] by simp

subsection \<open>A world with two processes\<close>

definition procOf :: "int \<Rightarrow> int \<Rightarrow> process" where
  "procOf pid ppid = \<lparr>prPID = pid, prPPID = ppid, prUID = 0, prStartTime = 7, prState = CHR ''S'', prComm = ''d'', prCgroup = ''/''\<rparr>"

text \<open>The state is the list of the members of the group; process 11 is a child of 10.\<close>

definition twoProcesses :: "int list world" where
  "twoProcesses =
     \<lparr>doInspect = \<lambda>pid g. (g, if pid = 10 then Inr (procOf 10 1) else if pid = 11 then Inr (procOf 11 10)
          else Inl (OSFailure NotExist)),
      doListPIDs = \<lambda>g. (g, Inr [10, 11]),
      doEnsure = \<lambda>_ g. (g, None),
      doMovePID = \<lambda>_ pid g. (sort (remdups (pid # g)), None),
      doPIDs = \<lambda>_ g. (g, Inr g),
      doExpired = \<lambda>_ g. (g, False)\<rparr>"

definition systemIdentity :: instanceIdentity where
  "systemIdentity = \<lparr>idKey = \<lparr>keyMode = ''system'', keyUID = 0, keyUnit = ''foo.service''\<rparr>, idBootID = ''b'',
     idMainPID = 10, idStartTime = 7, idEpoch = ''e'', idGeneration = 1\<rparr>"

definition twoMigrator :: "(int list \<times> call list) migrator" where
  "twoMigrator = \<lparr>mgWorld = Some (logged twoProcesses), mgMaxRounds = 0, mgDeadline = 0\<rparr>"

lemma systemIdentity_valid: "validateIdentity systemIdentity = Inr ()"
  by (simp add: validateIdentity_def systemIdentity_def key_eval space_eval)

lemma two_result:
  "snd (Migrate twoMigrator systemIdentity ([], [])) =
     \<lparr>mrState = ''tracked'', mrMoved = [10, 11], mrSkipped = [], mrErr = None\<rparr>"
  by code_simp

lemma two_run:
  "Migrate twoMigrator systemIdentity ([], []) =
     ((fst (fst (Migrate twoMigrator systemIdentity ([], []))), snd (fst (Migrate twoMigrator systemIdentity ([], [])))),
      snd (Migrate twoMigrator systemIdentity ([], [])))"
  by simp

theorem Migrate_moved_observed_witness:
  "evidence (idKey systemIdentity) (ownProcess systemIdentity)
     (snd (fst (Migrate twoMigrator systemIdentity ([], [])))) 11"
  using Migrate_moved_observed [OF _ two_run, of twoProcesses 11] two_result by (simp add: twoMigrator_def)

theorem Migrate_tracked_complete_witness:
  "\<exists>wl ps sk. processSnapshot (logged twoProcesses) systemIdentity wl =
      (fst (Migrate twoMigrator systemIdentity ([], [])), ps, sk, None) \<and>
    set (Descendants 10 ps) \<subseteq> set [10, 11]"
  using Migrate_tracked_complete [OF _ two_run, of twoProcesses] two_result
  by (simp add: twoMigrator_def systemIdentity_def)

end
