(* ===== verification/Cgroup_FS.thy ===== *)
theory Cgroup_FS
  imports Cgroup_Migrate
begin

text \<open>
  The cgroup file system of the daemon (\<open>internal/cgrouptrack/cgroupfs.go\<close>, \<open>PrepareNative\<close> of
  \<open>internal/cgrouptrack/native.go\<close>). The system calls are a record of operations on the state of the
  kernel. A directory descriptor is identified with the path below the root by which it was opened:
  every descriptor is obtained from the root's by \<open>openat2\<close> with one component at a time, beneath
  its parent and without following links.
\<close>

subsection \<open>System calls\<close>

record dirEntry =
  deName :: string
  deIsDir :: bool
  deSymlink :: bool

record 'w syscalls =
  sysDup :: "'w \<Rightarrow> 'w \<times> os_error option"
  sysMkdir :: "string list \<Rightarrow> string \<Rightarrow> 'w \<Rightarrow> 'w \<times> os_error option"
  sysOpenDir :: "string list \<Rightarrow> string \<Rightarrow> 'w \<Rightarrow> 'w \<times> os_error option"
  sysReadProcs :: "string list \<Rightarrow> 'w \<Rightarrow> 'w \<times> (os_error + string)"
  sysWriteProcs :: "string list \<Rightarrow> string \<Rightarrow> 'w \<Rightarrow> 'w \<times> os_error option"
  sysRmdir :: "string list \<Rightarrow> string \<Rightarrow> 'w \<Rightarrow> 'w \<times> os_error option"
  sysRename :: "string list \<Rightarrow> string \<Rightarrow> string \<Rightarrow> 'w \<Rightarrow> 'w \<times> os_error option"
  sysReadDir :: "string list \<Rightarrow> 'w \<Rightarrow> 'w \<times> (os_error + dirEntry list)"
  sysReplaceProcs :: "string list \<Rightarrow> string \<Rightarrow> 'w \<Rightarrow> 'w \<times> os_error option"
  sysRemoveProcs :: "string list \<Rightarrow> 'w \<Rightarrow> 'w"
  sysDelegate :: "string list \<Rightarrow> uint32 \<Rightarrow> 'w \<Rightarrow> 'w \<times> os_error option"

record cgroupFS =
  fsRoot :: string
  fsSynthetic :: bool

subsection \<open>Walking the components\<close>

fun ensureFrom :: "'w syscalls \<Rightarrow> string list \<Rightarrow> string list \<Rightarrow> 'w \<Rightarrow> 'w \<times> (os_error + string list)" where
  "ensureFrom S current [] w = (w, Inr current)"
| "ensureFrom S current (c # cs) w =
     (case sysMkdir S current c w of
        (w, e) \<Rightarrow>
          if e \<noteq> None \<and> e \<noteq> Some Exist then (w, Inl (the e))
          else case sysOpenDir S current c w of
            (w, Some e) \<Rightarrow> (w, Inl e)
          | (w, None) \<Rightarrow> ensureFrom S (current @ [c]) cs w)"

definition ensureComponentsLocked :: "'w syscalls \<Rightarrow> string list \<Rightarrow> 'w \<Rightarrow> 'w \<times> (os_error + string list)" where
  "ensureComponentsLocked S components w =
     (case sysDup S w of
        (w, Some e) \<Rightarrow> (w, Inl e)
      | (w, None) \<Rightarrow> ensureFrom S [] components w)"

fun openFrom :: "'w syscalls \<Rightarrow> string list \<Rightarrow> string list \<Rightarrow> 'w \<Rightarrow> 'w \<times> (os_error + string list)" where
  "openFrom S current [] w = (w, Inr current)"
| "openFrom S current (c # cs) w =
     (case sysOpenDir S current c w of
        (w, Some e) \<Rightarrow> (w, Inl e)
      | (w, None) \<Rightarrow> openFrom S (current @ [c]) cs w)"

definition openComponents :: "'w syscalls \<Rightarrow> string list \<Rightarrow> 'w \<Rightarrow> 'w \<times> (os_error + string list)" where
  "openComponents S components w =
     (case sysDup S w of
        (w, Some e) \<Rightarrow> (w, Inl e)
      | (w, None) \<Rightarrow> openFrom S [] components w)"

definition openGroupLocked :: "'w syscalls \<Rightarrow> unitKey \<Rightarrow> 'w \<Rightarrow> 'w \<times> (group_error + string list)" where
  "openGroupLocked S key w =
     (case groupComponents key of
        Inl e \<Rightarrow> (w, Inl (GroupKey e))
      | Inr components \<Rightarrow>
          (case openComponents S components w of
             (w, Inl e) \<Rightarrow> (w, Inl (GroupOS e))
           | (w, Inr leaf) \<Rightarrow> (w, Inr leaf)))"

definition openParentLocked :: "'w syscalls \<Rightarrow> string list \<Rightarrow> 'w \<Rightarrow> 'w \<times> (os_error + string list)" where
  "openParentLocked S components w = openComponents S (butlast components) w"

subsection \<open>Members\<close>

definition readLimited :: "nat \<Rightarrow> string \<Rightarrow> group_error + string" where
  "readLimited maximum data =
     (if length data > maximum then Inl (GroupProcs FileTooLarge) else Inr data)"

definition readMembers :: "'w syscalls \<Rightarrow> string list \<Rightarrow> 'w \<Rightarrow> 'w \<times> (group_error + int list)" where
  "readMembers S leaf w =
     (case sysReadProcs S leaf w of
        (w, Inl e) \<Rightarrow> (w, Inl (GroupOS e))
      | (w, Inr data) \<Rightarrow>
          (w, bind_err (readLimited 8388608 data) (\<lambda>d.
                case parsePIDs d of Inl e \<Rightarrow> Inl (GroupProcs e) | Inr pids \<Rightarrow> Inr pids)))"

definition pidsLocked :: "'w syscalls \<Rightarrow> unitKey \<Rightarrow> 'w \<Rightarrow> 'w \<times> (group_error + int list)" where
  "pidsLocked S key w =
     (case openGroupLocked S key w of
        (w, Inl e) \<Rightarrow> (w, Inl e)
      | (w, Inr leaf) \<Rightarrow> readMembers S leaf w)"

definition pidsAtComponentsLocked :: "'w syscalls \<Rightarrow> string list \<Rightarrow> 'w \<Rightarrow> 'w \<times> (group_error + int list)" where
  "pidsAtComponentsLocked S components w =
     (case openComponents S components w of
        (w, Inl e) \<Rightarrow> (w, Inl (GroupOS e))
      | (w, Inr leaf) \<Rightarrow> readMembers S leaf w)"

definition writePIDAt :: "'w syscalls \<Rightarrow> string list \<Rightarrow> int \<Rightarrow> 'w \<Rightarrow> 'w \<times> group_error option" where
  "writePIDAt S leaf pid w =
     (case sysWriteProcs S leaf (itoa pid @ [CHR 0x0A]) w of (w, e) \<Rightarrow> (w, map_option GroupOS e))"

subsection \<open>The operations\<close>

definition Ensure :: "'w syscalls \<Rightarrow> unitKey \<Rightarrow> 'w \<Rightarrow> 'w \<times> group_error option" where
  "Ensure S key w =
     (case groupComponents key of
        Inl e \<Rightarrow> (w, Some (GroupKey e))
      | Inr components \<Rightarrow>
          (case ensureComponentsLocked S components w of
             (w, Inl e) \<Rightarrow> (w, Some (GroupOS e))
           | (w, Inr _) \<Rightarrow> (w, None)))"

definition MovePID :: "'w syscalls \<Rightarrow> unitKey \<Rightarrow> int \<Rightarrow> 'w \<Rightarrow> 'w \<times> group_error option" where
  "MovePID S key pid w =
     (if pid \<le> 0 then (w, Some (GroupProcs PIDNotPositive))
      else case openGroupLocked S key w of
        (w, Inl e) \<Rightarrow> (w, Some e)
      | (w, Inr leaf) \<Rightarrow> writePIDAt S leaf pid w)"

definition PIDs :: "'w syscalls \<Rightarrow> unitKey \<Rightarrow> 'w \<Rightarrow> 'w \<times> (group_error + int list)" where
  "PIDs S key w = pidsLocked S key w"

definition RemoveIfEmpty :: "'w syscalls \<Rightarrow> cgroupFS \<Rightarrow> unitKey \<Rightarrow> 'w \<Rightarrow> 'w \<times> (group_error + bool)" where
  "RemoveIfEmpty S f key w =
     (case groupComponents key of
        Inl e \<Rightarrow> (w, Inl (GroupKey e))
      | Inr components \<Rightarrow>
          (case pidsLocked S key w of
             (w, Inl e) \<Rightarrow> (w, if e = GroupOS NotExist then Inr True else Inl e)
           | (w, Inr pids) \<Rightarrow>
               if pids \<noteq> [] then (w, Inr False)
               else
                 let w = (if fsSynthetic f then sysRemoveProcs S components w else w) in
                 (case openParentLocked S components w of
                    (w, Inl e) \<Rightarrow> (w, Inl (GroupOS e))
                  | (w, Inr parent) \<Rightarrow>
                      (case sysRmdir S parent (last components) w of
                         (w, None) \<Rightarrow> (w, Inr True)
                       | (w, Some NotExist) \<Rightarrow> (w, Inr True)
                       | (w, Some NotEmpty) \<Rightarrow> (w, Inr False)
                       | (w, Some Busy) \<Rightarrow> (w, Inr False)
                       | (w, Some e) \<Rightarrow> (w, Inl (GroupOS e))))))"

fun movePIDsTo :: "'w syscalls \<Rightarrow> string list \<Rightarrow> int list \<Rightarrow> 'w \<Rightarrow> 'w \<times> group_error option" where
  "movePIDsTo S leaf [] w = (w, None)"
| "movePIDsTo S leaf (pid # pids) w =
     (case writePIDAt S leaf pid w of
        (w, Some e) \<Rightarrow> (w, Some e)
      | (w, None) \<Rightarrow> movePIDsTo S leaf pids w)"

text \<open>The transfer of the members: rewritten files on a synthetic tree, \<open>cgroup.procs\<close> writes otherwise.\<close>

definition transferMembers ::
  "'w syscalls \<Rightarrow> cgroupFS \<Rightarrow> unitKey \<Rightarrow> string list \<Rightarrow> string list \<Rightarrow> string list \<Rightarrow> int list \<Rightarrow> 'w \<Rightarrow>
   'w \<times> group_error option" where
  "transferMembers S f key components legacy leaf pids w =
     (if fsSynthetic f then
        (case pidsLocked S key w of
           (w, Inl e) \<Rightarrow> (w, Some e)
         | (w, Inr current) \<Rightarrow>
             let all = compactPIDs (sort (current @ pids));
                 data = concat (map (\<lambda>pid. itoa pid @ [CHR 0x0A]) all)
             in (case sysReplaceProcs S components data w of
                   (w, Some e) \<Rightarrow> (w, Some (GroupOS e))
                 | (w, None) \<Rightarrow>
                     (case sysReplaceProcs S legacy [] w of (w, e) \<Rightarrow> (w, map_option GroupOS e))))
      else movePIDsTo S leaf pids w)"

definition MigrateLegacy :: "'w syscalls \<Rightarrow> cgroupFS \<Rightarrow> unitKey \<Rightarrow> 'w \<Rightarrow> 'w \<times> group_error option" where
  "MigrateLegacy S f key w =
     (case (groupComponents key, legacyGroupComponents key) of
        (Inl e, _) \<Rightarrow> (w, Some (GroupKey e))
      | (Inr _, Inl e) \<Rightarrow> (w, Some (GroupKey e))
      | (Inr components, Inr legacy) \<Rightarrow>
          (case openParentLocked S components w of
             (w, Inl NotExist) \<Rightarrow> (w, None)
           | (w, Inl e) \<Rightarrow> (w, Some (GroupOS e))
           | (w, Inr parent) \<Rightarrow>
               (case sysRename S parent (last legacy) (last components) w of
                  (w, None) \<Rightarrow> (w, None)
                | (w, Some NotExist) \<Rightarrow> (w, None)
                | (w, Some Exist) \<Rightarrow>
                    (case pidsAtComponentsLocked S legacy w of
                       (w, Inl e) \<Rightarrow> (w, if e = GroupOS NotExist then None else Some e)
                     | (w, Inr pids) \<Rightarrow>
                         (case openGroupLocked S key w of
                            (w, Inl e) \<Rightarrow> (w, Some e)
                          | (w, Inr leaf) \<Rightarrow>
                              (case transferMembers S f key components legacy leaf pids w of
                                 (w, Some e) \<Rightarrow> (w, Some e)
                               | (w, None) \<Rightarrow>
                                   (case pidsAtComponentsLocked S legacy w of
                                      (w, r) \<Rightarrow>
                                        (case r of
                                           Inl e \<Rightarrow>
                                             if e \<noteq> GroupOS NotExist then (w, Some e)
                                             else (case sysRmdir S parent (last legacy)
                                                 (if fsSynthetic f then sysRemoveProcs S legacy w else w) of
                                               (w, e) \<Rightarrow> (w, map_option GroupOS e))
                                         | Inr remaining \<Rightarrow>
                                             if remaining \<noteq> []
                                             then (w, Some (GroupUnavailable
                                               ''legacy cgroup remained populated after migration''))
                                             else (case sysRmdir S parent (last legacy)
                                                 (if fsSynthetic f then sysRemoveProcs S legacy w else w) of
                                               (w, e) \<Rightarrow> (w, map_option GroupOS e)))))))
                | (w, Some e) \<Rightarrow> (w, Some (GroupOS e)))))"

definition Path :: "cgroupFS \<Rightarrow> unitKey \<Rightarrow> string" where
  "Path f key =
     (case groupComponents key of Inl _ \<Rightarrow> '''' | Inr components \<Rightarrow> path_join (fsRoot f # components))"

fun delegateAll :: "'w syscalls \<Rightarrow> uint32 \<Rightarrow> string list list \<Rightarrow> 'w \<Rightarrow> 'w \<times> group_error option" where
  "delegateAll S uid [] w = (w, None)"
| "delegateAll S uid (parts # rest) w =
     (case ensureComponentsLocked S parts w of
        (w, Inl e) \<Rightarrow> (w, Some (GroupOS e))
      | (w, Inr dir) \<Rightarrow>
          (case sysDelegate S dir uid w of
             (w, Some e) \<Rightarrow> (w, Some (GroupOS e))
           | (w, None) \<Rightarrow> delegateAll S uid rest w))"

definition PrepareNative :: "'w syscalls \<Rightarrow> unitKey \<Rightarrow> 'w \<Rightarrow> 'w \<times> group_error option" where
  "PrepareNative S key w =
     (case Ensure S key w of
        (w, Some e) \<Rightarrow> (w, Some e)
      | (w, None) \<Rightarrow>
          if keyMode key \<noteq> ModeUser \<or> keyUID key = 0 then (w, None)
          else case groupComponents key of
            Inl e \<Rightarrow> (w, Some (GroupKey e))
          | Inr components \<Rightarrow> delegateAll S (keyUID key) [take 2 components, components] w)"

subsection \<open>Scanning\<close>

definition realDirectory :: "dirEntry \<Rightarrow> bool" where
  "realDirectory e \<longleftrightarrow> deIsDir e \<and> \<not> deSymlink e"

fun scanUnits ::
  "'w syscalls \<Rightarrow> string \<Rightarrow> uint32 \<Rightarrow> dirEntry list \<Rightarrow> 'w \<Rightarrow> 'w \<times> (unitKey \<times> int list) list" where
  "scanUnits S mode uid [] w = (w, [])"
| "scanUnits S mode uid (e # es) w =
     (if \<not> realDirectory e then scanUnits S mode uid es w
      else case DecodeUnitDirectory mode uid (deName e) of
        Inl _ \<Rightarrow> scanUnits S mode uid es w
      | Inr key \<Rightarrow>
          (case PIDs S key w of
             (w, Inl _) \<Rightarrow> scanUnits S mode uid es w
           | (w, Inr pids) \<Rightarrow>
               (case scanUnits S mode uid es w of (w, rest) \<Rightarrow> (w, (key, pids) # rest))))"

fun scanUsers :: "'w syscalls \<Rightarrow> dirEntry list \<Rightarrow> 'w \<Rightarrow> 'w \<times> (unitKey \<times> int list) list" where
  "scanUsers S [] w = (w, [])"
| "scanUsers S (e # es) w =
     (case (if realDirectory e then parse_uint 32 (deName e) else None) of
        None \<Rightarrow> scanUsers S es w
      | Some uid \<Rightarrow>
          if utoa uid \<noteq> deName e then scanUsers S es w
          else case sysReadDir S [''user'', deName e] w of
            (w, Inl _) \<Rightarrow> scanUsers S es w
          | (w, Inr units) \<Rightarrow>
              (case scanUnits S ModeUser (of_nat uid) units w of
                 (w, gs) \<Rightarrow> (case scanUsers S es w of (w, rest) \<Rightarrow> (w, gs @ rest))))"

definition keyLess :: "unitKey \<Rightarrow> unitKey \<Rightarrow> bool" where
  "keyLess a b =
     (if keyMode a \<noteq> keyMode b then keyMode a < keyMode b
      else if keyUID a \<noteq> keyUID b then keyUID a < keyUID b
      else keyUnit a < keyUnit b)"

definition entriesOrEmpty :: "os_error + dirEntry list \<Rightarrow> os_error + dirEntry list" where
  "entriesOrEmpty r = (case r of Inl NotExist \<Rightarrow> Inr [] | _ \<Rightarrow> r)"

definition Scan :: "'w syscalls \<Rightarrow> 'w \<Rightarrow> 'w \<times> (group_error + (unitKey \<times> int list) list)" where
  "Scan S w =
     (case sysReadDir S [''system''] w of
        (w, r) \<Rightarrow>
          (case entriesOrEmpty r of
             Inl e \<Rightarrow> (w, Inl (GroupOS e))
           | Inr systemEntries \<Rightarrow>
               (case scanUnits S ModeSystem 0 systemEntries w of
                  (w, gs) \<Rightarrow>
                    (case sysReadDir S [''user''] w of
                       (w, r) \<Rightarrow>
                         (case entriesOrEmpty r of
                            Inl e \<Rightarrow> (w, Inl (GroupOS e))
                          | Inr userEntries \<Rightarrow>
                              (case scanUsers S userEntries w of
                                 (w, us) \<Rightarrow> (w, Inr (sort_slice (\<lambda>a b. keyLess (fst a) (fst b)) (gs @ us)))))))))"

subsection \<open>What a scan returns\<close>

lemma scanUnits_keys:
  "kp \<in> set (snd (scanUnits S mode uid es w)) \<Longrightarrow>
   validateKey (fst kp) = Inr () \<and> keyMode (fst kp) = mode \<and> keyUID (fst kp) = uid"
proof (induction es arbitrary: w)
  case (Cons e es)
  have dec: "validateKey k = Inr () \<and> keyMode k = mode \<and> keyUID k = uid"
    if "DecodeUnitDirectory mode uid (deName e) = Inr k" for k
    using that by (auto simp: DecodeUnitDirectory_def Let_def bind_err_Inr_iff split: if_splits)
  show ?case
  proof (cases "\<not> realDirectory e \<or> (\<exists>x. DecodeUnitDirectory mode uid (deName e) = Inl x)")
    case True
    then have "scanUnits S mode uid (e # es) w = scanUnits S mode uid es w" by auto
    with Cons show ?thesis by (simp only:)
  next
    case False
    then obtain k where k: "realDirectory e" "DecodeUnitDirectory mode uid (deName e) = Inr k"
      by (cases "DecodeUnitDirectory mode uid (deName e)") auto
    obtain w1 r where r: "PIDs S k w = (w1, r)" by (cases "PIDs S k w")
    obtain w2 rest where rest: "scanUnits S mode uid es w1 = (w2, rest)" by (cases "scanUnits S mode uid es w1")
    from Cons.IH [of w1] dec [OF k(2)] Cons.prems k r rest show ?thesis by (cases r) auto
  qed
qed simp

lemma scanUsers_keys:
  "kp \<in> set (snd (scanUsers S es w)) \<Longrightarrow> validateKey (fst kp) = Inr () \<and> keyMode (fst kp) = ModeUser"
proof (induction es arbitrary: w)
  case (Cons e es)
  let ?uid = "if realDirectory e then parse_uint 32 (deName e) else None"
  obtain w1 r where r: "sysReadDir S [''user'', deName e] w = (w1, r)" by (cases "sysReadDir S [''user'', deName e] w")
  consider (skip) w2 where "scanUsers S (e # es) w = scanUsers S es w2"
    | (user) uid units where "?uid = Some uid" "utoa uid = deName e" "r = Inr units"
    using r by (cases ?uid; cases r; cases "utoa (the ?uid) = deName e") auto
  then show ?case
  proof cases
    case (skip w2)
    with Cons.IH [of w2] Cons.prems show ?thesis by (simp only:)
  next
    case (user uid units)
    obtain w2 us where us: "scanUnits S ModeUser (of_nat uid) units w1 = (w2, us)"
      by (cases "scanUnits S ModeUser (of_nat uid) units w1")
    obtain w3 rest where rest: "scanUsers S es w2 = (w3, rest)" by (cases "scanUsers S es w2")
    have "scanUsers S (e # es) w = (w3, us @ rest)" using user r us rest by simp
    with Cons.prems Cons.IH [of w2] rest scanUnits_keys [of kp S ModeUser "of_nat uid" units w1] us
    show ?thesis by auto
  qed
qed simp

lemma Scan_keys:
  assumes "Scan S w = (w', Inr gs)" "kp \<in> set gs"
  shows "validateKey (fst kp) = Inr ()"
proof -
  from assms obtain es w1 us w2 where
    "set gs = set (snd (scanUnits S ModeSystem 0 es w1)) \<union> set (snd (scanUsers S us w2))"
    by (auto simp: Scan_def split: sum.splits prod.splits) (metis snd_conv)+
  with assms(2) scanUnits_keys [of kp S ModeSystem 0 es w1] scanUsers_keys [of kp S us w2]
  show ?thesis by auto
qed

subsection \<open>What the operations touch\<close>

text \<open>
  The contract of a set of system calls that respect a boundary: a call on a path for which \<open>P\<close>
  holds keeps the property \<open>Inv\<close> of the kernel's state.
\<close>

locale guarded_syscalls =
  fixes S :: "'w syscalls" and P :: "string list \<Rightarrow> bool" and Inv :: "'w \<Rightarrow> bool"
  assumes dup: "Inv w \<Longrightarrow> Inv (fst (sysDup S w))"
    and mkdir: "P (d @ [c]) \<Longrightarrow> Inv w \<Longrightarrow> Inv (fst (sysMkdir S d c w))"
    and opendir: "P (d @ [c]) \<Longrightarrow> Inv w \<Longrightarrow> Inv (fst (sysOpenDir S d c w))"
    and readprocs: "P d \<Longrightarrow> Inv w \<Longrightarrow> Inv (fst (sysReadProcs S d w))"
    and writeprocs: "P d \<Longrightarrow> Inv w \<Longrightarrow> Inv (fst (sysWriteProcs S d t w))"
    and rmdir: "P (d @ [c]) \<Longrightarrow> Inv w \<Longrightarrow> Inv (fst (sysRmdir S d c w))"
    and rename: "P (d @ [a]) \<Longrightarrow> P (d @ [b]) \<Longrightarrow> Inv w \<Longrightarrow> Inv (fst (sysRename S d a b w))"
    and replaceprocs: "P d \<Longrightarrow> Inv w \<Longrightarrow> Inv (fst (sysReplaceProcs S d t w))"
    and removeprocs: "P d \<Longrightarrow> Inv w \<Longrightarrow> Inv (sysRemoveProcs S d w)"
    and delegate: "P d \<Longrightarrow> Inv w \<Longrightarrow> Inv (fst (sysDelegate S d u w))"
    and parent: "P (d @ [c]) \<Longrightarrow> d \<noteq> [] \<Longrightarrow> P d"
begin

lemma P_prefix: "P (a @ b) \<Longrightarrow> a \<noteq> [] \<Longrightarrow> P a"
proof (induction b rule: rev_induct)
  case (snoc x xs)
  then show ?case using parent [of "a @ xs" x] by simp
qed simp

lemma ensureFrom_inv:
  "Inv w \<Longrightarrow> cs = [] \<or> P (cur @ cs) \<Longrightarrow> ensureFrom S cur cs w = (w', r) \<Longrightarrow>
   Inv w' \<and> (\<forall>d. r = Inr d \<longrightarrow> d = cur @ cs)"
proof (induction cs arbitrary: cur w)
  case (Cons c cs)
  obtain w1 e where 1: "sysMkdir S cur c w = (w1, e)" by (cases "sysMkdir S cur c w")
  obtain w2 e' where 2: "sysOpenDir S cur c w1 = (w2, e')" by (cases "sysOpenDir S cur c w1")
  have p: "P (cur @ [c])" using Cons.prems(2) P_prefix [of "cur @ [c]" cs] by simp
  have "Inv w1" using mkdir [OF p Cons.prems(1)] 1 by simp
  then have "Inv w2" using opendir [OF p] 2 by (metis fst_conv)
  with Cons.IH [of w2 "cur @ [c]"] Cons.prems 1 2 \<open>Inv w1\<close> show ?case
    by (auto split: if_splits option.splits)
qed auto

lemma openFrom_inv:
  "Inv w \<Longrightarrow> cs = [] \<or> P (cur @ cs) \<Longrightarrow> openFrom S cur cs w = (w', r) \<Longrightarrow>
   Inv w' \<and> (\<forall>d. r = Inr d \<longrightarrow> d = cur @ cs)"
proof (induction cs arbitrary: cur w)
  case (Cons c cs)
  obtain w1 e where 1: "sysOpenDir S cur c w = (w1, e)" by (cases "sysOpenDir S cur c w")
  have p: "P (cur @ [c])" using Cons.prems(2) P_prefix [of "cur @ [c]" cs] by simp
  have "Inv w1" using opendir [OF p Cons.prems(1)] 1 by simp
  with Cons.IH [of w1 "cur @ [c]"] Cons.prems 1 show ?case by (auto split: option.splits)
qed auto

lemma ensureComponentsLocked_inv:
  assumes "Inv w" "P cs" "ensureComponentsLocked S cs w = (w', r)"
  shows "Inv w' \<and> (\<forall>d. r = Inr d \<longrightarrow> d = cs)"
proof -
  obtain w1 e where 1: "sysDup S w = (w1, e)" by (cases "sysDup S w")
  then have "Inv w1" using dup [OF assms(1)] by simp
  with ensureFrom_inv [of w1 cs "[]"] assms 1 show ?thesis
    by (auto simp: ensureComponentsLocked_def split: option.splits)
qed

lemma openComponents_inv:
  assumes "Inv w" "cs = [] \<or> P cs" "openComponents S cs w = (w', r)"
  shows "Inv w' \<and> (\<forall>d. r = Inr d \<longrightarrow> d = cs)"
proof -
  obtain w1 e where 1: "sysDup S w = (w1, e)" by (cases "sysDup S w")
  then have "Inv w1" using dup [OF assms(1)] by simp
  with openFrom_inv [of w1 cs "[]"] assms 1 show ?thesis
    by (auto simp: openComponents_def split: option.splits)
qed

lemma openParentLocked_inv:
  assumes "Inv w" "P cs" "openParentLocked S cs w = (w', r)"
  shows "Inv w' \<and> (\<forall>d. r = Inr d \<longrightarrow> d = butlast cs)"
proof -
  have "butlast cs = [] \<or> P (butlast cs)"
    using assms(2) P_prefix [of "butlast cs" "[last cs]"] by (cases "cs = []") auto
  with openComponents_inv [OF assms(1), of "butlast cs"] assms(3) show ?thesis
    by (simp add: openParentLocked_def)
qed

lemma readMembers_inv: "Inv w \<Longrightarrow> P d \<Longrightarrow> readMembers S d w = (w', r) \<Longrightarrow> Inv w'"
  using readprocs [of d w] by (auto simp: readMembers_def split: prod.splits sum.splits)

lemma openGroupLocked_inv:
  assumes "Inv w" "groupComponents key = Inr cs" "P cs" "openGroupLocked S key w = (w', r)"
  shows "Inv w' \<and> (\<forall>d. r = Inr d \<longrightarrow> d = cs)"
  using openComponents_inv [OF assms(1)] assms(2-4)
  by (auto simp: openGroupLocked_def split: prod.splits sum.splits)

lemma pidsLocked_inv:
  assumes "Inv w" "groupComponents key = Inr cs" "P cs" "pidsLocked S key w = (w', r)"
  shows "Inv w'"
proof -
  obtain w1 x where 1: "openGroupLocked S key w = (w1, x)" by (cases "openGroupLocked S key w")
  from openGroupLocked_inv [OF assms(1-3) 1] assms(3,4) 1 readMembers_inv [of w1] show ?thesis
    by (cases x) (auto simp: pidsLocked_def)
qed

lemma pidsAtComponentsLocked_inv:
  assumes "Inv w" "P cs" "pidsAtComponentsLocked S cs w = (w', r)"
  shows "Inv w'"
proof -
  obtain w1 x where 1: "openComponents S cs w = (w1, x)" by (cases "openComponents S cs w")
  from openComponents_inv [OF assms(1) _ 1] assms(2,3) 1 readMembers_inv [of w1] show ?thesis
    by (cases x) (auto simp: pidsAtComponentsLocked_def)
qed

lemma writePIDAt_inv: "Inv w \<Longrightarrow> P d \<Longrightarrow> writePIDAt S d pid w = (w', r) \<Longrightarrow> Inv w'"
  using writeprocs [of d w "itoa pid @ [CHR 0x0A]"] by (auto simp: writePIDAt_def split: prod.splits)

lemma movePIDsTo_inv: "Inv w \<Longrightarrow> P d \<Longrightarrow> movePIDsTo S d pids w = (w', r) \<Longrightarrow> Inv w'"
proof (induction pids arbitrary: w)
  case (Cons pid pids)
  obtain w1 e where 1: "writePIDAt S d pid w = (w1, e)" by (cases "writePIDAt S d pid w")
  from writePIDAt_inv [OF Cons.prems(1,2) 1] Cons 1 show ?case by (cases e) auto
qed simp

lemma Ensure_inv:
  assumes "Inv w" "groupComponents key = Inr cs" "P cs" "Ensure S key w = (w', r)"
  shows "Inv w'"
  using ensureComponentsLocked_inv [OF assms(1,3)] assms(2,4)
  by (auto simp: Ensure_def split: prod.splits sum.splits)

lemma MovePID_inv:
  assumes "Inv w" "groupComponents key = Inr cs" "P cs" "MovePID S key pid w = (w', r)"
  shows "Inv w'"
proof -
  obtain w1 x where 1: "openGroupLocked S key w = (w1, x)" by (cases "openGroupLocked S key w")
  from openGroupLocked_inv [OF assms(1-3) 1] assms(1,3,4) 1 writePIDAt_inv [of w1] show ?thesis
    by (cases x) (auto simp: MovePID_def split: if_splits)
qed

lemma RemoveIfEmpty_inv:
  assumes "Inv w" "groupComponents key = Inr cs" "P cs" "cs \<noteq> []" "RemoveIfEmpty S f key w = (w', r)"
  shows "Inv w'"
proof -
  obtain w1 x where 1: "pidsLocked S key w = (w1, x)" by (cases "pidsLocked S key w")
  have i1: "Inv w1" by (rule pidsLocked_inv [OF assms(1-3) 1])
  let ?w2 = "if fsSynthetic f then sysRemoveProcs S cs w1 else w1"
  have i2: "Inv ?w2" using i1 removeprocs [OF assms(3)] by simp
  obtain w3 y where 3: "openParentLocked S cs ?w2 = (w3, y)" by (cases "openParentLocked S cs ?w2")
  note i3 = openParentLocked_inv [OF i2 assms(3) 3]
  obtain w4 e where 4: "sysRmdir S (butlast cs) (last cs) w3 = (w4, e)" by (cases "sysRmdir S (butlast cs) (last cs) w3")
  have "Inv w4" using rmdir [of "butlast cs" "last cs" w3] i3 4 assms(3,4) by simp
  with i1 i3 assms(2,5) 1 3 4 show ?thesis
    by (cases x; cases y) (auto simp: RemoveIfEmpty_def Let_def split: if_splits option.splits os_error.splits)
qed

lemma delegateAll_inv: "Inv w \<Longrightarrow> list_all P ps \<Longrightarrow> delegateAll S uid ps w = (w', r) \<Longrightarrow> Inv w'"
proof (induction ps arbitrary: w)
  case (Cons p ps)
  obtain w1 x where 1: "ensureComponentsLocked S p w = (w1, x)" by (cases "ensureComponentsLocked S p w")
  have i1: "Inv w1 \<and> (\<forall>d. x = Inr d \<longrightarrow> d = p)"
    using ensureComponentsLocked_inv [OF Cons.prems(1) _ 1] Cons.prems(2) by simp
  obtain w2 e where 2: "sysDelegate S p uid w1 = (w2, e)" by (cases "sysDelegate S p uid w1")
  have "Inv w2" using delegate [of p w1 uid] i1 2 Cons.prems(2) by simp
  with i1 1 2 Cons show ?case by (cases x; cases e) auto
qed simp

lemma PrepareNative_inv:
  assumes "Inv w" "groupComponents key = Inr cs" "P cs" "cs \<noteq> []" "PrepareNative S key w = (w', r)"
  shows "Inv w'"
proof -
  obtain w1 e where 1: "Ensure S key w = (w1, e)" by (cases "Ensure S key w")
  have i1: "Inv w1" by (rule Ensure_inv [OF assms(1-3) 1])
  have "P (take 2 cs)" using P_prefix [of "take 2 cs" "drop 2 cs"] assms(3,4) by simp
  with delegateAll_inv [OF i1, of "[take 2 cs, cs]"] i1 assms(2,3,5) 1 show ?thesis
    by (cases e) (auto simp: PrepareNative_def split: if_splits)
qed

lemma transferMembers_inv:
  assumes "Inv w" "groupComponents key = Inr cs" "P cs" "P legacy"
    "transferMembers S f key cs legacy cs pids w = (w', r)"
  shows "Inv w'"
proof (cases "fsSynthetic f")
  case True
  obtain w1 x where 1: "pidsLocked S key w = (w1, x)" by (cases "pidsLocked S key w")
  have i1: "Inv w1" by (rule pidsLocked_inv [OF assms(1-3) 1])
  show ?thesis
  proof (cases x)
    case (Inl e)
    with True 1 i1 assms(5) show ?thesis by (simp add: transferMembers_def)
  next
    case (Inr current)
    let ?data = "concat (map (\<lambda>pid. itoa pid @ [CHR 0x0A]) (compactPIDs (sort (current @ pids))))"
    obtain w2 e where 2: "sysReplaceProcs S cs ?data w1 = (w2, e)" by (cases "sysReplaceProcs S cs ?data w1")
    have i2: "Inv w2" using replaceprocs [OF assms(3) i1, of ?data] 2 by simp
    have "Inv (fst (sysReplaceProcs S legacy [] w2))" by (rule replaceprocs [OF assms(4) i2])
    with True 1 2 i2 Inr assms(5) show ?thesis
      by (auto simp: transferMembers_def Let_def split: option.splits prod.splits)
  qed
next
  case False
  with assms(5) movePIDsTo_inv [OF assms(1,3)] show ?thesis by (simp add: transferMembers_def)
qed

lemma removeLegacy_inv:
  assumes "Inv w" "P legacy" "legacy \<noteq> []" "parent = butlast legacy"
  shows "Inv (fst (sysRmdir S parent (last legacy) (if fsSynthetic f then sysRemoveProcs S legacy w else w)))"
  using assms removeprocs [of legacy w] rmdir [of "butlast legacy" "last legacy"] by simp

lemma MigrateLegacy_inv:
  assumes "Inv w" "groupComponents key = Inr cs" "legacyGroupComponents key = Inr legacy"
    and "P cs" "P legacy" "cs \<noteq> []" "legacy \<noteq> []" "butlast legacy = butlast cs"
    and "MigrateLegacy S f key w = (w', r)"
  shows "Inv w'"
proof -
  obtain w1 x where 1: "openParentLocked S cs w = (w1, x)" by (cases "openParentLocked S cs w")
  note i1 = openParentLocked_inv [OF assms(1,4) 1]
  obtain w2 e2 where 2: "sysRename S (butlast cs) (last legacy) (last cs) w1 = (w2, e2)"
    by (cases "sysRename S (butlast cs) (last legacy) (last cs) w1")
  have "P (butlast cs @ [last legacy])" "P (butlast cs @ [last cs])"
    using assms(4-7) by (simp_all add: assms(8) [symmetric])
      (metis append_butlast_last_id assms(4,6,8))
  then have i2: "Inv w2" using rename [of "butlast cs" "last legacy" "last cs" w1] i1 2 by simp
  obtain w3 x3 where 3: "pidsAtComponentsLocked S legacy w2 = (w3, x3)" by (cases "pidsAtComponentsLocked S legacy w2")
  have i3: "Inv w3" by (rule pidsAtComponentsLocked_inv [OF i2 assms(5) 3])
  obtain w4 x4 where 4: "openGroupLocked S key w3 = (w4, x4)" by (cases "openGroupLocked S key w3")
  note i4 = openGroupLocked_inv [OF i3 assms(2,4) 4]
  let ?pids = "case x3 of Inl _ \<Rightarrow> [] | Inr pids \<Rightarrow> pids"
  obtain w5 e5 where 5: "transferMembers S f key cs legacy cs ?pids w4 = (w5, e5)"
    by (cases "transferMembers S f key cs legacy cs ?pids w4")
  have i5: "Inv w5" using transferMembers_inv [OF _ assms(2,4,5) 5] i4 by simp
  obtain w6 x6 where 6: "pidsAtComponentsLocked S legacy w5 = (w6, x6)" by (cases "pidsAtComponentsLocked S legacy w5")
  have i6: "Inv w6" by (rule pidsAtComponentsLocked_inv [OF i5 assms(5) 6])
  obtain w7 e7 where 7: "sysRmdir S (butlast cs) (last legacy) (if fsSynthetic f then sysRemoveProcs S legacy w6 else w6) = (w7, e7)"
    by (cases "sysRmdir S (butlast cs) (last legacy) (if fsSynthetic f then sysRemoveProcs S legacy w6 else w6)")
  have i7: "Inv w7" using removeLegacy_inv [OF i6 assms(5,7) refl, of f] 7 assms(8) by simp
  consider e where "x = Inl e" | "x = Inr (butlast cs)" using i1 by (cases x) auto
  then show ?thesis
  proof cases
    case (1 e)
    with assms(2,3,9) \<open>openParentLocked S cs w = (w1, x)\<close> i1 show ?thesis
      by (cases e) (auto simp: MigrateLegacy_def)
  next
    case x: 2
    show ?thesis
    proof (cases "e2 = Some Exist")
      case False
      with assms(2,3,9) 1 2 x i2 show ?thesis
        by (auto simp: MigrateLegacy_def split: option.splits os_error.splits)
    next
      case True
      note step = assms(2,3,9) 1 2 x True 3 4
      show ?thesis
      proof (cases x3)
        case (Inl e)
        with step i3 show ?thesis by (simp add: MigrateLegacy_def)
      next
        case pids: (Inr pids)
        show ?thesis
        proof (cases x4)
          case (Inl e)
          with step i4 pids show ?thesis by (simp add: MigrateLegacy_def)
        next
          case (Inr leaf)
          then have "leaf = cs" using i4 by simp
          with step i5 i6 i7 pids Inr 5 6 7 show ?thesis
            by (cases e5; cases x6) (auto simp: MigrateLegacy_def split: if_splits)
        qed
      qed
    qed
  qed
qed

end

subsection \<open>The paths of the system calls\<close>

definition touching :: "string list list \<Rightarrow> ('w \<Rightarrow> 'w \<times> 'r) \<Rightarrow> 'w \<times> string list list \<Rightarrow> ('w \<times> string list list) \<times> 'r" where
  "touching ps f wl = (case f (fst wl) of (w, r) \<Rightarrow> ((w, snd wl @ ps), r))"

definition traced :: "'w syscalls \<Rightarrow> ('w \<times> string list list) syscalls" where
  "traced S =
     \<lparr>sysDup = touching [] (sysDup S),
      sysMkdir = \<lambda>d c. touching [d @ [c]] (sysMkdir S d c),
      sysOpenDir = \<lambda>d c. touching [d @ [c]] (sysOpenDir S d c),
      sysReadProcs = \<lambda>d. touching [d] (sysReadProcs S d),
      sysWriteProcs = \<lambda>d t. touching [d] (sysWriteProcs S d t),
      sysRmdir = \<lambda>d c. touching [d @ [c]] (sysRmdir S d c),
      sysRename = \<lambda>d a b. touching [d @ [a], d @ [b]] (sysRename S d a b),
      sysReadDir = \<lambda>d. touching [d] (sysReadDir S d),
      sysReplaceProcs = \<lambda>d t. touching [d] (sysReplaceProcs S d t),
      sysRemoveProcs = \<lambda>d wl. (sysRemoveProcs S d (fst wl), snd wl @ [d]),
      sysDelegate = \<lambda>d u. touching [d] (sysDelegate S d u)\<rparr>"

text \<open>The path leads to one of the given groups.\<close>

definition onPathTo :: "string list set \<Rightarrow> string list \<Rightarrow> bool" where
  "onPathTo leaves p \<longleftrightarrow> (\<exists>leaf \<in> leaves. p \<noteq> [] \<and> take (length p) leaf = p)"

interpretation confined: guarded_syscalls "traced S" "onPathTo leaves" "\<lambda>wl. list_all (onPathTo leaves) (snd wl)"
proof (unfold_locales, goal_cases)
  case (11 d c)
  then obtain leaf where leaf: "leaf \<in> leaves" "take (length (d @ [c])) leaf = d @ [c]"
    by (auto simp: onPathTo_def)
  from leaf(2) have "take (length d) leaf = d"
    by (metis append_eq_conv_conj append_take_drop_id append.assoc)
  with leaf(1) 11(2) show ?case by (auto simp: onPathTo_def)
qed (auto simp: traced_def touching_def split: prod.splits)

lemma groupComponents_shape:
  assumes "groupComponents key = Inr cs" "legacyGroupComponents key = Inr legacy"
  shows "cs \<noteq> []" "legacy \<noteq> []" "butlast legacy = butlast cs"
  using assms by (auto simp: groupComponents_def legacyGroupComponents_def componentsFor_def bind_err_Inr_iff split: if_splits)

lemma onPathTo_self: "cs \<noteq> [] \<Longrightarrow> cs \<in> leaves \<Longrightarrow> onPathTo leaves cs"
  unfolding onPathTo_def by (rule bexI [of _ cs]) simp_all


definition agreeableKernel :: "nat syscalls" where
  "agreeableKernel =
     \<lparr>sysDup = \<lambda>n. (n + 1, None), sysMkdir = \<lambda>_ _ n. (n + 1, Some Exist), sysOpenDir = \<lambda>_ _ n. (n + 1, None),
      sysReadProcs = \<lambda>_ n. (n + 1, Inr ''''), sysWriteProcs = \<lambda>_ _ n. (n + 1, None),
      sysRmdir = \<lambda>_ _ n. (n + 1, None), sysRename = \<lambda>_ _ _ n. (n + 1, Some Exist),
      sysReadDir = \<lambda>_ n. (n + 1, Inr []), sysReplaceProcs = \<lambda>_ _ n. (n + 1, None),
      sysRemoveProcs = \<lambda>_ n. n + 1, sysDelegate = \<lambda>_ _ n. (n + 1, None)\<rparr>"

lemma legacyComponents_foo: "legacyGroupComponents fooKey = Inr [''user'', ''1000'', ''Zm9vLnNlcnZpY2U'']"
  by (simp add: legacyGroupComponents_def legacyUnitDirectory_def validateKey_foo)
     (simp add: fooKey_def componentsFor_def utoa_def dec_digits.simps EncodeToString_def b64Char_def b64Alphabet_def)


end
