(* ===== verification/Cgroup_Scheduler.thy ===== *)
theory Cgroup_Scheduler
  imports Cgroup_FS Cgroup_Server
begin

text \<open>
  The scheduler of the cgroup daemon (\<open>cmd/sys-cgroupd/main.go\<close>, \<open>cmd/sys-cgroupd/native.go\<close>): the
  table of tracked units, the reaction to lifecycle snapshots, reconciliation with the cgroup file
  system, native groups, the registry it saves and the service operations behind the socket.

  The scheduler locks its table only while it reads or changes it and calls the outside world in
  between. An operation that does so is modelled by its locked sections; the composed operation runs
  them in order with the world between them. The table holds pointers, and an operation that comes
  back from the world compares the pointer it remembers with the one in the table: an entry has a
  reference number for that.
\<close>

subsection \<open>Data\<close>

abbreviation LifecycleReady :: string where "LifecycleReady \<equiv> ''ready''"

record snapshot =
  snName :: string
  snMode :: string
  snUID :: uint32
  snMainPID :: string
  snStartTime :: uint64
  snEpoch :: string
  snGeneration :: uint64
  snLifecycle :: string

record meta =
  metaEpoch :: string
  metaMode :: string
  metaUID :: uint32

record unitWork =
  wkRef :: nat
  wkIdentity :: instanceIdentity
  wkState :: string
  wkSource :: "nat option"
  wkTimer :: bool
  wkLastMigration :: "time option"
  wkLastError :: string
  wkRetryCount :: int

record scheduler =
  schNative :: "unitKey list"
  schBootID :: string
  schRegistryPath :: string
  schUnits :: "(unitKey \<times> unitWork) list"
  schNextRef :: nat
  schLastReconcile :: "time option"
  schRootError :: string
  schUnavailable :: "string option"

subsection \<open>The outside world\<close>

record 'w sworld = "'w world" +
  doRemoveIfEmpty :: "unitKey \<Rightarrow> 'w \<Rightarrow> 'w \<times> (group_error + bool)"
  doScan :: "'w \<Rightarrow> 'w \<times> (group_error + (unitKey \<times> int list) list)"
  doMigrateLegacy :: "(unitKey \<Rightarrow> 'w \<Rightarrow> 'w \<times> group_error option) option"
  doPrepareNative :: "(unitKey \<Rightarrow> 'w \<Rightarrow> 'w \<times> group_error option) option"
  groupPath :: "unitKey \<Rightarrow> string"
  groupRoot :: "string option"
  linuxGroups :: bool
  doUnit :: "nat \<Rightarrow> string \<Rightarrow> 'w \<Rightarrow> 'w \<times> (string + snapshot)"
  doMeta :: "nat \<Rightarrow> 'w \<Rightarrow> 'w \<times> (string + meta)"
  doUnits :: "nat \<Rightarrow> 'w \<Rightarrow> 'w \<times> (string + snapshot list)"
  doWriteRegistry :: "string \<Rightarrow> registry \<Rightarrow> 'w \<Rightarrow> 'w \<times> string option"
  doNow :: "'w \<Rightarrow> 'w \<times> time"
  formatTime :: "time \<Rightarrow> string"
  parseTime :: "string \<Rightarrow> time option"
  migrateText :: "migrate_error \<Rightarrow> string"
  groupText :: "group_error \<Rightarrow> string"
  keyText :: "key_error \<Rightarrow> string"
  procText :: "proc_error \<Rightarrow> string"
  migratorRounds :: int
  migratorDeadline :: duration

text \<open>
  The cgroup file system the scheduler currently uses: while its root is unavailable every operation
  fails with the error of the root (\<open>unavailableGroups\<close>).
\<close>

definition currentPIDs :: "'w sworld \<Rightarrow> scheduler \<Rightarrow> unitKey \<Rightarrow> 'w \<Rightarrow> 'w \<times> (group_error + int list)" where
  "currentPIDs W s key w =
     (case schUnavailable s of Some e \<Rightarrow> (w, Inl (GroupUnavailable e)) | None \<Rightarrow> doPIDs W key w)"

definition currentEnsure :: "'w sworld \<Rightarrow> scheduler \<Rightarrow> unitKey \<Rightarrow> 'w \<Rightarrow> 'w \<times> group_error option" where
  "currentEnsure W s key w =
     (case schUnavailable s of Some e \<Rightarrow> (w, Some (GroupUnavailable e)) | None \<Rightarrow> doEnsure W key w)"

definition currentMovePID :: "'w sworld \<Rightarrow> scheduler \<Rightarrow> unitKey \<Rightarrow> int \<Rightarrow> 'w \<Rightarrow> 'w \<times> group_error option" where
  "currentMovePID W s key pid w =
     (case schUnavailable s of Some e \<Rightarrow> (w, Some (GroupUnavailable e)) | None \<Rightarrow> doMovePID W key pid w)"

definition currentRemoveIfEmpty :: "'w sworld \<Rightarrow> scheduler \<Rightarrow> unitKey \<Rightarrow> 'w \<Rightarrow> 'w \<times> (group_error + bool)" where
  "currentRemoveIfEmpty W s key w =
     (case schUnavailable s of Some e \<Rightarrow> (w, Inl (GroupUnavailable e)) | None \<Rightarrow> doRemoveIfEmpty W key w)"

definition currentScan :: "'w sworld \<Rightarrow> scheduler \<Rightarrow> 'w \<Rightarrow> 'w \<times> (group_error + (unitKey \<times> int list) list)" where
  "currentScan W s w =
     (case schUnavailable s of Some e \<Rightarrow> (w, Inl (GroupUnavailable e)) | None \<Rightarrow> doScan W w)"

definition currentPath :: "'w sworld \<Rightarrow> scheduler \<Rightarrow> unitKey \<Rightarrow> string" where
  "currentPath W s key = (case schUnavailable s of Some _ \<Rightarrow> '''' | None \<Rightarrow> groupPath W key)"

definition currentMigrator :: "'w sworld \<Rightarrow> scheduler \<Rightarrow> 'w migrator" where
  "currentMigrator W s =
     \<lparr>mgWorld = Some \<lparr>doInspect = doInspect W, doListPIDs = doListPIDs W, doEnsure = currentEnsure W s,
        doMovePID = currentMovePID W s, doPIDs = currentPIDs W s, doExpired = doExpired W\<rparr>,
      mgMaxRounds = migratorRounds W, mgDeadline = migratorDeadline W\<rparr>"

definition groupMissing :: "group_error \<Rightarrow> bool" where
  "groupMissing e \<longleftrightarrow> e = GroupOS NotExist"

subsection \<open>The table\<close>

definition unitOf :: "scheduler \<Rightarrow> unitKey \<Rightarrow> unitWork option" where
  "unitOf s key = map_of (schUnits s) key"

definition putUnit :: "scheduler \<Rightarrow> unitKey \<Rightarrow> unitWork \<Rightarrow> scheduler" where
  "putUnit s key work = s\<lparr>schUnits := AList.update key work (schUnits s)\<rparr>"

definition dropUnit :: "scheduler \<Rightarrow> unitKey \<Rightarrow> scheduler" where
  "dropUnit s key = s\<lparr>schUnits := AList.delete key (schUnits s)\<rparr>"

text \<open>A new entry: \<open>&unitWork{...}\<close> stored under the key.\<close>

definition newUnit :: "scheduler \<Rightarrow> unitKey \<Rightarrow> instanceIdentity \<Rightarrow> string \<Rightarrow> nat option \<Rightarrow> bool \<Rightarrow> scheduler" where
  "newUnit s key identity state source timer =
     (putUnit s key \<lparr>wkRef = schNextRef s, wkIdentity = identity, wkState = state, wkSource = source,
        wkTimer = timer, wkLastMigration = None, wkLastError = '''', wkRetryCount = 0\<rparr>)
       \<lparr>schNextRef := schNextRef s + 1\<rparr>"

definition newScheduler :: "string \<Rightarrow> string \<Rightarrow> scheduler" where
  "newScheduler bootID registryPath =
     \<lparr>schNative = [], schBootID = bootID, schRegistryPath = registryPath, schUnits = [], schNextRef = 0,
      schLastReconcile = None, schRootError = '''', schUnavailable = None\<rparr>"

definition ReplaceGroups :: "scheduler \<Rightarrow> scheduler" where
  "ReplaceGroups s = s\<lparr>schUnavailable := None, schRootError := ''''\<rparr>"

fun loadRecords :: "'w sworld \<Rightarrow> scheduler \<Rightarrow> unitRecord list \<Rightarrow> scheduler" where
  "loadRecords W s [] = s"
| "loadRecords W s (r # rs) =
     (let identity = recIdentity r in
      if idBootID identity \<noteq> schBootID s \<or> validateIdentity identity \<noteq> Inr () then loadRecords W s rs
      else loadRecords W
        ((putUnit s (idKey identity)
           \<lparr>wkRef = schNextRef s, wkIdentity = identity, wkState = recState r, wkSource = None, wkTimer = False,
            wkLastMigration = (if recLastMigration r \<noteq> '''' then parseTime W (recLastMigration r) else None),
            wkLastError = recLastError r, wkRetryCount = recRetryCount r\<rparr>)
          \<lparr>schNextRef := schNextRef s + 1\<rparr>) rs)"

definition LoadRegistry :: "'w sworld \<Rightarrow> scheduler \<Rightarrow> registry \<Rightarrow> scheduler" where
  "LoadRegistry W s reg =
     loadRecords W (s\<lparr>schNative := remdups (regNative reg @ schNative s)\<rparr>) (regUnits reg)"

subsection \<open>Identities of snapshots\<close>

definition canonicalUnit :: "string \<Rightarrow> string" where
  "canonicalUnit unit =
     (let u = trim_space unit in if u \<noteq> '''' \<and> \<not> has_suffix u ''.service'' then u @ ''.service'' else u)"

definition snapshotKey :: "snapshot \<Rightarrow> unitKey" where
  "snapshotKey sn =
     (let mode = to_lower (trim_space (snMode sn)) in
      \<lparr>keyMode = mode, keyUID = (if mode = ModeSystem then 0 else snUID sn), keyUnit = canonicalUnit (snName sn)\<rparr>)"

definition keyFromSnapshot :: "snapshot \<Rightarrow> key_error + unitKey" where
  "keyFromSnapshot sn = bind_err (validateKey (snapshotKey sn)) (\<lambda>_. Inr (snapshotKey sn))"

datatype identity_error = SnapshotKey key_error | SnapshotMainPID | SnapshotIdentity key_error

definition identityFromSnapshot :: "scheduler \<Rightarrow> snapshot \<Rightarrow> identity_error + instanceIdentity" where
  "identityFromSnapshot s sn =
     (case keyFromSnapshot sn of
        Inl e \<Rightarrow> Inl (SnapshotKey e)
      | Inr key \<Rightarrow>
          (case atoi (trim_space (snMainPID sn)) of
             None \<Rightarrow> Inl SnapshotMainPID
           | Some pid \<Rightarrow>
               let identity = \<lparr>idKey = key, idBootID = schBootID s, idMainPID = pid, idStartTime = snStartTime sn,
                 idEpoch = snEpoch sn, idGeneration = snGeneration sn\<rparr>
               in (case validateIdentity identity of
                     Inl e \<Rightarrow> Inl (SnapshotIdentity e)
                   | Inr _ \<Rightarrow> Inr identity)))"

subsection \<open>Lifecycle\<close>

definition Ready :: "scheduler \<Rightarrow> nat \<Rightarrow> snapshot \<Rightarrow> scheduler" where
  "Ready s source sn =
     (if snLifecycle sn \<noteq> LifecycleReady then s
      else case identityFromSnapshot s sn of
        Inl _ \<Rightarrow> s
      | Inr identity \<Rightarrow>
          (case unitOf s (idKey identity) of
             Some previous \<Rightarrow>
               if wkIdentity previous = identity \<and> wkSource previous \<noteq> None \<and>
                  wkState previous \<noteq> StateEventSourceOffline \<and> wkState previous \<noteq> StateDegraded \<and>
                  wkState previous \<noteq> StatePartial
               then putUnit s (idKey identity) (previous\<lparr>wkSource := Some source\<rparr>)
               else newUnit s (idKey identity) identity StatePending (Some source) True
           | None \<Rightarrow> newUnit s (idKey identity) identity StatePending (Some source) True))"

definition updateMigration :: "'w sworld \<Rightarrow> scheduler \<Rightarrow> instanceIdentity \<Rightarrow> migrationResult \<Rightarrow> time \<Rightarrow> scheduler" where
  "updateMigration W s identity result now =
     (case unitOf s (idKey identity) of
        None \<Rightarrow> s
      | Some work \<Rightarrow>
          if wkIdentity work \<noteq> identity then s
          else putUnit s (idKey identity)
            (case mrErr result of
               Some e \<Rightarrow> work\<lparr>wkState := mrState result, wkLastMigration := Some now,
                   wkLastError := migrateText W e, wkRetryCount := wkRetryCount work + 1\<rparr>
             | None \<Rightarrow> work\<lparr>wkState := mrState result, wkLastMigration := Some now,
                   wkLastError := '''', wkRetryCount := 0\<rparr>))"

definition verifyNative :: "'w sworld \<Rightarrow> scheduler \<Rightarrow> instanceIdentity \<Rightarrow> 'w \<Rightarrow> 'w \<times> migrationResult" where
  "verifyNative W s identity w =
     (case currentPIDs W s (idKey identity) w of
        (w, Inl e) \<Rightarrow> (w, degraded (GroupFailed e))
      | (w, Inr pids) \<Rightarrow>
          (case doInspect W (idMainPID identity) w of
             (w, Inl e) \<Rightarrow> (w, degraded (InspectFailed e))
           | (w, Inr p) \<Rightarrow>
               if prStartTime p \<noteq> idStartTime identity \<or> \<not> containsPID pids (idMainPID identity)
               then (w, degraded ErrMembershipNotObserved)
               else (w, \<lparr>mrState = StateTracked, mrMoved = [], mrSkipped = [], mrErr = None\<rparr>)))"

text \<open>
  \<open>migrateCurrent\<close>: the result of the migration a timer starts, if the identity is still the pending
  one. The table is read before the world is asked (\<open>s\<close>) and written afterwards, when it may have
  changed (\<open>s'\<close> in \<open>finishMigration\<close>).
\<close>

definition beginMigration :: "scheduler \<Rightarrow> instanceIdentity \<Rightarrow> (nat option) option" where
  "beginMigration s identity =
     (case unitOf s (idKey identity) of
        None \<Rightarrow> None
      | Some work \<Rightarrow>
          if wkIdentity work \<noteq> identity \<or> wkState work \<noteq> StatePending then None else Some (wkSource work))"

definition runMigration ::
  "'w sworld \<Rightarrow> scheduler \<Rightarrow> instanceIdentity \<Rightarrow> nat option \<Rightarrow> 'w \<Rightarrow> 'w \<times> migrationResult" where
  "runMigration W s identity source w =
     (case source of
        None \<Rightarrow> (w, degraded (VisionUnavailable ''vision source is unavailable''))
      | Some src \<Rightarrow>
          (case doUnit W src (keyUnit (idKey identity)) w of
             (w, Inl e) \<Rightarrow> (w, degraded (VisionUnavailable e))
           | (w, Inr sn) \<Rightarrow>
               (case identityFromSnapshot s sn of
                  Inl _ \<Rightarrow> (w, degraded (VisionUnavailable ''snapshot is invalid''))
                | Inr fresh \<Rightarrow>
                    if snLifecycle sn \<noteq> LifecycleReady \<or> fresh \<noteq> identity
                    then (w, degraded (VisionUnavailable ''service identity changed before migration''))
                    else if idKey identity \<in> set (schNative s) then verifyNative W s identity w
                    else Migrate (currentMigrator W s) identity w)))"

definition finishMigration ::
  "'w sworld \<Rightarrow> scheduler \<Rightarrow> instanceIdentity \<Rightarrow> migrationResult \<Rightarrow> 'w \<Rightarrow> scheduler \<times> 'w" where
  "finishMigration W s' identity result w =
     (case doNow W w of (w, now) \<Rightarrow> (updateMigration W s' identity result now, w))"

definition migrateCurrent :: "'w sworld \<Rightarrow> scheduler \<Rightarrow> instanceIdentity \<Rightarrow> 'w \<Rightarrow> scheduler \<times> 'w" where
  "migrateCurrent W s identity w =
     (case beginMigration s identity of
        None \<Rightarrow> (s, w)
      | Some source \<Rightarrow>
          (case runMigration W s identity source w of
             (w, result) \<Rightarrow> finishMigration W s identity result w))"

subsection \<open>Units that stop or disappear\<close>

definition stopTimer :: "scheduler \<Rightarrow> unitKey \<Rightarrow> scheduler \<times> nat option" where
  "stopTimer s key =
     (case unitOf s key of
        None \<Rightarrow> (s, None)
      | Some work \<Rightarrow> (putUnit s key (work\<lparr>wkTimer := False\<rparr>), Some (wkRef work)))"

definition nativeDeclared :: "scheduler \<Rightarrow> unitKey \<Rightarrow> bool" where
  "nativeDeclared s key \<longleftrightarrow> key \<in> set (schNative s)"

definition removeUndeclaredEmpty :: "'w sworld \<Rightarrow> scheduler \<Rightarrow> unitKey \<Rightarrow> 'w \<Rightarrow> 'w" where
  "removeUndeclaredEmpty W s key w =
     (if nativeDeclared s key then w else fst (currentRemoveIfEmpty W s key w))"

text \<open>The second locked section, for the entry that was seen in the first one.\<close>

definition settleStopped ::
  "'w sworld \<Rightarrow> scheduler \<Rightarrow> unitKey \<Rightarrow> nat \<Rightarrow> group_error + int list \<Rightarrow> 'w \<Rightarrow> scheduler \<times> 'w" where
  "settleStopped W s key ref members w =
     (let failed = (case members of Inl e \<Rightarrow> \<not> groupMissing e | Inr _ \<Rightarrow> False);
          populated = (case members of Inl _ \<Rightarrow> False | Inr pids \<Rightarrow> pids \<noteq> []);
          w' = (if failed \<or> populated then w else removeUndeclaredEmpty W s key w)
      in case unitOf s key of
           None \<Rightarrow> (s, w')
         | Some current \<Rightarrow>
             if wkRef current \<noteq> ref then (s, w')
             else if failed then
               (putUnit s key (current\<lparr>wkState := StateDegraded,
                  wkLastError := (case members of Inl e \<Rightarrow> groupText W e | Inr _ \<Rightarrow> '''')\<rparr>), w')
             else if populated then
               (putUnit s key (current\<lparr>wkState := StateOrphanedPopulated, wkLastError := ''''\<rparr>), w')
             else (dropUnit s key, w'))"

definition Stopped :: "'w sworld \<Rightarrow> scheduler \<Rightarrow> unitKey \<Rightarrow> 'w \<Rightarrow> scheduler \<times> 'w" where
  "Stopped W s key w =
     (case stopTimer s key of
        (s, None) \<Rightarrow> (s, w)
      | (s, Some ref) \<Rightarrow>
          (case currentPIDs W s key w of (w, members) \<Rightarrow> settleStopped W s key ref members w))"

definition Missing :: "'w sworld \<Rightarrow> scheduler \<Rightarrow> unitKey \<Rightarrow> 'w \<Rightarrow> scheduler \<times> 'w" where
  "Missing W s key w =
     (case stopTimer s key of
        (s, None) \<Rightarrow> (s, w)
      | (s, Some ref) \<Rightarrow>
          (case currentPIDs W s key w of (w, members) \<Rightarrow> settleStopped W s key ref members w))"

subsection \<open>Reconciliation\<close>

definition migrateLegacyGroup :: "'w sworld \<Rightarrow> scheduler \<Rightarrow> unitKey \<Rightarrow> 'w \<Rightarrow> 'w \<times> string option" where
  "migrateLegacyGroup W s key w =
     (case (schUnavailable s, doMigrateLegacy W) of
        (None, Some migrate) \<Rightarrow>
          (case migrate key w of
             (w, Some e) \<Rightarrow>
               (w, Some (''migrate legacy cgroup for '' @ keyUnit key @ '': '' @ groupText W e))
           | (w, None) \<Rightarrow> (w, None))
      | _ \<Rightarrow> (w, None))"

fun migrateLegacyAll :: "'w sworld \<Rightarrow> scheduler \<Rightarrow> unitKey list \<Rightarrow> 'w \<Rightarrow> 'w \<times> string option" where
  "migrateLegacyAll W s [] w = (w, None)"
| "migrateLegacyAll W s (key # keys) w =
     (case migrateLegacyGroup W s key w of
        (w, Some e) \<Rightarrow> (w, Some e)
      | (w, None) \<Rightarrow> migrateLegacyAll W s keys w)"

fun observeGroups :: "'w sworld \<Rightarrow> scheduler \<Rightarrow> (unitKey \<times> int list) list \<Rightarrow> 'w \<Rightarrow> scheduler \<times> 'w" where
  "observeGroups W s [] w = (s, w)"
| "observeGroups W s ((key, pids) # groups) w =
     (case unitOf s key of
        None \<Rightarrow>
          if pids = [] then observeGroups W s groups (removeUndeclaredEmpty W s key w)
          else observeGroups W
            (newUnit s key \<lparr>idKey = key, idBootID = schBootID s, idMainPID = 0, idStartTime = 0, idEpoch = '''',
               idGeneration = 0\<rparr> StateUnknownUnit None False) groups w
      | Some work \<Rightarrow>
          if wkState work = StateStopped \<and> pids \<noteq> []
          then observeGroups W (putUnit s key (work\<lparr>wkState := StateOrphanedPopulated\<rparr>)) groups w
          else observeGroups W s groups w)"

text \<open>A tracked unit whose group has vanished is scheduled again.\<close>

definition rescheduleVanished :: "unitKey set \<Rightarrow> unitKey \<times> unitWork \<Rightarrow> unitKey \<times> unitWork" where
  "rescheduleVanished observed kw =
     (let (key, work) = kw in
      if key \<in> observed \<or> wkSource work = None \<or> validateIdentity (wkIdentity work) \<noteq> Inr () \<or>
         wkState work \<noteq> StateTracked
      then kw
      else (key, work\<lparr>wkState := StatePending, wkTimer := True\<rparr>))"

definition ReconcileGroups :: "'w sworld \<Rightarrow> scheduler \<Rightarrow> 'w \<Rightarrow> scheduler \<times> 'w \<times> string option" where
  "ReconcileGroups W s w =
     (case migrateLegacyAll W s (sort_slice keyLess (map fst (schUnits s))) w of
        (w, Some e) \<Rightarrow> (s, w, Some e)
      | (w, None) \<Rightarrow>
          (case currentScan W s w of
             (w, Inl e) \<Rightarrow> (s, w, Some (groupText W e))
           | (w, Inr groups) \<Rightarrow>
               (case observeGroups W s groups w of
                  (s, w) \<Rightarrow>
                    (case doNow W w of
                       (w, now) \<Rightarrow>
                         (s\<lparr>schUnits := map (rescheduleVanished (set (map fst groups))) (schUnits s),
                            schLastReconcile := Some now\<rparr>, w, None)))))"

definition completeSnapshot :: "meta \<Rightarrow> snapshot \<Rightarrow> snapshot" where
  "completeSnapshot m sn =
     sn\<lparr>snEpoch := (if snEpoch sn = '''' then metaEpoch m else snEpoch sn),
        snMode := (if snMode sn = '''' then metaMode m else snMode sn),
        snUID := (if snUID sn = 0 then metaUID m else snUID sn)\<rparr>"

fun applySnapshots ::
  "'w sworld \<Rightarrow> nat \<Rightarrow> meta \<Rightarrow> snapshot list \<Rightarrow> scheduler \<Rightarrow> unitKey list \<Rightarrow> 'w \<Rightarrow>
   scheduler \<times> unitKey list \<times> 'w \<times> string option" where
  "applySnapshots W source m [] s seen w = (s, seen, w, None)"
| "applySnapshots W source m (sn0 # sns) s seen w =
     (let sn = completeSnapshot m sn0 in
      case keyFromSnapshot sn of
        Inl _ \<Rightarrow> applySnapshots W source m sns s seen w
      | Inr key \<Rightarrow>
          (case migrateLegacyGroup W s key w of
             (w, Some e) \<Rightarrow> (s, seen, w, Some e)
           | (w, None) \<Rightarrow>
               if snLifecycle sn = LifecycleReady
               then applySnapshots W source m sns (Ready s source sn) (key # seen) w
               else (case Stopped W s key w of
                 (s, w) \<Rightarrow> applySnapshots W source m sns s (key # seen) w)))"

fun missingAll :: "'w sworld \<Rightarrow> unitKey list \<Rightarrow> scheduler \<Rightarrow> 'w \<Rightarrow> scheduler \<times> 'w" where
  "missingAll W [] s w = (s, w)"
| "missingAll W (key # keys) s w = (case Missing W s key w of (s, w) \<Rightarrow> missingAll W keys s w)"

definition ReconcileSource :: "'w sworld \<Rightarrow> scheduler \<Rightarrow> nat \<Rightarrow> 'w \<Rightarrow> scheduler \<times> 'w \<times> string option" where
  "ReconcileSource W s source w =
     (case doMeta W source w of
        (w, Inl e) \<Rightarrow> (s, w, Some e)
      | (w, Inr m) \<Rightarrow>
          (case doUnits W source w of
             (w, Inl e) \<Rightarrow> (s, w, Some e)
           | (w, Inr sns) \<Rightarrow>
               (case applySnapshots W source m sns s [] w of
                  (s, seen, w, Some e) \<Rightarrow> (s, w, Some e)
                | (s, seen, w, None) \<Rightarrow>
                    let mode = metaMode m;
                        uid = (if mode = ModeSystem then 0 else metaUID m);
                        keys = filter (\<lambda>k. keyMode k = mode \<and> keyUID k = uid \<and> k \<notin> set seen) (map fst (schUnits s))
                    in case missingAll W keys s w of (s, w) \<Rightarrow> ReconcileGroups W s w)))"

definition MarkSourceOffline :: "scheduler \<Rightarrow> nat \<Rightarrow> string \<Rightarrow> scheduler" where
  "MarkSourceOffline s source err =
     s\<lparr>schUnits := map (\<lambda>(key, work).
          (key, if wkSource work = Some source \<and> wkState work \<noteq> StateStopped \<and>
                   wkState work \<noteq> StateOrphanedPopulated
                then work\<lparr>wkState := StateEventSourceOffline, wkLastError := err\<rparr> else work)) (schUnits s)\<rparr>"

text \<open>One event of the stream of a source (the loop body of \<open>runSource\<close>).\<close>

record visionEvent =
  veKind :: string
  veMode :: string
  veUID :: uint32
  veUnit :: string

definition handleEvent :: "'w sworld \<Rightarrow> scheduler \<Rightarrow> nat \<Rightarrow> visionEvent \<Rightarrow> 'w \<Rightarrow> scheduler \<times> 'w" where
  "handleEvent W s source ev w =
     (if veKind ev \<notin> {''unit.ready'', ''unit.main-pid-changed'', ''unit.stopped''} then (s, w)
      else case doUnit W source (canonicalUnit (veUnit ev)) w of
        (w, Inl _) \<Rightarrow>
          if veKind ev = ''unit.stopped'' then
            let key = \<lparr>keyMode = veMode ev, keyUID = (if veMode ev = ModeSystem then 0 else veUID ev),
                       keyUnit = canonicalUnit (veUnit ev)\<rparr>
            in if validateKey key = Inr () then Stopped W s key w else (s, w)
          else (s, w)
      | (w, Inr sn) \<Rightarrow>
          if snLifecycle sn = LifecycleReady then (Ready s source sn, w)
          else case keyFromSnapshot sn of
            Inl _ \<Rightarrow> (s, w)
          | Inr key \<Rightarrow> Stopped W s key w)"

subsection \<open>The registry\<close>

definition recordOf :: "'w sworld \<Rightarrow> unitWork \<Rightarrow> unitRecord" where
  "recordOf W work =
     \<lparr>recIdentity = wkIdentity work, recState = wkState work,
      recLastMigration = (case wkLastMigration work of None \<Rightarrow> '''' | Some t \<Rightarrow> formatTime W t),
      recRetryCount = wkRetryCount work, recLastError = wkLastError work\<rparr>"

definition registryOf :: "'w sworld \<Rightarrow> scheduler \<Rightarrow> registry" where
  "registryOf W s =
     \<lparr>regVersion = 1,
      regUnits = filter (\<lambda>r. validateIdentity (recIdentity r) = Inr ()) (map (recordOf W \<circ> snd) (schUnits s)),
      regNative = schNative s\<rparr>"

definition saveRegistry :: "'w sworld \<Rightarrow> scheduler \<Rightarrow> 'w \<Rightarrow> 'w \<times> string option" where
  "saveRegistry W s w =
     (if schRegistryPath s = '''' then (w, None) else doWriteRegistry W (schRegistryPath s) (registryOf W s) w)"

subsection \<open>Service operations\<close>

definition inScope :: "scope \<Rightarrow> unitKey \<Rightarrow> bool" where
  "inScope sc key \<longleftrightarrow> scGlobal sc \<or> keyMode key = scMode sc \<and> keyUID key = scUID sc"

definition scopeKey :: "scope \<Rightarrow> string \<Rightarrow> unitKey" where
  "scopeKey sc unit = \<lparr>keyMode = scMode sc, keyUID = scUID sc, keyUnit = canonicalUnit unit\<rparr>"

definition abnormal :: "string \<Rightarrow> bool" where
  "abnormal st \<longleftrightarrow> st \<noteq> StateTracked \<and> st \<noteq> StateStopped \<and> st \<noteq> StatePending"

definition Status :: "'w sworld \<Rightarrow> scope \<Rightarrow> scheduler \<times> 'w \<Rightarrow> (scheduler \<times> 'w) \<times> (string + daemonStatus)" where
  "Status W sc sw =
     (let s = fst sw;
          states = map (wkState \<circ> snd) (filter (\<lambda>kw. inScope sc (fst kw)) (schUnits s))
      in (sw, Inr \<lparr>dsHealthy = (schRootError s = ''''),
           dsCgroupRoot = (case groupRoot W of None \<Rightarrow> [] | Some r \<Rightarrow> r),
           dsLastReconcile = (case schLastReconcile s of None \<Rightarrow> '''' | Some t \<Rightarrow> formatTime W t),
           dsPending = int (length (filter (\<lambda>st. st = StatePending) states)),
           dsAbnormal = int (length (filter abnormal states))\<rparr>))"

definition unitStatusOf :: "'w sworld \<Rightarrow> scheduler \<Rightarrow> unitKey \<Rightarrow> unitWork \<Rightarrow> int list \<Rightarrow> unitStatus" where
  "unitStatusOf W s key work pids =
     \<lparr>usIdentity = wkIdentity work, usState = wkState work, usPath = currentPath W s key,
      usMemberCount = int (length pids),
      usLastMigration = (case wkLastMigration work of None \<Rightarrow> '''' | Some t \<Rightarrow> formatTime W t),
      usLastError = wkLastError work\<rparr>"

definition statusForKey :: "'w sworld \<Rightarrow> unitKey \<Rightarrow> scheduler \<times> 'w \<Rightarrow> (scheduler \<times> 'w) \<times> (string + unitStatus)" where
  "statusForKey W key sw =
     (case unitOf (fst sw) key of
        None \<Rightarrow> (sw, Inl ''unit is not tracked'')
      | Some work \<Rightarrow>
          (case currentPIDs W (fst sw) key (snd sw) of
             (w, members) \<Rightarrow>
               (case members of
                  Inl e \<Rightarrow> if \<not> groupMissing e then ((fst sw, w), Inl (groupText W e))
                    else ((fst sw, w), Inr (unitStatusOf W (fst sw) key work []))
                | Inr pids \<Rightarrow> ((fst sw, w), Inr (unitStatusOf W (fst sw) key work pids)))))"

fun statusForKeys ::
  "'w sworld \<Rightarrow> unitKey list \<Rightarrow> scheduler \<times> 'w \<Rightarrow> (scheduler \<times> 'w) \<times> unitStatus list" where
  "statusForKeys W [] sw = (sw, [])"
| "statusForKeys W (key # keys) sw =
     (case statusForKey W key sw of
        (sw, r) \<Rightarrow>
          (case statusForKeys W keys sw of
             (sw, rest) \<Rightarrow> (sw, case r of Inl _ \<Rightarrow> rest | Inr st \<Rightarrow> st # rest)))"

definition ListUnits :: "'w sworld \<Rightarrow> scope \<Rightarrow> scheduler \<times> 'w \<Rightarrow> (scheduler \<times> 'w) \<times> (string + unitStatus list)" where
  "ListUnits W sc sw =
     (case statusForKeys W (sort_slice keyLess (filter (inScope sc) (map fst (schUnits (fst sw))))) sw of
        (sw, result) \<Rightarrow> (sw, Inr result))"

definition GetUnit :: "'w sworld \<Rightarrow> scope \<Rightarrow> string \<Rightarrow> scheduler \<times> 'w \<Rightarrow> (scheduler \<times> 'w) \<times> (string + unitStatus)" where
  "GetUnit W sc unit sw =
     (case validateKey (scopeKey sc unit) of
        Inl e \<Rightarrow> (sw, Inl (keyText W e))
      | Inr _ \<Rightarrow> statusForKey W (scopeKey sc unit) sw)"

fun inspectAll :: "'w sworld \<Rightarrow> int \<Rightarrow> int list \<Rightarrow> 'w \<Rightarrow> 'w \<times> processStatus list" where
  "inspectAll W mainPID [] w = (w, [])"
| "inspectAll W mainPID (pid # pids) w =
     (case doInspect W pid w of
        (w, r) \<Rightarrow>
          (case inspectAll W mainPID pids w of
             (w, rest) \<Rightarrow>
               (w, case r of
                     Inl _ \<Rightarrow> rest
                   | Inr p \<Rightarrow> \<lparr>psPID = pid, psStartTime = prStartTime p, psUID = prUID p, psComm = prComm p,
                               psMainPID = (pid = mainPID)\<rparr> # rest)))"

definition ListUnitPIDs ::
  "'w sworld \<Rightarrow> scope \<Rightarrow> string \<Rightarrow> scheduler \<times> 'w \<Rightarrow> (scheduler \<times> 'w) \<times> (string + processStatus list)" where
  "ListUnitPIDs W sc unit sw =
     (let key = scopeKey sc unit in
      case validateKey key of
        Inl e \<Rightarrow> (sw, Inl (keyText W e))
      | Inr _ \<Rightarrow>
          (case unitOf (fst sw) key of
             None \<Rightarrow> (sw, Inl ''unit is not tracked'')
           | Some work \<Rightarrow>
               (case currentPIDs W (fst sw) key (snd sw) of
                  (w, Inl e) \<Rightarrow> ((fst sw, w), Inl (groupText W e))
                | (w, Inr pids) \<Rightarrow>
                    (case inspectAll W (idMainPID (wkIdentity work)) pids w of
                       (w, result) \<Rightarrow> ((fst sw, w), Inr result)))))"

text \<open>\<open>Attach\<close> after the target unit has been found: the moves and the checks around them.\<close>

definition attachProcess ::
  "'w sworld \<Rightarrow> scheduler \<Rightarrow> unitKey \<Rightarrow> unitWork \<Rightarrow> nat \<Rightarrow> int \<Rightarrow> 'w \<Rightarrow> 'w \<times> (string + unit)" where
  "attachProcess W s key work src pid w =
     (case doUnit W src (keyUnit key) w of
        (w, Inl e) \<Rightarrow> (w, Inl e)
      | (w, Inr sn) \<Rightarrow>
        if identityFromSnapshot s sn \<noteq> Inr (wkIdentity work) \<or> snLifecycle sn \<noteq> LifecycleReady
        then (w, Inl ''target unit changed or is not ready'')
        else case doInspect W pid w of
          (w, Inl e) \<Rightarrow> (w, Inl (procText W e))
        | (w, Inr before) \<Rightarrow>
          if keyMode key = ModeUser \<and> prUID before \<noteq> keyUID key
          then (w, Inl ''process UID does not match target user'')
          else case currentEnsure W s key w of
            (w, Some e) \<Rightarrow> (w, Inl (groupText W e))
          | (w, None) \<Rightarrow>
            (case currentMovePID W s key pid w of
               (w, Some e) \<Rightarrow> (w, Inl (groupText W e))
             | (w, None) \<Rightarrow>
               (case doInspect W pid w of
                  (w, Inl e) \<Rightarrow> (w, Inl (procText W e))
                | (w, Inr after) \<Rightarrow>
                  if prStartTime after \<noteq> prStartTime before \<or> prUID after \<noteq> prUID before
                  then (w, Inl ''process identity changed'')
                  else case currentPIDs W s key w of
                    (w, Inl e) \<Rightarrow> (w, Inl ''cgroup membership was not observed'')
                  | (w, Inr members) \<Rightarrow>
                    if \<not> containsPID members pid then (w, Inl ''cgroup membership was not observed'')
                    else case doUnit W src (keyUnit key) w of
                      (w, Inl e) \<Rightarrow> (w, Inl e)
                    | (w, Inr sn') \<Rightarrow>
                      if identityFromSnapshot s sn' \<noteq> Inr (wkIdentity work)
                      then (w, Inl ''target unit changed during attach'')
                      else (w, Inr ()))))"

definition Attach ::
  "'w sworld \<Rightarrow> scope \<Rightarrow> string \<Rightarrow> int \<Rightarrow> scheduler \<times> 'w \<Rightarrow> (scheduler \<times> 'w) \<times> (string + unitStatus)" where
  "Attach W sc unit pid sw =
     (let key = scopeKey sc unit; s = fst sw in
      case validateKey key of
        Inl e \<Rightarrow> (sw, Inl (keyText W e))
      | Inr _ \<Rightarrow>
          (case unitOf s key of
             None \<Rightarrow> (sw, Inl ''target unit is unavailable'')
           | Some work \<Rightarrow>
               (case wkSource work of
                  None \<Rightarrow> (sw, Inl ''target unit is unavailable'')
                | Some src \<Rightarrow>
                    (case attachProcess W s key work src pid (snd sw) of
                       (w, Inl e) \<Rightarrow> ((s, w), Inl e)
                     | (w, Inr _) \<Rightarrow> statusForKey W key (s, w)))))"

subsection \<open>Native groups\<close>

text \<open>The path leaves \<open>/sys/fs/cgroup\<close>.\<close>

definition outsideMount :: "string \<Rightarrow> bool" where
  "outsideMount path =
     (case path_rel ''/sys/fs/cgroup'' path of
        None \<Rightarrow> True
      | Some rel \<Rightarrow> rel = ''..'' \<or> has_prefix rel ''../'')"

definition Prepare ::
  "'w sworld \<Rightarrow> scope \<Rightarrow> string \<Rightarrow> scheduler \<times> 'w \<Rightarrow> (scheduler \<times> 'w) \<times> (string + unitStatus)" where
  "Prepare W sc unit sw =
     (let key = scopeKey sc unit; s = fst sw in
      case validateKey key of
        Inl e \<Rightarrow> (sw, Inl (keyText W e))
      | Inr _ \<Rightarrow>
          (case (case (schUnavailable s, doPrepareNative W) of
                   (None, Some prepare) \<Rightarrow> prepare key (snd sw)
                 | _ \<Rightarrow> currentEnsure W s key (snd sw)) of
             (w, Some e) \<Rightarrow> ((s, w), Inl (groupText W e))
           | (w, None) \<Rightarrow>
               let path = currentPath W s key in
               if schUnavailable s = None \<and> linuxGroups W \<and> path \<noteq> '''' \<and> outsideMount path
               then ((s, w), Inl ''native Dinit cgroup must be visible below /sys/fs/cgroup'')
               else
                 let s1 = s\<lparr>schNative := List.insert key (schNative s)\<rparr> in
                 (case saveRegistry W s1 w of
                    (w, Some e) \<Rightarrow> ((s1, w), Inl e)
                  | (w, None) \<Rightarrow>
                      ((s1, w), Inr \<lparr>usIdentity = \<lparr>idKey = key, idBootID = '''', idMainPID = 0, idStartTime = 0,
                           idEpoch = '''', idGeneration = 0\<rparr>,
                         usState = StateStopped, usPath = path, usMemberCount = 0, usLastMigration = '''',
                         usLastError = ''''\<rparr>))))"

text \<open>\<open>Release\<close> once the group is known to be empty; a failed save restores the declaration.\<close>

definition releaseKey :: "'w sworld \<Rightarrow> scheduler \<Rightarrow> unitKey \<Rightarrow> 'w \<Rightarrow> (scheduler \<times> 'w) \<times> (string + unit)" where
  "releaseKey W s key w =
     (let s1 = s\<lparr>schNative := removeAll key (schNative s)\<rparr> in
      case saveRegistry W s1 w of
        (w, Some e) \<Rightarrow>
          ((if nativeDeclared s key then s1\<lparr>schNative := List.insert key (schNative s1)\<rparr> else s1, w), Inl e)
      | (w, None) \<Rightarrow>
          (case currentRemoveIfEmpty W s1 key w of
             (w, Inl e) \<Rightarrow> ((s1, w), Inl (groupText W e))
           | (w, Inr _) \<Rightarrow> ((s1, w), Inr ())))"

definition Release ::
  "'w sworld \<Rightarrow> scope \<Rightarrow> string \<Rightarrow> scheduler \<times> 'w \<Rightarrow> (scheduler \<times> 'w) \<times> (string + unit)" where
  "Release W sc unit sw =
     (let key = scopeKey sc unit; s = fst sw in
      case validateKey key of
        Inl e \<Rightarrow> (sw, Inl (keyText W e))
      | Inr _ \<Rightarrow>
          (case currentPIDs W s key (snd sw) of
             (w, members) \<Rightarrow>
               (case members of
                  Inl e \<Rightarrow> if groupMissing e then releaseKey W s key w else ((s, w), Inl (groupText W e))
                | Inr pids \<Rightarrow>
                    if pids \<noteq> [] then ((s, w), Inl (''cgroup '' @ unit @ '' is still populated''))
                    else releaseKey W s key w)))"

definition schedulerService :: "'w sworld \<Rightarrow> (scheduler \<times> 'w) service" where
  "schedulerService W =
     \<lparr>opStatus = Status W, opListUnits = ListUnits W, opGetUnit = GetUnit W, opListPIDs = ListUnitPIDs W,
      opAttach = Attach W, opNative = Some (Prepare W, Release W)\<rparr>"

subsection \<open>The invariant of the table\<close>

text \<open>
  Every entry is stored under the key of its identity, the key is valid, the identity is of this
  boot, the state is not empty and the retry count not negative; native keys are valid.
\<close>

definition workOK :: "string \<Rightarrow> unitKey \<times> unitWork \<Rightarrow> bool" where
  "workOK boot kw \<longleftrightarrow>
     idKey (wkIdentity (snd kw)) = fst kw \<and> validateKey (fst kw) = Inr () \<and>
     idBootID (wkIdentity (snd kw)) = boot \<and> wkState (snd kw) \<noteq> '''' \<and> 0 \<le> wkRetryCount (snd kw)"

definition schInv :: "scheduler \<Rightarrow> bool" where
  "schInv s \<longleftrightarrow>
     distinct (map fst (schUnits s)) \<and> list_all (workOK (schBootID s)) (schUnits s) \<and>
     list_all (\<lambda>k. validateKey k = Inr ()) (schNative s)"

lemma set_update_subset: "set (AList.update k v al) \<subseteq> insert (k, v) (set al)"
  by (induction al) auto

lemma set_delete_subset: "set (AList.delete k al) \<subseteq> set al"
  by (auto simp: AList.delete_eq)

lemma schInv_put:
  "schInv s \<Longrightarrow> workOK (schBootID s) (key, work) \<Longrightarrow> schInv (putUnit s key work)"
  using set_update_subset [of key work "schUnits s"]
  by (auto simp: schInv_def putUnit_def list_all_iff intro: distinct_update)

lemma schInv_drop: "schInv s \<Longrightarrow> schInv (dropUnit s key)"
  using set_delete_subset [of key "schUnits s"]
  by (auto simp: schInv_def dropUnit_def list_all_iff intro: distinct_delete)

lemma schInv_fields [simp]:
  "schInv (s\<lparr>schNextRef := n\<rparr>) = schInv s" "schInv (s\<lparr>schLastReconcile := t\<rparr>) = schInv s"
  "schInv (s\<lparr>schRootError := e\<rparr>) = schInv s" "schInv (s\<lparr>schUnavailable := u\<rparr>) = schInv s"
  by (simp_all add: schInv_def)

lemma putUnit_fields [simp]:
  "schBootID (putUnit s k w) = schBootID s" "schNative (putUnit s k w) = schNative s"
  "schBootID (dropUnit s k) = schBootID s" "schNative (dropUnit s k) = schNative s"
  by (simp_all add: putUnit_def dropUnit_def)

lemma schInv_unit:
  assumes "schInv s" "unitOf s key = Some work"
  shows "workOK (schBootID s) (key, work)"
  using assms by (auto simp: schInv_def unitOf_def list_all_iff dest: map_of_SomeD)

lemma schInv_new:
  "schInv s \<Longrightarrow> idKey identity = key \<Longrightarrow> validateKey key = Inr () \<Longrightarrow> idBootID identity = schBootID s \<Longrightarrow>
   state \<noteq> '''' \<Longrightarrow> schInv (newUnit s key identity state source timer)"
  by (simp add: newUnit_def schInv_put workOK_def)

lemma schInv_map:
  assumes "schInv s" "\<And>kw. workOK (schBootID s) kw \<Longrightarrow> fst (f kw) = fst kw \<and> workOK (schBootID s) (f kw)"
  shows "schInv (s\<lparr>schUnits := map f (schUnits s)\<rparr>)"
proof -
  have "map (fst \<circ> f) (schUnits s) = map fst (schUnits s)"
    using assms by (auto simp: schInv_def list_all_iff)
  then have "distinct (map (fst \<circ> f) (schUnits s))" using assms(1) by (simp only: schInv_def)
  moreover have "\<forall>kw \<in> set (schUnits s). workOK (schBootID s) (f kw)"
    using assms by (auto simp: schInv_def list_all_iff)
  ultimately show ?thesis using assms(1) by (simp add: schInv_def list_all_iff)
qed

lemma identityFromSnapshot_ok:
  assumes "identityFromSnapshot s sn = Inr identity"
  shows "validateIdentity identity = Inr ()" "validateKey (idKey identity) = Inr ()" "idBootID identity = schBootID s"
proof -
  from assms obtain key pid where "keyFromSnapshot sn = Inr key" and
    identity: "identity = \<lparr>idKey = key, idBootID = schBootID s, idMainPID = pid, idStartTime = snStartTime sn,
      idEpoch = snEpoch sn, idGeneration = snGeneration sn\<rparr>" and valid: "validateIdentity identity = Inr ()"
    by (auto simp: identityFromSnapshot_def Let_def split: sum.splits option.splits)
  then show "validateIdentity identity = Inr ()" "validateKey (idKey identity) = Inr ()" "idBootID identity = schBootID s"
    by (auto simp: keyFromSnapshot_def bind_err_Inr_iff)
qed

lemma Ready_inv: "schInv s \<Longrightarrow> schInv (Ready s source sn)"
proof -
  assume inv: "schInv s"
  show ?thesis
  proof (cases "identityFromSnapshot s sn")
    case (Inl e)
    with inv show ?thesis by (simp add: Ready_def)
  next
    case (Inr identity)
    note ok = identityFromSnapshot_ok [OF Inr]
    show ?thesis
    proof (cases "unitOf s (idKey identity)")
      case None
      with inv Inr ok show ?thesis by (simp add: Ready_def schInv_new)
    next
      case (Some previous)
      with inv Inr ok schInv_unit [OF inv Some] show ?thesis
        by (simp add: Ready_def schInv_new schInv_put workOK_def)
    qed
  qed
qed

lemma updateMigration_inv:
  assumes "schInv s" "mrState result \<noteq> ''''"
  shows "schInv (updateMigration W s identity result now)"
proof (cases "unitOf s (idKey identity)")
  case None
  with assms show ?thesis by (simp add: updateMigration_def)
next
  case (Some work)
  with assms schInv_unit [OF assms(1) Some] show ?thesis
    by (auto simp: updateMigration_def workOK_def intro!: schInv_put split: option.split)
qed

lemma stopTimer_inv:
  assumes "schInv s" "stopTimer s key = (s', r)"
  shows "schInv s'" "schBootID s' = schBootID s"
proof -
  have "schInv s' \<and> schBootID s' = schBootID s"
  proof (cases "unitOf s key")
    case None
    with assms show ?thesis by (simp add: stopTimer_def)
  next
    case (Some work)
    with assms schInv_unit [OF assms(1) Some] show ?thesis
      by (auto simp: stopTimer_def workOK_def intro!: schInv_put)
  qed
  then show "schInv s'" "schBootID s' = schBootID s" by auto
qed

lemma settleStopped_inv:
  assumes "schInv s"
  shows "schInv (fst (settleStopped W s key ref members w))"
proof (cases "unitOf s key")
  case None
  with assms show ?thesis by (simp add: settleStopped_def Let_def)
next
  case (Some work)
  note ok = schInv_unit [OF assms Some]
  have "schInv (putUnit s key (work\<lparr>wkState := st, wkLastError := e\<rparr>))" if "st \<noteq> ''''" for st e
    using assms ok that by (intro schInv_put) (simp_all add: workOK_def)
  with Some assms schInv_drop [OF assms] show ?thesis by (simp add: settleStopped_def Let_def)
qed

lemma Stopped_inv:
  assumes "schInv s"
  shows "schInv (fst (Stopped W s key w))"
proof (cases "stopTimer s key")
  case (Pair s1 r)
  with stopTimer_inv(1) [OF assms Pair] settleStopped_inv [of s1] show ?thesis
    by (cases r) (auto simp: Stopped_def split: prod.splits)
qed

lemma Missing_eq: "Missing W s key w = Stopped W s key w"
  by (simp add: Missing_def Stopped_def)

lemma missingAll_inv: "schInv s \<Longrightarrow> schInv (fst (missingAll W keys s w))"
proof (induction keys arbitrary: s w)
  case (Cons key keys)
  from Stopped_inv [OF Cons.prems, of W key w] Cons.IH show ?case
    by (cases "Stopped W s key w") (simp add: Missing_eq)
qed simp

lemma applySnapshots_inv: "schInv s \<Longrightarrow> schInv (fst (applySnapshots W source m sns s seen w))"
proof (induction sns arbitrary: s seen w)
  case (Cons sn0 sns)
  let ?sn = "completeSnapshot m sn0"
  show ?case
  proof (cases "keyFromSnapshot ?sn")
    case (Inl e)
    with Cons show ?thesis by simp
  next
    case (Inr key)
    obtain w1 e where l: "migrateLegacyGroup W s key w = (w1, e)" by (cases "migrateLegacyGroup W s key w")
    obtain s2 w2 where st: "Stopped W s key w1 = (s2, w2)" by (cases "Stopped W s key w1")
    have "schInv s2" using Stopped_inv [OF Cons.prems, of W key w1] st by simp
    with Cons.IH Cons.prems Ready_inv [OF Cons.prems] l st Inr show ?thesis
      by (cases e) (auto simp: Let_def)
  qed
qed simp

lemma MarkSourceOffline_inv: "schInv s \<Longrightarrow> schInv (MarkSourceOffline s source err)"
  unfolding MarkSourceOffline_def by (rule schInv_map) (auto simp: workOK_def split: if_splits)

text \<open>Results of migrations always carry a state.\<close>

lemma degraded_state [simp]: "mrState (degraded e) = StateDegraded" "mrErr (degraded e) = Some e"
  by (simp_all add: degraded_def)

lemma migrateRounds_state:
  "mrState res \<noteq> '''' \<Longrightarrow> mrState (snd (migrateRounds W d identity n res w)) \<noteq> ''''"
proof (induction n arbitrary: res w)
  case (Suc n)
  obtain w1 b where e: "doExpired W d w = (w1, b)" by (cases "doExpired W d w")
  obtain w2 ps sk err where p: "processSnapshot W identity w1 = (w2, ps, sk, err)" by (metis prod_cases4)
  let ?res1 = "res\<lparr>mrSkipped := mrSkipped res @ sk\<rparr>"
  let ?new = "filter (\<lambda>pid. pid \<notin> set (mrMoved res)) (Descendants (idMainPID identity) ps)"
  obtain w3 res2 dn where m: "moveAll W d (idKey identity) ps ?new ?res1 w2 = (w3, res2, dn)" by (metis prod_cases3)
  have "mrState res2 \<noteq> ''''" using moveAll_state [OF m] Suc.prems by (auto split: if_splits)
  with Suc e p m show ?case by (cases b; cases err; cases dn) (auto simp: Let_def)
qed simp

lemma Migrate_state: "mrState (snd (Migrate m identity w)) \<noteq> ''''"
  by (auto simp: Migrate_def Let_def intro!: migrateRounds_state split: sum.splits option.splits prod.splits)

lemma runMigration_state: "mrState (snd (runMigration W s identity source w)) \<noteq> ''''"
  using Migrate_state [of "currentMigrator W s" identity]
  by (auto simp: runMigration_def verifyNative_def split: option.splits prod.splits sum.splits)

subsection \<open>The cgroup file system behind the scheduler\<close>

text \<open>
  What the scheduler relies on: a scan reports valid keys only. The file system of
  \<open>internal/cgrouptrack\<close> keeps this promise.
\<close>

locale scheduler_world =
  fixes W :: "'w sworld"
  assumes scan_valid: "doScan W w = (w', Inr groups) \<Longrightarrow> kp \<in> set groups \<Longrightarrow> validateKey (fst kp) = Inr ()"
begin

lemma observeGroups_inv:
  "schInv s \<Longrightarrow> \<forall>kp \<in> set groups. validateKey (fst kp) = Inr () \<Longrightarrow> schInv (fst (observeGroups W s groups w))"
proof (induction groups arbitrary: s w)
  case (Cons kp groups)
  obtain key pids where kp: "kp = (key, pids)" by (cases kp)
  show ?case
  proof (cases "unitOf s key")
    case None
    with Cons kp show ?thesis by (simp add: schInv_new)
  next
    case (Some work)
    have "schInv (putUnit s key (work\<lparr>wkState := StateOrphanedPopulated\<rparr>))"
      using schInv_unit [OF Cons.prems(1) Some] Cons.prems(1) by (intro schInv_put) (auto simp: workOK_def)
    with Cons kp Some show ?thesis by simp
  qed
qed simp

lemma ReconcileGroups_inv:
  assumes "schInv s"
  shows "schInv (fst (ReconcileGroups W s w))"
proof -
  obtain w1 e where l: "migrateLegacyAll W s (sort_slice keyLess (map fst (schUnits s))) w = (w1, e)"
    by (cases "migrateLegacyAll W s (sort_slice keyLess (map fst (schUnits s))) w")
  obtain w2 r where sc: "currentScan W s w1 = (w2, r)" by (cases "currentScan W s w1")
  show ?thesis
  proof (cases "e \<noteq> None \<or> (\<exists>x. r = Inl x)")
    case True
    with assms l sc show ?thesis by (cases e) (auto simp: ReconcileGroups_def)
  next
    case False
    then obtain groups where r: "e = None" "r = Inr groups" by (cases r) auto
    have "\<forall>kp \<in> set groups. validateKey (fst kp) = Inr ()"
      using scan_valid [of w1 w2 groups] sc r by (auto simp: currentScan_def split: option.splits)
    then have inv: "schInv (fst (observeGroups W s groups w2))" by (rule observeGroups_inv [OF assms])
    obtain s3 w3 where o: "observeGroups W s groups w2 = (s3, w3)" by (cases "observeGroups W s groups w2")
    have "schInv (s3\<lparr>schUnits := map (rescheduleVanished (set (map fst groups))) (schUnits s3)\<rparr>)"
      using inv o by (intro schInv_map) (auto simp: rescheduleVanished_def workOK_def Let_def split: if_splits)
    then have "schInv (s3\<lparr>schUnits := map (rescheduleVanished (set (map fst groups))) (schUnits s3),
        schLastReconcile := t\<rparr>)" for t
      using schInv_fields(2) by simp
    with l sc r o show ?thesis by (auto simp: ReconcileGroups_def split: prod.splits)
  qed
qed

lemma ReconcileSource_inv:
  assumes "schInv s"
  shows "schInv (fst (ReconcileSource W s source w))"
proof -
  obtain w1 m where m: "doMeta W source w = (w1, m)" by (cases "doMeta W source w")
  obtain w2 us where us: "doUnits W source w1 = (w2, us)" by (cases "doUnits W source w1")
  show ?thesis
  proof (cases "\<exists>x y. m = Inr x \<and> us = Inr y")
    case False
    with assms m us show ?thesis by (cases m; cases us) (auto simp: ReconcileSource_def)
  next
    case True
    then obtain x y where xy: "m = Inr x" "us = Inr y" by blast
    obtain s3 seen w3 e where a: "applySnapshots W source x y s [] w2 = (s3, seen, w3, e)" by (metis prod_cases4)
    have s3: "schInv s3" using applySnapshots_inv [OF assms, of W source x y "[]" w2] a by simp
    let ?uid = "if metaMode x = ModeSystem then 0 else metaUID x"
    let ?keys = "filter (\<lambda>k. keyMode k = metaMode x \<and> keyUID k = ?uid \<and> k \<notin> set seen) (map fst (schUnits s3))"
    obtain s4 w4 where mi: "missingAll W ?keys s3 w3 = (s4, w4)" by (cases "missingAll W ?keys s3 w3")
    have "schInv s4" using missingAll_inv [OF s3, of W ?keys w3] mi by simp
    with ReconcileGroups_inv [of s4 w4] s3 m us xy a mi show ?thesis
      by (cases e) (simp_all add: ReconcileSource_def Let_def)
  qed
qed

end

subsection \<open>Every interleaving\<close>

text \<open>
  The daemon as an event system: snapshots, events and failures of the sources, timers, reconciliation,
  requests from the socket, the recovery of the root. A timer starts a migration that runs without
  the lock; its result is written back by a later event, so anything may happen in between.
\<close>

datatype sched_event =
    SourceReady nat snapshot
  | SourceEvent nat visionEvent
  | SourceOffline nat string
  | SourceReconcile nat
  | GroupsReconcile
  | TimerFires instanceIdentity
  | MigrationDone nat
  | SocketRequest scope request
  | RootRecovered

type_synonym 'w daemon = "scheduler \<times> 'w \<times> (instanceIdentity \<times> migrationResult) list"

definition schedStep :: "'w sworld \<Rightarrow> 'w daemon \<Rightarrow> sched_event \<Rightarrow> 'w daemon" where
  "schedStep W d ev =
     (case d of (s, w, running) \<Rightarrow>
      (case ev of
         SourceReady source sn \<Rightarrow> (Ready s source sn, w, running)
       | SourceEvent source e \<Rightarrow> (case handleEvent W s source e w of (s', w') \<Rightarrow> (s', w', running))
       | SourceOffline source err \<Rightarrow> (MarkSourceOffline s source err, w, running)
       | SourceReconcile source \<Rightarrow> (case ReconcileSource W s source w of (s', w', _) \<Rightarrow> (s', w', running))
       | GroupsReconcile \<Rightarrow> (case ReconcileGroups W s w of (s', w', _) \<Rightarrow> (s', w', running))
       | TimerFires identity \<Rightarrow>
           (case beginMigration s identity of
              None \<Rightarrow> (s, w, running)
            | Some source \<Rightarrow>
                (case runMigration W s identity source w of (w', r) \<Rightarrow> (s, w', (identity, r) # running)))
       | MigrationDone n \<Rightarrow>
           if n < length running then
             (case running ! n of
                (identity, r) \<Rightarrow>
                  (case finishMigration W s identity r w of
                     (s', w') \<Rightarrow> (s', w', take n running @ drop (Suc n) running)))
           else (s, w, running)
       | SocketRequest sc req \<Rightarrow>
           (case dispatch (schedulerService W) sc req (s, w) of ((s', w'), _) \<Rightarrow> (s', w', running))
       | RootRecovered \<Rightarrow> (ReplaceGroups s, w, running)))"

definition daemonInv :: "'w daemon \<Rightarrow> bool" where
  "daemonInv d \<longleftrightarrow> schInv (fst d) \<and> list_all (\<lambda>(identity, r). mrState r \<noteq> '''') (snd (snd d))"

lemma statusForKey_fst: "fst (fst (statusForKey W key sw)) = fst sw"
  by (auto simp: statusForKey_def split: option.splits prod.splits sum.splits)

lemma statusForKeys_fst: "fst (fst (statusForKeys W keys sw)) = fst sw"
proof (induction keys arbitrary: sw)
  case (Cons key keys)
  have "fst (fst (statusForKeys W keys (fst (statusForKey W key sw)))) = fst sw"
    by (simp add: Cons statusForKey_fst)
  then show ?case by (auto split: prod.splits)
qed simp

lemma Prepare_inv:
  assumes "schInv (fst sw)"
  shows "schInv (fst (fst (Prepare W sc unit sw)))"
proof (cases "validateKey (scopeKey sc unit)")
  case (Inl e)
  with assms show ?thesis by (simp add: Prepare_def Let_def)
next
  case (Inr u)
  then have "schInv (fst sw\<lparr>schNative := List.insert (scopeKey sc unit) (schNative (fst sw))\<rparr>)"
    using assms by (auto simp: schInv_def list_all_iff)
  with assms Inr show ?thesis
    by (simp add: Prepare_def Let_def split: prod.split option.split)
qed

lemma releaseKey_inv:
  assumes "schInv s" "validateKey key = Inr ()"
  shows "schInv (fst (fst (releaseKey W s key w)))"
proof -
  have "schInv (s\<lparr>schNative := removeAll key (schNative s)\<rparr>)"
    "schInv (s\<lparr>schNative := List.insert key (removeAll key (schNative s))\<rparr>)"
    using assms by (auto simp: schInv_def list_all_iff)
  then show ?thesis by (simp add: releaseKey_def Let_def split: prod.split option.split sum.split)
qed

lemma Release_inv:
  assumes "schInv (fst sw)"
  shows "schInv (fst (fst (Release W sc unit sw)))"
  using assms releaseKey_inv [of "fst sw" "scopeKey sc unit" W]
  by (cases "validateKey (scopeKey sc unit)") (auto simp: Release_def Let_def split: prod.split sum.split)

lemma reply_fst: "fst (reply code ok r) = fst r"
  by (simp add: reply_def)

lemma dispatch_inv:
  assumes "schInv (fst sw)"
  shows "schInv (fst (fst (dispatch (schedulerService W) sc req sw)))"
proof -
  have "fst (fst (Status W sc sw)) = fst sw" by (simp add: Status_def Let_def)
  moreover have "fst (fst (ListUnits W sc sw)) = fst sw"
    by (auto simp: ListUnits_def split: prod.split) (metis fst_conv statusForKeys_fst)
  moreover have "fst (fst (GetUnit W sc u sw)) = fst sw" for u
    by (auto simp: GetUnit_def statusForKey_fst split: sum.split)
  moreover have "fst (fst (ListUnitPIDs W sc u sw)) = fst sw" for u
    by (auto simp: ListUnitPIDs_def Let_def split: sum.split prod.split option.split)
  moreover have "fst (fst (Attach W sc u pid sw)) = fst sw" for u pid
    by (auto simp: Attach_def Let_def statusForKey_fst split: sum.split prod.split option.split)
  ultimately show ?thesis
    using assms Prepare_inv [of sw W sc] Release_inv [of sw W sc]
    by (simp add: dispatch_def schedulerService_def reply_fst Let_def)
qed

lemma handleEvent_inv: "schInv s \<Longrightarrow> schInv (fst (handleEvent W s source ev w))"
  using Stopped_inv [of s W] Ready_inv [of s source]
  by (auto simp: handleEvent_def Let_def split: prod.split sum.split)

sublocale scheduler_world \<subseteq> daemon: machine "schedStep W" daemonInv
proof
  fix d :: "'w daemon" and ev assume inv: "daemonInv d"
  obtain s w running where d: "d = (s, w, running)" by (cases d)
  with inv have s: "schInv s" and r: "\<And>i x. (i, x) \<in> set running \<Longrightarrow> mrState x \<noteq> ''''"
    by (auto simp: daemonInv_def list_all_iff)
  show "daemonInv (schedStep W d ev)"
  proof (cases ev)
    case (SourceEvent source e)
    with inv d handleEvent_inv [OF s, of W source e w] show ?thesis
      by (auto simp: schedStep_def daemonInv_def split: prod.split)
  next
    case (SourceReconcile source)
    with inv d ReconcileSource_inv [OF s, of source w] show ?thesis
      by (auto simp: schedStep_def daemonInv_def split: prod.split)
  next
    case GroupsReconcile
    with inv d ReconcileGroups_inv [OF s, of w] show ?thesis
      by (auto simp: schedStep_def daemonInv_def split: prod.split)
  next
    case (TimerFires identity)
    with inv d runMigration_state [of W s identity _ w] show ?thesis
      by (auto simp: schedStep_def daemonInv_def split: prod.split option.split) (metis snd_conv)
  next
    case (MigrationDone n)
    show ?thesis
    proof (cases "n < length running")
      case True
      obtain identity x where x: "running ! n = (identity, x)" by (cases "running ! n")
      with r True have "mrState x \<noteq> ''''" by (metis nth_mem)
      with s have "schInv (updateMigration W s identity x t)" for t by (rule updateMigration_inv)
      moreover have "\<And>i y. (i, y) \<in> set (take n running @ drop (Suc n) running) \<Longrightarrow> mrState y \<noteq> ''''"
        using r by (auto dest: in_set_takeD in_set_dropD)
      ultimately show ?thesis using MigrationDone True x d
        by (auto simp: schedStep_def daemonInv_def finishMigration_def list_all_iff split: prod.split)
    next
      case False
      with MigrationDone inv d show ?thesis by (simp add: schedStep_def)
    qed
  next
    case (SocketRequest sc req)
    with inv d dispatch_inv [of "(s, w)" W sc req] show ?thesis
      by (auto simp: schedStep_def daemonInv_def split: prod.split)
  qed (use inv d Ready_inv [OF s] MarkSourceOffline_inv [OF s] in
    \<open>auto simp: schedStep_def daemonInv_def ReplaceGroups_def\<close>)
qed

text \<open>The world of the daemon as \<open>main\<close> wires it: the groups are the Linux cgroup file system.\<close>

definition linuxWorld :: "'w syscalls \<Rightarrow> cgroupFS \<Rightarrow> 'w sworld \<Rightarrow> 'w sworld" where
  "linuxWorld S f B =
     B\<lparr>doEnsure := Ensure S, doMovePID := MovePID S, doPIDs := PIDs S, doRemoveIfEmpty := RemoveIfEmpty S f,
       doScan := Scan S, doMigrateLegacy := Some (MigrateLegacy S f), doPrepareNative := Some (PrepareNative S),
       groupPath := Path f, groupRoot := Some (fsRoot f), linuxGroups := True\<rparr>"

interpretation linux: scheduler_world "linuxWorld S f B"
  by unfold_locales (simp add: linuxWorld_def Scan_keys)

subsection \<open>Properties of the scheduler\<close>

lemma newScheduler_inv: "daemonInv (newScheduler boot path, w, [])"
  by (simp add: daemonInv_def schInv_def newScheduler_def)

lemma loadRecords_inv:
  "schInv s \<Longrightarrow> list_all recordValid rs \<Longrightarrow> schInv (loadRecords W s rs)"
proof (induction rs arbitrary: s)
  case (Cons r rs)
  then have r: "recordValid r" by simp
  show ?case
  proof (cases "idBootID (recIdentity r) \<noteq> schBootID s \<or> validateIdentity (recIdentity r) \<noteq> Inr ()")
    case True
    with Cons show ?thesis by (simp add: Let_def)
  next
    case False
    then have "validateKey (idKey (recIdentity r)) = Inr ()"
      by (auto simp: validateIdentity_def bind_err_Inr_iff)
    with False r have "workOK (schBootID s) (idKey (recIdentity r),
        \<lparr>wkRef = schNextRef s, wkIdentity = recIdentity r, wkState = recState r, wkSource = None, wkTimer = False,
         wkLastMigration = t, wkLastError = recLastError r, wkRetryCount = recRetryCount r\<rparr>)" for t
      by (simp add: workOK_def recordValid_def)
    with False Cons show ?thesis by (simp add: Let_def schInv_put)
  qed
qed simp

lemma LoadRegistry_inv:
  assumes "schInv s" "validateRegistry reg = Inr ()"
  shows "schInv (LoadRegistry W s reg)"
proof -
  from assms(2) have "list_all (\<lambda>k. validateKey k = Inr ()) (regNative reg)" "list_all recordValid (regUnits reg)"
    by (auto simp: validateRegistry_def bind_err_Inr_iff validateNative_iff validateRecords_iff split: if_splits)
  moreover from this assms(1) have "schInv (s\<lparr>schNative := remdups (regNative reg @ schNative s)\<rparr>)"
    by (auto simp: schInv_def list_all_iff)
  ultimately show ?thesis by (simp add: LoadRegistry_def loadRecords_inv)
qed

lemma registryOf_valid:
  assumes "schInv s"
  shows "validateRegistry (registryOf W s) = Inr ()"
proof -
  have "list_all recordValid (regUnits (registryOf W s))"
    using assms by (auto simp: registryOf_def schInv_def workOK_def recordValid_def recordOf_def list_all_iff)
  moreover have "map (recordKey \<circ> (recordOf W \<circ> snd)) (schUnits s) = map fst (schUnits s)"
    using assms by (auto simp: schInv_def workOK_def recordKey_def recordOf_def list_all_iff)
  then have "distinct (map recordKey (map (recordOf W \<circ> snd) (schUnits s)))"
    using assms by (simp only: map_map schInv_def)
  then have "distinct (map recordKey (regUnits (registryOf W s)))"
    by (simp only: registryOf_def registry.select_convs distinct_map_filter)
  ultimately show ?thesis
    using assms
    by (simp add: validateRegistry_def validateNative_iff validateRecords_iff bind_err_Inr_iff)
       (simp add: registryOf_def schInv_def)
qed

text \<open>
  Property C7. The registry the daemon saves is always one it can load: from a fresh scheduler or a
  loaded registry, after any sequence of events, timers and requests, with migrations finishing at any
  later point, the registry built by \<open>saveRegistry\<close> passes \<open>validateRegistry\<close> (valid identities,
  no unit twice, no empty state, no negative retry count), on the Linux cgroup file system.
\<close>

theorem saved_registry_valid:
  assumes "validateRegistry reg = Inr ()"
  shows "validateRegistry (registryOf W (fst (foldl (schedStep (linuxWorld S f B))
    (LoadRegistry W (newScheduler boot path) reg, w, []) evs))) = Inr ()"
proof -
  have "schInv (newScheduler boot path)" by (simp add: schInv_def newScheduler_def)
  then have "daemonInv (LoadRegistry W (newScheduler boot path) reg, w, [])"
    using LoadRegistry_inv assms by (simp add: daemonInv_def)
  from linux.daemon.run_inv [OF this, of S f B evs] show ?thesis
    by (simp add: daemonInv_def registryOf_valid)
qed

text \<open>A world without processes, sources or groups of its own, for the examples.\<close>

definition quietWorld :: "nat sworld" where
  "quietWorld =
     \<lparr>doInspect = \<lambda>_ n. (n, Inl (OSFailure NotExist)), doListPIDs = \<lambda>n. (n, Inr []), doEnsure = \<lambda>_ n. (n, None),
      doMovePID = \<lambda>_ _ n. (n, None), doPIDs = \<lambda>_ n. (n, Inr []), doExpired = \<lambda>_ n. (n, False),
      doRemoveIfEmpty = \<lambda>_ n. (n, Inr True), doScan = \<lambda>n. (n, Inr []), doMigrateLegacy = None,
      doPrepareNative = None, groupPath = \<lambda>_. '''', groupRoot = None, linuxGroups = False,
      doUnit = \<lambda>_ _ n. (n, Inl ''none''), doMeta = \<lambda>_ n. (n, Inl ''none''), doUnits = \<lambda>_ n. (n, Inr []),
      doWriteRegistry = \<lambda>_ _ n. (n, None), doNow = \<lambda>n. (n + 1, int n), formatTime = \<lambda>t. itoa t,
      parseTime = \<lambda>_. None, migrateText = \<lambda>_. ''migrate'', groupText = \<lambda>_. ''group'', keyText = \<lambda>_. ''key'',
      procText = \<lambda>_. ''proc'', migratorRounds = 8, migratorDeadline = 1\<rparr>"

definition fooRegistry :: registry where
  "fooRegistry = \<lparr>regVersion = 1, regUnits = [], regNative = [fooKey]\<rparr>"

lemma fooRegistry_valid: "validateRegistry fooRegistry = Inr ()"
  by (simp add: validateRegistry_def fooRegistry_def validateKey_foo)

theorem saved_registry_valid_witness:
  "validateRegistry fooRegistry = Inr () \<and>
   validateRegistry (registryOf quietWorld (fst (foldl
     (schedStep (linuxWorld agreeableKernel \<lparr>fsRoot = ''/'', fsSynthetic = False\<rparr> quietWorld))
     (LoadRegistry quietWorld (newScheduler ''b'' '''') fooRegistry, 0, []) [GroupsReconcile]))) = Inr ()"
  by (rule conjI [OF fooRegistry_valid saved_registry_valid [OF fooRegistry_valid]])

text \<open>
  Fact. A late result never overwrites a newer instance: when the table holds another identity
  for the unit (or none), the result of a migration leaves the table unchanged, and a timer whose
  identity is no longer the pending one starts nothing; a result for the current instance is
  recorded and counts the retries.
\<close>

theorem stale_results_ignored:
  assumes "map_option wkIdentity (unitOf s (idKey identity)) \<noteq> Some identity"
  shows "fst (finishMigration W s identity r w) = s \<and> beginMigration s identity = None \<and>
    fst (migrateCurrent W s identity w) = s"
proof (cases "unitOf s (idKey identity)")
  case None
  then show ?thesis
    by (auto simp: finishMigration_def updateMigration_def beginMigration_def migrateCurrent_def split: prod.split)
next
  case (Some work)
  with assms show ?thesis
    by (auto simp: finishMigration_def updateMigration_def beginMigration_def migrateCurrent_def split: prod.split)
qed

theorem stale_results_ignored_witness:
  "fst (finishMigration quietWorld (newUnit (newScheduler ''b'' '''') (idKey systemIdentity)
      (systemIdentity\<lparr>idGeneration := 2\<rparr>) StatePending None True) systemIdentity (degraded NotConfigured) 0) =
   newUnit (newScheduler ''b'' '''') (idKey systemIdentity) (systemIdentity\<lparr>idGeneration := 2\<rparr>) StatePending None True"
proof -
  let ?s = "newUnit (newScheduler ''b'' '''') (idKey systemIdentity) (systemIdentity\<lparr>idGeneration := 2\<rparr>) StatePending None True"
  have "map_option wkIdentity (unitOf ?s (idKey systemIdentity)) \<noteq> Some systemIdentity"
    by (simp add: unitOf_def newUnit_def putUnit_def newScheduler_def systemIdentity_def)
  from stale_results_ignored [OF this, of quietWorld] show ?thesis by simp
qed

text \<open>
  Fact. A unit is forgotten only when nothing runs in its group: \<open>Stopped\<close> (and likewise
  \<open>Missing\<close>) removes a tracked unit only if the group was read as empty or does not exist, keeps it
  as \<open>orphaned-populated\<close> when the group has members and as \<open>degraded\<close> when the group cannot be
  read; and a group that was declared native is not removed from the file system.
\<close>

theorem Stopped_keeps_populated:
  assumes "unitOf s key = Some work"
  shows "case currentPIDs W s key w of (w1, members) \<Rightarrow>
    (case Stopped W s key w of (s', w') \<Rightarrow>
       (unitOf s' key = None \<longleftrightarrow> members = Inr [] \<or> members = Inl (GroupOS NotExist)) \<and>
       (\<forall>pid pids. members = Inr (pid # pids) \<longrightarrow> map_option wkState (unitOf s' key) = Some StateOrphanedPopulated) \<and>
       (\<forall>e. members = Inl e \<and> e \<noteq> GroupOS NotExist \<longrightarrow> map_option wkState (unitOf s' key) = Some StateDegraded) \<and>
       (nativeDeclared s key \<longrightarrow> w' = w1) \<and> Missing W s key w = Stopped W s key w)"
proof -
  let ?s1 = "putUnit s key (work\<lparr>wkTimer := False\<rparr>)"
  have t: "stopTimer s key = (?s1, Some (wkRef work))" using assms by (simp add: stopTimer_def)
  have u: "unitOf ?s1 key = Some (work\<lparr>wkTimer := False\<rparr>)" by (simp add: unitOf_def putUnit_def update_conv')
  have p: "currentPIDs W ?s1 key w = currentPIDs W s key w" by (simp add: currentPIDs_def putUnit_def)
  have look: "unitOf (putUnit x key y) key = Some y" "unitOf (dropUnit x key) key = None" for x y
    by (simp_all add: unitOf_def putUnit_def dropUnit_def update_conv' delete_conv')
  obtain w1 members where m: "currentPIDs W s key w = (w1, members)" by (cases "currentPIDs W s key w")
  have st: "Stopped W s key w = settleStopped W ?s1 key (wkRef work) members w1"
    by (simp add: Stopped_def t p m)
  show ?thesis
  proof (cases members)
    case (Inl e)
    then show ?thesis
      by (auto simp: m st settleStopped_def Let_def u look groupMissing_def Missing_eq removeUndeclaredEmpty_def nativeDeclared_def)
  next
    case (Inr pids)
    then show ?thesis
      by (cases pids) (auto simp: m st settleStopped_def Let_def u look Missing_eq removeUndeclaredEmpty_def nativeDeclared_def)
  qed
qed

definition trackedFoo :: scheduler where
  "trackedFoo = newUnit (newScheduler ''b'' '''') (idKey systemIdentity) systemIdentity StateTracked None False"

theorem Stopped_keeps_populated_witness:
  "unitOf (fst (Stopped quietWorld trackedFoo (idKey systemIdentity) 0)) (idKey systemIdentity) = None \<and>
   map_option wkState (unitOf (fst (Stopped (quietWorld\<lparr>doPIDs := \<lambda>_ n. (n, Inr [7])\<rparr>) trackedFoo (idKey systemIdentity) 0))
     (idKey systemIdentity)) = Some StateOrphanedPopulated"
proof -
  have u: "\<exists>work. unitOf trackedFoo (idKey systemIdentity) = Some work"
    by (simp add: trackedFoo_def unitOf_def newUnit_def putUnit_def newScheduler_def)
  then obtain work where w: "unitOf trackedFoo (idKey systemIdentity) = Some work" by blast
  have "schUnavailable trackedFoo = None" by (simp add: trackedFoo_def newUnit_def putUnit_def newScheduler_def)
  then show ?thesis
    using Stopped_keeps_populated [OF w, of quietWorld 0]
      Stopped_keeps_populated [OF w, of "quietWorld\<lparr>doPIDs := \<lambda>_ n. (n, Inr [7])\<rparr>" 0]
    by (simp add: currentPIDs_def case_prod_beta) (simp add: quietWorld_def)
qed

subsection \<open>What a scope shows\<close>

lemma statusForKey_identity:
  assumes "schInv (fst sw)" "statusForKey W key sw = (sw', Inr st)"
  shows "idKey (usIdentity st) = key"
proof -
  from assms(2) obtain work pids where "unitOf (fst sw) key = Some work" "st = unitStatusOf W (fst sw) key work pids"
    by (auto simp: statusForKey_def split: option.splits prod.splits sum.splits if_splits)
  with schInv_unit [OF assms(1), of key work] show ?thesis by (simp add: unitStatusOf_def workOK_def)
qed

lemma statusForKeys_identity:
  "schInv (fst sw) \<Longrightarrow> st \<in> set (snd (statusForKeys W keys sw)) \<Longrightarrow> idKey (usIdentity st) \<in> set keys"
proof (induction keys arbitrary: sw)
  case (Cons key keys)
  obtain sw1 r where r: "statusForKey W key sw = (sw1, r)" by (cases "statusForKey W key sw")
  then have inv: "schInv (fst sw1)" using statusForKey_fst [of W key sw] Cons.prems(1) by simp
  obtain sw2 rest where rest: "statusForKeys W keys sw1 = (sw2, rest)" by (cases "statusForKeys W keys sw1")
  have "st \<in> set rest \<Longrightarrow> idKey (usIdentity st) \<in> set keys" using Cons.IH [OF inv] rest by simp
  moreover have "idKey (usIdentity x) = key" if "r = Inr x" for x
    using that r statusForKey_identity [of sw W key sw1 x] Cons.prems(1) by simp
  ultimately show ?case using Cons.prems r rest by (cases r) auto
qed simp

lemma dispatch_units:
  assumes "schInv (fst sw)" "dispatch (schedulerService W) sc req sw = (sw', r)" "\<not> scGlobal sc"
    and "u \<in> set (rspUnits r) \<union> set_option (rspUnit r)"
  shows "keyMode (idKey (usIdentity u)) = scMode sc \<and> keyUID (idKey (usIdentity u)) = scUID sc"
proof -
  have list: "keyMode (idKey (usIdentity x)) = scMode sc \<and> keyUID (idKey (usIdentity x)) = scUID sc"
    if "ListUnits W sc sw = (y, Inr us)" "x \<in> set us" for x y us
    using that assms(3) statusForKeys_identity [OF assms(1), of x W "sort_slice keyLess (filter (inScope sc) (map fst (schUnits (fst sw))))"]
    by (auto simp: ListUnits_def inScope_def split: prod.splits)
  have one: "keyMode (idKey (usIdentity x)) = scMode sc \<and> keyUID (idKey (usIdentity x)) = scUID sc"
    if "statusForKey W (scopeKey sc unit) (fst sw, w) = (y, Inr x)" for x y unit w
    using statusForKey_identity [OF _ that] assms(1) by (simp add: scopeKey_def)
  have get: "keyMode (idKey (usIdentity x)) = scMode sc \<and> keyUID (idKey (usIdentity x)) = scUID sc"
    if "GetUnit W sc unit sw = (y, Inr x)" for x y unit
    using that one [of unit "snd sw" y x] by (simp add: GetUnit_def split: sum.splits)
  have att: "keyMode (idKey (usIdentity x)) = scMode sc \<and> keyUID (idKey (usIdentity x)) = scUID sc"
    if "Attach W sc unit pid sw = (y, Inr x)" for x y unit pid
    using that one [of unit _ y x] by (auto simp: Attach_def Let_def split: sum.splits option.splits prod.splits)
  have prep: "keyMode (idKey (usIdentity x)) = scMode sc \<and> keyUID (idKey (usIdentity x)) = scUID sc"
    if "Prepare W sc unit sw = (y, Inr x)" for x y unit
    using that by (auto simp: Prepare_def Let_def scopeKey_def split: sum.splits option.splits prod.splits if_splits)
  from dispatch_unit_origin [OF assms(2,4)]
  consider us where "snd (ListUnits W sc sw) = Inr us" "u \<in> set us"
    | "snd (GetUnit W sc (reqUnit req) sw) = Inr u"
    | "snd (Attach W sc (reqUnit req) (reqPID req) sw) = Inr u"
    | "snd (Prepare W sc (reqUnit req) sw) = Inr u"
    unfolding schedulerService_def by auto
  then show ?thesis
    by cases (metis list prod.collapse, metis get prod.collapse, metis att prod.collapse, metis prep prod.collapse)
qed

end
