(* ===== verification/Dbus_Protocol.thy ===== *)
theory Dbus_Protocol
  imports Interfaces
begin

text \<open>
  The control protocol of D-Bus activation (\<open>internal/dbusactivation/protocol.go\<close> and
  \<open>daemoncodes.go\<close>): packets with a fixed header, the payloads of the requests and results, and the
  exit codes of the helper.
\<close>

subsection \<open>Constants and types\<close>

abbreviation ProtocolVersion :: uint16 where "ProtocolVersion \<equiv> 1"
abbreviation HeaderSize :: nat where "HeaderSize \<equiv> 28"
abbreviation MaxPayload :: nat where "MaxPayload \<equiv> 65536"
abbreviation MaxBusName :: nat where "MaxBusName \<equiv> 255"

definition protocolMagic :: string where
  "protocolMagic = ''SDBUS'' @ [CHR 0x00, CHR 0x00, CHR 0x01]"

abbreviation MessageHello :: uint16 where "MessageHello \<equiv> 1"
abbreviation MessageSetEnvironment :: uint16 where "MessageSetEnvironment \<equiv> 2"
abbreviation MessageActivate :: uint16 where "MessageActivate \<equiv> 3"
abbreviation MessageActivationResult :: uint16 where "MessageActivationResult \<equiv> 4"
abbreviation MessageCancel :: uint16 where "MessageCancel \<equiv> 5"
abbreviation MessageReload :: uint16 where "MessageReload \<equiv> 6"
abbreviation MessageStatus :: uint16 where "MessageStatus \<equiv> 7"
abbreviation MessagePing :: uint16 where "MessagePing \<equiv> 8"

type_synonym frontend = "8 word"

abbreviation FrontendDaemonHelper :: frontend where "FrontendDaemonHelper \<equiv> 1"
abbreviation FrontendAdmin :: frontend where "FrontendAdmin \<equiv> 2"

abbreviation ResultSuccess :: uint16 where "ResultSuccess \<equiv> 0"
abbreviation ResultConfigInvalid :: uint16 where "ResultConfigInvalid \<equiv> 1"
abbreviation ResultUnknownService :: uint16 where "ResultUnknownService \<equiv> 2"
abbreviation ResultPermissionsInvalid :: uint16 where "ResultPermissionsInvalid \<equiv> 3"
abbreviation ResultFileInvalid :: uint16 where "ResultFileInvalid \<equiv> 4"
abbreviation ResultServiceInvalid :: uint16 where "ResultServiceInvalid \<equiv> 5"
abbreviation ResultServiceNotFound :: uint16 where "ResultServiceNotFound \<equiv> 6"
abbreviation ResultExecFailed :: uint16 where "ResultExecFailed \<equiv> 7"
abbreviation ResultChildExited :: uint16 where "ResultChildExited \<equiv> 9"
abbreviation ResultChildSignaled :: uint16 where "ResultChildSignaled \<equiv> 10"
abbreviation ResultFailed :: uint16 where "ResultFailed \<equiv> 11"
abbreviation ResultInvalidArguments :: uint16 where "ResultInvalidArguments \<equiv> 12"
abbreviation ResultOutOfMemory :: uint16 where "ResultOutOfMemory \<equiv> 13"
abbreviation ResultDuplicateService :: uint16 where "ResultDuplicateService \<equiv> 14"
abbreviation ResultInvalidBusName :: uint16 where "ResultInvalidBusName \<equiv> 15"
abbreviation ResultUnitNotFound :: uint16 where "ResultUnitNotFound \<equiv> 16"
abbreviation ResultSetupFailed :: uint16 where "ResultSetupFailed \<equiv> 18"
abbreviation ResultTimeout :: uint16 where "ResultTimeout \<equiv> 19"
abbreviation ResultBackendUnavailable :: uint16 where "ResultBackendUnavailable \<equiv> 20"
abbreviation ResultVersionMismatch :: uint16 where "ResultVersionMismatch \<equiv> 22"

record packet =
  pktType :: uint16
  pktRequestID :: uint64
  pktFlags :: uint32
  pktPayload :: string

record activateRequest =
  arFrontend :: frontend
  arBusName :: string
  arEnvironment :: "string list"
  arEnvironmentSet :: bool

record activationResult =
  acCode :: uint16
  acDetail :: string

text \<open>A Go map from strings to strings, as an association list with distinct keys.\<close>

type_synonym environment = "(string \<times> string) list"

record setEnvironmentRequest =
  seFrontend :: frontend
  seValues :: environment

datatype wire_error =
    UnexpectedEOF | InvalidMagic | UnsupportedVersion nat | UnknownMessageType uint16
  | UnsupportedFlags uint32 | PayloadTooLong nat | LengthMismatch nat nat | PacketIO os_error
  | InvalidFrontend frontend | InvalidResultCode uint16 | InvalidName string | TrailingBytes
  | TooManyEntries | PayloadTooLarge | InvalidEntry string | DuplicateEntry string
  | StringInvalidOrTooLong | StringTooLong | StringNotUTF8

subsection \<open>Checks\<close>

definition validMessageType :: "uint16 \<Rightarrow> bool" where
  "validMessageType messageType \<longleftrightarrow> MessageHello \<le> messageType \<and> messageType \<le> MessagePing"

definition validFrontend :: "frontend \<Rightarrow> bool" where
  "validFrontend f \<longleftrightarrow> f = FrontendDaemonHelper \<or> f = FrontendAdmin"

definition validResultCode :: "uint16 \<Rightarrow> bool" where
  "validResultCode code \<longleftrightarrow> code \<le> ResultVersionMismatch"

definition validBusElementStart :: "char \<Rightarrow> bool" where
  "validBusElementStart ch \<longleftrightarrow>
     ch = CHR ''_'' \<or> ch = CHR ''-'' \<or> byte_in 65 90 ch \<or> byte_in 97 122 ch"

definition validBusElement :: "char \<Rightarrow> bool" where
  "validBusElement ch \<longleftrightarrow> validBusElementStart ch \<or> byte_in 48 57 ch"

definition validBusPart :: "string \<Rightarrow> bool" where
  "validBusPart part \<longleftrightarrow> part \<noteq> '''' \<and> validBusElementStart (hd part) \<and> list_all validBusElement (tl part)"

definition ValidateBusName :: "string \<Rightarrow> wire_error + unit" where
  "ValidateBusName name =
     (if name = '''' \<or> length name > MaxBusName \<or> \<not> valid_utf8 name \<or> has_prefix name '':'' \<or> \<not> contains name ''.''
      then Inl (InvalidName name)
      else if list_all validBusPart (split_on CHR ''.'' name) then Inr () else Inl (InvalidName name))"

definition validateEnvironmentEntry :: "string \<Rightarrow> string \<Rightarrow> wire_error + unit" where
  "validateEnvironmentEntry key val =
     (if key = '''' \<or> contains_any key [CHR ''='', CHR 0x00] \<or> CHR 0x00 \<in> set val \<or>
         \<not> valid_utf8 key \<or> \<not> valid_utf8 val
      then Inl (InvalidEntry key) else Inr ())"

subsection \<open>Packets\<close>

text \<open>\<open>WritePacket\<close> on a writer given by its \<open>Write\<close>: the header, then a payload that is not empty.\<close>

definition packetHeader :: "packet \<Rightarrow> string" where
  "packetHeader p =
     protocolMagic @ be_bytes 2 (unat ProtocolVersion) @ be_bytes 2 (unat (pktType p)) @
     be_bytes 8 (unat (pktRequestID p)) @ be_bytes 4 (length (pktPayload p)) @ be_bytes 4 (unat (pktFlags p))"

definition WritePacket :: "(string \<Rightarrow> 'w \<Rightarrow> 'w \<times> os_error option) \<Rightarrow> packet \<Rightarrow> 'w \<Rightarrow> 'w \<times> wire_error option" where
  "WritePacket write p w =
     (if \<not> validMessageType (pktType p) then (w, Some (UnknownMessageType (pktType p)))
      else if pktFlags p \<noteq> 0 then (w, Some (UnsupportedFlags (pktFlags p)))
      else if length (pktPayload p) > MaxPayload then (w, Some (PayloadTooLong (length (pktPayload p))))
      else case write (packetHeader p) w of
        (w, Some e) \<Rightarrow> (w, Some (PacketIO e))
      | (w, None) \<Rightarrow>
          if pktPayload p = [] then (w, None)
          else case write (pktPayload p) w of (w, e) \<Rightarrow> (w, map_option PacketIO e))"

definition bufferWrite :: "string \<Rightarrow> string \<Rightarrow> string \<times> os_error option" where
  "bufferWrite data buf = (buf @ data, None)"

definition EncodePacket :: "packet \<Rightarrow> wire_error + string" where
  "EncodePacket p =
     (case WritePacket bufferWrite p [] of (_, Some e) \<Rightarrow> Inl e | (buf, None) \<Rightarrow> Inr buf)"

definition bytes_at :: "nat \<Rightarrow> nat \<Rightarrow> string \<Rightarrow> string" where
  "bytes_at i j s = take (j - i) (drop i s)"

definition DecodePacket :: "string \<Rightarrow> wire_error + packet" where
  "DecodePacket data =
     (if length data < HeaderSize then Inl UnexpectedEOF
      else if bytes_at 0 8 data \<noteq> protocolMagic then Inl InvalidMagic
      else let version = be_val (bytes_at 8 10 data) in
      if version \<noteq> unat ProtocolVersion then Inl (UnsupportedVersion version)
      else let messageType = of_nat (be_val (bytes_at 10 12 data)) in
      if \<not> validMessageType messageType then Inl (UnknownMessageType messageType)
      else let flags = of_nat (be_val (bytes_at 24 28 data)) in
      if flags \<noteq> 0 then Inl (UnsupportedFlags flags)
      else let payloadLength = be_val (bytes_at 20 24 data) in
      if payloadLength > MaxPayload then Inl (PayloadTooLong payloadLength)
      else if length data \<noteq> HeaderSize + payloadLength then Inl (LengthMismatch (length data) payloadLength)
      else Inr \<lparr>pktType = messageType, pktRequestID = of_nat (be_val (bytes_at 12 20 data)), pktFlags = flags,
                pktPayload = drop HeaderSize data\<rparr>)"

text \<open>\<open>ReadPacket\<close>: everything the reader gives until end of file, cut off after one byte too many.\<close>

definition ReadPacket :: "os_error + string \<Rightarrow> wire_error + packet" where
  "ReadPacket input =
     (case input of Inl e \<Rightarrow> Inl (PacketIO e)
      | Inr data \<Rightarrow> DecodePacket (take (HeaderSize + MaxPayload + 1) data))"

subsection \<open>Strings\<close>

definition writeString16 :: "string \<Rightarrow> wire_error + string" where
  "writeString16 val =
     (if \<not> valid_utf8 val \<or> length val > 65535 then Inl StringInvalidOrTooLong
      else Inr (be_bytes 2 (length val) @ val))"

definition writeString32 :: "string \<Rightarrow> wire_error + string" where
  "writeString32 val =
     (if \<not> valid_utf8 val \<or> length val > 4294967295 then Inl StringInvalidOrTooLong
      else Inr (be_bytes 4 (length val) @ val))"

text \<open>The readers return the value and the unread rest.\<close>

definition readString :: "nat \<Rightarrow> nat \<Rightarrow> string \<Rightarrow> wire_error + string \<times> string" where
  "readString len maximum s =
     (if len > maximum \<or> len > length s then Inl StringTooLong
      else if \<not> valid_utf8 (take len s) then Inl StringNotUTF8
      else Inr (take len s, drop len s))"

definition readString16 :: "nat \<Rightarrow> string \<Rightarrow> wire_error + string \<times> string" where
  "readString16 maximum s =
     (if length s < 2 then Inl UnexpectedEOF else readString (be_val (take 2 s)) maximum (drop 2 s))"

definition readString32 :: "nat \<Rightarrow> string \<Rightarrow> wire_error + string \<times> string" where
  "readString32 maximum s =
     (if length s < 4 then Inl UnexpectedEOF
      else if be_val (take 4 s) > maximum then Inl StringTooLong
      else readString (be_val (take 4 s)) maximum (drop 4 s))"

subsection \<open>Payloads\<close>

definition frontendByte :: "frontend \<Rightarrow> char" where
  "frontendByte f = char_of (unat f)"

definition readFrontend :: "string \<Rightarrow> wire_error + frontend \<times> string" where
  "readFrontend s =
     (if s = [] then Inl UnexpectedEOF
      else let f = of_nat (of_char (hd s)) in
        if \<not> validFrontend f then Inl (InvalidFrontend f) else Inr (f, tl s))"

definition EncodeActivate :: "activateRequest \<Rightarrow> wire_error + string" where
  "EncodeActivate r =
     (if \<not> validFrontend (arFrontend r) then Inl (InvalidFrontend (arFrontend r))
      else bind_err (ValidateBusName (arBusName r)) (\<lambda>_.
           bind_err (writeString16 (arBusName r)) (\<lambda>b. Inr (frontendByte (arFrontend r) # b))))"

definition DecodeActivate :: "string \<Rightarrow> wire_error + activateRequest" where
  "DecodeActivate payload =
     bind_err (readFrontend payload) (\<lambda>(f, s).
     bind_err (readString16 MaxBusName s) (\<lambda>(name, rest).
       if rest \<noteq> [] then Inl TrailingBytes
       else bind_err (ValidateBusName name) (\<lambda>_.
         Inr \<lparr>arFrontend = f, arBusName = name, arEnvironment = [], arEnvironmentSet = False\<rparr>)))"

definition EncodeActivationResult :: "activationResult \<Rightarrow> wire_error + string" where
  "EncodeActivationResult r =
     (if \<not> validResultCode (acCode r) then Inl (InvalidResultCode (acCode r))
      else bind_err (writeString16 (acDetail r)) (\<lambda>b. Inr (be_bytes 2 (unat (acCode r)) @ b)))"

definition DecodeActivationResult :: "string \<Rightarrow> wire_error + activationResult" where
  "DecodeActivationResult payload =
     (if length payload < 2 then Inl UnexpectedEOF
      else let code = of_nat (be_val (take 2 payload)) in
        if \<not> validResultCode code then Inl (InvalidResultCode code)
        else bind_err (readString16 MaxPayload (drop 2 payload)) (\<lambda>(detail, rest).
          if rest \<noteq> [] then Inl TrailingBytes else Inr \<lparr>acCode = code, acDetail = detail\<rparr>))"

definition encodeEntry :: "string \<times> string \<Rightarrow> wire_error + string" where
  "encodeEntry kv =
     bind_err (validateEnvironmentEntry (fst kv) (snd kv)) (\<lambda>_.
     bind_err (writeString16 (fst kv)) (\<lambda>k.
     bind_err (writeString32 (snd kv)) (\<lambda>v. Inr (k @ v))))"

fun encodeEntries :: "environment \<Rightarrow> wire_error + string" where
  "encodeEntries [] = Inr []"
| "encodeEntries (kv # kvs) =
     bind_err (encodeEntry kv) (\<lambda>b. bind_err (encodeEntries kvs) (\<lambda>bs. Inr (b @ bs)))"

definition sortedEntries :: "environment \<Rightarrow> environment" where
  "sortedEntries m = map (\<lambda>k. (k, the (map_of m k))) (sort_slice (<) (map fst m))"

definition EncodeSetEnvironment :: "setEnvironmentRequest \<Rightarrow> wire_error + string" where
  "EncodeSetEnvironment r =
     (if \<not> validFrontend (seFrontend r) then Inl (InvalidFrontend (seFrontend r))
      else if length (seValues r) > 256 then Inl TooManyEntries
      else bind_err (encodeEntries (sortedEntries (seValues r))) (\<lambda>bs.
        let buf = frontendByte (seFrontend r) # be_bytes 2 (length (seValues r)) @ bs in
        if length buf > MaxPayload then Inl PayloadTooLarge else Inr buf))"

definition decodeEntry :: "string \<Rightarrow> wire_error + (string \<times> string) \<times> string" where
  "decodeEntry s =
     bind_err (readString16 4096 s) (\<lambda>(key, s).
     bind_err (readString32 8192 s) (\<lambda>(val, s).
     bind_err (validateEnvironmentEntry key val) (\<lambda>_. Inr ((key, val), s))))"

fun decodeEntries :: "nat \<Rightarrow> environment \<Rightarrow> string \<Rightarrow> wire_error + environment \<times> string" where
  "decodeEntries 0 m s = Inr (m, s)"
| "decodeEntries (Suc n) m s =
     bind_err (decodeEntry s) (\<lambda>(kv, s).
       if map_of m (fst kv) \<noteq> None then Inl (DuplicateEntry (fst kv)) else decodeEntries n (m @ [kv]) s)"

definition DecodeSetEnvironment :: "string \<Rightarrow> wire_error + setEnvironmentRequest" where
  "DecodeSetEnvironment payload =
     bind_err (readFrontend payload) (\<lambda>(f, s).
       if length s < 2 then Inl UnexpectedEOF
       else let count = be_val (take 2 s) in
         if count > 256 then Inl TooManyEntries
         else bind_err (decodeEntries count [] (drop 2 s)) (\<lambda>(m, rest).
           if rest \<noteq> [] then Inl TrailingBytes else Inr \<lparr>seFrontend = f, seValues = m\<rparr>))"

subsection \<open>Exit codes of the helper\<close>

definition DaemonHelperExitCode :: "uint16 \<Rightarrow> int" where
  "DaemonHelperExitCode code =
     (if code = ResultSuccess then 0
      else if code = ResultOutOfMemory then 2
      else if code = ResultConfigInvalid then 3
      else if code = ResultSetupFailed then 4
      else if code = ResultInvalidBusName then 5
      else if code = ResultUnknownService \<or> code = ResultUnitNotFound \<or> code = ResultServiceNotFound then 6
      else if code = ResultPermissionsInvalid then 7
      else if code = ResultFileInvalid then 8
      else if code = ResultExecFailed then 9
      else if code = ResultInvalidArguments then 10
      else if code = ResultChildSignaled then 11
      else 1)"


subsection \<open>Packets are canonical\<close>

lemma slice_length [simp]: "i \<le> j \<Longrightarrow> j \<le> length s \<Longrightarrow> length (bytes_at i j s) = j - i"
  by (simp add: bytes_at_def)

lemma slice_append: "i \<le> j \<Longrightarrow> bytes_at i j s @ drop j s = drop i s"
  unfolding bytes_at_def by (metis append_take_drop_id drop_drop le_add_diff_inverse2)

lemma header_slices:
  "data = bytes_at 0 8 data @ bytes_at 8 10 data @ bytes_at 10 12 data @ bytes_at 12 20 data @ bytes_at 20 24 data @
     bytes_at 24 28 data @ drop 28 data"
  by (simp add: slice_append)

lemma slices_of_parts:
  assumes "length m = 8" "length v = 2" "length t = 2" "length r = 8" "length l = 4" "length f = 4"
    and data: "data = m @ v @ t @ r @ l @ f @ payload"
  shows "bytes_at 0 8 data = m" "bytes_at 8 10 data = v" "bytes_at 10 12 data = t" "bytes_at 12 20 data = r"
    "bytes_at 20 24 data = l" "bytes_at 24 28 data = f" "drop 28 data = payload" "length data = 28 + length payload"
  using assms(1-6) by (simp_all add: data bytes_at_def)

lemma word_be_val:
  "length s = 2 \<Longrightarrow> unat (of_nat (be_val s) :: uint16) = be_val s"
  "length s = 4 \<Longrightarrow> unat (of_nat (be_val s) :: uint32) = be_val s"
  "length s = 8 \<Longrightarrow> unat (of_nat (be_val s) :: uint64) = be_val s"
  using be_val_less [of s] by (simp_all add: unat_of_nat)

lemma be_bytes_word [simp]:
  "be_val (be_bytes 2 (unat (x :: uint16))) = unat x" "be_val (be_bytes 4 (unat (y :: uint32))) = unat y"
  "be_val (be_bytes 8 (unat (z :: uint64))) = unat z"
proof -
  have "unat x < 2 ^ LENGTH(16)" "unat y < 2 ^ LENGTH(32)" "unat z < 2 ^ LENGTH(64)" by (rule unsigned_less)+
  then show "be_val (be_bytes 2 (unat x)) = unat x" "be_val (be_bytes 4 (unat y)) = unat y"
    "be_val (be_bytes 8 (unat z)) = unat z" by (simp_all add: be_val_be_bytes)
qed

lemma be_bytes_val:
  "length s = 2 \<Longrightarrow> be_bytes 2 (be_val s) = s" "length s = 4 \<Longrightarrow> be_bytes 4 (be_val s) = s"
  "length s = 8 \<Longrightarrow> be_bytes 8 (be_val s) = s"
  using be_bytes_be_val [of s] by simp_all

definition sendablePacket :: "packet \<Rightarrow> bool" where
  "sendablePacket p \<longleftrightarrow> validMessageType (pktType p) \<and> pktFlags p = 0 \<and> length (pktPayload p) \<le> MaxPayload"

lemma EncodePacket_Inr_iff:
  "EncodePacket p = Inr b \<longleftrightarrow> sendablePacket p \<and> b = packetHeader p @ pktPayload p"
  by (auto simp: EncodePacket_def WritePacket_def bufferWrite_def sendablePacket_def)

lemma length_protocolMagic [simp]: "length protocolMagic = 8"
  by (simp add: protocolMagic_def)

lemma decode_encoded:
  assumes "sendablePacket p"
  shows "DecodePacket (packetHeader p @ pktPayload p) = Inr p"
proof -
  let ?l = "length (pktPayload p)"
  have l: "be_val (be_bytes 4 ?l) = ?l" using assms by (intro be_val_be_bytes) (simp add: sendablePacket_def)
  have v: "be_val (be_bytes 2 (unat ProtocolVersion)) = 1" by (simp only: be_bytes_word) simp
  define data where "data = packetHeader p @ pktPayload p"
  have "data = protocolMagic @ be_bytes 2 (unat ProtocolVersion) @ be_bytes 2 (unat (pktType p)) @
    be_bytes 8 (unat (pktRequestID p)) @ be_bytes 4 ?l @ be_bytes 4 (unat (pktFlags p)) @ pktPayload p"
    by (simp add: data_def packetHeader_def)
  note s = slices_of_parts [OF _ _ _ _ _ _ this, simplified]
  have "DecodePacket data = Inr p"
    using assms be_val_be_bytes [of 0 4] by (simp add: DecodePacket_def s l v [simplified] Let_def sendablePacket_def)
  then show ?thesis by (simp add: data_def)qed

lemma decode_parts:
  assumes "DecodePacket data = Inr p"
  shows "sendablePacket p \<and> data = packetHeader p @ pktPayload p"
proof -
  from assms have len: "28 \<le> length data" by (auto simp: DecodePacket_def split: if_splits)
  have f: "be_val (bytes_at 24 28 data) = 0" if "(of_nat (be_val (bytes_at 24 28 data)) :: uint32) = 0"
    using word_be_val(2) [of "bytes_at 24 28 data"] len that by simp
  from assms have p: "bytes_at 0 8 data = protocolMagic" "be_val (bytes_at 8 10 data) = 1"
    "validMessageType (pktType p)" "pktType p = of_nat (be_val (bytes_at 10 12 data))"
    "pktRequestID p = of_nat (be_val (bytes_at 12 20 data))" "pktFlags p = 0" "be_val (bytes_at 24 28 data) = 0"
    "be_val (bytes_at 20 24 data) \<le> MaxPayload" "length data = 28 + be_val (bytes_at 20 24 data)"
    "pktPayload p = drop 28 data"
    using f by (auto simp: DecodePacket_def Let_def split: if_splits)
  have "be_bytes 2 1 = bytes_at 8 10 data" "be_bytes 4 0 = bytes_at 24 28 data"
    using be_bytes_val(1) [of "bytes_at 8 10 data"] be_bytes_val(2) [of "bytes_at 24 28 data"] p len by simp_all
  with p len have "packetHeader p @ pktPayload p =
    bytes_at 0 8 data @ bytes_at 8 10 data @ bytes_at 10 12 data @ bytes_at 12 20 data @ bytes_at 20 24 data @
     bytes_at 24 28 data @ drop 28 data"
    using be_bytes_val(2) [of "bytes_at 20 24 data"] by (simp add: packetHeader_def word_be_val be_bytes_val)
  with p header_slices [of data] show ?thesis by (simp add: sendablePacket_def)
qed


subsection \<open>Strings are canonical\<close>

lemma readString16_written:
  "writeString16 v = Inr b \<Longrightarrow> readString16 m (b @ r) = (if length v \<le> m then Inr (v, r) else Inl StringTooLong)"
  by (auto simp: writeString16_def readString16_def readString_def be_val_be_bytes split: if_splits)

lemma readString32_written:
  "writeString32 v = Inr b \<Longrightarrow> readString32 m (b @ r) = (if length v \<le> m then Inr (v, r) else Inl StringTooLong)"
  by (auto simp: writeString32_def readString32_def readString_def be_val_be_bytes split: if_splits)

lemma readString_Inr:
  "readString n m s = Inr (v, r) \<longleftrightarrow> n \<le> m \<and> length v = n \<and> valid_utf8 v \<and> s = v @ r"
  by (auto simp: readString_def split: if_splits)

lemma be_split:
  assumes "n \<le> length s" "drop n s = v @ r" "length v = be_val (take n s)"
  shows "s = be_bytes n (length v) @ v @ r" "length v < 256 ^ n"
proof -
  have l: "length (take n s) = n" using assms(1) by simp
  from be_bytes_be_val [of "take n s"] have "be_bytes n (length v) = take n s" using assms(3) l by simp
  then show "s = be_bytes n (length v) @ v @ r" using assms(2) by (metis append_take_drop_id)
  from be_val_less [of "take n s"] show "length v < 256 ^ n" using assms(3) l by simp
qed

lemma readString16_canonical:
  assumes "readString16 m s = Inr (v, r)"
  shows "\<exists>b. writeString16 v = Inr b \<and> s = b @ r"
proof -
  from assms have "2 \<le> length s" "drop 2 s = v @ r" "length v = be_val (take 2 s)" "valid_utf8 v"
    by (auto simp: readString16_def readString_Inr split: if_splits)
  from this(4) be_split [OF this(1-3)] show ?thesis by (simp add: writeString16_def)
qed

lemma readString32_canonical:
  assumes "readString32 m s = Inr (v, r)"
  shows "\<exists>b. writeString32 v = Inr b \<and> s = b @ r"
proof -
  from assms have "4 \<le> length s" "drop 4 s = v @ r" "length v = be_val (take 4 s)" "valid_utf8 v"
    by (auto simp: readString32_def readString_Inr split: if_splits)
  from this(4) be_split [OF this(1-3)] show ?thesis by (simp add: writeString32_def)
qed

lemma written_length:
  "writeString16 v = Inr b \<Longrightarrow> length v \<le> 65535" "writeString32 v = Inr b \<Longrightarrow> length v \<le> 4294967295"
  by (auto simp: writeString16_def writeString32_def split: if_splits)

interpretation str16: canonical_format writeString16 "readString16 65535"
  using readString16_canonical by unfold_locales (auto simp: readString16_written dest: written_length)

interpretation str32: canonical_format writeString32 "readString32 4294967295"
  using readString32_canonical by unfold_locales (auto simp: readString32_written dest: written_length)

text \<open>Bounded reads are the full format restricted to short strings.\<close>

lemma readString16_iff:
  "readString16 m s = Inr (v, r) \<longleftrightarrow> length v \<le> m \<and> readString16 65535 s = Inr (v, r)"
  using readString16_canonical [of m s v r] readString16_written [of v] str16.get_iff [of s v r]
  by (auto split: if_splits)

text \<open>The frontend byte.\<close>

definition writeFrontend :: "frontend \<Rightarrow> wire_error + string" where
  "writeFrontend f = (if validFrontend f then Inr [frontendByte f] else Inl (InvalidFrontend f))"

lemma frontendByte_value: "of_nat (of_char (frontendByte f)) = f"
proof -
  have "unat f < 2 ^ LENGTH(8)" by (rule unsigned_less)
  then show ?thesis by (simp add: frontendByte_def)
qed

lemma frontendByte_of: "frontendByte (of_nat (of_char c)) = c"
  using nat_of_char_less_256 [of c] by (simp add: frontendByte_def unat_of_nat)

interpretation frontend: canonical_format writeFrontend readFrontend
proof
  show "writeFrontend x = Inr b \<Longrightarrow> readFrontend (b @ rest) = Inr (x, rest)" for x b rest
    by (auto simp: writeFrontend_def readFrontend_def frontendByte_value Let_def split: if_splits)
  show "readFrontend s = Inr (x, rest) \<Longrightarrow> \<exists>b. writeFrontend x = Inr b \<and> s = b @ rest" for s x rest
    by (cases s) (auto simp: writeFrontend_def readFrontend_def frontendByte_of Let_def split: if_splits)
qed

subsection \<open>Properties of the protocol\<close>

text \<open>
  Property C27. Packets are canonical in both directions: \<open>DecodePacket\<close> accepts a byte string exactly
  when it is the encoding of the packet it returns, so every sent packet is read back and no second
  byte string reads as the same packet; \<open>ReadPacket\<close> agrees on a whole stream.
\<close>

theorem packet_canonical:
  "(DecodePacket data = Inr p \<longleftrightarrow> EncodePacket p = Inr data) \<and>
   (ReadPacket (Inr data) = Inr p \<longleftrightarrow> EncodePacket p = Inr data)"
proof -
  have dec: "DecodePacket d = Inr p \<longleftrightarrow> EncodePacket p = Inr d" for d
    using decode_encoded decode_parts by (auto simp: EncodePacket_Inr_iff)
  have len: "length d \<le> HeaderSize + MaxPayload" if "EncodePacket p = Inr d" for d
    using that by (auto simp: EncodePacket_Inr_iff sendablePacket_def packetHeader_def)
  have "take (HeaderSize + MaxPayload + 1) data = data" if "EncodePacket p = Inr (take (HeaderSize + MaxPayload + 1) data)"
    using len [OF that] by simp  then show ?thesis unfolding ReadPacket_def using dec len by auto
qed


text \<open>
  Fact. The payloads of activation are canonical too: a request decodes exactly when it is the
  encoding of the decoded request (whose environment is still empty), and a result exactly when it is
  the encoding of that result; both decoders refuse trailing bytes and invalid names or codes.
\<close>

theorem activation_payloads_canonical:
  "(DecodeActivate b = Inr r \<longleftrightarrow>
      EncodeActivate r = Inr b \<and> arEnvironment r = [] \<and> \<not> arEnvironmentSet r) \<and>
   (DecodeActivationResult b = Inr x \<longleftrightarrow> EncodeActivationResult x = Inr b)"
proof
  have name: "length n \<le> MaxBusName" if "ValidateBusName n = Inr u" for n u
    using that by (auto simp: ValidateBusName_def split: if_splits)
  have "DecodeActivate b = Inr r \<longleftrightarrow>
    (\<exists>s. readFrontend b = Inr (arFrontend r, s) \<and> readString16 65535 s = Inr (arBusName r, []) \<and>
      ValidateBusName (arBusName r) = Inr () \<and> arEnvironment r = [] \<and> \<not> arEnvironmentSet r)"
    using name by (cases r) (auto simp: DecodeActivate_def bind_err_Inr_iff readString16_iff [of MaxBusName] split: if_splits)
  then show "DecodeActivate b = Inr r \<longleftrightarrow>
      EncodeActivate r = Inr b \<and> arEnvironment r = [] \<and> \<not> arEnvironmentSet r"
    by (auto simp: frontend.get_iff str16.get_exact_iff EncodeActivate_def writeFrontend_def bind_err_Inr_iff split: if_splits)
  have code: "be_bytes 2 (unat (of_nat (be_val s) :: uint16)) = s" if "length s = 2" for s
    using that by (simp add: word_be_val be_bytes_val)
  have "DecodeActivationResult b = Inr x \<longleftrightarrow>
    (\<exists>c s. b = c @ s \<and> length c = 2 \<and> of_nat (be_val c) = acCode x \<and> validResultCode (acCode x) \<and>
      readString16 65535 s = Inr (acDetail x, []))" (is "_ \<longleftrightarrow> ?parts")
  proof
    assume "DecodeActivationResult b = Inr x"
    then have "b = take 2 b @ drop 2 b \<and> length (take 2 b) = 2 \<and> of_nat (be_val (take 2 b)) = acCode x \<and>
      validResultCode (acCode x) \<and> readString16 65535 (drop 2 b) = Inr (acDetail x, [])"
      by (auto simp: DecodeActivationResult_def bind_err_Inr_iff readString16_iff [of MaxPayload] Let_def split: if_splits)
    then show ?parts by blast
  next
    assume ?parts
    then obtain c s where "b = c @ s" "length c = 2" "of_nat (be_val c) = acCode x" "validResultCode (acCode x)"
      "readString16 65535 s = Inr (acDetail x, [])" by blast
    then show "DecodeActivationResult b = Inr x"
      using str16.put_get [of s "acDetail x" "[]"]
      by (auto simp: DecodeActivationResult_def bind_err_Inr_iff readString16_iff [of MaxPayload] Let_def dest: written_length)
  qed
  also have "\<dots> \<longleftrightarrow> EncodeActivationResult x = Inr b"
    using code by (auto simp: str16.get_exact_iff EncodeActivationResult_def bind_err_Inr_iff split: if_splits)
       (metis be_bytes_word(1) length_be_bytes of_nat_unat ucast_id)+
  finally show "DecodeActivationResult b = Inr x \<longleftrightarrow> EncodeActivationResult x = Inr b" .
qed


definition smallEntry :: "string \<times> string \<Rightarrow> bool" where
  "smallEntry kv \<longleftrightarrow> length (fst kv) \<le> 4096 \<and> length (snd kv) \<le> 8192"

lemma decodeEntry_encoded:
  assumes "encodeEntry kv = Inr b"
  shows "decodeEntry (b @ r) = (if smallEntry kv then Inr (kv, r) else Inl StringTooLong)"
proof -
  from assms obtain k v where "writeString16 (fst kv) = Inr k" "writeString32 (snd kv) = Inr v" "b = k @ v"
    "validateEnvironmentEntry (fst kv) (snd kv) = Inr ()"
    by (auto simp: encodeEntry_def bind_err_Inr_iff)
  then show ?thesis by (simp add: decodeEntry_def readString16_written readString32_written smallEntry_def)
qed

lemma decodeEntries_encoded:
  "encodeEntries kvs = Inr bs \<Longrightarrow> distinct (map fst (m @ kvs)) \<Longrightarrow>
   decodeEntries (length kvs) m (bs @ r) =
     (if list_all smallEntry kvs then Inr (m @ kvs, r) else Inl StringTooLong)"
proof (induction kvs arbitrary: m bs)
  case (Cons kv kvs)
  then obtain b bs' where b: "encodeEntry kv = Inr b" "encodeEntries kvs = Inr bs'" "bs = b @ bs'"
    by (auto simp: bind_err_Inr_iff)
  have new: "map_of m (fst kv) = None" using Cons.prems(2) by (auto simp: map_of_eq_None_iff)
  have "decodeEntries (length (kv # kvs)) m (bs @ r) =
    (if smallEntry kv then decodeEntries (length kvs) (m @ [kv]) (bs' @ r) else Inl StringTooLong)"
    by (simp only: length_Cons decodeEntries.simps b(3) append_assoc decodeEntry_encoded [OF b(1)]) (simp add: new)
  with Cons.IH [OF b(2), of "m @ [kv]"] Cons.prems(2) show ?case by simp
qed simp

lemma map_fst_sortedEntries [simp]: "map fst (sortedEntries m) = sort_slice (<) (map fst m)"
  by (simp add: sortedEntries_def comp_def)

lemma length_sortedEntries [simp]: "length (sortedEntries m) = length m"
  by (simp add: sortedEntries_def)

lemma distinct_sort_slice: "distinct xs \<Longrightarrow> distinct (sort_slice lt xs)"
  by (metis mset_sort_slice mset_eq_imp_distinct_iff)

lemma map_of_sortedEntries:
  assumes "distinct (map fst m)"
  shows "map_of (sortedEntries m) = map_of m"
proof
  fix k
  show "map_of (sortedEntries m) k = map_of m k"
  proof (cases "map_of m k")
    case None
    then have "k \<notin> set (map fst (sortedEntries m))"
      by (simp add: map_of_eq_None_iff)
    with None show ?thesis by (metis list.set_map map_of_eq_None_iff)
  next
    case (Some v)
    then have "k \<in> set (map fst m)" by (metis domI dom_map_of_conv_image_fst list.set_map)
    with Some have "(k, v) \<in> set (sortedEntries m)" by (force simp: sortedEntries_def)
    with Some show ?thesis using distinct_sort_slice [OF assms]
      by (metis map_fst_sortedEntries map_of_is_SomeI)
  qed
qed

lemma set_sortedEntries: "distinct (map fst m) \<Longrightarrow> set (sortedEntries m) = set m"
  by (metis distinct_sort_slice map_fst_sortedEntries map_of_eqI map_of_sortedEntries set_map_of_compr)

text \<open>
  Fact. What the encoder of \<open>SetEnvironment\<close> sends: the decoder gives back the same map, with the
  keys in order, exactly when no key is longer than 4096 and no value longer than 8192 bytes. The
  encoder has no such limits, so the remaining payloads it produces are refused by the peer.
\<close>

theorem set_environment_exchange:
  assumes "EncodeSetEnvironment r = Inr b" and "distinct (map fst (seValues r))"
  shows "DecodeSetEnvironment b =
      (if list_all smallEntry (seValues r) then Inr (r\<lparr>seValues := sortedEntries (seValues r)\<rparr>)
       else Inl StringTooLong) \<and>
    map_of (sortedEntries (seValues r)) = map_of (seValues r)"
proof
  from assms(1) obtain bs where bs: "encodeEntries (sortedEntries (seValues r)) = Inr bs"
    and b: "b = frontendByte (seFrontend r) # be_bytes 2 (length (seValues r)) @ bs"
    and f: "validFrontend (seFrontend r)" and n: "length (seValues r) \<le> 256"
    by (auto simp: EncodeSetEnvironment_def bind_err_Inr_iff Let_def split: if_splits)
  have "writeFrontend (seFrontend r) = Inr [frontendByte (seFrontend r)]" using f by (simp add: writeFrontend_def)
  from frontend.get_put [OF this, of "be_bytes 2 (length (seValues r)) @ bs"] b
  have 1: "readFrontend b = Inr (seFrontend r, be_bytes 2 (length (seValues r)) @ bs)" by simp
  have 2: "be_val (be_bytes 2 (length (seValues r))) = length (seValues r)" using n by (simp add: be_val_be_bytes)
  have "list_all smallEntry (sortedEntries (seValues r)) = list_all smallEntry (seValues r)"
    by (simp add: list_all_iff set_sortedEntries [OF assms(2)])
  with decodeEntries_encoded [OF bs, of "[]" "[]"] distinct_sort_slice [OF assms(2)]
  have 3: "decodeEntries (length (seValues r)) [] bs =
    (if list_all smallEntry (seValues r) then Inr (sortedEntries (seValues r), []) else Inl StringTooLong)"
    by simp
  show "DecodeSetEnvironment b =
      (if list_all smallEntry (seValues r) then Inr (r\<lparr>seValues := sortedEntries (seValues r)\<rparr>)
       else Inl StringTooLong)"
    using n by (simp add: DecodeSetEnvironment_def 1 2 3)
qed (rule map_of_sortedEntries [OF assms(2)])

definition demoEnvironment :: setEnvironmentRequest where
  "demoEnvironment = \<lparr>seFrontend = FrontendDaemonHelper, seValues = [(''LANG'', ''C''), (''A'', ''1'')]\<rparr>"

lemma demoEnvironment_encoded: "is_ok (EncodeSetEnvironment demoEnvironment)"
proof -
  have sorted: "sortedEntries (seValues demoEnvironment) = [(''A'', ''1''), (''LANG'', ''C'')]" by code_simp
  have "valid_utf8 ''A''" "valid_utf8 ''1''" "valid_utf8 ''LANG''" "valid_utf8 ''C''" by code_simp+
  then show ?thesis
    by (simp add: EncodeSetEnvironment_def sorted)
       (simp add: demoEnvironment_def validFrontend_def encodeEntry_def validateEnvironmentEntry_def contains_any_def
         writeString16_def writeString32_def)
qed

theorem set_environment_exchange_witness:
  "DecodeSetEnvironment (projr (EncodeSetEnvironment demoEnvironment)) =
   Inr \<lparr>seFrontend = FrontendDaemonHelper, seValues = [(''A'', ''1''), (''LANG'', ''C'')]\<rparr>"
proof -
  have e: "EncodeSetEnvironment demoEnvironment = Inr (projr (EncodeSetEnvironment demoEnvironment))"
    using demoEnvironment_encoded by (auto simp: is_ok_iff)
  have "sortedEntries (seValues demoEnvironment) = [(''A'', ''1''), (''LANG'', ''C'')]" by code_simp
  with set_environment_exchange [OF e] show ?thesis by (simp add: demoEnvironment_def smallEntry_def)
qed

end
