(* ===== verification/Dbus_Environment.thy ===== *)
theory Dbus_Environment
  imports Dbus_Protocol "HOL-Library.AList"
begin

text \<open>
  The environments of D-Bus activation (\<open>internal/dbusactivation/environment.go\<close>, with
  \<open>environmentValues\<close> of \<open>server.go\<close> and \<open>activationEnvironment\<close> of \<open>native.go\<close>): the filter for
  variables a client sends, the store with one snapshot per frontend and the environment of a
  service started directly.
\<close>

subsection \<open>The filter\<close>

definition blockedEnvironment :: "string list" where
  "blockedEnvironment =
     [''LD_PRELOAD'', ''LD_LIBRARY_PATH'', ''LD_AUDIT'', ''GCONV_PATH'', ''GLIBC_TUNABLES'', ''MALLOC_TRACE'',
      ''PYTHONHOME'', ''PYTHONPATH'', ''PERL5LIB'', ''PERLLIB'', ''RUBYLIB'', ''RUBYOPT'', ''NODE_OPTIONS'',
      ''NODE_PATH'', ''BASH_ENV'', ''ENV'', ''DBUS_SESSION_BUS_ADDRESS'', ''DBUS_SESSION_BUS_PID'',
      ''DBUS_SESSION_BUS_WINDOWID'', ''DBUS_STARTER_ADDRESS'', ''DBUS_STARTER_BUS_TYPE'', ''DISPLAY'',
      ''WAYLAND_DISPLAY'', ''XAUTHORITY'', ''SSH_AUTH_SOCK'', ''NOTIFY_SOCKET'', ''LISTEN_FDS'', ''LISTEN_PID'',
      ''LISTEN_FDNAMES'', ''WATCHDOG_PID'', ''WATCHDOG_USEC'', ''INVOCATION_ID'', ''JOURNAL_STREAM'',
      ''MANAGERPID'', ''SYSTEMD_EXEC_PID'']"

abbreviation MaxEnvironmentEntries :: nat where "MaxEnvironmentEntries \<equiv> 256"
abbreviation MaxEnvironmentTotal :: int where "MaxEnvironmentTotal \<equiv> 32768"
abbreviation MaxEnvironmentValue :: nat where "MaxEnvironmentValue \<equiv> 8192"

datatype env_error = ValueTooLong | TooManyVariables | TotalTooLarge

text \<open>The assignment of an entry that is neither malformed nor blocked.\<close>

definition usableEntry :: "string \<Rightarrow> (string \<times> string) option" where
  "usableEntry entry =
     (case cut entry CHR ''='' of
        None \<Rightarrow> None
      | Some (key, val) \<Rightarrow>
          if key = '''' \<or> contains_any key [CHR ''='', CHR 0x00] \<or> CHR 0x00 \<in> set val then None
          else if key \<in> set blockedEnvironment then None
          else Some (key, val))"

definition entrySize :: "string \<Rightarrow> string \<Rightarrow> int" where
  "entrySize key val = int (length key) + int (length val) + 2"

definition sizeOf :: "environment \<Rightarrow> string \<Rightarrow> int" where
  "sizeOf m key = (case map_of m key of None \<Rightarrow> 0 | Some old \<Rightarrow> entrySize key old)"

fun filterFrom :: "environment \<Rightarrow> int \<Rightarrow> string list \<Rightarrow> env_error + environment" where
  "filterFrom result used [] = Inr result"
| "filterFrom result used (entry # entries) =
     (case usableEntry entry of
        None \<Rightarrow> filterFrom result used entries
      | Some (key, val) \<Rightarrow>
          if length val > MaxEnvironmentValue then Inl ValueTooLong
          else
            let used = used - sizeOf result key + entrySize key val;
                result = AList.update key val result
            in if length result > MaxEnvironmentEntries then Inl TooManyVariables
               else if used > MaxEnvironmentTotal then Inl TotalTooLarge
               else filterFrom result used entries)"

definition FilterEnvironment :: "string list \<Rightarrow> env_error + environment" where
  "FilterEnvironment entries = filterFrom [] 0 entries"

subsection \<open>The store\<close>

record environmentSnapshot =
  snGeneration :: uint64
  snValues :: environment

type_synonym environmentStore = "frontend \<rightharpoonup> environmentSnapshot"

definition environmentValues :: "environment \<Rightarrow> string list" where
  "environmentValues m = map (\<lambda>(key, val). key @ ''='' @ val) (sortedEntries m)"

definition ReplaceEnvironment :: "environmentStore \<Rightarrow> frontend \<Rightarrow> environment \<Rightarrow> environmentStore \<times> uint64" where
  "ReplaceEnvironment s f values =
     (let generation = (case s f of None \<Rightarrow> 0 | Some c \<Rightarrow> snGeneration c) + 1 in
      (s(f \<mapsto> \<lparr>snGeneration = generation, snValues = values\<rparr>), generation))"

definition SnapshotEnvironment :: "environmentStore \<Rightarrow> frontend \<Rightarrow> uint64 \<times> string list" where
  "SnapshotEnvironment s f =
     (case s f of None \<Rightarrow> (0, []) | Some c \<Rightarrow> (snGeneration c, environmentValues (snValues c)))"

subsection \<open>The environment of a started service\<close>

fun assignAll :: "environment \<Rightarrow> string list \<Rightarrow> environment" where
  "assignAll m [] = m"
| "assignAll m (entry # entries) =
     assignAll (case cut entry CHR ''='' of
        None \<Rightarrow> m
      | Some (key, val) \<Rightarrow> if key \<noteq> '''' then AList.update key val m else m) entries"

definition activationEnvironment :: "string list \<Rightarrow> string \<Rightarrow> string list" where
  "activationEnvironment values busAddress =
     environmentValues (AList.update ''DBUS_STARTER_BUS_TYPE'' ''system''
       (AList.update ''DBUS_STARTER_ADDRESS'' busAddress (assignAll [] values)))"


subsection \<open>Properties\<close>

definition totalSize :: "environment \<Rightarrow> int" where
  "totalSize m = sum_list (map (\<lambda>(key, val). entrySize key val) m)"

lemma totalSize_update:
  "distinct (map fst m) \<Longrightarrow> totalSize (AList.update key val m) = totalSize m - sizeOf m key + entrySize key val"
proof (induction m)
  case (Cons kv m)
  obtain k v where kv: "kv = (k, v)" by (cases kv)
  show ?case
  proof (cases "k = key")
    case True
    with kv show ?thesis by (simp add: totalSize_def sizeOf_def)
  next
    case False
    with Cons kv show ?thesis by (simp add: totalSize_def sizeOf_def)
  qed
qed (simp add: totalSize_def sizeOf_def)

definition cleanEntry :: "string \<times> string \<Rightarrow> bool" where
  "cleanEntry kv \<longleftrightarrow>
     fst kv \<noteq> '''' \<and> CHR ''='' \<notin> set (fst kv) \<and> CHR 0x00 \<notin> set (fst kv) \<union> set (snd kv) \<and>
     fst kv \<notin> set blockedEnvironment \<and> length (snd kv) \<le> MaxEnvironmentValue"

definition cleanEnvironment :: "environment \<Rightarrow> bool" where
  "cleanEnvironment m \<longleftrightarrow>
     distinct (map fst m) \<and> list_all cleanEntry m \<and> length m \<le> MaxEnvironmentEntries \<and> totalSize m \<le> MaxEnvironmentTotal"

lemma usableEntry_clean:
  "usableEntry entry = Some (key, val) \<Longrightarrow> length val \<le> MaxEnvironmentValue \<Longrightarrow> cleanEntry (key, val)"
  by (auto simp: usableEntry_def cleanEntry_def contains_any_iff split: option.splits if_splits)

lemma list_all_update: "list_all P m \<Longrightarrow> P (key, val) \<Longrightarrow> list_all P (AList.update key val m)"
  by (induction m) auto

lemma filterFrom_correct:
  "filterFrom m used entries = Inr r \<Longrightarrow> cleanEnvironment m \<Longrightarrow> used = totalSize m \<Longrightarrow>
   cleanEnvironment r \<and> map_of r = map_of m ++ map_of (rev (List.map_filter usableEntry entries))"
proof (induction m used entries rule: filterFrom.induct)
  case (2 m used entry entries)
  show ?case
  proof (cases "usableEntry entry")
    case None
    with 2 show ?thesis by simp
  next
    case (Some kv)
    obtain key val where kv: "kv = (key, val)" by (cases kv)
    let ?m = "AList.update key val m"
    from 2(3,5) Some kv have len: "length val \<le> MaxEnvironmentValue" and r: "filterFrom ?m (totalSize ?m) entries = Inr r"
      and m: "length ?m \<le> MaxEnvironmentEntries" "totalSize ?m \<le> MaxEnvironmentTotal"
      using totalSize_update [of m key val] 2(4) by (auto simp: Let_def cleanEnvironment_def split: if_splits)
    have clean: "cleanEnvironment ?m"
      using 2(4) m usableEntry_clean [OF _ len] Some kv
      by (simp add: cleanEnvironment_def distinct_update list_all_update)
    have "totalSize ?m = used - sizeOf m key + entrySize key val"
      using totalSize_update [of m key val] 2(4,5) by (simp add: cleanEnvironment_def)
    with 2(2) [OF Some kv [symmetric]] len m r clean
    have "cleanEnvironment r \<and> map_of r = map_of ?m ++ map_of (rev (List.map_filter usableEntry entries))"
      by (simp add: not_less)
    with Some kv show ?thesis by (simp add: update_conv' map_add_def fun_eq_iff split: option.split)
  qed
qed simp

text \<open>
  Fact. The filter of client environments: an accepted environment holds exactly the last
  usable assignment of every variable, none of them malformed or on the blocked list, with at most
  256 variables, values of at most 8 KiB and at most 32 KiB in all.
\<close>

theorem FilterEnvironment_correct:
  assumes "FilterEnvironment entries = Inr m"
  shows "cleanEnvironment m \<and> map_of m = map_of (rev (List.map_filter usableEntry entries))"
proof -
  have "cleanEnvironment []" by (simp add: cleanEnvironment_def totalSize_def)
  from filterFrom_correct [OF assms [unfolded FilterEnvironment_def] this] show ?thesis
    by (simp add: totalSize_def)
qed

lemma demo_filter:
  "FilterEnvironment [''LANG=C'', ''LD_PRELOAD=/x'', ''LANG=de=1'', ''junk''] = Inr [(''LANG'', ''de=1'')]"
  by (simp add: FilterEnvironment_def usableEntry_def contains_any_def blockedEnvironment_def entrySize_def sizeOf_def)

theorem FilterEnvironment_correct_witness:
  "FilterEnvironment [''LANG=C'', ''LD_PRELOAD=/x'', ''LANG=de=1'', ''junk''] = Inr [(''LANG'', ''de=1'')] \<and>
   cleanEnvironment [(''LANG'', ''de=1'')]"
  using FilterEnvironment_correct [OF demo_filter] demo_filter by blast

text \<open>The strings of an environment read back as its assignments.\<close>

definition assignments :: "string list \<Rightarrow> environment" where
  "assignments entries = map (\<lambda>e. the (cut e CHR ''='')) entries"

lemma cut_assignment: "CHR ''='' \<notin> set key \<Longrightarrow> cut (key @ ''='' @ val) CHR ''='' = Some (key, val)"
  by (simp add: cut_Some_iff)

lemma assignments_environmentValues:
  assumes "distinct (map fst m)" "list_all (\<lambda>kv. CHR ''='' \<notin> set (fst kv)) m"
  shows "assignments (environmentValues m) = sortedEntries m"
proof -
  have "\<forall>kv \<in> set (sortedEntries m). CHR ''='' \<notin> set (fst kv)"
    using assms by (simp add: set_sortedEntries list_all_iff)
  then show ?thesis
    unfolding assignments_def environmentValues_def
    by (intro map_idI [THEN trans [OF map_map]]) (auto simp: cut_assignment [simplified])
qed

lemma assignAll_map:
  assumes "\<forall>kv \<in> set kvs. fst kv \<noteq> '''' \<and> CHR ''='' \<notin> set (fst kv)"
  shows "map_of (assignAll m (map (\<lambda>(key, val). key @ ''='' @ val) kvs)) = map_of m ++ map_of (rev kvs) \<and>
    (list_all P m \<and> list_all P kvs \<longrightarrow> list_all P (assignAll m (map (\<lambda>(key, val). key @ ''='' @ val) kvs))) \<and>
    (distinct (map fst m) \<longrightarrow> distinct (map fst (assignAll m (map (\<lambda>(key, val). key @ ''='' @ val) kvs))))"
  using assms
proof (induction kvs arbitrary: m)
  case (Cons kv kvs)
  obtain key val where kv: "kv = (key, val)" by (cases kv)
  with Cons.prems have "assignAll m (map (\<lambda>(key, val). key @ ''='' @ val) (kv # kvs)) =
    assignAll (AList.update key val m) (map (\<lambda>(key, val). key @ ''='' @ val) kvs)"
    using cut_assignment [of key val] by simp
  with Cons.IH [of "AList.update key val m"] Cons.prems kv show ?case
    by (simp only:) (auto simp: update_conv' map_add_def fun_eq_iff list_all_update distinct_update split: option.split)
qed simp


text \<open>
  Fact. What a client can put into the environment of a directly started service: the
  variables the filter accepted, with their values, and the two \<open>DBUS_STARTER\<close> variables of the
  daemon, which no client value replaces; each variable occurs once.
\<close>

theorem started_environment:
  assumes "FilterEnvironment entries = Inr m"
  shows "distinct (map fst (assignments (activationEnvironment (environmentValues m) address))) \<and>
    map_of (assignments (activationEnvironment (environmentValues m) address)) =
      (map_of m)(''DBUS_STARTER_ADDRESS'' \<mapsto> address, ''DBUS_STARTER_BUS_TYPE'' \<mapsto> ''system'')"
proof -
  have "cleanEnvironment []" by (simp add: cleanEnvironment_def totalSize_def)
  from filterFrom_correct [OF assms [unfolded FilterEnvironment_def] this] have m: "cleanEnvironment m"
    by (simp add: totalSize_def)
  then have d: "distinct (map fst m)" and c: "\<forall>kv \<in> set (sortedEntries m). fst kv \<noteq> '''' \<and> CHR ''='' \<notin> set (fst kv)"
    using set_sortedEntries [of m] by (auto simp: cleanEnvironment_def list_all_iff cleanEntry_def)
  let ?a = "assignAll [] (environmentValues m)"
  let ?b = "AList.update ''DBUS_STARTER_BUS_TYPE'' ''system'' (AList.update ''DBUS_STARTER_ADDRESS'' address ?a)"
  from assignAll_map [OF c, of "[]" "\<lambda>kv. CHR ''='' \<notin> set (fst kv)"] c
  have a: "map_of ?a = map_of (rev (sortedEntries m))" "distinct (map fst ?a)" "list_all (\<lambda>kv. CHR ''='' \<notin> set (fst kv)) ?a"
    by (simp_all add: environmentValues_def list_all_iff)
  have "distinct (map fst (sortedEntries m))" using distinct_sort_slice [OF d] by simp
  then have "map_of (rev (sortedEntries m)) = map_of m"
    using map_of_sortedEntries [OF d] by (metis distinct_rev map_of_inject_set rev_map set_rev)
  with a have "map_of ?b = (map_of m)(''DBUS_STARTER_ADDRESS'' \<mapsto> address, ''DBUS_STARTER_BUS_TYPE'' \<mapsto> ''system'')"
    by (simp add: update_conv')
  moreover have b: "distinct (map fst ?b)" "list_all (\<lambda>kv. CHR ''='' \<notin> set (fst kv)) ?b"
    using a by (auto simp: distinct_update intro!: list_all_update)
  ultimately show ?thesis
    using assignments_environmentValues [OF b] map_of_sortedEntries [OF b(1)] distinct_sort_slice [OF b(1)]
    by (simp add: activationEnvironment_def)
qed

theorem started_environment_witness:
  "map_of (assignments (activationEnvironment (environmentValues [(''LANG'', ''de=1'')]) ''bus'')) =
   (map_of [(''LANG'', ''de=1'')])(''DBUS_STARTER_ADDRESS'' \<mapsto> ''bus'', ''DBUS_STARTER_BUS_TYPE'' \<mapsto> ''system'')"
  using started_environment [OF demo_filter] by blast

text \<open>
  Fact. The store: after a replacement the snapshot of that frontend shows the new values in
  key order under the next generation (modulo 2 to the 64), and the other frontends are unchanged.
\<close>

theorem environment_store_laws:
  assumes "distinct (map fst values)"
  shows "let s' = fst (ReplaceEnvironment s f values) in
    SnapshotEnvironment s' f = (snd (ReplaceEnvironment s f values), environmentValues values) \<and>
    unat (fst (SnapshotEnvironment s' f)) = Suc (unat (fst (SnapshotEnvironment s f))) mod 2 ^ 64 \<and>
    (\<forall>g. g \<noteq> f \<longrightarrow> SnapshotEnvironment s' g = SnapshotEnvironment s g) \<and>
    sorted (map fst (sortedEntries values)) \<and> map_of (sortedEntries values) = map_of values"
proof -
  have "sorted (sort_slice (<) (map fst values))" by (simp add: sort_slice_key [of _ "\<lambda>x. x"])
  then show ?thesis
    using map_of_sortedEntries [OF assms]
    by (simp add: ReplaceEnvironment_def SnapshotEnvironment_def unat_word_ariths Let_def split: option.split)
qed

theorem environment_store_laws_witness:
  "SnapshotEnvironment (fst (ReplaceEnvironment Map.empty FrontendAdmin [(''B'', ''2''), (''A'', ''1'')])) FrontendAdmin =
   (1, [''A=1'', ''B=2''])"
proof -
  have "environmentValues [(''B'', ''2''), (''A'', ''1'')] = [''A=1'', ''B=2'']" by code_simp
  with environment_store_laws [of "[(''B'', ''2''), (''A'', ''1'')]" Map.empty FrontendAdmin] show ?thesis
    by (simp add: ReplaceEnvironment_def Let_def)
qed

end
