(* ===== verification/Dbus_Routes.thy ===== *)
theory Dbus_Routes
  imports Dbus_Environment Go_Path
begin

text \<open>
  From a bus name to the way its service is started: service files and their index
  (\<open>internal/dbusactivation/servicefile.go\<close>), the search for systemd units (\<open>resolver.go\<close>), the
  choice of a route (\<open>routes.go\<close>) and the index store of \<open>cmd/sys-dbusd/main.go\<close>. The file system
  is a parameter: one function per call the code makes, so that two calls may see different files.
\<close>

unbundle bit_operations_syntax

subsection \<open>Files\<close>

record fileInfo =
  fiRegular :: bool
  fiPerm :: uint32
  fiDevice :: uint64
  fiInode :: uint64
  fiUID :: uint32

record fileSystem =
  fsLstat :: "string \<Rightarrow> os_error + fileInfo"
  fsOpenNoFollow :: "string \<Rightarrow> os_error + fileInfo \<times> string"
  fsReadFile :: "string \<Rightarrow> os_error + string"
  fsReadDir :: "string \<Rightarrow> os_error + (string \<times> bool) list"
  fsEvalSymlinks :: "string \<Rightarrow> os_error + string"
  fsEUID :: uint32

datatype route_error =
    RouteOS os_error | UnsafeFile string | ChangedFile string | InvalidLine string | ExecError string split_error
  | LineTooLong | MissingSection string | BadBusName wire_error | MissingUser string | NothingToRun string
  | UnknownService string | DuplicateService string string string | UnitNotFound string | AmbiguousUnit string nat
  | NilResolverPanic
and split_error = TrailingEscape | UnterminatedQuote | EmptyCommand

subsection \<open>Command lines\<close>

record splitState =
  spResult :: "string list"
  spCurrent :: string
  spQuote :: string
  spEscaped :: bool
  spHasToken :: bool

definition splitFlush :: "splitState \<Rightarrow> splitState" where
  "splitFlush st =
     (if spHasToken st
      then st\<lparr>spResult := spResult st @ [spCurrent st], spCurrent := '''', spHasToken := False\<rparr> else st)"

definition splitStep :: "splitState \<Rightarrow> string \<Rightarrow> splitState" where
  "splitStep st r =
     (if spEscaped st then st\<lparr>spCurrent := spCurrent st @ r, spHasToken := True, spEscaped := False\<rparr>
      else if r = [CHR 0x5C] then st\<lparr>spEscaped := True, spHasToken := True\<rparr>
      else if spQuote st \<noteq> [] then
        (if r = spQuote st then st\<lparr>spQuote := []\<rparr> else st\<lparr>spCurrent := spCurrent st @ r\<rparr>)\<lparr>spHasToken := True\<rparr>
      else if r = [CHR 0x27] \<or> r = [CHR 0x22] then st\<lparr>spQuote := r, spHasToken := True\<rparr>
      else if r \<in> {[CHR '' ''], [CHR 0x09], [CHR 0x0A], [CHR 0x0D]} then splitFlush st
      else st\<lparr>spCurrent := spCurrent st @ r, spHasToken := True\<rparr>)"

definition splitStart :: splitState where
  "splitStart = \<lparr>spResult = [], spCurrent = '''', spQuote = [], spEscaped = False, spHasToken = False\<rparr>"

definition splitCommandLine :: "string \<Rightarrow> split_error + string list" where
  "splitCommandLine command =
     (let st = foldl splitStep splitStart (runes command) in
      if spEscaped st then Inl TrailingEscape
      else if spQuote st \<noteq> [] then Inl UnterminatedQuote
      else let result = spResult (splitFlush st) in if result = [] then Inl EmptyCommand else Inr result)"

subsection \<open>Service files\<close>

record serviceDefinition =
  sdName :: string
  sdArgv :: "string list"
  sdUser :: string
  sdSystemdService :: string
  sdPath :: string
  sdPriority :: int

text \<open>A line of an ini file: the header of a section, or something else that is not blank or a comment.\<close>

definition ignoredLine :: "string \<Rightarrow> bool" where
  "ignoredLine line \<longleftrightarrow> line = '''' \<or> has_prefix line ''#'' \<or> has_prefix line '';''"

definition sectionHeader :: "string \<Rightarrow> string option" where
  "sectionHeader line =
     (if has_prefix line ''['' \<and> has_suffix line '']'' then Some (trim_space (butlast (tl line))) else None)"

definition setField :: "serviceDefinition \<Rightarrow> string \<Rightarrow> string \<Rightarrow> route_error + serviceDefinition" where
  "setField d key val =
     (if key = ''Name'' then Inr (d\<lparr>sdName := val\<rparr>)
      else if key = ''Exec'' then
        (case splitCommandLine val of
           Inl e \<Rightarrow> Inl (ExecError (sdPath d) e)
         | Inr argv \<Rightarrow> Inr (d\<lparr>sdArgv := argv\<rparr>))
      else if key = ''User'' then Inr (d\<lparr>sdUser := val\<rparr>)
      else if key = ''SystemdService'' then Inr (d\<lparr>sdSystemdService := val\<rparr>)
      else Inr d)"

fun parseServiceLines :: "serviceDefinition \<Rightarrow> string \<Rightarrow> string list \<Rightarrow> route_error + serviceDefinition \<times> string" where
  "parseServiceLines d sect [] = Inr (d, sect)"
| "parseServiceLines d sect (raw # ls) =
     (let line = trim_space raw in
      if ignoredLine line then parseServiceLines d sect ls
      else case sectionHeader line of
        Some name \<Rightarrow> parseServiceLines d name ls
      | None \<Rightarrow>
          if sect \<noteq> ''D-BUS Service'' then parseServiceLines d sect ls
          else case cut line CHR ''='' of
            None \<Rightarrow> Inl (InvalidLine line)
          | Some (key, val) \<Rightarrow>
              bind_err (setField d (trim_space key) (trim_space val)) (\<lambda>d. parseServiceLines d sect ls))"

definition checkDefinition :: "serviceDefinition \<Rightarrow> route_error + serviceDefinition" where
  "checkDefinition d =
     (case ValidateBusName (sdName d) of
        Inl e \<Rightarrow> Inl (BadBusName e)
      | Inr _ \<Rightarrow>
          if trim_space (sdUser d) = '''' \<and> trim_space (sdSystemdService d) = '''' then Inl (MissingUser (sdPath d))
          else if sdArgv d = [] \<and> trim_space (sdSystemdService d) = '''' then Inl (NothingToRun (sdPath d))
          else Inr d)"

definition sameFile :: "fileInfo \<Rightarrow> fileInfo \<Rightarrow> bool" where
  "sameFile a b \<longleftrightarrow> fiDevice a = fiDevice b \<and> fiInode a = fiInode b"

definition writableByOthers :: "fileInfo \<Rightarrow> bool" where
  "writableByOthers i \<longleftrightarrow> (fiPerm i AND 18) \<noteq> 0"

definition ParseServiceFile :: "fileSystem \<Rightarrow> string \<Rightarrow> int \<Rightarrow> route_error + serviceDefinition" where
  "ParseServiceFile fs path priority =
     (case fsLstat fs path of
        Inl e \<Rightarrow> Inl (RouteOS e)
      | Inr info \<Rightarrow>
          if \<not> fiRegular info \<or> writableByOthers info then Inl (UnsafeFile path)
          else case fsOpenNoFollow fs path of
            Inl e \<Rightarrow> Inl (RouteOS e)
          | Inr (opened, content) \<Rightarrow>
              if \<not> sameFile info opened \<or> fiUID opened \<noteq> fsEUID fs \<or> writableByOthers opened
              then Inl (ChangedFile path)
              else case scan_lines_max 1048576 content of
                (ls, tooLong) \<Rightarrow>
                  bind_err (parseServiceLines
                    \<lparr>sdName = '''', sdArgv = [], sdUser = '''', sdSystemdService = '''', sdPath = path, sdPriority = priority\<rparr>
                    '''' ls) (\<lambda>(d, sect).
                      if tooLong then Inl LineTooLong
                      else if sect = '''' then Inl (MissingSection path)
                      else checkDefinition d))"


subsection \<open>The index\<close>

record index =
  ixDefinitions :: "(string \<times> serviceDefinition) list"
  ixDuplicates :: "(string \<times> route_error) list"

definition addDefinition :: "index \<Rightarrow> serviceDefinition \<Rightarrow> index \<times> route_error list" where
  "addDefinition ix d =
     (let name = sdName d in
      if map_of (ixDuplicates ix) name \<noteq> None then (ix, [])
      else case map_of (ixDefinitions ix) name of
        None \<Rightarrow> (ix\<lparr>ixDefinitions := AList.update name d (ixDefinitions ix)\<rparr>, [])
      | Some existing \<Rightarrow>
          if sdPriority existing < sdPriority d then (ix, [])
          else if sdPriority existing = sdPriority d then
            let duplicate = DuplicateService name (sdPath existing) (sdPath d) in
            (ix\<lparr>ixDefinitions := AList.delete name (ixDefinitions ix),
                ixDuplicates := AList.update name duplicate (ixDuplicates ix)\<rparr>, [duplicate])
          else (ix\<lparr>ixDefinitions := AList.update name d (ixDefinitions ix)\<rparr>, []))"

fun indexEntries :: "fileSystem \<Rightarrow> string \<Rightarrow> int \<Rightarrow> (string \<times> bool) list \<Rightarrow> index \<times> route_error list \<Rightarrow> index \<times> route_error list" where
  "indexEntries fs directory priority [] st = st"
| "indexEntries fs directory priority ((name, isDir) # entries) st =
     indexEntries fs directory priority entries
       (if isDir \<or> \<not> has_suffix name ''.service'' then st
        else case ParseServiceFile fs (path_join [directory, name]) priority of
          Inl e \<Rightarrow> (fst st, snd st @ [e])
        | Inr d \<Rightarrow> (case addDefinition (fst st) d of (ix, es) \<Rightarrow> (ix, snd st @ es)))"

fun indexDirectories :: "fileSystem \<Rightarrow> int \<Rightarrow> string list \<Rightarrow> index \<times> route_error list \<Rightarrow> index \<times> route_error list" where
  "indexDirectories fs priority [] st = st"
| "indexDirectories fs priority (directory # directories) st =
     indexDirectories fs (priority + 1) directories
       (case fsReadDir fs directory of
          Inl e \<Rightarrow> if e = NotExist then st else (fst st, snd st @ [RouteOS e])
        | Inr entries \<Rightarrow> indexEntries fs directory priority entries st)"

definition BuildIndex :: "fileSystem \<Rightarrow> string list \<Rightarrow> index \<times> route_error list" where
  "BuildIndex fs directories = indexDirectories fs 0 directories (\<lparr>ixDefinitions = [], ixDuplicates = []\<rparr>, [])"

definition LookupIndex :: "index option \<Rightarrow> string \<Rightarrow> route_error + serviceDefinition" where
  "LookupIndex i name =
     (case i of
        None \<Rightarrow> Inl (UnknownService '''')
      | Some ix \<Rightarrow>
          (case map_of (ixDuplicates ix) name of
             Some e \<Rightarrow> Inl e
           | None \<Rightarrow>
               (case map_of (ixDefinitions ix) name of
                  None \<Rightarrow> Inl (UnknownService name)
                | Some d \<Rightarrow> Inr d)))"

definition IndexNames :: "index option \<Rightarrow> string list" where
  "IndexNames i = (case i of None \<Rightarrow> [] | Some ix \<Rightarrow> sort_slice (<) (map fst (ixDefinitions ix)))"

text \<open>The store of the daemon: the index, the texts of the last errors, the generation.\<close>

record indexStore =
  stIndex :: "index option"
  stErrors :: "route_error list"
  stGen :: uint64

definition loadIndex :: "fileSystem \<Rightarrow> string list \<Rightarrow> indexStore \<Rightarrow> indexStore \<times> route_error list" where
  "loadIndex fs directories s =
     (case BuildIndex fs directories of
        (ix, es) \<Rightarrow>
          (if es = [] then s\<lparr>stErrors := es, stIndex := Some ix, stGen := stGen s + 1\<rparr> else s\<lparr>stErrors := es\<rparr>, es))"

subsection \<open>Routes\<close>

record managedRoute =
  mrUnit :: string
  mrServiceName :: string
  mrControlPath :: string

record nativeRoute =
  nrArgv :: "string list"
  nrUser :: string

datatype route = RouteManaged managedRoute | RouteNative nativeRoute

definition normalizeUnit :: "string \<Rightarrow> string" where
  "normalizeUnit name =
     (let n = trim_suffix (trim_space name) ''.service'' in
      if n = '''' \<or> n = ''.'' \<or> n = ''..'' \<or> contains_any n [CHR ''/'', CHR 0x5C, CHR 0x00] then '''' else n)"

definition normalizeManagedRoute :: "managedRoute \<Rightarrow> managedRoute" where
  "normalizeManagedRoute r = r\<lparr>mrUnit := normalizeUnit (mrUnit r)\<rparr>"

definition LegacyManagedRoute :: "string list \<Rightarrow> managedRoute option" where
  "LegacyManagedRoute argv =
     (if length argv \<noteq> 3 \<or> argv ! 1 \<noteq> ''activate-dbus'' then None
      else let executable = clean (argv ! 0) in
        if executable \<noteq> ''/usr/bin/servicectl'' \<and> executable \<noteq> ''/usr/local/bin/servicectl'' then None
        else let unit = normalizeUnit (argv ! 2) in
          if unit = '''' then None else Some \<lparr>mrUnit = unit, mrServiceName = '''', mrControlPath = ''''\<rparr>)"

record unitResolver =
  resolveExplicit :: "string \<Rightarrow> route_error + managedRoute"
  resolveBusName :: "string \<Rightarrow> route_error + managedRoute list"

definition isUnitNotFound :: "route_error \<Rightarrow> bool" where
  "isUnitNotFound e \<longleftrightarrow> (case e of UnitNotFound _ \<Rightarrow> True | _ \<Rightarrow> False)"

definition managed :: "managedRoute \<Rightarrow> route_error + route" where
  "managed r = Inr (RouteManaged (normalizeManagedRoute r))"

definition selectNative :: "serviceDefinition \<Rightarrow> route_error + route" where
  "selectNative d =
     (if sdArgv d = [] then Inl (UnknownService (sdName d))
      else Inr (RouteNative \<lparr>nrArgv = sdArgv d, nrUser = sdUser d\<rparr>))"

definition SelectRoute :: "serviceDefinition \<Rightarrow> unitResolver option \<Rightarrow> route_error + route" where
  "SelectRoute d resolver =
     (if trim_space (sdSystemdService d) \<noteq> '''' then
        (case resolver of
           None \<Rightarrow> Inl NilResolverPanic
         | Some rs \<Rightarrow> bind_err (resolveExplicit rs (sdSystemdService d)) managed)
      else case LegacyManagedRoute (sdArgv d) of
        Some route \<Rightarrow>
          (case resolver of
             None \<Rightarrow> Inr (RouteManaged route)
           | Some rs \<Rightarrow>
               (case resolveExplicit rs (mrUnit route) of
                  Inr resolved \<Rightarrow> managed resolved
                | Inl e \<Rightarrow> if isUnitNotFound e then Inr (RouteManaged route) else Inl e))
      | None \<Rightarrow>
          (case resolver of
             None \<Rightarrow> selectNative d
           | Some rs \<Rightarrow>
               bind_err (resolveBusName rs (sdName d)) (\<lambda>matches.
                 case matches of
                   [] \<Rightarrow> selectNative d
                 | [m] \<Rightarrow> managed m
                 | _ \<Rightarrow> Inl (AmbiguousUnit (sdName d) (length matches)))))"

subsection \<open>The search for units\<close>

record systemdResolver =
  srPaths :: "string list"
  srRuntimeDir :: string

record unitMetadata =
  umType :: string
  umBusName :: string

fun parseMetadataLines :: "unitMetadata \<Rightarrow> string \<Rightarrow> string list \<Rightarrow> unitMetadata" where
  "parseMetadataLines m sect [] = m"
| "parseMetadataLines m sect (raw # ls) =
     (let line = trim_space raw in
      if ignoredLine line then parseMetadataLines m sect ls
      else case sectionHeader line of
        Some name \<Rightarrow> parseMetadataLines m name ls
      | None \<Rightarrow>
          if sect \<noteq> ''Service'' then parseMetadataLines m sect ls
          else case cut line CHR ''='' of
            None \<Rightarrow> parseMetadataLines m sect ls
          | Some (key, val) \<Rightarrow>
              parseMetadataLines
                (if trim_space key = ''Type'' then m\<lparr>umType := trim_space val\<rparr>
                 else if trim_space key = ''BusName'' then m\<lparr>umBusName := trim_space val\<rparr> else m) sect ls)"

definition parseUnitMetadata :: "fileSystem \<Rightarrow> string \<Rightarrow> route_error + unitMetadata" where
  "parseUnitMetadata fs path =
     (case fsReadFile fs path of
        Inl e \<Rightarrow> Inl (RouteOS e)
      | Inr content \<Rightarrow>
          (case scan_lines content of
             (ls, tooLong) \<Rightarrow>
               if tooLong then Inl LineTooLong
               else Inr (parseMetadataLines \<lparr>umType = '''', umBusName = ''''\<rparr> '''' ls)))"

definition routeTo :: "systemdResolver \<Rightarrow> string \<Rightarrow> managedRoute" where
  "routeTo r unit =
     (let serviceName = unit @ ''-dbusd'' in
      \<lparr>mrUnit = unit, mrServiceName = serviceName,
       mrControlPath = path_join [srRuntimeDir r, serviceName, ''control.sock'']\<rparr>)"

fun findUnit :: "fileSystem \<Rightarrow> string list \<Rightarrow> string \<Rightarrow> route_error + string \<times> unitMetadata" where
  "findUnit fs [] unit = Inl (UnitNotFound unit)"
| "findUnit fs (directory # directories) unit =
     (let path = path_join [directory, unit @ ''.service''] in
      case parseUnitMetadata fs path of
        Inr metadata \<Rightarrow> Inr (path, metadata)
      | Inl e \<Rightarrow> if e = RouteOS NotExist then findUnit fs directories unit else Inl e)"

definition canonicalUnit :: "fileSystem \<Rightarrow> systemdResolver \<Rightarrow> string \<Rightarrow> string \<Rightarrow> string" where
  "canonicalUnit fs r unit path =
     (case fsEvalSymlinks fs path of
        Inl _ \<Rightarrow> unit
      | Inr resolved \<Rightarrow>
          let target = normalizeUnit (path_base resolved) in
          if target = '''' \<or> target = unit then unit
          else if list_ex (\<lambda>candidate. clean candidate = path_dir resolved) (srPaths r) then target
          else unit)"

definition ResolveExplicit :: "fileSystem \<Rightarrow> systemdResolver \<Rightarrow> string \<Rightarrow> route_error + managedRoute" where
  "ResolveExplicit fs r name =
     (let unit = normalizeUnit name in
      if unit = '''' then Inl (UnitNotFound '''')
      else bind_err (findUnit fs (srPaths r) unit) (\<lambda>(path, _). Inr (routeTo r (canonicalUnit fs r unit path))))"

text \<open>The loop of \<open>ResolveBusName\<close> over one directory: the units and targets seen and the matches.\<close>

fun matchEntries ::
  "fileSystem \<Rightarrow> systemdResolver \<Rightarrow> string \<Rightarrow> string \<Rightarrow> (string \<times> bool) list \<Rightarrow>
   string list \<times> string list \<times> managedRoute list \<Rightarrow> string list \<times> string list \<times> managedRoute list" where
  "matchEntries fs r busName directory [] st = st"
| "matchEntries fs r busName directory ((name, isDir) # entries) (seen, targets, matches) =
     matchEntries fs r busName directory entries
       (if isDir \<or> \<not> has_suffix name ''.service'' \<or> normalizeUnit name \<in> set seen then (seen, targets, matches)
        else
          let seen = normalizeUnit name # seen in
          case fsEvalSymlinks fs (path_join [directory, name]) of
            Inl _ \<Rightarrow> (seen, targets, matches)
          | Inr path \<Rightarrow>
              if path \<in> set targets then (seen, targets, matches)
              else
                let targets = path # targets; unit = normalizeUnit (path_base path) in
                if unit = '''' then (seen, targets, matches)
                else case parseUnitMetadata fs path of
                  Inl _ \<Rightarrow> (seen, targets, matches)
                | Inr metadata \<Rightarrow>
                    (seen, targets, if umBusName metadata = busName then matches @ [routeTo r unit] else matches))"

fun matchDirectories ::
  "fileSystem \<Rightarrow> systemdResolver \<Rightarrow> string \<Rightarrow> string list \<Rightarrow>
   string list \<times> string list \<times> managedRoute list \<Rightarrow> route_error + managedRoute list" where
  "matchDirectories fs r busName [] (seen, targets, matches) = Inr matches"
| "matchDirectories fs r busName (directory # directories) st =
     (case fsReadDir fs directory of
        Inl e \<Rightarrow> if e = NotExist then matchDirectories fs r busName directories st else Inl (RouteOS e)
      | Inr entries \<Rightarrow> matchDirectories fs r busName directories (matchEntries fs r busName directory entries st))"

definition ResolveBusName :: "fileSystem \<Rightarrow> systemdResolver \<Rightarrow> string \<Rightarrow> route_error + managedRoute list" where
  "ResolveBusName fs r busName =
     (case ValidateBusName busName of
        Inl e \<Rightarrow> Inl (BadBusName e)
      | Inr _ \<Rightarrow>
          bind_err (matchDirectories fs r busName (srPaths r) ([], [], []))
            (\<lambda>matches. Inr (sort_slice (\<lambda>a b. mrUnit a < mrUnit b) matches)))"

definition systemdUnits :: "fileSystem \<Rightarrow> systemdResolver \<Rightarrow> unitResolver" where
  "systemdUnits fs r = \<lparr>resolveExplicit = ResolveExplicit fs r, resolveBusName = ResolveBusName fs r\<rparr>"

text \<open>\<open>DefinitionResolver.Resolve\<close> with the index as the store returns it.\<close>

definition ResolveDefinition :: "index option \<Rightarrow> unitResolver option \<Rightarrow> string \<Rightarrow> route_error + route" where
  "ResolveDefinition ix units busName = bind_err (LookupIndex ix busName) (\<lambda>d. SelectRoute d units)"


subsection \<open>Command lines: round trip\<close>

text \<open>The reference for quoting: double quotes around the argument, a backslash before quotes and backslashes.\<close>

definition quoteRune :: "string \<Rightarrow> string list" where
  "quoteRune r = (if r = [CHR 0x22] \<or> r = [CHR 0x5C] then [[CHR 0x5C], r] else [r])"

definition quoteArgument :: "string \<Rightarrow> string" where
  "quoteArgument a = CHR 0x22 # concat (concat (map quoteRune (runes a))) @ [CHR 0x22]"

lemma rune_len_take:
  assumes "rune_len s \<noteq> 0"
  shows "rune_len (take (rune_len s) s) = rune_len s"
proof -
  from assms obtain a r where s: "s = a # r" by (cases s) (simp_all add: rune_len_def)
  obtain w lo hi where w: "rune_first a = (w, lo, hi)" by (cases "rune_first a") auto
  from assms s w have n: "rune_len s = w" and len: "w \<le> Suc (length r)"
    by (auto simp: rune_len_def split: if_splits)
  show ?thesis
  proof (cases "w \<le> 1")
    case True
    with assms s w n have "w = 1" by simp
    with s w n show ?thesis by (simp add: rune_len_def)
  next
    case False
    then obtain k where k: "w = Suc (Suc k)" by (metis One_nat_def le_SucI not_less_eq_eq Suc_le_D nle_le)
    with len obtain b t where r: "r = b # t" by (cases r) auto
    with assms s w k len have "byte_in lo hi b" "list_all (byte_in 0x80 0xBF) (take k t)" "k \<le> length t"
      by (auto simp: rune_len_def split: if_splits)
    then show ?thesis using s r w k n by (simp add: rune_len_def)
  qed
qed

lemma runes_single:
  assumes "rune_len s \<noteq> 0"
  shows "runes (take (rune_len s) s) = [take (rune_len s) s]" "valid_utf8 (take (rune_len s) s)"
proof -
  have ne: "take (rune_len s) s \<noteq> []" using assms rune_len_le [of s] by (cases s) auto
  have l: "length (take (rune_len s) s) = rune_len s" using rune_len_le [of s] by simp
  from ne l show "runes (take (rune_len s) s) = [take (rune_len s) s]"
    using assms rune_len_take [OF assms] by (subst runes.simps) (simp add: Let_def)
  from ne l show "valid_utf8 (take (rune_len s) s)"
    using assms rune_len_take [OF assms] by (subst valid_utf8.simps) (simp add: Let_def)
qed

lemma runes_valid: "valid_utf8 s \<Longrightarrow> r \<in> set (runes s) \<Longrightarrow> runes r = [r] \<and> valid_utf8 r"
proof (induction s rule: valid_utf8.induct)
  case (1 s)
  then show ?case
    using runes_single [of s]
    by (cases "s = []") (auto simp: runes.simps [of s] valid_utf8.simps [of s] Let_def split: if_splits)
qed

lemma runes_concat:
  "\<forall>r \<in> set rs. runes r = [r] \<and> valid_utf8 r \<Longrightarrow> runes (concat rs @ t) = rs @ runes t \<and> valid_utf8 (concat rs)"
proof (induction rs)
  case (Cons r rs)
  then show ?case using runes_append [of r "concat rs @ t"] valid_utf8_append [of r "concat rs"] by simp
qed simp

lemma runes_quoteArgument:
  assumes "valid_utf8 a"
  shows "runes (quoteArgument a @ t) = [CHR 0x22] # concat (map quoteRune (runes a)) @ [CHR 0x22] # runes t"
proof -
  have "runes [CHR 0x22] = [[CHR 0x22]]" "valid_utf8 [CHR 0x22]" "runes [CHR 0x5C] = [[CHR 0x5C]]" "valid_utf8 [CHR 0x5C]"
    by (simp_all add: runes_ascii valid_utf8_ascii)
  then have "\<forall>r \<in> set (concat (map quoteRune (runes a))). runes r = [r] \<and> valid_utf8 r"
    using runes_valid [OF assms] by (auto simp: quoteRune_def split: if_splits)
  from runes_concat [OF this, of "CHR 0x22 # t"] show ?thesis
    by (simp add: quoteArgument_def runes_ascii)
qed

lemma split_quoted:
  assumes "spQuote st = [CHR 0x22]" "\<not> spEscaped st" "spHasToken st"
  shows "foldl splitStep st (concat (map quoteRune rs)) = st\<lparr>spCurrent := spCurrent st @ concat rs\<rparr>"
  using assms
proof (induction rs arbitrary: st)
  case (Cons r rs)
  have step: "foldl splitStep st (quoteRune r) = st\<lparr>spCurrent := spCurrent st @ r\<rparr>"
    using Cons.prems by (cases st) (auto simp: quoteRune_def splitStep_def)
  show ?case using Cons.IH [of "st\<lparr>spCurrent := spCurrent st @ r\<rparr>"] Cons.prems by (simp add: step)
qed simp

definition betweenTokens :: "string list \<Rightarrow> splitState" where
  "betweenTokens done_args = splitStart\<lparr>spResult := done_args\<rparr>"

lemma split_argument:
  assumes "valid_utf8 a"
  shows "foldl splitStep (betweenTokens args) (runes (quoteArgument a @ t)) =
    foldl splitStep ((betweenTokens args)\<lparr>spCurrent := a, spHasToken := True\<rparr>) (runes t)"
proof -
  let ?q = "(betweenTokens args)\<lparr>spQuote := [CHR 0x22], spHasToken := True\<rparr>"
  have start: "splitStep (betweenTokens args) [CHR 0x22] = ?q"
    by (simp add: splitStep_def betweenTokens_def splitStart_def)
  have body: "foldl splitStep ?q (concat (map quoteRune (runes a))) = ?q\<lparr>spCurrent := a\<rparr>"
    by (subst split_quoted) (simp_all add: betweenTokens_def splitStart_def concat_runes [OF assms])
  have close_q: "splitStep (?q\<lparr>spCurrent := a\<rparr>) [CHR 0x22] = (betweenTokens args)\<lparr>spCurrent := a, spHasToken := True\<rparr>"
    by (simp add: splitStep_def betweenTokens_def splitStart_def)
  show ?thesis
    by (simp only: runes_quoteArgument [OF assms] foldl_Cons foldl_append start body close_q)qed

lemma split_arguments:
  assumes "list_all valid_utf8 (a # as)"
  shows "foldl splitStep (betweenTokens args) (runes (join '' '' (map quoteArgument (a # as)))) =
    (betweenTokens (args @ butlast (a # as)))\<lparr>spCurrent := last (a # as), spHasToken := True\<rparr>"
  using assms
proof (induction as arbitrary: a args)
  case Nil
  then show ?case using split_argument [of a args "[]"] by simp
next
  case (Cons b as)
  have "foldl splitStep (betweenTokens args) (runes (join '' '' (map quoteArgument (a # b # as)))) =
    foldl splitStep (splitStep ((betweenTokens args)\<lparr>spCurrent := a, spHasToken := True\<rparr>) [CHR '' ''])
      (runes (join '' '' (map quoteArgument (b # as))))"
    using split_argument [of a args "CHR '' '' # join '' '' (map quoteArgument (b # as))"] Cons.prems
    by (simp add: join_Cons runes_ascii)
  also have "splitStep ((betweenTokens args)\<lparr>spCurrent := a, spHasToken := True\<rparr>) [CHR '' ''] = betweenTokens (args @ [a])"
    by (simp add: splitStep_def splitFlush_def betweenTokens_def splitStart_def)
  finally show ?case using Cons.IH [of b "args @ [a]"] Cons.prems by simp
qed

text \<open>
  Fact. Every argument vector can be written in \<open>Exec=\<close>: quoting each argument of a non-empty
  list of well-formed strings and splitting the line again gives the list back, empty arguments,
  blanks, quotes and backslashes included.
\<close>

theorem splitCommandLine_roundtrip:
  assumes "args \<noteq> []" and "list_all valid_utf8 args"
  shows "splitCommandLine (join '' '' (map quoteArgument args)) = Inr args"
proof -
  obtain a as where a: "args = a # as" using assms(1) by (cases args) auto
  have s: "splitStart = betweenTokens []" by (simp add: betweenTokens_def splitStart_def)
  show ?thesis
    using split_arguments [OF assms(2) [unfolded a], of "[]"] append_butlast_last_id [OF assms(1)]
    by (simp add: splitCommandLine_def s a) (simp add: betweenTokens_def splitStart_def splitFlush_def)
qed

theorem splitCommandLine_roundtrip_witness:
  "splitCommandLine (join '' '' (map quoteArgument [''/bin/x'', ''a b'', '''', [CHR 0x22, CHR 0x5C]])) =
     Inr [''/bin/x'', ''a b'', '''', [CHR 0x22, CHR 0x5C]]"
  by (rule splitCommandLine_roundtrip) (simp_all add: valid_utf8_ascii)


subsection \<open>The index against a reference\<close>

text \<open>
  The definitions the directories give, in the order of the loops, and the answer for one name: the
  first definition, unless its own directory has a second one.
\<close>

definition parsedEntries :: "fileSystem \<Rightarrow> string \<Rightarrow> int \<Rightarrow> (string \<times> bool) list \<Rightarrow> serviceDefinition list" where
  "parsedEntries fs directory priority entries =
     List.map_filter (\<lambda>(name, isDir).
       if isDir \<or> \<not> has_suffix name ''.service'' then None
       else case ParseServiceFile fs (path_join [directory, name]) priority of Inl _ \<Rightarrow> None | Inr d \<Rightarrow> Some d) entries"

fun allDefinitions :: "fileSystem \<Rightarrow> int \<Rightarrow> string list \<Rightarrow> serviceDefinition list" where
  "allDefinitions fs priority [] = []"
| "allDefinitions fs priority (directory # directories) =
     (case fsReadDir fs directory of Inl _ \<Rightarrow> [] | Inr entries \<Rightarrow> parsedEntries fs directory priority entries) @
     allDefinitions fs (priority + 1) directories"

fun pickDefinition :: "string \<Rightarrow> serviceDefinition list \<Rightarrow> route_error + serviceDefinition" where
  "pickDefinition name [] = Inl (UnknownService name)"
| "pickDefinition name (d # ds) =
     (case filter (\<lambda>e. sdPriority e = sdPriority d) ds of
        [] \<Rightarrow> Inr d
      | e # _ \<Rightarrow> Inl (DuplicateService name (sdPath d) (sdPath e)))"

abbreviation addAll :: "index \<Rightarrow> serviceDefinition list \<Rightarrow> index" where
  "addAll ix ds \<equiv> foldl (\<lambda>ix d. fst (addDefinition ix d)) ix ds"

lemma indexEntries_add:
  "fst (indexEntries fs directory priority entries st) = addAll (fst st) (parsedEntries fs directory priority entries)"
proof (induction fs directory priority entries st rule: indexEntries.induct)
  case (2 fs directory priority name isDir entries st)
  then show ?case
    by (cases "isDir \<or> \<not> has_suffix name ''.service''"; cases "ParseServiceFile fs (path_join [directory, name]) priority")
       (auto simp: parsedEntries_def split: prod.splits)
qed (simp add: parsedEntries_def)

lemma indexDirectories_add:
  "fst (indexDirectories fs priority directories st) = addAll (fst st) (allDefinitions fs priority directories)"
  by (induction fs priority directories st rule: indexDirectories.induct)
     (auto simp: indexEntries_add split: sum.split)

lemma parsed_priority: "ParseServiceFile fs path priority = Inr d \<Longrightarrow> sdPriority d = priority"
proof -
  have set: "setField d key val = Inr d' \<Longrightarrow> sdPriority d' = sdPriority d" for d d' key val
    by (auto simp: setField_def split: if_splits sum.splits)
  have ls: "parseServiceLines d sect ls = Inr (d', s) \<Longrightarrow> sdPriority d' = sdPriority d" for d d' sect s ls
    by (induction d sect ls rule: parseServiceLines.induct)
       (auto simp: Let_def bind_err_Inr_iff set split: if_splits option.splits)
  show "ParseServiceFile fs path priority = Inr d \<Longrightarrow> sdPriority d = priority"
    by (auto simp: ParseServiceFile_def checkDefinition_def bind_err_Inr_iff dest!: ls split: sum.splits if_splits prod.splits)
qed

lemma parsedEntries_priority: "d \<in> set (parsedEntries fs directory priority entries) \<Longrightarrow> sdPriority d = priority"
  by (induction entries) (auto simp: parsedEntries_def parsed_priority split: if_splits sum.splits)

lemma allDefinitions_priority:
  "(\<forall>d \<in> set (allDefinitions fs priority directories). priority \<le> sdPriority d) \<and>
   sorted (map sdPriority (allDefinitions fs priority directories))"
proof (induction fs priority directories rule: allDefinitions.induct)
  case (2 fs priority directory directories)
  have eq: "sorted (map sdPriority ds)" if "\<forall>d \<in> set ds. sdPriority d = priority" for ds
    using that by (induction ds) auto
  show ?case
  proof (cases "fsReadDir fs directory")
    case (Inl e)
    with 2 show ?thesis by (auto simp: list_all_iff)
  next
    case (Inr entries)
    with 2 eq [of "parsedEntries fs directory priority entries"] parsedEntries_priority [of _ fs directory priority entries]
    show ?thesis by (fastforce simp: sorted_append)
  qed
qed simp

lemma lookup_add_other:
  "n \<noteq> sdName d \<Longrightarrow> map_of (ixDuplicates (fst (addDefinition ix d))) n = map_of (ixDuplicates ix) n \<and>
     map_of (ixDefinitions (fst (addDefinition ix d))) n = map_of (ixDefinitions ix) n"
  by (auto simp: addDefinition_def Let_def update_conv' delete_conv' split: option.split)

definition answersAs :: "index \<Rightarrow> string \<Rightarrow> serviceDefinition list \<Rightarrow> bool" where
  "answersAs ix n ds \<longleftrightarrow>
     (case pickDefinition n ds of
        Inr d \<Rightarrow> map_of (ixDuplicates ix) n = None \<and> map_of (ixDefinitions ix) n = Some d
      | Inl e \<Rightarrow>
          if ds = [] then map_of (ixDuplicates ix) n = None \<and> map_of (ixDefinitions ix) n = None
          else map_of (ixDuplicates ix) n = Some e)"

lemma answersAs_add:
  assumes "answersAs ix n ds" "sdName x = n" "\<forall>d \<in> set ds. sdPriority d \<le> sdPriority x"
  shows "answersAs (fst (addDefinition ix x)) n (ds @ [x])"
proof (cases ds)
  case Nil
  with assms show ?thesis by (simp add: answersAs_def addDefinition_def update_conv')
next
  case (Cons d rest)
  show ?thesis
  proof (cases "filter (\<lambda>e. sdPriority e = sdPriority d) rest")
    case Nil
    with assms Cons show ?thesis
      by (auto simp: answersAs_def addDefinition_def Let_def update_conv' delete_conv')
  next
    case (Cons e es)
    with assms \<open>ds = d # rest\<close> show ?thesis by (simp add: answersAs_def addDefinition_def)
  qed
qed

lemma addAll_answers:
  "sorted (map sdPriority ds) \<Longrightarrow>
   answersAs (addAll \<lparr>ixDefinitions = [], ixDuplicates = []\<rparr> ds) n (filter (\<lambda>d. sdName d = n) ds)"
proof (induction ds rule: rev_induct)
  case (snoc x ds)
  show ?case
  proof (cases "sdName x = n")
    case True
    with snoc answersAs_add [of _ n "filter (\<lambda>d. sdName d = n) ds" x] show ?thesis
      by (auto simp: sorted_append)
  next
    case False
    with snoc lookup_add_other [of n x] show ?thesis by (auto simp: answersAs_def sorted_append split: sum.split)
  qed
qed (simp add: answersAs_def)

text \<open>
  Fact. The index of service files: a lookup answers with the first definition of the name in
  the order of the directories, whatever later directories hold, reports two definitions in that
  same directory as a duplicate, and knows no other names.
\<close>

theorem BuildIndex_lookup:
  "LookupIndex (Some (fst (BuildIndex fs directories))) name =
     pickDefinition name (filter (\<lambda>d. sdName d = name) (allDefinitions fs 0 directories))"
proof -
  let ?ds = "filter (\<lambda>d. sdName d = name) (allDefinitions fs 0 directories)"
  have "answersAs (fst (BuildIndex fs directories)) name ?ds"
    using addAll_answers allDefinitions_priority by (simp add: BuildIndex_def indexDirectories_add)
  then show ?thesis
    by (cases ?ds; cases "pickDefinition name ?ds") (auto simp: LookupIndex_def answersAs_def split: option.splits)
qed


subsection \<open>Reloading\<close>

lemma addDefinition_clean:
  "ixDuplicates ix = [] \<Longrightarrow> addDefinition ix d = (ix', []) \<Longrightarrow> ixDuplicates ix' = []"
  by (auto simp: addDefinition_def Let_def split: if_splits option.splits)

lemma indexEntries_clean:
  "indexEntries fs directory priority entries st = (ix, []) \<Longrightarrow>
   (snd st = [] \<longrightarrow> ixDuplicates (fst st) = []) \<Longrightarrow> snd st = [] \<and> ixDuplicates ix = []"
proof (induction fs directory priority entries st arbitrary: ix rule: indexEntries.induct)
  case (2 fs directory priority name isDir entries st)
  let ?st = "if isDir \<or> \<not> has_suffix name ''.service'' then st
        else case ParseServiceFile fs (path_join [directory, name]) priority of
          Inl e \<Rightarrow> (fst st, snd st @ [e])
        | Inr d \<Rightarrow> (case addDefinition (fst st) d of (ix, es) \<Rightarrow> (ix, snd st @ es))"
  have "snd ?st = [] \<Longrightarrow> snd st = [] \<and> ixDuplicates (fst ?st) = []"
    using 2(3) addDefinition_clean [of "fst st"] by (auto split: if_splits sum.splits prod.splits)
  with 2(1) [of ix] 2(2) show ?case by auto
qed auto

lemma indexDirectories_clean:
  "indexDirectories fs priority directories st = (ix, []) \<Longrightarrow>
   (snd st = [] \<longrightarrow> ixDuplicates (fst st) = []) \<Longrightarrow> ixDuplicates ix = []"
proof (induction fs priority directories st arbitrary: ix rule: indexDirectories.induct)
  case (2 fs priority directory directories st)
  let ?st = "case fsReadDir fs directory of
          Inl e \<Rightarrow> if e = NotExist then st else (fst st, snd st @ [RouteOS e])
        | Inr entries \<Rightarrow> indexEntries fs directory priority entries st"
  have "snd ?st = [] \<longrightarrow> ixDuplicates (fst ?st) = []"
  proof (cases "fsReadDir fs directory")
    case (Inl e)
    with 2(3) show ?thesis by simp
  next
    case (Inr entries)
    obtain ix' es where i: "indexEntries fs directory priority entries st = (ix', es)"
      by (cases "indexEntries fs directory priority entries st")
    have "ixDuplicates ix' = []" if "es = []"
      using indexEntries_clean [of fs directory priority entries st ix'] 2(3) i that by blast
    then show ?thesis by (simp add: Inr i)
  qed
  from 2(1) [OF _ this] 2(2) show ?case by simp
qed auto

definition storeInv :: "indexStore \<Rightarrow> bool" where
  "storeInv s \<longleftrightarrow> (\<forall>ix. stIndex s = Some ix \<longrightarrow> ixDuplicates ix = [])"

text \<open>Each load sees the file system as it is then.\<close>

interpretation reload: machine "\<lambda>s (fs, directories). fst (loadIndex fs directories s)" storeInv
proof
  fix s :: indexStore and e :: "fileSystem \<times> string list" assume inv: "storeInv s"
  obtain fs directories where e: "e = (fs, directories)" by (cases e)
  obtain ix es where b: "BuildIndex fs directories = (ix, es)" by (cases "BuildIndex fs directories")
  have "es = [] \<Longrightarrow> ixDuplicates ix = []"
    using indexDirectories_clean [of fs 0 directories "(\<lparr>ixDefinitions = [], ixDuplicates = []\<rparr>, [])"] b
    by (simp add: BuildIndex_def)
  with inv show "storeInv (case e of (fs, directories) \<Rightarrow> fst (loadIndex fs directories s))"
    by (simp add: storeInv_def loadIndex_def e b)
qed

text \<open>
  Fact. Reloads of the daemon: from the empty store, after any sequence of loads over changing
  files, a lookup never meets a duplicate, and a load with an error leaves the index and the
  generation it found, so the daemon goes on with its last good index.
\<close>

theorem reload_keeps_good_index:
  assumes "s = foldl (\<lambda>s (fs, directories). fst (loadIndex fs directories s)) \<lparr>stIndex = None, stErrors = [], stGen = 0\<rparr> loads"
  shows "(\<forall>name e. LookupIndex (stIndex s) name = Inl e \<longrightarrow> (\<exists>n. e = UnknownService n)) \<and>
    (snd (loadIndex fs directories s) \<noteq> [] \<longrightarrow>
      stIndex (fst (loadIndex fs directories s)) = stIndex s \<and> stGen (fst (loadIndex fs directories s)) = stGen s \<and>
      stErrors (fst (loadIndex fs directories s)) = snd (loadIndex fs directories s))"
proof -
  have "storeInv s" unfolding assms by (rule reload.run_inv) (simp add: storeInv_def)
  then have "\<exists>n. e = UnknownService n" if "LookupIndex (stIndex s) name = Inl e" for name e
    using that by (auto simp: LookupIndex_def storeInv_def split: option.splits)
  then show ?thesis by (auto simp: loadIndex_def split: prod.splits)
qed

definition emptyFiles :: fileSystem where
  "emptyFiles = \<lparr>fsLstat = \<lambda>_. Inl NotExist, fsOpenNoFollow = \<lambda>_. Inl NotExist, fsReadFile = \<lambda>_. Inl NotExist,
     fsReadDir = \<lambda>_. Inl NotExist, fsEvalSymlinks = \<lambda>_. Inl NotExist, fsEUID = 0\<rparr>"

theorem reload_keeps_good_index_witness:
  "stGen (fst (loadIndex (emptyFiles\<lparr>fsReadDir := \<lambda>_. Inl Busy\<rparr>) [''/d''] \<lparr>stIndex = None, stErrors = [], stGen = 0\<rparr>)) = 0"
proof -
  have "snd (loadIndex (emptyFiles\<lparr>fsReadDir := \<lambda>_. Inl Busy\<rparr>) [''/d''] \<lparr>stIndex = None, stErrors = [], stGen = 0\<rparr>) \<noteq> []"
    by (simp add: loadIndex_def BuildIndex_def)
  with reload_keeps_good_index [of "\<lparr>stIndex = None, stErrors = [], stGen = 0\<rparr>" "[]" "emptyFiles\<lparr>fsReadDir := \<lambda>_. Inl Busy\<rparr>" "[''/d'']"]
  show ?thesis by simp
qed

subsection \<open>Where routes lead\<close>

definition safeUnit :: "string \<Rightarrow> bool" where
  "safeUnit u \<longleftrightarrow> u \<noteq> '''' \<and> u \<noteq> ''.'' \<and> u \<noteq> ''..'' \<and> CHR ''/'' \<notin> set u \<and> CHR 0x5C \<notin> set u \<and> CHR 0x00 \<notin> set u"

lemma normalizeUnit_safe: "normalizeUnit name = '''' \<or> safeUnit (normalizeUnit name)"
  by (auto simp: normalizeUnit_def safeUnit_def Let_def contains_any_iff)

lemma canonicalUnit_safe: "safeUnit unit \<Longrightarrow> safeUnit (canonicalUnit fs r unit path)"
  using normalizeUnit_safe by (auto simp: canonicalUnit_def Let_def split: sum.split)

lemma ResolveExplicit_route: "ResolveExplicit fs r name = Inr m \<Longrightarrow> \<exists>u. safeUnit u \<and> m = routeTo r u"
  using normalizeUnit_safe [of name] canonicalUnit_safe [of "normalizeUnit name" fs r]
  by (auto simp: ResolveExplicit_def Let_def bind_err_Inr_iff split: if_splits)

lemma matchEntries_routes:
  "\<forall>m \<in> set (snd (snd st)). \<exists>u. safeUnit u \<and> m = routeTo r u \<Longrightarrow>
   \<forall>m \<in> set (snd (snd (matchEntries fs r busName directory entries st))). \<exists>u. safeUnit u \<and> m = routeTo r u"
proof (induction fs r busName directory entries st rule: matchEntries.induct)
  case (2 fs r busName directory name isDir entries seen targets matches)
  show ?case
    unfolding matchEntries.simps
    by (rule 2(1))
       (use 2(2) normalizeUnit_safe in \<open>fastforce simp: Let_def split: sum.splits if_splits\<close>)
qed simp

lemma matchDirectories_routes:
  "matchDirectories fs r busName directories st = Inr ms \<Longrightarrow>
   \<forall>m \<in> set (snd (snd st)). \<exists>u. safeUnit u \<and> m = routeTo r u \<Longrightarrow>
   \<forall>m \<in> set ms. \<exists>u. safeUnit u \<and> m = routeTo r u"
proof (induction fs r busName directories st arbitrary: ms rule: matchDirectories.induct)
  case (2 fs r busName directory directories st)
  then show ?case using matchEntries_routes [of st r fs busName directory]
    by (cases "fsReadDir fs directory") (auto split: if_splits)
qed auto

lemma ResolveBusName_routes:
  "ResolveBusName fs r busName = Inr ms \<Longrightarrow> m \<in> set ms \<Longrightarrow> \<exists>u. safeUnit u \<and> m = routeTo r u"
  using matchDirectories_routes [of fs r busName "srPaths r" "([], [], [])"]
  by (auto simp: ResolveBusName_def bind_err_Inr_iff split: sum.splits)


definition confinedRoute :: "string list \<Rightarrow> managedRoute \<Rightarrow> bool" where
  "confinedRoute root m \<longleftrightarrow>
     (\<exists>u. safeUnit u \<and> (mrUnit m = u \<and> mrServiceName m = '''' \<and> mrControlPath m = '''' \<or>
        mrUnit m = normalizeUnit u \<and> mrServiceName m = u @ ''-dbusd'' \<and>
        mrControlPath m = abs_path (root @ [u @ ''-dbusd'', ''control.sock''])))"

lemma routeTo_confined:
  assumes "srRuntimeDir r = abs_path root" "list_all normal root" "safeUnit u"
  shows "confinedRoute root (normalizeManagedRoute (routeTo r u))"
proof -
  have "normal (u @ ''-dbusd'')" "normal ''control.sock''"
    using assms(3) by (auto simp: normal_def safeUnit_def)
  then have "path_join [abs_path root, u @ ''-dbusd'', ''control.sock''] = abs_path (root @ [u @ ''-dbusd'', ''control.sock''])"
    using path_join_abs [of root "[u @ ''-dbusd'', ''control.sock'']"] assms(2) by simp
  then show ?thesis
    using assms by (auto simp: confinedRoute_def normalizeManagedRoute_def routeTo_def Let_def)
qed

lemma LegacyManagedRoute_confined: "LegacyManagedRoute argv = Some m \<Longrightarrow> confinedRoute root m"
  using normalizeUnit_safe [of "argv ! 2"] by (auto simp: LegacyManagedRoute_def confinedRoute_def Let_def split: if_splits)

lemma SelectRoute_native:
  assumes "SelectRoute d resolver = Inr (RouteNative n)"
  shows "trim_space (sdSystemdService d) = '''' \<and> sdArgv d \<noteq> [] \<and> n = \<lparr>nrArgv = sdArgv d, nrUser = sdUser d\<rparr>"
proof -
  have native: "sdArgv d \<noteq> [] \<and> n = \<lparr>nrArgv = sdArgv d, nrUser = sdUser d\<rparr>" if "selectNative d = Inr (RouteNative n)"
    using that by (auto simp: selectNative_def split: if_splits)
  have "selectNative d = Inr (RouteNative n)"
    if "(case ms of [] \<Rightarrow> selectNative d | [m] \<Rightarrow> managed m | _ \<Rightarrow> Inl (AmbiguousUnit (sdName d) (length ms))) = Inr (RouteNative n)" for ms
    using that by (cases ms; cases "tl ms") (auto simp: managed_def)
  with assms native show ?thesis
    by (auto simp: SelectRoute_def managed_def bind_err_Inr_iff split: option.splits sum.splits if_splits)
qed

text \<open>
  Fact. Whatever service files and unit files say (aliases and symbolic links included), a
  managed route names a unit without separators, the service \<open><unit>-dbusd\<close> and the control socket
  directly below the runtime directory of that service, or, for the legacy command line of a unit
  that is not found, the unit alone; a native route runs the command of the definition.
\<close>

theorem SelectRoute_confined:
  assumes "SelectRoute d (Some (systemdUnits fs r)) = Inr route"
    and "srRuntimeDir r = abs_path root" "list_all normal root"
  shows "case route of
      RouteManaged m \<Rightarrow> confinedRoute root m
    | RouteNative n \<Rightarrow> trim_space (sdSystemdService d) = '''' \<and> nrArgv n = sdArgv d \<and> sdArgv d \<noteq> [] \<and> nrUser n = sdUser d"
proof -
  have explicit: "confinedRoute root (normalizeManagedRoute m)" if "ResolveExplicit fs r name = Inr m" for name m
    using ResolveExplicit_route [OF that] routeTo_confined [OF assms(2,3)] by blast
  have bus: "confinedRoute root (normalizeManagedRoute m)" if "ResolveBusName fs r name = Inr ms" "m \<in> set ms" for name m ms
    using ResolveBusName_routes [OF that] routeTo_confined [OF assms(2,3)] by blast
  have "case route of RouteManaged m \<Rightarrow> confinedRoute root m | RouteNative n \<Rightarrow> True"
  proof (cases "trim_space (sdSystemdService d) = ''''")
    case False
    with assms(1) explicit show ?thesis
      by (auto simp: SelectRoute_def systemdUnits_def managed_def bind_err_Inr_iff)
  next
    case sys: True
    show ?thesis
    proof (cases "LegacyManagedRoute (sdArgv d)")
      case (Some m)
      with assms(1) sys explicit LegacyManagedRoute_confined [OF Some] show ?thesis
        by (auto simp: SelectRoute_def systemdUnits_def managed_def split: sum.splits if_splits)
    next
      case None
      with assms(1) sys obtain ms where ms: "ResolveBusName fs r (sdName d) = Inr ms"
        and route: "(case ms of [] \<Rightarrow> selectNative d | [m] \<Rightarrow> managed m | _ \<Rightarrow> Inl (AmbiguousUnit (sdName d) (length ms))) = Inr route"
        by (auto simp: SelectRoute_def systemdUnits_def bind_err_Inr_iff)
      show ?thesis
      proof (cases ms)
        case Nil
        with route show ?thesis by (auto simp: selectNative_def split: if_splits)
      next
        case (Cons m rest)
        with route bus [OF ms, of m] show ?thesis by (cases rest) (auto simp: managed_def)
      qed
    qed
  qed
  with SelectRoute_native [of d "Some (systemdUnits fs r)"] assms(1) show ?thesis by (cases route) force+
qed

definition demoDefinition :: serviceDefinition where
  "demoDefinition = \<lparr>sdName = ''org.x'', sdArgv = [], sdUser = '''', sdSystemdService = ''foo.service.service'',
     sdPath = ''/d/x.service'', sdPriority = 0\<rparr>"

definition demoResolver :: systemdResolver where
  "demoResolver = \<lparr>srPaths = [''/u''], srRuntimeDir = ''/run''\<rparr>"

definition demoFiles :: fileSystem where
  "demoFiles = emptyFiles\<lparr>fsReadFile := \<lambda>p. if p = ''/u/foo.service.service'' then Inr '''' else Inl NotExist\<rparr>"

lemma demo_route:
  "SelectRoute demoDefinition (Some (systemdUnits demoFiles demoResolver)) =
     Inr (RouteManaged \<lparr>mrUnit = ''foo'', mrServiceName = ''foo.service-dbusd'', mrControlPath = ''/run/foo.service-dbusd/control.sock''\<rparr>)"
proof -
  have names: "normalizeUnit ''foo.service.service'' = ''foo.service''" "normalizeUnit ''foo.service'' = ''foo''"
    "trim_space ''foo.service.service'' \<noteq> ''''" by code_simp+
  have paths: "path_join [''/u'', ''foo.service.service''] = ''/u/foo.service.service''"
    "path_join [''/run'', ''foo.service-dbusd'', ''control.sock''] = ''/run/foo.service-dbusd/control.sock''" by code_simp+
  have lines: "scan_lines '''' = ([], False)" by (simp add: scan_lines_def scan_lines_max_def)
  show ?thesis
    by (simp del: path_join.simps add: SelectRoute_def demoDefinition_def names systemdUnits_def ResolveExplicit_def demoResolver_def Let_def
        parseUnitMetadata_def demoFiles_def emptyFiles_def paths lines canonicalUnit_def managed_def normalizeManagedRoute_def routeTo_def)
qed

theorem SelectRoute_confined_witness:
  "confinedRoute [''run''] \<lparr>mrUnit = ''foo'', mrServiceName = ''foo.service-dbusd'', mrControlPath = ''/run/foo.service-dbusd/control.sock''\<rparr>"
  using SelectRoute_confined [OF demo_route, of "[''run'']"] by (simp add: demoResolver_def abs_path_def normal_def)

text \<open>
  Fact. Units are normalized twice on the way to a route, and normalization is not idempotent:
  for a unit file \<open>foo.service.service\<close> the route installs the unit \<open>foo\<close> but starts the service of
  \<open>foo.service\<close>.
\<close>

theorem normalized_twice:
  "normalizeUnit ''foo.service.service'' = ''foo.service'' \<and> normalizeUnit (normalizeUnit ''foo.service.service'') = ''foo'' \<and>
   SelectRoute demoDefinition (Some (systemdUnits demoFiles demoResolver)) =
     Inr (RouteManaged \<lparr>mrUnit = ''foo'', mrServiceName = ''foo.service-dbusd'', mrControlPath = ''/run/foo.service-dbusd/control.sock''\<rparr>)"
proof (intro conjI)
  show "normalizeUnit ''foo.service.service'' = ''foo.service''" by code_simp
  show "normalizeUnit (normalizeUnit ''foo.service.service'') = ''foo''" by code_simp
qed (rule demo_route)

end
