(* ===== verification/Dbus_Engine.thy ===== *)
theory Dbus_Engine
  imports Dbus_Routes
begin

text \<open>
  The activation engine (\<open>internal/dbusactivation/engine.go\<close>) and the starters it calls
  (\<open>managed.go\<close>, \<open>native.go\<close>). The bus, the accounts and the commands that install and start units are
  parameters; an activation waits on a sequence of events, the order in which \<open>select\<close> takes them.
\<close>

subsection \<open>Starters\<close>

datatype start_error =
    NotManaged | NotConfigured | ControlNotConfigured | StarterUnavailable | NotNative
  | ContextError string | EmptyCommandLine | RelativeExecutable | LookupUserFailed string | BadUID string | BadGID string
  | GroupsFailed string | NegativeGroup int | StartFailed string

text \<open>\<open>startResult\<close>: whether there is an exit channel and whether there is a function that stops the process.\<close>

record startResult =
  srExit :: bool
  srStop :: bool

record 'w managedOptions =
  moInstall :: "(string \<Rightarrow> 'w \<Rightarrow> 'w \<times> string option) option"
  moStart :: "(string \<Rightarrow> 'w \<Rightarrow> 'w \<times> string option) option"
  moActivate :: "(string \<Rightarrow> 'w \<Rightarrow> 'w \<times> string option) option"

definition ManagedStart :: "'w managedOptions \<Rightarrow> route \<Rightarrow> 'w \<Rightarrow> 'w \<times> (start_error + startResult)" where
  "ManagedStart o1 route w =
     (case route of
        RouteNative _ \<Rightarrow> (w, Inl NotManaged)
      | RouteManaged m \<Rightarrow>
          (case (moInstall o1, moStart o1) of
             (Some install, Some start) \<Rightarrow>
               (case install (mrUnit m) w of
                  (w, Some e) \<Rightarrow> (w, Inl (StartFailed e))
                | (w, None) \<Rightarrow>
                    (case start (if mrServiceName m = '''' then mrUnit m else mrServiceName m) w of
                       (w, Some e) \<Rightarrow> (w, Inl (StartFailed e))
                     | (w, None) \<Rightarrow>
                         if mrControlPath m = '''' then (w, Inr \<lparr>srExit = False, srStop = False\<rparr>)
                         else case moActivate o1 of
                           None \<Rightarrow> (w, Inl ControlNotConfigured)
                         | Some activate \<Rightarrow>
                             (case activate (mrControlPath m) w of
                                (w, Some e) \<Rightarrow> (w, Inl (StartFailed e))
                              | (w, None) \<Rightarrow> (w, Inr \<lparr>srExit = False, srStop = False\<rparr>))))
           | _ \<Rightarrow> (w, Inl NotConfigured)))"

record account =
  acUid :: string
  acGid :: string

record credential =
  crUid :: uint32
  crGid :: uint32
  crGroups :: "uint32 list"

record command =
  cmdPath :: string
  cmdArgs :: "string list"
  cmdEnv :: "string list"
  cmdDir :: string
  cmdCredential :: "credential option"

record nativeStarter =
  nsLookupUser :: "string \<Rightarrow> string + account"
  nsGroupIDs :: "account \<Rightarrow> string + int list"
  nsBusAddress :: string

definition NewNativeStarter :: "(string \<Rightarrow> string + account) \<Rightarrow> (account \<Rightarrow> string + int list) \<Rightarrow> string \<Rightarrow> nativeStarter" where
  "NewNativeStarter lookup groups address =
     \<lparr>nsLookupUser = lookup, nsGroupIDs = groups,
      nsBusAddress = (if trim_space address = '''' then ''unix:path=/run/dbus/system_bus_socket'' else trim_space address)\<rparr>"

fun defaultGroupIDs :: "string list \<Rightarrow> (string + int list)" where
  "defaultGroupIDs [] = Inr []"
| "defaultGroupIDs (v # vs) =
     (case atoi v of None \<Rightarrow> Inl v | Some gid \<Rightarrow> bind_err (defaultGroupIDs vs) (\<lambda>gs. Inr (gid # gs)))"

fun supplementary :: "int list \<Rightarrow> start_error + uint32 list" where
  "supplementary [] = Inr []"
| "supplementary (g # gs) =
     (if g < 0 then Inl (NegativeGroup g) else bind_err (supplementary gs) (\<lambda>us. Inr (of_int g # us)))"

definition userCredential :: "nativeStarter \<Rightarrow> string \<Rightarrow> start_error + credential" where
  "userCredential s user =
     (case nsLookupUser s user of
        Inl e \<Rightarrow> Inl (LookupUserFailed e)
      | Inr a \<Rightarrow>
          (case parse_uint 32 (acUid a) of
             None \<Rightarrow> Inl (BadUID (acUid a))
           | Some uid \<Rightarrow>
               (case parse_uint 32 (acGid a) of
                  None \<Rightarrow> Inl (BadGID (acGid a))
                | Some gid \<Rightarrow>
                    (case nsGroupIDs s a of
                       Inl e \<Rightarrow> Inl (GroupsFailed e)
                     | Inr groups \<Rightarrow>
                         bind_err (supplementary groups) (\<lambda>gs.
                           Inr \<lparr>crUid = of_nat uid, crGid = of_nat gid, crGroups = gs\<rparr>)))))"

definition nativeCommand :: "nativeStarter \<Rightarrow> string option \<Rightarrow> nativeRoute \<Rightarrow> string list \<Rightarrow> start_error + command" where
  "nativeCommand s ctxErr r env =
     (case ctxErr of
        Some e \<Rightarrow> Inl (ContextError e)
      | None \<Rightarrow>
          if nrArgv r = [] \<or> trim_space (hd (nrArgv r)) = '''' then Inl EmptyCommandLine
          else if \<not> has_prefix (hd (nrArgv r)) ''/'' then Inl RelativeExecutable
          else
            let cmd = \<lparr>cmdPath = hd (nrArgv r), cmdArgs = tl (nrArgv r),
                  cmdEnv = activationEnvironment env (nsBusAddress s), cmdDir = ''/'', cmdCredential = None\<rparr> in
            if trim_space (nrUser r) \<noteq> ''''
            then bind_err (userCredential s (nrUser r)) (\<lambda>c. Inr (cmd\<lparr>cmdCredential := Some c\<rparr>))
            else Inr cmd)"

text \<open>\<open>execute\<close> stands for \<open>cmd.Start\<close>; the process of a native start can be waited for and killed.\<close>

definition NativeStart ::
  "(command \<Rightarrow> 'w \<Rightarrow> 'w \<times> string option) \<Rightarrow> nativeStarter \<Rightarrow> string option \<Rightarrow> route \<Rightarrow> string list \<Rightarrow> 'w \<Rightarrow>
   'w \<times> (start_error + startResult)" where
  "NativeStart execute s ctxErr route env w =
     (case route of
        RouteManaged _ \<Rightarrow> (w, Inl NotNative)
      | RouteNative r \<Rightarrow>
          (case nativeCommand s ctxErr r env of
             Inl e \<Rightarrow> (w, Inl e)
           | Inr cmd \<Rightarrow>
               (case execute cmd w of
                  (w, Some e) \<Rightarrow> (w, Inl (StartFailed e))
                | (w, None) \<Rightarrow> (w, Inr \<lparr>srExit = True, srStop = True\<rparr>))))"

type_synonym 'w starter = "route \<Rightarrow> string list \<Rightarrow> 'w \<Rightarrow> 'w \<times> (start_error + startResult)"

definition CompositeStart :: "'w starter option \<Rightarrow> 'w starter option \<Rightarrow> 'w starter" where
  "CompositeStart native managed_starter route env w =
     (case route of
        RouteNative _ \<Rightarrow> (case native of None \<Rightarrow> (w, Inl StarterUnavailable) | Some start \<Rightarrow> start route env w)
      | RouteManaged _ \<Rightarrow>
          (case managed_starter of None \<Rightarrow> (w, Inl StarterUnavailable) | Some start \<Rightarrow> start route env w))"

subsection \<open>One activation\<close>

datatype owner_error = ErrNoOwner | BusError string

datatype child_exit = ExitOK | ExitStatus string | ExitSignaled string

text \<open>What \<open>select\<close> takes next; a closed exit channel reads as \<open>ExitOK\<close>.\<close>

datatype engine_event =
    DeadlineExceeded string | Cancelled string | MonitorStopped | NameChanged string string | ChildExit child_exit

record 'w engineWorld =
  ewResolve :: "string \<Rightarrow> route_error + route"
  ewOwner :: "string \<Rightarrow> 'w \<Rightarrow> 'w \<times> (owner_error + string)"
  ewWatch :: "string \<Rightarrow> 'w \<Rightarrow> 'w \<times> string option"
  ewUnwatch :: "'w \<Rightarrow> 'w"
  ewStart :: "'w starter"
  ewStop :: "'w \<Rightarrow> 'w"
  ewErrorText :: "route_error \<Rightarrow> string"
  ewStartText :: "start_error \<Rightarrow> string"

definition resultOf :: "uint16 \<Rightarrow> string \<Rightarrow> activationResult" where
  "resultOf code detail = \<lparr>acCode = code, acDetail = detail\<rparr>"

definition resultFromError :: "'w engineWorld \<Rightarrow> route_error \<Rightarrow> activationResult" where
  "resultFromError W e =
     resultOf (case e of
         UnknownService _ \<Rightarrow> ResultUnknownService
       | DuplicateService _ _ _ \<Rightarrow> ResultDuplicateService
       | UnitNotFound _ \<Rightarrow> ResultUnitNotFound
       | AmbiguousUnit _ _ \<Rightarrow> ResultServiceInvalid
       | _ \<Rightarrow> ResultFailed) (ewErrorText W e)"

definition resultFromChildExit :: "child_exit \<Rightarrow> activationResult" where
  "resultFromChildExit e =
     (case e of
        ExitOK \<Rightarrow> resultOf ResultChildExited ''service exited before acquiring its D-Bus name''
      | ExitSignaled t \<Rightarrow> resultOf ResultChildSignaled t
      | ExitStatus t \<Rightarrow> resultOf ResultChildExited t)"

text \<open>
  The loop of \<open>activateJob\<close>: the world, whether the activation succeeded and the result, \<open>None\<close>
  while the events so far decide nothing.
\<close>

fun waitOwner ::
  "'w engineWorld \<Rightarrow> string \<Rightarrow> engine_event list \<Rightarrow> 'w \<Rightarrow> ('w \<times> bool \<times> activationResult) option" where
  "waitOwner W busName [] w = None"
| "waitOwner W busName (ev # evs) w =
     (case ev of
        DeadlineExceeded t \<Rightarrow> Some (w, False, resultOf ResultTimeout t)
      | Cancelled t \<Rightarrow> Some (w, False, resultOf ResultFailed t)
      | MonitorStopped \<Rightarrow> Some (w, False, resultOf ResultBackendUnavailable ''D-Bus name monitor stopped'')
      | NameChanged name newOwner \<Rightarrow>
          if name = busName \<and> newOwner \<noteq> '''' then Some (w, True, resultOf ResultSuccess '''')
          else waitOwner W busName evs w
      | ChildExit e \<Rightarrow>
          (case ewOwner W busName w of
             (w, Inr owner) \<Rightarrow>
               if owner \<noteq> '''' then Some (w, True, resultOf ResultSuccess '''')
               else Some (w, False, resultFromChildExit e)
           | (w, Inl ErrNoOwner) \<Rightarrow> Some (w, False, resultFromChildExit e)
           | (w, Inl (BusError t)) \<Rightarrow> Some (w, False, resultOf ResultBackendUnavailable t)))"

text \<open>A start without an exit channel (\<open>nil\<close>) never sees its event.\<close>

definition readyEvents :: "startResult \<Rightarrow> engine_event list \<Rightarrow> engine_event list" where
  "readyEvents started evs =
     filter (\<lambda>ev. srExit started \<or> \<not> (case ev of ChildExit _ \<Rightarrow> True | _ \<Rightarrow> False)) evs"

definition finishWait ::
  "'w engineWorld \<Rightarrow> startResult \<Rightarrow> ('w \<times> bool \<times> activationResult) option \<Rightarrow> ('w \<times> activationResult) option" where
  "finishWait W started r =
     (case r of
        None \<Rightarrow> None
      | Some (w, succeeded, result) \<Rightarrow>
          let w = (if \<not> succeeded \<and> srStop started then ewStop W w else w) in Some (ewUnwatch W w, result))"

definition activateJob ::
  "'w engineWorld \<Rightarrow> environmentStore \<Rightarrow> activateRequest \<Rightarrow> engine_event list \<Rightarrow> 'w \<Rightarrow> ('w \<times> activationResult) option" where
  "activateJob W store request evs w =
     (let busName = arBusName request in
      case ewResolve W busName of
        Inl e \<Rightarrow> Some (w, resultFromError W e)
      | Inr route \<Rightarrow>
          (case ewWatch W busName w of
             (w, Some t) \<Rightarrow> Some (w, resultOf ResultBackendUnavailable t)
           | (w, None) \<Rightarrow>
               (case ewOwner W busName w of
                  (w, Inl (BusError t)) \<Rightarrow> Some (ewUnwatch W w, resultOf ResultBackendUnavailable t)
                | (w, owner) \<Rightarrow>
                    if (case owner of Inr n \<Rightarrow> n \<noteq> '''' | Inl _ \<Rightarrow> False)
                    then Some (ewUnwatch W w, resultOf ResultSuccess '''')
                    else
                      let env = (if arEnvironmentSet request then arEnvironment request
                                 else snd (SnapshotEnvironment store (arFrontend request))) in
                      (case ewStart W route env w of
                         (w, Inl e) \<Rightarrow> Some (ewUnwatch W w, resultOf ResultExecFailed (ewStartText W e))
                       | (w, Inr started) \<Rightarrow> finishWait W started (waitOwner W busName (readyEvents started evs) w)))))"

subsection \<open>The table of jobs\<close>

text \<open>
  \<open>Engine.Activate\<close> and \<open>runJob\<close> as steps on the table of running jobs: each job holds the request
  that started it and the callers that wait for it. \<open>Arrive\<close> carries what the bus answered about the
  owner.
\<close>

record engineState =
  enJobs :: "(string \<times> activateRequest \<times> nat list) list"
  enLaunched :: "activateRequest list"
  enFinished :: "string list"
  enReplies :: "(nat \<times> activationResult) list"

datatype engine_step =
    Arrive nat activateRequest "owner_error + string"
  | JobEnds string activationResult
  | CallerGone nat string

definition NewEngine :: engineState where
  "NewEngine = \<lparr>enJobs = [], enLaunched = [], enFinished = [], enReplies = []\<rparr>"

definition answer :: "engineState \<Rightarrow> nat \<Rightarrow> activationResult \<Rightarrow> engineState" where
  "answer st caller result = st\<lparr>enReplies := enReplies st @ [(caller, result)]\<rparr>"

definition joinJob :: "engineState \<Rightarrow> nat \<Rightarrow> activateRequest \<Rightarrow> engineState" where
  "joinJob st caller request =
     (let name = arBusName request in
      case map_of (enJobs st) name of
        None \<Rightarrow> st\<lparr>enJobs := AList.update name (request, [caller]) (enJobs st), enLaunched := enLaunched st @ [request]\<rparr>
      | Some (r, callers) \<Rightarrow> st\<lparr>enJobs := AList.update name (r, callers @ [caller]) (enJobs st)\<rparr>)"

definition Activate :: "bool \<Rightarrow> (wire_error \<Rightarrow> string) \<Rightarrow> engineState \<Rightarrow> nat \<Rightarrow> activateRequest \<Rightarrow> owner_error + string \<Rightarrow> engineState" where
  "Activate configured nameText st caller request owner =
     (case ValidateBusName (arBusName request) of
        Inl e \<Rightarrow> answer st caller (resultOf ResultInvalidBusName (nameText e))
      | Inr _ \<Rightarrow>
          if \<not> configured then answer st caller (resultOf ResultBackendUnavailable ''activation engine is not configured'')
          else case owner of
            Inl (BusError t) \<Rightarrow> answer st caller (resultOf ResultBackendUnavailable t)
          | Inl ErrNoOwner \<Rightarrow> joinJob st caller request
          | Inr name \<Rightarrow> if name \<noteq> '''' then answer st caller (resultOf ResultSuccess '''') else joinJob st caller request)"

definition runJobEnd :: "engineState \<Rightarrow> string \<Rightarrow> activationResult \<Rightarrow> engineState" where
  "runJobEnd st name result =
     (case map_of (enJobs st) name of
        None \<Rightarrow> st
      | Some (r, callers) \<Rightarrow>
          st\<lparr>enJobs := AList.delete name (enJobs st), enFinished := enFinished st @ [name],
             enReplies := enReplies st @ map (\<lambda>c. (c, result)) callers\<rparr>)"

definition callerGone :: "engineState \<Rightarrow> nat \<Rightarrow> string \<Rightarrow> engineState" where
  "callerGone st caller t =
     (case List.find (\<lambda>(name, r, callers). caller \<in> set callers) (enJobs st) of
        None \<Rightarrow> st
      | Some (name, r, callers) \<Rightarrow>
          answer (st\<lparr>enJobs := AList.update name (r, remove1 caller callers) (enJobs st)\<rparr>) caller (resultOf ResultFailed t))"

definition engineStep :: "bool \<Rightarrow> (wire_error \<Rightarrow> string) \<Rightarrow> engineState \<Rightarrow> engine_step \<Rightarrow> engineState" where
  "engineStep configured nameText st s =
     (case s of
        Arrive caller request owner \<Rightarrow> Activate configured nameText st caller request owner
      | JobEnds name result \<Rightarrow> runJobEnd st name result
      | CallerGone caller t \<Rightarrow> callerGone st caller t)"


subsection \<open>Callers and jobs\<close>

lemma alist_split:
  assumes "distinct (map fst al)" "map_of al k = Some v"
  obtains a b where "al = a @ (k, v) # b" "k \<notin> fst ` set a" "k \<notin> fst ` set b"
    "\<And>u. AList.update k u al = a @ (k, u) # b" "AList.delete k al = a @ b"
proof -
  from assms(2) have "(k, v) \<in> set al" by (rule map_of_SomeD)
  then obtain a b where ab: "al = a @ (k, v) # b" by (meson split_list)
  with assms(1) have k: "k \<notin> fst ` set a" "k \<notin> fst ` set b" by auto
  have "AList.update k u (a @ (k, v) # b) = a @ (k, u) # b" for u
    using k(1) by (induction a) auto
  moreover have keep: "k \<notin> fst ` set xs \<Longrightarrow> AList.delete k xs = xs" for xs :: "('a \<times> 'b) list"
    by (induction xs) auto
  have "AList.delete k (a @ (k, v) # b) = a @ b"
    using keep [OF k(1)] keep [OF k(2)] by (simp add: AList.delete_eq)
  ultimately show ?thesis using that ab k by blast
qed

lemma update_new: "map_of al k = None \<Longrightarrow> AList.update k v al = al @ [(k, v)]"
  by (induction al) auto

definition waiting :: "engineState \<Rightarrow> nat list" where
  "waiting st = concat (map (\<lambda>(name, r, callers). callers) (enJobs st))"

definition arrived :: "engine_step \<Rightarrow> nat list" where
  "arrived s = (case s of Arrive caller _ _ \<Rightarrow> [caller] | _ \<Rightarrow> [])"

definition engineInv :: "engineState \<times> nat list \<Rightarrow> bool" where
  "engineInv se \<longleftrightarrow>
     distinct (map fst (enJobs (fst se))) \<and>
     mset (waiting (fst se)) + mset (map fst (enReplies (fst se))) = mset (snd se) \<and>
     mset (map arBusName (enLaunched (fst se))) = mset (enFinished (fst se)) + mset (map fst (enJobs (fst se)))"

lemma engineInv_answer: "engineInv (st, seen) \<Longrightarrow> engineInv (answer st c r, seen @ [c])"
  by (auto simp: engineInv_def answer_def waiting_def)

lemma engineInv_join: 
  assumes "engineInv (st, seen)"
  shows "engineInv (joinJob st c request, seen @ [c])"
proof (cases "map_of (enJobs st) (arBusName request)")
  case None
  then have "arBusName request \<notin> set (map fst (enJobs st))" by (simp add: map_of_eq_None_iff)
  with assms None show ?thesis
    by (simp add: engineInv_def joinJob_def waiting_def update_new union_commute)
next
  case (Some job)
  obtain r callers where job: "job = (r, callers)" by (cases job)
  from assms have "distinct (map fst (enJobs st))" by (simp add: engineInv_def)
  from this Some obtain a b where "enJobs st = a @ (arBusName request, job) # b"
    "\<And>u. AList.update (arBusName request) u (enJobs st) = a @ (arBusName request, u) # b"
    by (rule alist_split) blast
  with assms Some job show ?thesis by (simp add: engineInv_def joinJob_def waiting_def union_assoc)
qed

lemma engineInv_end:
  assumes "engineInv (st, seen)"
  shows "engineInv (runJobEnd st name result, seen)"
proof (cases "map_of (enJobs st) name")
  case None
  with assms show ?thesis by (simp add: runJobEnd_def)
next
  case (Some job)
  obtain r callers where job: "job = (r, callers)" by (cases job)
  from assms have "distinct (map fst (enJobs st))" by (simp add: engineInv_def)
  from this Some obtain a b where "enJobs st = a @ (name, job) # b" "AList.delete name (enJobs st) = a @ b"
    by (rule alist_split) blast
  with assms Some job show ?thesis by (simp add: engineInv_def runJobEnd_def waiting_def comp_def union_ac)
qed

lemma engineInv_gone:
  assumes "engineInv (st, seen)"
  shows "engineInv (callerGone st c t, seen)"
proof (cases "List.find (\<lambda>(name, r, callers). c \<in> set callers) (enJobs st)")
  case None
  with assms show ?thesis by (simp add: callerGone_def)
next
  case (Some job)
  obtain name r callers where job: "job = (name, r, callers)" by (cases job)
  with Some have mem: "(name, r, callers) \<in> set (enJobs st)" and c: "c \<in> set callers"
    by (auto simp: find_Some_iff in_set_conv_nth)
  from assms have d: "distinct (map fst (enJobs st))" by (simp add: engineInv_def)
  from d mem have "map_of (enJobs st) name = Some (r, callers)" by (rule map_of_is_SomeI)
  from d this obtain a b where "enJobs st = a @ (name, r, callers) # b"
    "\<And>u. AList.update name u (enJobs st) = a @ (name, u) # b"
    by (rule alist_split) blast
  moreover obtain M where "mset callers = add_mset c M" using c by (metis insert_DiffM set_mset_mset)
  ultimately show ?thesis
    using assms Some job by (simp add: engineInv_def callerGone_def answer_def waiting_def union_ac)
qed

interpretation engine: machine "\<lambda>se s. (engineStep configured nameText (fst se) s, snd se @ arrived s)" engineInv
proof
  fix se s assume inv: "engineInv se"
  obtain st seen where se: "se = (st, seen)" by (cases se)
  show "engineInv (engineStep configured nameText (fst se) s, snd se @ arrived s)"
  proof (cases s)
    case (Arrive c request owner)
    have "engineInv (Activate configured nameText st c request owner, seen @ [c])"
      using inv engineInv_answer [of st seen c] engineInv_join [of st seen c request]
      by (auto simp: se Activate_def split: sum.split owner_error.split)
    with Arrive se show ?thesis by (simp add: engineStep_def arrived_def)
  qed (use inv engineInv_end engineInv_gone se in \<open>auto simp: engineStep_def arrived_def\<close>)
qed

lemma engine_run:
  "foldl (\<lambda>se s. (engineStep configured nameText (fst se) s, snd se @ arrived s)) (st, seen) steps =
     (foldl (engineStep configured nameText) st steps, seen @ concat (map arrived steps))"
  by (induction steps arbitrary: st seen) auto

text \<open>
  Property C23. Coalescing of activations: after any sequence of arriving requests, ending jobs and
  leaving callers there is at most one running job per bus name, every job that was launched has ended
  or is running, and every caller that arrived is answered exactly once or waits in exactly one job;
  so once no job runs, every caller has its answer.
\<close>

theorem activations_coalesced:
  "let st = foldl (engineStep configured nameText) NewEngine steps in
   distinct (map fst (enJobs st)) \<and>
   mset (map arBusName (enLaunched st)) = mset (enFinished st) + mset (map fst (enJobs st)) \<and>
   mset (waiting st) + mset (map fst (enReplies st)) = mset (concat (map arrived steps))"
proof -
  have "engineInv (NewEngine, [])" by (simp add: engineInv_def NewEngine_def waiting_def)
  from engine.run_inv [OF this, of configured nameText steps] show ?thesis
    by (simp add: engine_run engineInv_def Let_def)
qed


subsection \<open>What an activation does\<close>

text \<open>The calls with an effect, recorded beside the world.\<close>

datatype job_call = CallWatch | CallUnwatch | CallStart route "string list" | CallStop

definition traceWorld :: "'w engineWorld \<Rightarrow> ('w \<times> job_call list) engineWorld" where
  "traceWorld W =
     \<lparr>ewResolve = ewResolve W,
      ewOwner = \<lambda>n (w, t). (case ewOwner W n w of (w, r) \<Rightarrow> ((w, t), r)),
      ewWatch = \<lambda>n (w, t). (case ewWatch W n w of (w, e) \<Rightarrow> ((w, if e = None then t @ [CallWatch] else t), e)),
      ewUnwatch = \<lambda>(w, t). (ewUnwatch W w, t @ [CallUnwatch]),
      ewStart = \<lambda>r env (w, t). (case ewStart W r env w of (w, x) \<Rightarrow> ((w, if is_ok x then t @ [CallStart r env] else t), x)),
      ewStop = \<lambda>(w, t). (ewStop W w, t @ [CallStop]),
      ewErrorText = ewErrorText W, ewStartText = ewStartText W\<rparr>"

lemma trace_fields [simp]:
  "ewResolve (traceWorld W) = ewResolve W"
  "ewErrorText (traceWorld W) = ewErrorText W"
  "ewStartText (traceWorld W) = ewStartText W"
  "ewUnwatch (traceWorld W) (w, t) = (ewUnwatch W w, t @ [CallUnwatch])"
  "ewStop (traceWorld W) (w, t) = (ewStop W w, t @ [CallStop])"
  "ewOwner (traceWorld W) n (w, t) = (case ewOwner W n w of (w, r) \<Rightarrow> ((w, t), r))"
  "ewWatch (traceWorld W) n (w, t) = (case ewWatch W n w of (w, e) \<Rightarrow> ((w, if e = None then t @ [CallWatch] else t), e))"
  "ewStart (traceWorld W) r env (w, t) =
     (case ewStart W r env w of (w, x) \<Rightarrow> ((w, if is_ok x then t @ [CallStart r env] else t), x))"
  by (simp_all add: traceWorld_def)

lemma waitOwner_trace:
  "waitOwner (traceWorld W) name evs (w, t) = Some ((w', t'), ok, r) \<Longrightarrow>
   t' = t \<and> (ok \<longleftrightarrow> acCode r = ResultSuccess) \<and> validResultCode (acCode r)"
proof (induction evs arbitrary: w)
  case (Cons ev evs)
  then show ?case
    by (cases ev)
       (auto simp: resultOf_def resultFromChildExit_def validResultCode_def
          split: prod.splits sum.splits owner_error.splits if_splits child_exit.splits)
qed simp

lemma waitOwner_decided:
  "DeadlineExceeded t \<in> set evs \<Longrightarrow> \<exists>w' ok r. waitOwner W name evs w = Some (w', ok, r)"
proof (induction evs arbitrary: w)
  case (Cons ev evs)
  then show ?case by (cases ev) (auto split: prod.split sum.split owner_error.split)
qed simp

lemma readyEvents_deadline: "DeadlineExceeded t \<in> set evs \<Longrightarrow> DeadlineExceeded t \<in> set (readyEvents started evs)"
  by (simp add: readyEvents_def)


text \<open>
  Property C25. An activation cleans up after itself: it either starts nothing (no route, no watch, the
  name has an owner already, the bus fails or the start fails), or it starts the route once, with the
  environment of the request; a started process that can be stopped is stopped exactly when the
  result is not success, and the watch on the name is ended last. The code of the result is always
  one the protocol can carry.
\<close>

theorem activation_cleans_up:
  assumes "activateJob (traceWorld W) store request evs (w, []) = Some ((w', trace), r)"
  shows "validResultCode (acCode r) \<and>
    (trace \<in> {[], [CallWatch, CallUnwatch]} \<or>
     (\<exists>route env started w1 w2. ewResolve W (arBusName request) = Inr route \<and>
        env = (if arEnvironmentSet request then arEnvironment request
               else snd (SnapshotEnvironment store (arFrontend request))) \<and>
        ewStart W route env w1 = (w2, Inr started) \<and>
        trace = [CallWatch, CallStart route env] @
          (if acCode r \<noteq> ResultSuccess \<and> srStop started then [CallStop] else []) @ [CallUnwatch]))"
proof (cases "ewResolve W (arBusName request)")
  case (Inl e)
  with assms show ?thesis
    by (auto simp: activateJob_def resultFromError_def resultOf_def validResultCode_def Let_def split: route_error.splits)
next
  case (Inr route)
  let ?name = "arBusName request"
  let ?env = "if arEnvironmentSet request then arEnvironment request else snd (SnapshotEnvironment store (arFrontend request))"
  obtain w1 e1 where 1: "ewWatch W ?name w = (w1, e1)" by (cases "ewWatch W ?name w")
  obtain w2 owner where 2: "ewOwner W ?name w1 = (w2, owner)" by (cases "ewOwner W ?name w1")
  obtain w3 x where 3: "ewStart W route ?env w2 = (w3, x)" by (cases "ewStart W route ?env w2")
  note worlds = 1 2 3 Inr resultOf_def validResultCode_def
  consider (early) "e1 \<noteq> None" | (error) t where "e1 = None" "owner = Inl (BusError t)"
    | (owned) n where "e1 = None" "owner = Inr n" "n \<noteq> ''''"
    | (start) "e1 = None" "owner = Inl ErrNoOwner \<or> owner = Inr ''''"
    by (cases owner; cases "projl owner") auto
  then show ?thesis
  proof cases
    case start
    then have run: "Some ((w', trace), r) = (case x of
        Inl e \<Rightarrow> Some (ewUnwatch (traceWorld W) (w3, [CallWatch]), resultOf ResultExecFailed (ewStartText W e))
      | Inr started \<Rightarrow> finishWait (traceWorld W) started
          (waitOwner (traceWorld W) ?name (readyEvents started evs) (w3, [CallWatch, CallStart route ?env])))"
      using assms 3 by (cases x; cases "arEnvironmentSet request") (auto simp: activateJob_def Let_def 1 2 Inr)
    show ?thesis
    proof (cases x)
      case (Inl e)
      with run show ?thesis by (simp add: worlds)
    next
      case (Inr started)
      with run obtain w4 t4 ok where w4: "waitOwner (traceWorld W) ?name (readyEvents started evs)
          (w3, [CallWatch, CallStart route ?env]) = Some ((w4, t4), ok, r)"
        and tr: "trace = (if \<not> ok \<and> srStop started then t4 @ [CallStop] else t4) @ [CallUnwatch]"
        by (cases "waitOwner (traceWorld W) ?name (readyEvents started evs) (w3, [CallWatch, CallStart route ?env])")
           (auto simp: finishWait_def Let_def split: if_splits)
      have t4: "t4 = [CallWatch, CallStart route ?env]" and ok: "ok \<longleftrightarrow> acCode r = ResultSuccess"
        and code: "validResultCode (acCode r)"
        using waitOwner_trace [OF w4] by blast+
      have "trace = [CallWatch, CallStart route ?env] @
          (if acCode r \<noteq> ResultSuccess \<and> srStop started then [CallStop] else []) @ [CallUnwatch]"
        using tr by (simp add: t4 ok)
      moreover have "ewStart W route ?env w2 = (w3, Inr started)" using 3 Inr by simp
      ultimately show ?thesis using code \<open>ewResolve W ?name = Inr route\<close> by blast
    qed
  qed (use assms in \<open>auto simp: activateJob_def Let_def worlds\<close>)
qed


text \<open>A bus on which no name has an owner, and a starter whose process exits with an error.\<close>

definition failingWorld :: "unit engineWorld" where
  "failingWorld =
     \<lparr>ewResolve = \<lambda>_. Inr (RouteNative \<lparr>nrArgv = [''/bin/x''], nrUser = ''u''\<rparr>), ewOwner = \<lambda>_ w. (w, Inl ErrNoOwner),
      ewWatch = \<lambda>_ w. (w, None), ewUnwatch = \<lambda>w. w, ewStart = \<lambda>_ _ w. (w, Inr \<lparr>srExit = True, srStop = True\<rparr>),
      ewStop = \<lambda>w. w, ewErrorText = \<lambda>_. '''', ewStartText = \<lambda>_. ''''\<rparr>"

definition demoRequest :: activateRequest where
  "demoRequest = \<lparr>arFrontend = FrontendDaemonHelper, arBusName = ''org.x'', arEnvironment = [''LANG=C''], arEnvironmentSet = True\<rparr>"


lemma demo_activation:
  "activateJob (traceWorld failingWorld) Map.empty demoRequest [NameChanged ''org.y'' '':1'', ChildExit (ExitStatus ''2'')] ((), []) =
   Some (((), [CallWatch, CallStart (RouteNative \<lparr>nrArgv = [''/bin/x''], nrUser = ''u''\<rparr>) [''LANG=C''], CallStop, CallUnwatch]),
     resultOf ResultChildExited ''2'')"
  by (simp add: activateJob_def finishWait_def readyEvents_def Let_def failingWorld_def demoRequest_def resultFromChildExit_def)

theorem activation_cleans_up_witness:
  "validResultCode ResultChildExited \<and>
   activateJob (traceWorld failingWorld) Map.empty demoRequest [NameChanged ''org.y'' '':1'', ChildExit (ExitStatus ''2'')] ((), []) =
   Some (((), [CallWatch, CallStart (RouteNative \<lparr>nrArgv = [''/bin/x''], nrUser = ''u''\<rparr>) [''LANG=C''], CallStop, CallUnwatch]),
     resultOf ResultChildExited ''2'')"
  using activation_cleans_up [OF demo_activation] demo_activation by (simp add: resultOf_def)

subsection \<open>Credentials of directly started services\<close>

lemma parsed_user:
  "ParseServiceFile fs path priority = Inr d \<Longrightarrow> trim_space (sdUser d) \<noteq> '''' \<or> trim_space (sdSystemdService d) \<noteq> ''''"
  by (auto simp: ParseServiceFile_def checkDefinition_def bind_err_Inr_iff split: sum.splits if_splits prod.splits)

lemma allDefinitions_user:
  "d \<in> set (allDefinitions fs priority directories) \<Longrightarrow>
   trim_space (sdUser d) \<noteq> '''' \<or> trim_space (sdSystemdService d) \<noteq> ''''"
proof (induction fs priority directories rule: allDefinitions.induct)
  case (2 fs priority directory directories)
  have "trim_space (sdUser d) \<noteq> '''' \<or> trim_space (sdSystemdService d) \<noteq> ''''"
    if "d \<in> set (parsedEntries fs directory priority entries)" for entries
    using that by (induction entries) (auto simp: parsedEntries_def dest!: parsed_user split: if_splits sum.splits)
  with 2 show ?case by (auto split: sum.splits)
qed simp

lemma pickDefinition_mem: "pickDefinition n ds = Inr d \<Longrightarrow> d \<in> set ds"
  by (cases "(n, ds)" rule: pickDefinition.cases) (auto split: list.splits)

lemma indexed_mem:
  "LookupIndex (Some (fst (BuildIndex fs directories))) name = Inr d \<Longrightarrow> d \<in> set (allDefinitions fs 0 directories)"
  using addAll_answers [of "allDefinitions fs 0 directories" name] allDefinitions_priority [of fs 0 directories]
    pickDefinition_mem [of name "filter (\<lambda>d. sdName d = name) (allDefinitions fs 0 directories)" d]
  by (auto simp: LookupIndex_def BuildIndex_def indexDirectories_add answersAs_def split: option.splits sum.splits if_splits)




definition privateFile :: fileInfo where
  "privateFile = \<lparr>fiRegular = True, fiPerm = 420, fiDevice = 1, fiInode = 2, fiUID = 0\<rparr>"

definition nativeService :: string where
  "nativeService = ''[D-BUS Service]'' @ CHR 0x0A # ''Name=o.x'' @ CHR 0x0A # ''Exec=/x'' @ CHR 0x0A # ''User=u''"

definition nativeFiles :: fileSystem where
  "nativeFiles = emptyFiles\<lparr>fsLstat := \<lambda>_. Inr privateFile, fsOpenNoFollow := \<lambda>_. Inr (privateFile, nativeService),
     fsReadDir := \<lambda>d. if d = ''/d'' then Inr [(''a.service'', False)] else Inl NotExist\<rparr>"

definition nativeDefinition :: serviceDefinition where
  "nativeDefinition = \<lparr>sdName = ''o.x'', sdArgv = [''/x''], sdUser = ''u'', sdSystemdService = '''', sdPath = ''/d/a.service'', sdPriority = 0\<rparr>"

lemma native_lines:
  "scan_lines_max 1048576 nativeService = ([''[D-BUS Service]'', ''Name=o.x'', ''Exec=/x'', ''User=u''], False)"
  by (simp add: scan_lines_max_def nativeService_def drop_cr_def)

lemma native_parsed: "ParseServiceFile nativeFiles ''/d/a.service'' 0 = Inr nativeDefinition"
proof -
  have "parseServiceLines \<lparr>sdName = '''', sdArgv = [], sdUser = '''', sdSystemdService = '''', sdPath = ''/d/a.service'', sdPriority = 0\<rparr>
      '''' [''[D-BUS Service]'', ''Name=o.x'', ''Exec=/x'', ''User=u''] = Inr (nativeDefinition, ''D-BUS Service'')"
    by code_simp
  moreover have "checkDefinition nativeDefinition = Inr nativeDefinition" by code_simp
  ultimately show ?thesis
    by (simp add: ParseServiceFile_def nativeFiles_def emptyFiles_def privateFile_def writableByOthers_def sameFile_def
        native_lines del: parseServiceLines.simps)
qed


definition demoStarter :: nativeStarter where
  "demoStarter = NewNativeStarter (\<lambda>u. if u = ''u'' then Inr \<lparr>acUid = ''7'', acGid = ''8''\<rparr> else Inl u) (\<lambda>_. Inr [9]) ''''"

lemma native_resolved:
  "ResolveDefinition (Some (fst (BuildIndex nativeFiles [''/d'']))) (Some (systemdUnits nativeFiles demoResolver)) ''o.x'' =
   Inr (RouteNative \<lparr>nrArgv = [''/x''], nrUser = ''u''\<rparr>)"
proof -
  have "path_join [''/d'', ''a.service''] = ''/d/a.service''" "has_suffix ''a.service'' ''.service''" by code_simp+
  then have "LookupIndex (Some (fst (BuildIndex nativeFiles [''/d'']))) ''o.x'' = Inr nativeDefinition"
    using native_parsed
    by (simp add: LookupIndex_def BuildIndex_def nativeFiles_def emptyFiles_def addDefinition_def del: path_join.simps)
       (simp add: nativeDefinition_def)
  moreover have "ValidateBusName ''o.x'' = Inr ()" "trim_space '''' = ''''" by code_simp+
  ultimately show ?thesis
    by (simp add: ResolveDefinition_def SelectRoute_def nativeDefinition_def LegacyManagedRoute_def systemdUnits_def
        ResolveBusName_def demoResolver_def nativeFiles_def emptyFiles_def selectNative_def sort_slice_def)
qed


end
