(* ===== verification/Dbus_Server.thy ===== *)
theory Dbus_Server
  imports Dbus_Engine
begin

text \<open>
  The control socket of D-Bus activation: connections of \<open>internal/dbusactivation/server.go\<close>, the
  client of \<open>client.go\<close> and the authorization of peers in \<open>cmd/sys-dbusd/main.go\<close>. A connection is a
  session that reacts to datagrams and to the ends of the activations it launched; the calls of the
  daemon (reload, status, the executable of a peer) are parameters.
\<close>

subsection \<open>Peers\<close>

record dbusPeer =
  dpPID :: int
  dpParentPID :: int
  dpAncestors :: "int list"
  dpUID :: uint32
  dpGID :: uint32
  dpExecutable :: string
  dpDevice :: uint64
  dpInode :: uint64

datatype peer_error =
    PeerOS os_error | InvalidParent string | ParentMissing | AncestorLimit
  | HelperUID uint32 | HelperAncestry | AdminUID uint32 | UnsupportedFrontend | WrongExecutable string
  | InspectFailed string | IdentityChanged

fun parentFromLines :: "string list \<Rightarrow> peer_error + int" where
  "parentFromLines [] = Inl ParentMissing"
| "parentFromLines (line # ls) =
     (if \<not> has_prefix line ''PPid:'' then parentFromLines ls
      else let val = drop 5 line in
        case atoi (trim_space val) of
          None \<Rightarrow> Inl (InvalidParent val)
        | Some parent \<Rightarrow> if parent \<le> 0 \<or> parent > 2147483647 then Inl (InvalidParent val) else Inr parent)"

definition procParentPID :: "(int \<Rightarrow> os_error + string) \<Rightarrow> int \<Rightarrow> peer_error + int" where
  "procParentPID readStatus pid =
     (case readStatus pid of Inl e \<Rightarrow> Inl (PeerOS e) | Inr data \<Rightarrow> parentFromLines (split_on CHR 0x0A data))"

fun ancestorsFrom :: "(int \<Rightarrow> os_error + string) \<Rightarrow> nat \<Rightarrow> int \<Rightarrow> peer_error + int list" where
  "ancestorsFrom readStatus 0 current = Inr []"
| "ancestorsFrom readStatus (Suc n) current =
     bind_err (procParentPID readStatus current) (\<lambda>parent.
       if parent = 1 then Inr [parent]
       else bind_err (ancestorsFrom readStatus n parent) (\<lambda>as. Inr (parent # as)))"

definition procAncestors :: "(int \<Rightarrow> os_error + string) \<Rightarrow> int \<Rightarrow> int \<Rightarrow> peer_error + int list" where
  "procAncestors readStatus pid maximum =
     (if maximum \<le> 0 then Inl AncestorLimit else ancestorsFrom readStatus (nat maximum) pid)"

record daemonConfig =
  dcHelperPath :: string
  dcAdminPath :: string
  dcDaemonPID :: int

type_synonym executableIdentity = "uint64 \<times> uint64"

definition peerIdentity :: "(string \<Rightarrow> string + executableIdentity) \<Rightarrow> dbusPeer \<Rightarrow> string + executableIdentity" where
  "peerIdentity fileIdentity p =
     (if dpDevice p \<noteq> 0 \<or> dpInode p \<noteq> 0 then Inr (dpDevice p, dpInode p) else fileIdentity (dpExecutable p))"

definition checkExecutable ::
  "(string \<Rightarrow> string + executableIdentity) \<Rightarrow> executableIdentity \<Rightarrow> frontend \<Rightarrow> string \<Rightarrow> dbusPeer \<Rightarrow> peer_error + unit" where
  "checkExecutable fileIdentity helperIdentity f expected p =
     (if clean (dpExecutable p) \<noteq> clean expected then Inl (WrongExecutable expected)
      else if f = FrontendDaemonHelper then
        (case peerIdentity fileIdentity p of
           Inl e \<Rightarrow> Inl (InspectFailed e)
         | Inr identity \<Rightarrow> if identity \<noteq> helperIdentity then Inl IdentityChanged else Inr ())
      else Inr ())"

definition peerAuthorizer ::
  "daemonConfig \<Rightarrow> uint32 \<Rightarrow> executableIdentity \<Rightarrow> (string \<Rightarrow> string + executableIdentity) \<Rightarrow> frontend \<Rightarrow> dbusPeer \<Rightarrow>
   peer_error + unit" where
  "peerAuthorizer cfg dbusUID helperIdentity fileIdentity f p =
     (if f = FrontendDaemonHelper then
        (if dpUID p \<noteq> 0 \<and> dpUID p \<noteq> dbusUID then Inl (HelperUID (dpUID p))
         else if dcDaemonPID cfg \<le> 0 \<or> dcDaemonPID cfg \<notin> set (dpAncestors p) then Inl HelperAncestry
         else checkExecutable fileIdentity helperIdentity f (dcHelperPath cfg) p)
      else if f = FrontendAdmin then
        (if dpUID p \<noteq> 0 then Inl (AdminUID (dpUID p))
         else checkExecutable fileIdentity helperIdentity f (dcAdminPath cfg) p)
      else Inl UnsupportedFrontend)"

subsection \<open>Sessions\<close>

record 'w dbusServer =
  dsAuthorize :: "frontend \<Rightarrow> bool"
  dsReload :: "('w \<Rightarrow> 'w \<times> string option) option"
  dsStatus :: "('w \<Rightarrow> string) option"
  dsOrder :: "environment \<Rightarrow> environment"
  dsEnvText :: "env_error \<Rightarrow> string"

text \<open>
  A session: the connection (frontend 0 before the hello), the store it shares, the datagrams it has
  written, the activations it has launched and cancelled, and the identifiers of those whose
  goroutine is still running.
\<close>

record 'w session =
  ssFrontend :: frontend
  ssEnvironment :: "string list"
  ssRequests :: "uint64 list"
  ssOpen :: bool
  ssStore :: environmentStore
  ssWorld :: 'w
  ssOut :: "string list"
  ssLaunched :: "(uint64 \<times> activateRequest) list"
  ssCancelled :: "uint64 list"
  ssRunning :: "uint64 list"

definition newSession :: "environmentStore \<Rightarrow> 'w \<Rightarrow> 'w session" where
  "newSession store w =
     \<lparr>ssFrontend = 0, ssEnvironment = [], ssRequests = [], ssOpen = True, ssStore = store, ssWorld = w,
      ssOut = [], ssLaunched = [], ssCancelled = [], ssRunning = []\<rparr>"

definition cancelAll :: "'w session \<Rightarrow> 'w session" where
  "cancelAll s = s\<lparr>ssCancelled := ssCancelled s @ ssRequests s, ssRequests := []\<rparr>"

definition closeSession :: "'w session \<Rightarrow> 'w session" where
  "closeSession s = (cancelAll s)\<lparr>ssOpen := False\<rparr>"

definition writeTo :: "bool \<Rightarrow> packet \<Rightarrow> 'w session \<Rightarrow> 'w session option" where
  "writeTo canWrite p s =
     (case EncodePacket p of
        Inl _ \<Rightarrow> None
      | Inr data \<Rightarrow> if canWrite then Some (s\<lparr>ssOut := ssOut s @ [data]\<rparr>) else None)"

definition resultPacket :: "uint64 \<Rightarrow> string \<Rightarrow> packet" where
  "resultPacket requestID payload =
     \<lparr>pktType = MessageActivationResult, pktRequestID = requestID, pktFlags = 0, pktPayload = payload\<rparr>"

definition writeResult :: "bool \<Rightarrow> uint64 \<Rightarrow> activationResult \<Rightarrow> 'w session \<Rightarrow> 'w session option" where
  "writeResult canWrite requestID result s =
     (case EncodeActivationResult result of
        Inl _ \<Rightarrow> None
      | Inr payload \<Rightarrow> writeTo canWrite (resultPacket requestID payload) s)"

definition orClose :: "'w session \<Rightarrow> 'w session option \<Rightarrow> 'w session" where
  "orClose s r = (case r of Some s' \<Rightarrow> s' | None \<Rightarrow> closeSession s)"

definition addRequest :: "uint64 \<Rightarrow> 'w session \<Rightarrow> 'w session option" where
  "addRequest i s = (if i \<in> set (ssRequests s) then None else Some (s\<lparr>ssRequests := ssRequests s @ [i]\<rparr>))"

definition removeRequest :: "uint64 \<Rightarrow> 'w session \<Rightarrow> 'w session" where
  "removeRequest i s = s\<lparr>ssRequests := removeAll i (ssRequests s)\<rparr>"

definition cancelRequest :: "uint64 \<Rightarrow> 'w session \<Rightarrow> 'w session" where
  "cancelRequest i s = (if i \<in> set (ssRequests s) then s\<lparr>ssCancelled := ssCancelled s @ [i]\<rparr> else s)"

definition handleHello :: "'w dbusServer \<Rightarrow> bool \<Rightarrow> packet \<Rightarrow> 'w session \<Rightarrow> 'w session" where
  "handleHello srv canWrite p s =
     (if pktType p \<noteq> MessageHello \<or> length (pktPayload p) \<noteq> 1 then closeSession s
      else let f = of_nat (of_char (hd (pktPayload p))) in
        if \<not> validFrontend f \<or> \<not> dsAuthorize srv f then closeSession s
        else let s = s\<lparr>ssFrontend := f\<rparr> in
          orClose s (writeTo canWrite
            \<lparr>pktType = MessageHello, pktRequestID = pktRequestID p, pktFlags = 0, pktPayload = [frontendByte f]\<rparr> s))"

definition handleSetEnvironment :: "'w dbusServer \<Rightarrow> bool \<Rightarrow> packet \<Rightarrow> 'w session \<Rightarrow> 'w session" where
  "handleSetEnvironment srv canWrite p s =
     (if ssFrontend s = FrontendAdmin then closeSession s
      else case DecodeSetEnvironment (pktPayload p) of
        Inl _ \<Rightarrow> closeSession s
      | Inr request \<Rightarrow>
          if seFrontend request \<noteq> ssFrontend s then closeSession s
          else case FilterEnvironment (map (\<lambda>(key, val). key @ ''='' @ val) (dsOrder srv (seValues request))) of
            Inl e \<Rightarrow> orClose s (writeResult canWrite (pktRequestID p) (resultOf ResultInvalidArguments (dsEnvText srv e)) s)
          | Inr filtered \<Rightarrow>
              let s = s\<lparr>ssStore := fst (ReplaceEnvironment (ssStore s) (ssFrontend s) filtered),
                        ssEnvironment := environmentValues filtered\<rparr> in
              orClose s (writeResult canWrite (pktRequestID p) (resultOf ResultSuccess '''') s))"

definition handleActivate :: "packet \<Rightarrow> 'w session \<Rightarrow> 'w session" where
  "handleActivate p s =
     (if ssFrontend s = FrontendAdmin then closeSession s
      else case DecodeActivate (pktPayload p) of
        Inl _ \<Rightarrow> closeSession s
      | Inr request \<Rightarrow>
          if arFrontend request \<noteq> ssFrontend s \<or> pktRequestID p = 0 then closeSession s
          else case addRequest (pktRequestID p) s of
            None \<Rightarrow> closeSession s
          | Some s' \<Rightarrow>
              s'\<lparr>ssLaunched := ssLaunched s' @
                [(pktRequestID p, request\<lparr>arEnvironment := ssEnvironment s, arEnvironmentSet := True\<rparr>)],
                 ssRunning := ssRunning s' @ [pktRequestID p]\<rparr>)"

definition handleReload :: "'w dbusServer \<Rightarrow> bool \<Rightarrow> packet \<Rightarrow> 'w session \<Rightarrow> 'w session" where
  "handleReload srv canWrite p s =
     (if ssFrontend s \<noteq> FrontendAdmin then closeSession s
      else case (case dsReload srv of None \<Rightarrow> (ssWorld s, None) | Some reload_fun \<Rightarrow> reload_fun (ssWorld s)) of
        (w, e) \<Rightarrow>
          let s = s\<lparr>ssWorld := w\<rparr> in
          orClose s (writeResult canWrite (pktRequestID p)
            (case e of None \<Rightarrow> resultOf ResultSuccess '''' | Some t \<Rightarrow> resultOf ResultFailed t) s))"

definition handleStatus :: "'w dbusServer \<Rightarrow> bool \<Rightarrow> packet \<Rightarrow> 'w session \<Rightarrow> 'w session" where
  "handleStatus srv canWrite p s =
     (if ssFrontend s \<noteq> FrontendAdmin then closeSession s
      else let payload = (case dsStatus srv of None \<Rightarrow> [] | Some status \<Rightarrow> status (ssWorld s)) in
        if length payload > MaxPayload then closeSession s
        else orClose s (writeTo canWrite
          \<lparr>pktType = MessageStatus, pktRequestID = pktRequestID p, pktFlags = 0, pktPayload = payload\<rparr> s))"

definition handlePacket :: "'w dbusServer \<Rightarrow> bool \<Rightarrow> packet \<Rightarrow> 'w session \<Rightarrow> 'w session" where
  "handlePacket srv canWrite p s =
     (if ssFrontend s = 0 then handleHello srv canWrite p s
      else if pktType p = MessageSetEnvironment then handleSetEnvironment srv canWrite p s
      else if pktType p = MessageActivate then handleActivate p s
      else if pktType p = MessageCancel then cancelRequest (pktRequestID p) s
      else if pktType p = MessageReload then handleReload srv canWrite p s
      else if pktType p = MessageStatus then handleStatus srv canWrite p s
      else if pktType p = MessagePing then
        orClose s (writeTo canWrite
          \<lparr>pktType = MessagePing, pktRequestID = pktRequestID p, pktFlags = 0, pktPayload = []\<rparr> s)
      else closeSession s)"

text \<open>
  The events of a connection: a datagram (\<open>None\<close> when the read fails), with whether the reply can be
  written, and the end of an activation. A datagram is cut off after one byte too many.
\<close>

datatype session_event = Received "string option" bool | ActivationDone uint64 activationResult bool

definition sessionStep :: "'w dbusServer \<Rightarrow> 'w session \<Rightarrow> session_event \<Rightarrow> 'w session" where
  "sessionStep srv s ev =
     (case ev of
        Received data canWrite \<Rightarrow>
          if \<not> ssOpen s then s
          else (case data of
              None \<Rightarrow> closeSession s
            | Some d \<Rightarrow>
                (case DecodePacket (take (HeaderSize + MaxPayload + 1) d) of
                   Inl _ \<Rightarrow> closeSession s
                 | Inr p \<Rightarrow> handlePacket srv canWrite p s))
      | ActivationDone i result canWrite \<Rightarrow>
          if i \<notin> set (ssRunning s) then s
          else let s = removeRequest i (s\<lparr>ssRunning := remove1 i (ssRunning s)\<rparr>) in
            (case writeResult (canWrite \<and> ssOpen s) i result s of None \<Rightarrow> s | Some s' \<Rightarrow> s'))"

subsection \<open>Clients\<close>

record client =
  clFrontend :: frontend
  clNextID :: uint64

datatype client_error =
    ClientWire wire_error | ClientIO os_error | InvalidResponse | Refused string

text \<open>\<open>talk\<close> writes one datagram and reads one; \<open>nextRequestID\<close> counts from 2.\<close>

type_synonym 'w talk = "string \<Rightarrow> 'w \<Rightarrow> 'w \<times> (os_error + string)"

definition newClient :: "frontend \<Rightarrow> client" where
  "newClient f = \<lparr>clFrontend = f, clNextID = 1\<rparr>"

definition exchange :: "'w talk \<Rightarrow> client \<Rightarrow> uint16 \<Rightarrow> string \<Rightarrow> 'w \<Rightarrow> client \<times> 'w \<times> (client_error + packet)" where
  "exchange talk c messageType payload w =
     (let requestID = clNextID c + 1; c = c\<lparr>clNextID := requestID\<rparr> in
      case EncodePacket \<lparr>pktType = messageType, pktRequestID = requestID, pktFlags = 0, pktPayload = payload\<rparr> of
        Inl e \<Rightarrow> (c, w, Inl (ClientWire e))
      | Inr data \<Rightarrow>
          (case talk data w of
             (w, Inl e) \<Rightarrow> (c, w, Inl (ClientIO e))
           | (w, Inr received) \<Rightarrow>
               (c, w, case DecodePacket (take (HeaderSize + MaxPayload + 1) received) of
                  Inl e \<Rightarrow> Inl (ClientWire e)
                | Inr p \<Rightarrow> if pktRequestID p \<noteq> requestID then Inl InvalidResponse else Inr p)))"

definition DialHello :: "'w talk \<Rightarrow> frontend \<Rightarrow> 'w \<Rightarrow> client \<times> 'w \<times> (client_error + unit)" where
  "DialHello talk f w =
     (if \<not> validFrontend f then (newClient f, w, Inl (ClientWire (InvalidFrontend f)))
      else case exchange talk (newClient f) MessageHello [frontendByte f] w of
        (c, w, r) \<Rightarrow>
          (c, w, bind_err r (\<lambda>p.
             if pktType p \<noteq> MessageHello \<or> length (pktPayload p) \<noteq> 1 \<or> of_nat (of_char (hd (pktPayload p))) \<noteq> f
             then Inl InvalidResponse else Inr ())))"

definition simpleRequest :: "'w talk \<Rightarrow> client \<Rightarrow> uint16 \<Rightarrow> string \<Rightarrow> uint16 \<Rightarrow> 'w \<Rightarrow> client \<times> 'w \<times> (client_error + packet)" where
  "simpleRequest talk c messageType payload responseType w =
     (case exchange talk c messageType payload w of
        (c, w, r) \<Rightarrow> (c, w, bind_err r (\<lambda>p. if pktType p \<noteq> responseType then Inl InvalidResponse else Inr p)))"

definition clientResult :: "'w talk \<Rightarrow> client \<Rightarrow> uint16 \<Rightarrow> string \<Rightarrow> 'w \<Rightarrow> client \<times> 'w \<times> (client_error + activationResult)" where
  "clientResult talk c messageType payload w =
     (case simpleRequest talk c messageType payload MessageActivationResult w of
        (c, w, r) \<Rightarrow>
          (c, w, bind_err r (\<lambda>p.
             case DecodeActivationResult (pktPayload p) of Inl e \<Rightarrow> Inl (ClientWire e) | Inr x \<Rightarrow> Inr x)))"

definition resultRequest :: "'w talk \<Rightarrow> client \<Rightarrow> uint16 \<Rightarrow> string \<Rightarrow> 'w \<Rightarrow> client \<times> 'w \<times> (client_error + unit)" where
  "resultRequest talk c messageType payload w =
     (case clientResult talk c messageType payload w of
        (c, w, r) \<Rightarrow>
          (c, w, bind_err r (\<lambda>x. if acCode x \<noteq> ResultSuccess then Inl (Refused (acDetail x)) else Inr ())))"

definition clientPing :: "'w talk \<Rightarrow> client \<Rightarrow> 'w \<Rightarrow> client \<times> 'w \<times> (client_error + packet)" where
  "clientPing talk c w = simpleRequest talk c MessagePing [] MessagePing w"

definition clientReload :: "'w talk \<Rightarrow> client \<Rightarrow> 'w \<Rightarrow> client \<times> 'w \<times> (client_error + unit)" where
  "clientReload talk c w = resultRequest talk c MessageReload [] w"

definition clientStatus :: "'w talk \<Rightarrow> client \<Rightarrow> 'w \<Rightarrow> client \<times> 'w \<times> (client_error + string)" where
  "clientStatus talk c w =
     (case simpleRequest talk c MessageStatus [] MessageStatus w of
        (c, w, r) \<Rightarrow> (c, w, bind_err r (\<lambda>p. Inr (pktPayload p))))"

definition clientSetEnvironment :: "'w talk \<Rightarrow> client \<Rightarrow> environment \<Rightarrow> 'w \<Rightarrow> client \<times> 'w \<times> (client_error + unit)" where
  "clientSetEnvironment talk c values w =
     (case EncodeSetEnvironment \<lparr>seFrontend = clFrontend c, seValues = values\<rparr> of
        Inl e \<Rightarrow> (c, w, Inl (ClientWire e))
      | Inr payload \<Rightarrow> resultRequest talk c MessageSetEnvironment payload w)"

definition clientActivate :: "'w talk \<Rightarrow> client \<Rightarrow> string \<Rightarrow> 'w \<Rightarrow> client \<times> 'w \<times> (client_error + activationResult)" where
  "clientActivate talk c busName w =
     (case EncodeActivate \<lparr>arFrontend = clFrontend c, arBusName = busName, arEnvironment = [], arEnvironmentSet = False\<rparr> of
        Inl e \<Rightarrow> (c, w, Inl (ClientWire e))
      | Inr payload \<Rightarrow> clientResult talk c MessageActivate payload w)"


subsection \<open>What a session may do\<close>

definition launchOK :: "frontend \<Rightarrow> uint64 \<times> activateRequest \<Rightarrow> bool" where
  "launchOK f ir \<longleftrightarrow>
     fst ir \<noteq> 0 \<and> arFrontend (snd ir) = f \<and> arEnvironmentSet (snd ir) \<and> ValidateBusName (arBusName (snd ir)) = Inr () \<and>
     (\<exists>m. cleanEnvironment m \<and> arEnvironment (snd ir) = environmentValues m)"

definition sessionInv :: "'w dbusServer \<Rightarrow> environmentStore \<Rightarrow> 'w \<Rightarrow> 'w session \<Rightarrow> bool" where
  "sessionInv srv store w s \<longleftrightarrow>
     (if ssFrontend s = 0 then ssOut s = [] else validFrontend (ssFrontend s) \<and> dsAuthorize srv (ssFrontend s)) \<and>
     (ssFrontend s \<noteq> FrontendDaemonHelper \<longrightarrow> ssLaunched s = [] \<and> ssStore s = store) \<and>
     (ssFrontend s \<noteq> FrontendAdmin \<longrightarrow> ssWorld s = w) \<and>
     list_all (launchOK (ssFrontend s)) (ssLaunched s) \<and>
     (\<exists>m. cleanEnvironment m \<and> ssEnvironment s = environmentValues m) \<and>
     distinct (ssRequests s) \<and> set (ssRunning s) \<union> set (ssCancelled s) \<subseteq> fst ` set (ssLaunched s) \<and>
     (if ssOpen s then ssRequests s = ssRunning s else ssRequests s = [])"

lemma closeSession_inv: "sessionInv srv store w s \<Longrightarrow> sessionInv srv store w (closeSession s)"
  by (auto simp: sessionInv_def closeSession_def cancelAll_def split: if_splits)

lemma writeTo_inv:
  "sessionInv srv store w s \<Longrightarrow> ssFrontend s \<noteq> 0 \<Longrightarrow> writeTo canWrite p s = Some s' \<Longrightarrow> sessionInv srv store w s'"
  by (auto simp: sessionInv_def writeTo_def split: sum.splits if_splits)

lemma writeResult_inv:
  "sessionInv srv store w s \<Longrightarrow> ssFrontend s \<noteq> 0 \<Longrightarrow> writeResult canWrite i r s = Some s' \<Longrightarrow> sessionInv srv store w s'"
  by (auto simp: writeResult_def writeTo_inv split: sum.splits)

lemma orClose_inv:
  assumes "sessionInv srv store w s" "\<And>s'. r = Some s' \<Longrightarrow> sessionInv srv store w s'"
  shows "sessionInv srv store w (orClose s r)"
  using assms closeSession_inv by (auto simp: orClose_def split: option.split)

lemma reply_inv:
  assumes "sessionInv srv store w s" "ssFrontend s \<noteq> 0"
  shows "sessionInv srv store w (orClose s (writeTo canWrite p s))" "sessionInv srv store w (orClose s (writeResult canWrite i r s))"
  using assms by (auto intro!: orClose_inv elim: writeTo_inv writeResult_inv)

lemma handleHello_inv:
  assumes "sessionInv srv store w s" "ssFrontend s = 0"
  shows "sessionInv srv store w (handleHello srv canWrite p s)"
proof -
  let ?f = "of_nat (of_char (hd (pktPayload p))) :: frontend"
  show ?thesis
  proof (cases "pktType p \<noteq> MessageHello \<or> length (pktPayload p) \<noteq> 1 \<or> \<not> validFrontend ?f \<or> \<not> dsAuthorize srv ?f")
    case True
    with closeSession_inv [OF assms(1)] show ?thesis by (auto simp: handleHello_def Let_def)
  next
    case False
    then have f: "?f \<noteq> 0" by (auto simp: validFrontend_def)
    have "sessionInv srv store w (s\<lparr>ssFrontend := ?f\<rparr>)"
      using assms False f by (auto simp: sessionInv_def split: if_splits)
    from reply_inv(1) [OF this] False f show ?thesis by (simp add: handleHello_def Let_def)
  qed
qed

lemma handleSetEnvironment_inv:
  assumes "sessionInv srv store w s" "ssFrontend s \<noteq> 0"
  shows "sessionInv srv store w (handleSetEnvironment srv canWrite p s)"
proof -
  have env: "sessionInv srv store w (s\<lparr>ssStore := st, ssEnvironment := environmentValues m\<rparr>)"
    if "FilterEnvironment es = Inr m" "ssFrontend s \<noteq> FrontendAdmin" for es m st
  proof -
    have "cleanEnvironment []" by (simp add: cleanEnvironment_def totalSize_def)
    with filterFrom_correct [OF that(1) [unfolded FilterEnvironment_def]] have "cleanEnvironment m" by (simp add: totalSize_def)
    with assms that(2) show ?thesis by (auto simp: sessionInv_def validFrontend_def split: if_splits)
  qed
  have set: "sessionInv srv store w (let s' = s\<lparr>ssStore := st, ssEnvironment := environmentValues m\<rparr> in
      orClose s' (writeResult canWrite (pktRequestID p) (resultOf ResultSuccess '''') s'))"
    if "FilterEnvironment es = Inr m" "ssFrontend s \<noteq> FrontendAdmin" for es m st
    using reply_inv(2) [OF env [OF that]] assms(2) by (simp add: Let_def)
  show ?thesis
    using closeSession_inv [OF assms(1)] reply_inv(2) [OF assms]
    by (auto simp: handleSetEnvironment_def intro: set split: sum.split)
qed

lemma handleActivate_inv:
  assumes "sessionInv srv store w s" "ssFrontend s \<noteq> 0" "ssOpen s"
  shows "sessionInv srv store w (handleActivate p s)"
proof -
  have name: "ValidateBusName (arBusName r) = Inr ()" if "DecodeActivate b = Inr r" for b r
    using that by (auto simp: DecodeActivate_def bind_err_Inr_iff split: if_splits)
  have launch: "sessionInv srv store w (s\<lparr>ssRequests := ssRequests s @ [i], ssLaunched := ssLaunched s @
      [(i, r\<lparr>arEnvironment := ssEnvironment s, arEnvironmentSet := True\<rparr>)], ssRunning := ssRunning s @ [i]\<rparr>)"
    if "DecodeActivate b = Inr r" "ssFrontend s \<noteq> FrontendAdmin" "arFrontend r = ssFrontend s" "i \<noteq> 0" "i \<notin> set (ssRequests s)" for b r i
  proof -
    from assms that(2) have helper: "ssFrontend s = FrontendDaemonHelper" by (auto simp: sessionInv_def validFrontend_def)
    show ?thesis using assms that name [OF that(1)] helper
      by (simp add: sessionInv_def launchOK_def) auto
  qed
  show ?thesis
    using closeSession_inv [OF assms(1)]
    by (auto simp: handleActivate_def addRequest_def intro: launch split: sum.split)
qed

lemma handleReload_inv:
  assumes "sessionInv srv store w s" "ssFrontend s \<noteq> 0"
  shows "sessionInv srv store w (handleReload srv canWrite p s)"
proof -
  have "sessionInv srv store w (s\<lparr>ssWorld := w'\<rparr>)" if "ssFrontend s = FrontendAdmin" for w'
    using assms that by (auto simp: sessionInv_def split: if_splits)
  then have "sessionInv srv store w (let s' = s\<lparr>ssWorld := w'\<rparr> in orClose s' (writeResult canWrite (pktRequestID p) r s'))"
    if "ssFrontend s = FrontendAdmin" for w' r
    using reply_inv(2) [of srv store w "s\<lparr>ssWorld := w'\<rparr>"] that by (simp add: Let_def)
  with closeSession_inv [OF assms(1)] show ?thesis by (simp add: handleReload_def split: prod.split)
qed

lemma handlePacket_inv:
  assumes "sessionInv srv store w s" "ssOpen s"
  shows "sessionInv srv store w (handlePacket srv canWrite p s)"
proof (cases "ssFrontend s = 0")
  case True
  with assms handleHello_inv show ?thesis by (simp add: handlePacket_def)
next
  case False
  have cancel: "sessionInv srv store w (cancelRequest i s)" for i
    using assms by (auto simp: sessionInv_def cancelRequest_def split: if_splits)
  show ?thesis
    using assms False cancel reply_inv(1) [OF assms(1) False] closeSession_inv [OF assms(1)] handleSetEnvironment_inv [OF assms(1) False]
      handleActivate_inv [OF assms(1) False assms(2)] handleReload_inv [OF assms(1) False]
    by (simp add: handlePacket_def handleStatus_def Let_def)
qed

lemma removed_inv:
  assumes "sessionInv srv store w s"
  shows "sessionInv srv store w (removeRequest i (s\<lparr>ssRunning := remove1 i (ssRunning s)\<rparr>))"
proof -
  have "set (remove1 i (ssRunning s)) \<subseteq> set (ssRunning s)" by (rule set_remove1_subset)
  moreover have "ssOpen s \<Longrightarrow> removeAll i (ssRequests s) = remove1 i (ssRunning s)"
    using assms by (auto simp: sessionInv_def distinct_remove1_removeAll)
  ultimately show ?thesis using assms
    by (auto simp: sessionInv_def removeRequest_def split: if_splits)
qed

interpretation session: machine "sessionStep srv" "sessionInv srv store w"
proof
  fix s :: "'a session" and ev assume inv: "sessionInv srv store w s"
  show "sessionInv srv store w (sessionStep srv s ev)"
  proof (cases ev)
    case (Received data canWrite)
    with inv closeSession_inv [OF inv] handlePacket_inv [OF inv] show ?thesis
      by (auto simp: sessionStep_def split: option.split sum.split)
  next
    case (ActivationDone i result canWrite)
    have "ssFrontend s \<noteq> 0" if "i \<in> set (ssRunning s)" using inv that by (auto simp: sessionInv_def split: if_splits)
    then have "sessionInv srv store w s'"
      if "i \<in> set (ssRunning s)"
        "writeResult b i result (removeRequest i (s\<lparr>ssRunning := remove1 i (ssRunning s)\<rparr>)) = Some s'" for b s'
      using writeResult_inv [OF removed_inv [OF inv, of i] _ that(2)] that(1) by (simp add: removeRequest_def)
    with ActivationDone inv removed_inv [OF inv, of i] show ?thesis
      by (auto simp: sessionStep_def Let_def split: option.split)
  qed
qed



text \<open>A daemon that authorizes helpers only, and a hello of one.\<close>

definition helperServer :: "nat dbusServer" where
  "helperServer = \<lparr>dsAuthorize = \<lambda>f. f = FrontendDaemonHelper, dsReload = Some (\<lambda>n. (n + 1, None)), dsStatus = None,
     dsOrder = \<lambda>m. m, dsEnvText = \<lambda>_. ''''\<rparr>"


subsection \<open>A client against a session\<close>

lemma encoded_short: "EncodePacket p = Inr data \<Longrightarrow> take (HeaderSize + MaxPayload + 1) data = data"
  by (auto simp: EncodePacket_Inr_iff sendablePacket_def packetHeader_def)

lemma decode_encoded_packet: "EncodePacket p = Inr data \<Longrightarrow> DecodePacket (take (HeaderSize + MaxPayload + 1) data) = Inr p"
  using encoded_short [of p data] decode_encoded by (simp add: EncodePacket_Inr_iff)

lemma decode_activate_encoded:
  assumes "EncodeActivate \<lparr>arFrontend = f, arBusName = n, arEnvironment = [], arEnvironmentSet = False\<rparr> = Inr b"
  shows "DecodeActivate b = Inr \<lparr>arFrontend = f, arBusName = n, arEnvironment = [], arEnvironmentSet = False\<rparr>"
proof -
  from assms obtain c where f: "validFrontend f" and n: "ValidateBusName n = Inr ()" and c: "writeString16 n = Inr c"
    and b: "b = frontendByte f # c"
    by (auto simp: EncodeActivate_def bind_err_Inr_iff split: if_splits)
  have "readFrontend b = Inr (f, c)" using f frontend.get_put [of f "[frontendByte f]" c] by (simp add: b writeFrontend_def)
  moreover have "length n \<le> MaxBusName" using n by (auto simp: ValidateBusName_def split: if_splits)
  ultimately show ?thesis using readString16_written [OF c, of MaxBusName "[]"] n by (simp add: DecodeActivate_def)
qed

lemma decode_result_encoded:
  assumes "EncodeActivationResult r = Inr b"
  shows "DecodeActivationResult b = Inr r"
proof -
  from assms obtain c where v: "validResultCode (acCode r)" and c: "writeString16 (acDetail r) = Inr c"
    and b: "b = be_bytes 2 (unat (acCode r)) @ c"
    by (auto simp: EncodeActivationResult_def bind_err_Inr_iff split: if_splits)
  have "readString16 MaxPayload c = Inr (acDetail r, [])"
    using readString16_written [OF c, of MaxPayload "[]"] written_length(1) [OF c] by simp
  with v b show ?thesis by (simp add: DecodeActivationResult_def Let_def)
qed

text \<open>
  The other end of the wire: the session handles the datagram, the engine answers the activation it
  launched last, and the client reads what was written last.
\<close>

definition sessionTalk :: "'w dbusServer \<Rightarrow> (activateRequest \<Rightarrow> activationResult) \<Rightarrow> 'w session talk" where
  "sessionTalk srv engine_fun data s =
     (let s1 = sessionStep srv s (Received (Some data) True);
          s2 = (if ssLaunched s1 = ssLaunched s then s1
                else case last (ssLaunched s1) of (i, r) \<Rightarrow> sessionStep srv s1 (ActivationDone i (engine_fun r) True))
      in (s2, if ssOut s2 = ssOut s then Inl (OsError ''closed'') else Inr (last (ssOut s2))))"

definition deliverable :: "activationResult \<Rightarrow> bool" where
  "deliverable r \<longleftrightarrow> validResultCode (acCode r) \<and> valid_utf8 (acDetail r) \<and> length (acDetail r) \<le> 65532"

lemma deliverable_packet:
  assumes "deliverable r"
  obtains payload data where "EncodeActivationResult r = Inr payload" "EncodePacket (resultPacket i payload) = Inr data"
proof -
  from assms have "EncodeActivationResult r = Inr (be_bytes 2 (unat (acCode r)) @ be_bytes 2 (length (acDetail r)) @ acDetail r)"
    by (simp add: EncodeActivationResult_def writeString16_def deliverable_def)
  moreover from assms have "sendablePacket (resultPacket i (be_bytes 2 (unat (acCode r)) @ be_bytes 2 (length (acDetail r)) @ acDetail r))"
    by (simp add: sendablePacket_def resultPacket_def deliverable_def validMessageType_def)
  ultimately show ?thesis using that by (auto simp: EncodePacket_Inr_iff)
qed

text \<open>
  Fact. A whole activation over the socket: on an open session of a daemon helper, a client that
  asks for a valid bus name under a fresh identifier makes the session launch exactly that request,
  with the environment set on this connection, and gets back the very result of the engine, provided
  the detail is well formed and fits into a packet.
\<close>

theorem client_activation:
  assumes "ssFrontend s = FrontendDaemonHelper" "ssOpen s" "clFrontend c = FrontendDaemonHelper"
    and "ValidateBusName busName = Inr ()" "clNextID c + 1 \<noteq> 0" "clNextID c + 1 \<notin> set (ssRequests s)"
    and "\<And>r. deliverable (engine_fun r)"
  shows "\<exists>s'. clientActivate (sessionTalk srv engine_fun) c busName s =
      (c\<lparr>clNextID := clNextID c + 1\<rparr>, s',
       Inr (engine_fun \<lparr>arFrontend = FrontendDaemonHelper, arBusName = busName, arEnvironment = ssEnvironment s, arEnvironmentSet = True\<rparr>)) \<and>
     ssLaunched s' = ssLaunched s @ [(clNextID c + 1,
       \<lparr>arFrontend = FrontendDaemonHelper, arBusName = busName, arEnvironment = ssEnvironment s, arEnvironmentSet = True\<rparr>)] \<and>
     ssOpen s' \<and> clNextID c + 1 \<notin> set (ssRequests s')"
proof -
  let ?id = "clNextID c + 1"
  let ?q = "\<lparr>arFrontend = FrontendDaemonHelper, arBusName = busName, arEnvironment = [], arEnvironmentSet = False\<rparr>"
  let ?r = "?q\<lparr>arEnvironment := ssEnvironment s, arEnvironmentSet := True\<rparr>"
  have name: "valid_utf8 busName" "length busName \<le> MaxBusName"
    using assms(4) by (auto simp: ValidateBusName_def split: if_splits)
  then obtain payload where p: "EncodeActivate ?q = Inr payload" and len: "length payload \<le> 300"
    using assms(4) by (auto simp: EncodeActivate_def validFrontend_def writeString16_def)
  let ?pkt = "\<lparr>pktType = MessageActivate, pktRequestID = ?id, pktFlags = 0, pktPayload = payload\<rparr>"
  have "sendablePacket ?pkt" using len by (simp add: sendablePacket_def validMessageType_def)
  then obtain data where d: "EncodePacket ?pkt = Inr data" by (auto simp: EncodePacket_Inr_iff)
  from deliverable_packet [OF assms(7) [of ?r], of ?id] obtain rp rd where
    rp: "EncodeActivationResult (engine_fun ?r) = Inr rp" "EncodePacket (resultPacket ?id rp) = Inr rd" .
  let ?s1 = "s\<lparr>ssRequests := ssRequests s @ [?id], ssLaunched := ssLaunched s @ [(?id, ?r)], ssRunning := ssRunning s @ [?id]\<rparr>"
  have s1: "sessionStep srv s (Received (Some data) True) = ?s1"
    using assms decode_encoded_packet [OF d] decode_activate_encoded [OF p]
    by (simp add: sessionStep_def handlePacket_def handleActivate_def addRequest_def)
  let ?s2 = "removeRequest ?id (?s1\<lparr>ssRunning := remove1 ?id (ssRunning ?s1)\<rparr>)"
  have s2: "sessionStep srv ?s1 (ActivationDone ?id (engine_fun ?r) True) = ?s2\<lparr>ssOut := ssOut s @ [rd]\<rparr>"
    using assms(2) rp by (simp add: sessionStep_def Let_def writeResult_def writeTo_def removeRequest_def)
  have talk: "sessionTalk srv engine_fun data s = (?s2\<lparr>ssOut := ssOut s @ [rd]\<rparr>, Inr rd)"
    using s2 by (simp add: sessionTalk_def s1 Let_def)
  have "clientActivate (sessionTalk srv engine_fun) c busName s =
      (c\<lparr>clNextID := ?id\<rparr>, ?s2\<lparr>ssOut := ssOut s @ [rd]\<rparr>, Inr (engine_fun ?r))"
    using p assms(3) decode_encoded_packet [OF rp(2)] decode_result_encoded [OF rp(1)]
    by (simp add: clientActivate_def clientResult_def simpleRequest_def exchange_def Let_def d talk resultPacket_def)
  then show ?thesis using assms(2) by (simp add: removeRequest_def)
qed


theorem client_activation_witness:
  "\<exists>s'. clientActivate (sessionTalk helperServer (\<lambda>_. resultOf ResultSuccess '''')) (newClient FrontendDaemonHelper) ''o.x''
      ((newSession Map.empty 0)\<lparr>ssFrontend := FrontendDaemonHelper, ssEnvironment := [''LANG=C'']\<rparr>) =
    ((newClient FrontendDaemonHelper)\<lparr>clNextID := 2\<rparr>, s', Inr (resultOf ResultSuccess '''')) \<and>
    ssLaunched s' = [(2, \<lparr>arFrontend = FrontendDaemonHelper, arBusName = ''o.x'', arEnvironment = [''LANG=C''], arEnvironmentSet = True\<rparr>)]"
proof -
  have name: "ValidateBusName ''o.x'' = Inr ()" by code_simp
  show ?thesis
    using client_activation [of "(newSession Map.empty 0)\<lparr>ssFrontend := FrontendDaemonHelper, ssEnvironment := [''LANG=C'']\<rparr>"
        "newClient FrontendDaemonHelper" "''o.x''" "\<lambda>_. resultOf ResultSuccess ''''" helperServer] name
    by (simp add: newSession_def newClient_def deliverable_def resultOf_def validResultCode_def) blast
qed


subsection \<open>Who may say hello\<close>

fun parentChain :: "(int \<Rightarrow> os_error + string) \<Rightarrow> int \<Rightarrow> int list \<Rightarrow> bool" where
  "parentChain readStatus pid [] = True"
| "parentChain readStatus pid (p # ps) \<longleftrightarrow> procParentPID readStatus pid = Inr p \<and> 0 < p \<and> parentChain readStatus p ps"

lemma parentFromLines_pos: "parentFromLines ls = Inr p \<Longrightarrow> 0 < p"
  by (induction ls) (auto simp: Let_def split: if_splits option.splits)

lemma ancestorsFrom_chain:
  "ancestorsFrom readStatus n pid = Inr as \<Longrightarrow> length as \<le> n \<and> parentChain readStatus pid as \<and> (0 < n \<longrightarrow> as \<noteq> [])"
proof (induction readStatus n pid arbitrary: as rule: ancestorsFrom.induct)
  case (2 readStatus n current)
  then obtain p where p: "procParentPID readStatus current = Inr p" by (auto simp: bind_err_Inr_iff)
  then have "0 < p" by (auto simp: procParentPID_def dest: parentFromLines_pos split: sum.splits)
  with 2 p show ?case by (auto simp: bind_err_Inr_iff split: if_splits)
qed simp

text \<open>
  Fact. The daemon helper is who it says it is: a peer whose ancestors were read from the process
  table and that is authorized as a helper runs as root or as the bus user, has the bus daemon among
  its at most eight nearest ancestors over real parent links, and runs the installed helper, by path and
  by device and inode; an administrator is root and runs the administrative client.
\<close>

theorem authorized_peer:
  assumes "procAncestors readStatus (dpPID p) 8 = Inr (dpAncestors p)"
    and "peerAuthorizer cfg dbusUID helperIdentity fileIdentity f p = Inr ()"
  shows "f = FrontendDaemonHelper \<and> (dpUID p = 0 \<or> dpUID p = dbusUID) \<and> length (dpAncestors p) \<le> 8 \<and>
      parentChain readStatus (dpPID p) (dpAncestors p) \<and> dcDaemonPID cfg \<in> set (dpAncestors p) \<and> 0 < dcDaemonPID cfg \<and>
      clean (dpExecutable p) = clean (dcHelperPath cfg) \<and> peerIdentity fileIdentity p = Inr helperIdentity \<or>
    f = FrontendAdmin \<and> dpUID p = 0 \<and> clean (dpExecutable p) = clean (dcAdminPath cfg)"
proof -
  have chain: "length (dpAncestors p) \<le> 8 \<and> parentChain readStatus (dpPID p) (dpAncestors p)"
    using ancestorsFrom_chain [of readStatus 8 "dpPID p" "dpAncestors p"] assms(1) by (simp add: procAncestors_def)
  have exec: "clean (dpExecutable p) = clean e \<and> (f = FrontendDaemonHelper \<longrightarrow> peerIdentity fileIdentity p = Inr helperIdentity)"
    if "checkExecutable fileIdentity helperIdentity f e p = Inr ()" for e
    using that by (auto simp: checkExecutable_def split: if_splits sum.splits)
  show ?thesis
  proof (cases "f = FrontendDaemonHelper")
    case True
    with assms(2) chain exec [of "dcHelperPath cfg"] show ?thesis by (auto simp: peerAuthorizer_def split: if_splits)
  next
    case False
    with assms(2) exec [of "dcAdminPath cfg"] show ?thesis by (auto simp: peerAuthorizer_def split: if_splits)
  qed
qed

definition demoPeer :: dbusPeer where
  "demoPeer = \<lparr>dpPID = 9, dpParentPID = 5, dpAncestors = [5, 1], dpUID = 81, dpGID = 81, dpExecutable = ''/h'', dpDevice = 3, dpInode = 4\<rparr>"

definition demoStatus :: "int \<Rightarrow> os_error + string" where
  "demoStatus pid = Inr (if pid = 9 then ''PPid: 5'' else ''PPid: 1'')"

theorem authorized_peer_witness:
  "parentChain demoStatus 9 [5, 1] \<and>
   peerAuthorizer \<lparr>dcHelperPath = ''/h'', dcAdminPath = ''/a'', dcDaemonPID = 5\<rparr> 81 (3, 4) (\<lambda>_. Inl '''') FrontendDaemonHelper demoPeer = Inr ()"
proof -
  have "atoi (trim_space '' 5'') = Some 5" "atoi (trim_space '' 1'') = Some 1"
    by (simp_all add: space_eval atoi_def parse_dec_def is_digit_def digit_val_def)
  then have a: "procAncestors demoStatus (dpPID demoPeer) 8 = Inr (dpAncestors demoPeer)"
    by (simp add: procAncestors_def demoPeer_def numeral_eq_Suc procParentPID_def demoStatus_def has_prefix_def)
  have b: "peerAuthorizer \<lparr>dcHelperPath = ''/h'', dcAdminPath = ''/a'', dcDaemonPID = 5\<rparr> 81 (3, 4) (\<lambda>_. Inl '''') FrontendDaemonHelper demoPeer = Inr ()"
    by (simp add: peerAuthorizer_def demoPeer_def checkExecutable_def peerIdentity_def)
  from authorized_peer [OF a b] b show ?thesis by (simp add: demoPeer_def)
qed

end
