(* ===== verification/Unit_Parse.thy ===== *)
theory Unit_Parse
  imports Go_Path
begin

text \<open>
  The configuration of \<open>servicectl\<close> (\<open>src/config.go\<close>) and its reader of systemd unit files
  (\<open>src/unit_parse.go\<close>): the search for a unit file, continuation lines, sections and keys, the
  expansion of specifiers, environment files, and the command lines handed to dinit.

  The process environment, the current user and the file system are a record \<open>host\<close> of
  functions. Go maps are association lists with distinct keys, listed in the order in which the
  iteration over the map yields them; every function that iterates over a map is modelled for an
  arbitrary such order. The regular expressions of the source are written out as recursive
  functions on bytes.
\<close>

subsection \<open>The host and the configuration\<close>

record osUser =
  ouUsername :: string
  ouUid :: string
  ouHomeDir :: string

record host =
  hGetenv :: "string \<Rightarrow> string"
  hCurrentUser :: "osUser option"
  hStat :: "string \<Rightarrow> bool"
  hReadFile :: "string \<Rightarrow> string + string"

type_synonym envMap = "(string \<times> string) list"

record config =
  cfgMode :: string
  cfgSystemdPaths :: "string list"
  cfgDinitServiceDir :: string
  cfgDinitGenDir :: string
  cfgManagedRuntimeDir :: string
  cfgDBusServiceDir :: string
  cfgUnitExtraDir :: string
  cfgIsRoot :: bool
  cfgNativeCgroups :: bool

definition userMode :: "config \<Rightarrow> bool" where
  "userMode C \<longleftrightarrow> cfgMode C = ''user''"

definition currentUsername :: "host \<Rightarrow> string" where
  "currentUsername H =
     (case hCurrentUser H of
        Some u \<Rightarrow> if ouUsername u \<noteq> '''' then ouUsername u
          else if hGetenv H ''USER'' \<noteq> '''' then hGetenv H ''USER'' else ''user''
      | None \<Rightarrow> if hGetenv H ''USER'' \<noteq> '''' then hGetenv H ''USER'' else ''user'')"

definition currentUID :: "host \<Rightarrow> string" where
  "currentUID H =
     (case hCurrentUser H of Some u \<Rightarrow> if ouUid u \<noteq> '''' then ouUid u else ''0'' | None \<Rightarrow> ''0'')"

definition runtimeDir :: "config \<Rightarrow> host \<Rightarrow> string" where
  "runtimeDir C H =
     (if hGetenv H ''XDG_RUNTIME_DIR'' \<noteq> '''' then hGetenv H ''XDG_RUNTIME_DIR''
      else if userMode C then path_join [hGetenv H ''HOME'', ''.local'', ''run'']
      else ''/run'')"

definition currentShell :: "host \<Rightarrow> string" where
  "currentShell H = (if hGetenv H ''SHELL'' \<noteq> '''' then hGetenv H ''SHELL'' else ''/bin/sh'')"

text \<open>
  \<open>buildConfig\<close> calls \<open>runtimeDir\<close>, which reads the mode of the configuration in force while
  the new one is built: the first argument.
\<close>

definition buildConfig :: "config \<Rightarrow> host \<Rightarrow> bool \<Rightarrow> config" where
  "buildConfig current H user =
     (let home = hGetenv H ''HOME'';
          root = (case hCurrentUser H of Some u \<Rightarrow> ouUid u = ''0'' | None \<Rightarrow> False)
      in if user then
        \<lparr>cfgMode = ''user'',
         cfgSystemdPaths = [path_join [home, ''.config/systemd/user/''], ''/usr/lib/systemd/user/''],
         cfgDinitServiceDir = path_join [home, ''.config/dinit.d''],
         cfgDinitGenDir = path_join [hGetenv H ''XDG_RUNTIME_DIR'', ''dinit.d/generated''],
         cfgManagedRuntimeDir = path_join [runtimeDir current H, ''servicectl/managed''],
         cfgDBusServiceDir = path_join [home, ''.local/share/dbus-1/services''],
         cfgUnitExtraDir = path_join [home, ''.config/servicectl/unitextra''],
         cfgIsRoot = root, cfgNativeCgroups = True\<rparr>
      else
        \<lparr>cfgMode = ''system'',
         cfgSystemdPaths = [''/etc/systemd/system/'', ''/usr/lib/systemd/system/'', ''/lib/systemd/system/''],
         cfgDinitServiceDir = ''/etc/dinit.d'',
         cfgDinitGenDir = ''/run/dinit.d/generated'',
         cfgManagedRuntimeDir = ''/run/servicectl/managed'',
         cfgDBusServiceDir = ''/etc/dbus-1/system-services'',
         cfgUnitExtraDir = path_join [home, ''.config/servicectl/unitextra''],
         cfgIsRoot = root, cfgNativeCgroups = True\<rparr>)"

text \<open>The configuration after \<open>init\<close>, which is the one in force when \<open>main\<close> builds its own.\<close>

definition zeroConfig :: config where
  "zeroConfig = \<lparr>cfgMode = '''', cfgSystemdPaths = [], cfgDinitServiceDir = '''', cfgDinitGenDir = '''',
     cfgManagedRuntimeDir = '''', cfgDBusServiceDir = '''', cfgUnitExtraDir = '''', cfgIsRoot = False,
     cfgNativeCgroups = False\<rparr>"

definition initConfig :: "host \<Rightarrow> config" where
  "initConfig H = buildConfig zeroConfig H False"

definition mergeEnv :: "envMap \<Rightarrow> envMap \<Rightarrow> envMap" where
  "mergeEnv env extra = foldl (\<lambda>m (k, v). AList.update k v m) env extra"

definition sessionKeys :: "string list" where
  "sessionKeys = [''HOME'', ''USER'', ''LOGNAME'', ''PATH'', ''SHELL'', ''TMPDIR'', ''XDG_RUNTIME_DIR'',
     ''XDG_CONFIG_HOME'', ''XDG_STATE_HOME'', ''XDG_CACHE_HOME'']"

definition userSessionEnvDefaults :: "config \<Rightarrow> host \<Rightarrow> envMap" where
  "userSessionEnvDefaults C H =
     (let home = (if hGetenv H ''HOME'' = '''' then (case hCurrentUser H of Some u \<Rightarrow> ouHomeDir u | None \<Rightarrow> '''')
                  else hGetenv H ''HOME'');
          env = [(''HOME'', home), (''USER'', currentUsername H), (''LOGNAME'', currentUsername H),
                 (''PATH'', hGetenv H ''PATH''), (''SHELL'', currentShell H), (''TMPDIR'', ''/tmp''),
                 (''XDG_RUNTIME_DIR'', runtimeDir C H), (''XDG_CONFIG_HOME'', path_join [home, ''.config'']),
                 (''XDG_STATE_HOME'', path_join [home, ''.local'', ''state'']),
                 (''XDG_CACHE_HOME'', path_join [home, ''.cache''])];
          env = foldl (\<lambda>env key. if hGetenv H key \<noteq> '''' then AList.update key (hGetenv H key) env else env) env sessionKeys
      in if hGetenv H ''DBUS_SESSION_BUS_ADDRESS'' \<noteq> ''''
         then AList.update ''DBUS_SESSION_BUS_ADDRESS'' (hGetenv H ''DBUS_SESSION_BUS_ADDRESS'') env
         else env)"

definition renderEnv :: "envMap \<Rightarrow> string list" where
  "renderEnv env = map (\<lambda>k. k @ ''='' @ the (map_of env k)) (sort (map fst env))"

definition environmentWithOverrides :: "string list \<Rightarrow> envMap \<Rightarrow> string list" where
  "environmentWithOverrides base overrides =
     renderEnv (mergeEnv
       (foldl (\<lambda>m entry. case cut entry CHR ''='' of None \<Rightarrow> m | Some (k, v) \<Rightarrow> AList.update k v m) [] base)
       overrides)"

subsection \<open>Unit files\<close>

record unitFile =
  uName :: string
  uSourcePath :: string
  uDescription :: string
  uType :: string
  uBusName :: string
  uRemainAfterExit :: bool
  uExecStart :: "string list"
  uExecStop :: string
  uExecReload :: string
  uPIDFile :: string
  uUser :: string
  uGroup :: string
  uWorkingDirectory :: string
  uRuntimeDirectory :: "string list"
  uRuntimeDirMode :: string
  uStateDirectory :: "string list"
  uStateDirMode :: string
  uLogsDirectory :: "string list"
  uLogsDirMode :: string
  uEnvironment :: "string list"
  uEnvironmentFile :: "string list"
  uTimeoutStartSec :: string
  uTimeoutStopSec :: string
  uKillSignal :: string
  uRequires :: "string list"
  uWants :: "string list"
  uBefore :: "string list"
  uAfter :: "string list"
  uBindsTo :: "string list"
  uPartOf :: "string list"
  uCmdExtraAppend :: "string list"
  uReadyFD :: int

record socketUnit =
  suName :: string
  suSourcePath :: string
  suDescription :: string
  suService :: string
  suAccept :: bool
  suListenStreams :: "string list"
  suListenDgrams :: "string list"
  suFDNames :: "string list"
  suSocketMode :: string
  suSocketUser :: string
  suSocketGroup :: string

datatype unit_error =
    UnitNotFound string
  | SocketUnitNotFound string
  | ReadError string
  | InvalidReadyFD string
  | ReadyFDRequiresNotify

definition emptyUnit :: "string \<Rightarrow> string \<Rightarrow> unitFile" where
  "emptyUnit name path = \<lparr>uName = name, uSourcePath = path, uDescription = '''', uType = '''', uBusName = '''',
     uRemainAfterExit = False, uExecStart = [], uExecStop = '''', uExecReload = '''', uPIDFile = '''',
     uUser = '''', uGroup = '''', uWorkingDirectory = '''', uRuntimeDirectory = [], uRuntimeDirMode = '''',
     uStateDirectory = [], uStateDirMode = '''', uLogsDirectory = [], uLogsDirMode = '''',
     uEnvironment = [], uEnvironmentFile = [], uTimeoutStartSec = '''', uTimeoutStopSec = '''',
     uKillSignal = '''', uRequires = [], uWants = [], uBefore = [], uAfter = [], uBindsTo = [],
     uPartOf = [], uCmdExtraAppend = [], uReadyFD = 0\<rparr>"

subsection \<open>Lines\<close>

text \<open>\<open>reSection\<close>, \<open>reKeyValue\<close> and \<open>reEnvAssignment\<close> on a line without line feeds.\<close>

definition matchSection :: "string \<Rightarrow> string option" where
  "matchSection line =
     (if 2 \<le> length line \<and> hd line = CHR ''['' \<and> last line = CHR '']'' then Some (butlast (tl line)) else None)"

definition matchKeyValue :: "string \<Rightarrow> (string \<times> string) option" where
  "matchKeyValue line =
     (case cut line CHR ''='' of
        Some (k, v) \<Rightarrow> if k = '''' then None else Some (trim_space k, trim_space v)
      | None \<Rightarrow> None)"

text \<open>One raw line, with the finished lines and the text of the line that is being continued.\<close>

definition lineStep :: "string list \<times> string \<Rightarrow> string \<Rightarrow> string list \<times> string" where
  "lineStep st raw =
     (let (finished, current) = st;
          trimmed = trim_right_set raw [CHR '' '', CHR 0x09];
          continued = has_suffix trimmed [CHR 0x5C];
          trimmed = trim_right_set (trim_suffix trimmed [CHR 0x5C]) [CHR '' '', CHR 0x09];
          current = (if current \<noteq> [] then current @ '' '' else current) @ trimmed
      in if continued then (finished, current)
         else if current = [] then (finished, [])
         else (finished @ [current], []))"

definition splitUnitLines :: "string \<Rightarrow> string list" where
  "splitUnitLines data =
     (let (finished, current) = foldl lineStep ([], []) (split_on CHR 0x0A (replace_all data [CHR 0x0D, CHR 0x0A] [CHR 0x0A]))
      in if current = [] then finished else finished @ [current])"

definition readUnitLines :: "host \<Rightarrow> string \<Rightarrow> unit_error + string list" where
  "readUnitLines H path =
     (case hReadFile H path of Inl e \<Rightarrow> Inl (ReadError e) | Inr data \<Rightarrow> Inr (splitUnitLines data))"

definition isCommentLine :: "string \<Rightarrow> bool" where
  "isCommentLine line \<longleftrightarrow> line = '''' \<or> has_prefix line ''#'' \<or> has_prefix line '';''"

subsection \<open>Values\<close>

text \<open>\<open>filepath.Ext\<close>: the suffix that starts at the last dot of the last path element.\<close>

definition path_ext :: "string \<Rightarrow> string" where
  "path_ext p =
     (let element = last (split_on CHR ''/'' p)
      in case last_index_byte element CHR ''.'' of None \<Rightarrow> '''' | Some i \<Rightarrow> drop i element)"

fun expandFrom :: "config \<Rightarrow> host \<Rightarrow> string \<Rightarrow> string \<Rightarrow> string" where
  "expandFrom C H unitName [] = []"
| "expandFrom C H unitName [c] = [c]"
| "expandFrom C H unitName (c # d # rest) =
     (if c \<noteq> CHR ''%'' then c # expandFrom C H unitName (d # rest)
      else (if d = CHR ''%'' then ''%''
            else if d = CHR ''t'' then runtimeDir C H
            else if d = CHR ''h'' then hGetenv H ''HOME''
            else if d = CHR ''u'' then currentUsername H
            else if d = CHR ''U'' then currentUID H
            else if d = CHR ''n'' then unitName
            else if d = CHR ''N'' then trim_suffix unitName (path_ext unitName)
            else [c, d]) @ expandFrom C H unitName rest)"

definition expandSpecifiers :: "config \<Rightarrow> host \<Rightarrow> string \<Rightarrow> string \<Rightarrow> string" where
  "expandSpecifiers C H value unitName =
     (if value = '''' \<or> \<not> contains value ''%'' then value else expandFrom C H unitName value)"

definition cleanExecCmd :: "string \<Rightarrow> string" where
  "cleanExecCmd cmd = trim_space (dropWhile (\<lambda>c. c \<in> set ''-@+!'') (trim_space cmd))"

definition isYes :: "string \<Rightarrow> bool" where
  "isYes v \<longleftrightarrow> equal_fold v ''yes'' \<or> equal_fold v ''true'' \<or> v = ''1''"

subsection \<open>Sections and keys\<close>

definition setUnitKey :: "string \<Rightarrow> string \<Rightarrow> unitFile \<Rightarrow> unitFile" where
  "setUnitKey k v u =
     (if k = ''Description'' then u\<lparr>uDescription := v\<rparr>
      else if k = ''Requires'' then u\<lparr>uRequires := uRequires u @ str_fields v\<rparr>
      else if k = ''Wants'' then u\<lparr>uWants := uWants u @ str_fields v\<rparr>
      else if k = ''Before'' then u\<lparr>uBefore := uBefore u @ str_fields v\<rparr>
      else if k = ''After'' then u\<lparr>uAfter := uAfter u @ str_fields v\<rparr>
      else if k = ''BindsTo'' then u\<lparr>uBindsTo := uBindsTo u @ str_fields v\<rparr>
      else if k = ''PartOf'' then u\<lparr>uPartOf := uPartOf u @ str_fields v\<rparr>
      else u)"

definition setServiceKey :: "config \<Rightarrow> host \<Rightarrow> string \<Rightarrow> string \<Rightarrow> string \<Rightarrow> unitFile \<Rightarrow> unit_error + unitFile" where
  "setServiceKey C H target k v u =
     (if k = ''Type'' then Inr (u\<lparr>uType := v\<rparr>)
      else if k = ''BusName'' then Inr (u\<lparr>uBusName := v\<rparr>)
      else if k = ''X-Servicectl-ReadyFD'' then
        (case atoi v of
           None \<Rightarrow> Inl (InvalidReadyFD v)
         | Some fd \<Rightarrow> if fd < 3 \<or> fd > 1023 then Inl (InvalidReadyFD v) else Inr (u\<lparr>uReadyFD := fd\<rparr>))
      else if k = ''RemainAfterExit'' then Inr (u\<lparr>uRemainAfterExit := isYes v\<rparr>)
      else if k = ''ExecStart'' then
        Inr (u\<lparr>uExecStart := (if v = '''' then [] else uExecStart u @ [cleanExecCmd (expandSpecifiers C H v target)])\<rparr>)
      else if k = ''ExecStop'' then Inr (u\<lparr>uExecStop := cleanExecCmd (expandSpecifiers C H v target)\<rparr>)
      else if k = ''ExecReload'' then Inr (u\<lparr>uExecReload := cleanExecCmd (expandSpecifiers C H v target)\<rparr>)
      else if k = ''PIDFile'' then Inr (u\<lparr>uPIDFile := expandSpecifiers C H v target\<rparr>)
      else if k = ''User'' then Inr (u\<lparr>uUser := v\<rparr>)
      else if k = ''Group'' then Inr (u\<lparr>uGroup := v\<rparr>)
      else if k = ''WorkingDirectory'' then Inr (u\<lparr>uWorkingDirectory := expandSpecifiers C H v target\<rparr>)
      else if k = ''RuntimeDirectory'' then Inr (u\<lparr>uRuntimeDirectory := uRuntimeDirectory u @ str_fields v\<rparr>)
      else if k = ''RuntimeDirectoryMode'' then Inr (u\<lparr>uRuntimeDirMode := v\<rparr>)
      else if k = ''StateDirectory'' then Inr (u\<lparr>uStateDirectory := uStateDirectory u @ str_fields v\<rparr>)
      else if k = ''StateDirectoryMode'' then Inr (u\<lparr>uStateDirMode := v\<rparr>)
      else if k = ''LogsDirectory'' then Inr (u\<lparr>uLogsDirectory := uLogsDirectory u @ str_fields v\<rparr>)
      else if k = ''LogsDirectoryMode'' then Inr (u\<lparr>uLogsDirMode := v\<rparr>)
      else if k = ''Environment'' then Inr (u\<lparr>uEnvironment := uEnvironment u @ [trim_set v [CHR 0x22]]\<rparr>)
      else if k = ''EnvironmentFile'' then
        Inr (u\<lparr>uEnvironmentFile := uEnvironmentFile u @ [expandSpecifiers C H (trim_prefix v ''-'') target]\<rparr>)
      else if k = ''TimeoutStartSec'' then Inr (u\<lparr>uTimeoutStartSec := v\<rparr>)
      else if k = ''TimeoutStopSec'' then Inr (u\<lparr>uTimeoutStopSec := v\<rparr>)
      else if k = ''KillSignal'' then Inr (u\<lparr>uKillSignal := v\<rparr>)
      else Inr u)"

text \<open>The line loop: \<open>set\<close> handles a key of a section, the first component is the current section.\<close>

fun parseLines :: "(string \<Rightarrow> string \<Rightarrow> string \<Rightarrow> 'u \<Rightarrow> 'e + 'u) \<Rightarrow> string \<Rightarrow> string list \<Rightarrow> 'u \<Rightarrow> 'e + 'u" where
  "parseLines setKey sect [] u = Inr u"
| "parseLines setKey sect (rawLine # rest) u =
     (let line = trim_space rawLine in
      if isCommentLine line then parseLines setKey sect rest u
      else case matchSection line of
        Some s \<Rightarrow> parseLines setKey s rest u
      | None \<Rightarrow>
          (case matchKeyValue line of
             None \<Rightarrow> parseLines setKey sect rest u
           | Some (k, v) \<Rightarrow> bind_err (setKey sect k v u) (parseLines setKey sect rest)))"

definition setKeyOfUnit :: "config \<Rightarrow> host \<Rightarrow> string \<Rightarrow> string \<Rightarrow> string \<Rightarrow> string \<Rightarrow> unitFile \<Rightarrow> unit_error + unitFile" where
  "setKeyOfUnit C H target sect k v u =
     (if sect = ''Unit'' then Inr (setUnitKey k v u)
      else if sect = ''Service'' then setServiceKey C H target k v u
      else Inr u)"

definition setKeyOfExtra :: "string \<Rightarrow> string \<Rightarrow> string \<Rightarrow> unitFile \<Rightarrow> unit_error + unitFile" where
  "setKeyOfExtra sect k v u =
     Inr (if sect = ''Cmd Extra'' \<and> k = ''Append'' \<and> v \<noteq> ''''
          then u\<lparr>uCmdExtraAppend := uCmdExtraAppend u @ [v]\<rparr> else u)"

definition applyUnitExtra :: "config \<Rightarrow> host \<Rightarrow> unitFile \<Rightarrow> unitFile" where
  "applyUnitExtra C H u =
     (if cfgUnitExtraDir C = '''' then u
      else case readUnitLines H (path_join [cfgUnitExtraDir C, uName u @ ''.conf'']) of
        Inl _ \<Rightarrow> u
      | Inr lines \<Rightarrow> (case parseLines setKeyOfExtra '''' lines u of Inl _ \<Rightarrow> u | Inr u' \<Rightarrow> u'))"

definition findUnitPath :: "config \<Rightarrow> host \<Rightarrow> string \<Rightarrow> string option" where
  "findUnitPath C H target = find (hStat H) (map (\<lambda>p. path_join [p, target]) (cfgSystemdPaths C))"

text \<open>
  \<open>parseSystemdUnit\<close> resolves the alias of the name, and the resolution of the one alias parses
  the unit \<open>wireplumber\<close>, whose name is no alias: \<open>parseUnitAs\<close> is the body after the resolution.
\<close>

definition parseUnitAs :: "config \<Rightarrow> host \<Rightarrow> string \<Rightarrow> string \<Rightarrow> unit_error + unitFile" where
  "parseUnitAs C H name resolved =
     (let target = (if has_suffix resolved ''.service'' then resolved else resolved @ ''.service'')
      in case findUnitPath C H target of
        None \<Rightarrow> Inl (UnitNotFound name)
      | Some unitPath \<Rightarrow>
          bind_err (readUnitLines H unitPath) (\<lambda>lines.
          bind_err (parseLines (setKeyOfUnit C H target) '''' lines (emptyUnit (trim_suffix target ''.service'') unitPath)) (\<lambda>u.
          let u = applyUnitExtra C H u in
          if uReadyFD u \<noteq> 0 \<and> (\<not> equal_fold (uType u) ''notify'' \<or> uBusName u \<noteq> '''') then Inl ReadyFDRequiresNotify
          else Inr u)))"

definition resolveUnitAlias :: "config \<Rightarrow> host \<Rightarrow> string \<Rightarrow> string" where
  "resolveUnitAlias C H name =
     (let cleanName = trim_suffix (trim_space name) ''.service''
      in if cleanName = ''pipewire-session-manager'' \<and> is_ok (parseUnitAs C H ''wireplumber'' ''wireplumber'')
         then ''wireplumber'' else cleanName)"

definition parseSystemdUnit :: "config \<Rightarrow> host \<Rightarrow> string \<Rightarrow> unit_error + unitFile" where
  "parseSystemdUnit C H name = parseUnitAs C H name (resolveUnitAlias C H name)"

definition setKeyOfSocket :: "config \<Rightarrow> host \<Rightarrow> string \<Rightarrow> string \<Rightarrow> string \<Rightarrow> string \<Rightarrow> socketUnit \<Rightarrow> unit_error + socketUnit" where
  "setKeyOfSocket C H target sect k v s = Inr
     (if sect = ''Unit'' then (if k = ''Description'' then s\<lparr>suDescription := v\<rparr> else s)
      else if sect = ''Socket'' then
        (if k = ''Accept'' then s\<lparr>suAccept := isYes v\<rparr>
         else if k = ''ListenStream'' then
           (if v \<noteq> '''' then s\<lparr>suListenStreams := suListenStreams s @ [expandSpecifiers C H v target]\<rparr> else s)
         else if k = ''ListenDatagram'' then
           (if v \<noteq> '''' then s\<lparr>suListenDgrams := suListenDgrams s @ [expandSpecifiers C H v target]\<rparr> else s)
         else if k = ''FileDescriptorName'' then (if v \<noteq> '''' then s\<lparr>suFDNames := suFDNames s @ [v]\<rparr> else s)
         else if k = ''SocketMode'' then s\<lparr>suSocketMode := v\<rparr>
         else if k = ''SocketUser'' then s\<lparr>suSocketUser := v\<rparr>
         else if k = ''SocketGroup'' then s\<lparr>suSocketGroup := v\<rparr>
         else if k = ''Service'' then s\<lparr>suService := trim_suffix v ''.service''\<rparr>
         else s)
      else s)"

definition parseSocketUnit :: "config \<Rightarrow> host \<Rightarrow> string \<Rightarrow> unit_error + socketUnit" where
  "parseSocketUnit C H name =
     (let target = resolveUnitAlias C H name;
          target = (if has_suffix target ''.service'' then trim_suffix target ''.service'' else target);
          target = (if has_suffix target ''.socket'' then target else target @ ''.socket'')
      in case findUnitPath C H target of
        None \<Rightarrow> Inl (SocketUnitNotFound name)
      | Some unitPath \<Rightarrow>
          bind_err (readUnitLines H unitPath) (\<lambda>lines.
          bind_err (parseLines (setKeyOfSocket C H target) '''' lines
            \<lparr>suName = trim_suffix target ''.socket'', suSourcePath = unitPath, suDescription = '''', suService = '''',
             suAccept = False, suListenStreams = [], suListenDgrams = [], suFDNames = [], suSocketMode = '''',
             suSocketUser = '''', suSocketGroup = ''''\<rparr>) (\<lambda>s.
          Inr (if suService s = '''' then s\<lparr>suService := suName s\<rparr> else s))))"

text \<open>
  The text of an error, as far as the sources look at it: they search it for \<open>not found\<close>. The
  bytes that \<open>%q\<close> escapes are not part of that text, and a value is one line, so that no escape
  sequence can begin it.
\<close>

definition unitErrorText :: "unit_error \<Rightarrow> string" where
  "unitErrorText e =
     (case e of
        UnitNotFound name \<Rightarrow> ''unit '' @ name @ '' not found''
      | SocketUnitNotFound name \<Rightarrow> ''socket unit '' @ name @ '' not found''
      | ReadError t \<Rightarrow> t
      | InvalidReadyFD v \<Rightarrow> ''invalid X-Servicectl-ReadyFD '' @ [CHR 0x22] @ v @ [CHR 0x22]
      | ReadyFDRequiresNotify \<Rightarrow> ''native FD readiness requires Type=notify without BusName'')"

definition parseOptionalSocketUnit :: "config \<Rightarrow> host \<Rightarrow> string \<Rightarrow> unit_error + socketUnit option" where
  "parseOptionalSocketUnit C H name =
     (case parseSocketUnit C H name of
        Inl e \<Rightarrow> if contains (unitErrorText e) ''not found'' then Inr None else Inl e
      | Inr s \<Rightarrow> Inr (Some s))"

subsection \<open>Environment and command lines\<close>

definition envLine :: "envMap \<Rightarrow> string \<Rightarrow> envMap" where
  "envLine env rawLine =
     (let line = trim_space rawLine in
      if line = '''' \<or> has_prefix line ''#'' then env
      else case cut line CHR ''='' of
        None \<Rightarrow> env
      | Some (k, v) \<Rightarrow> AList.update k (trim_set v [CHR 0x22, CHR 0x27, CHR 0x09, CHR '' '']) env)"

definition loadEnvFiles :: "host \<Rightarrow> string list \<Rightarrow> envMap" where
  "loadEnvFiles H paths = foldl (\<lambda>env path.
     case hReadFile H path of Inl _ \<Rightarrow> env | Inr data \<Rightarrow> foldl envLine env (fst (scan_lines data))) [] paths"

definition isNameStart :: "char \<Rightarrow> bool" where
  "isNameStart c \<longleftrightarrow> (let n = of_char c :: nat in 65 \<le> n \<and> n \<le> 90 \<or> 97 \<le> n \<and> n \<le> 122) \<or> c = CHR ''_''"

definition isNameChar :: "char \<Rightarrow> bool" where
  "isNameChar c \<longleftrightarrow> isNameStart c \<or> is_digit c"

text \<open>\<open>rePlainVar\<close> and \<open>reBracedVar\<close> replaced by the empty text, from left to right.\<close>

function removePlainVars :: "string \<Rightarrow> string" where
  "removePlainVars [] = []"
| "removePlainVars (c # s) =
     (if c = CHR ''$'' \<and> s \<noteq> [] \<and> isNameStart (hd s) then removePlainVars (dropWhile isNameChar s)
      else c # removePlainVars s)"
  by pat_completeness auto
termination
proof (relation "measure length")
  fix c :: char and s :: string
  show "(dropWhile isNameChar s, c # s) \<in> measure length"
    using length_dropWhile_le [of isNameChar s] by simp
qed simp_all

definition bracedVar :: "string \<Rightarrow> string option" where
  "bracedVar s =
     (case s of
        d # b # n # rest \<Rightarrow>
          if d = CHR ''$'' \<and> b = CHR ''{'' \<and> isNameStart n then
            (case dropWhile isNameChar rest of
               e # after \<Rightarrow> if e = CHR ''}'' then Some after else None
             | [] \<Rightarrow> None)
          else None
      | _ \<Rightarrow> None)"

lemma bracedVar_shorter: "bracedVar s = Some t \<Longrightarrow> length t < length s"
proof (unfold bracedVar_def, cases s rule: list.exhaust, simp)
  fix d s' assume "s = d # s'"
  then show "(case s of
        d # b # n # rest \<Rightarrow>
          if d = CHR ''$'' \<and> b = CHR ''{'' \<and> isNameStart n then
            (case dropWhile isNameChar rest of
               e # after \<Rightarrow> if e = CHR ''}'' then Some after else None
             | [] \<Rightarrow> None)
          else None
      | _ \<Rightarrow> None) = Some t \<Longrightarrow> length t < length s"
    using length_dropWhile_le [of isNameChar "tl (tl s')"]
    by (auto split: list.splits if_splits)
qed

function removeBracedVars :: "string \<Rightarrow> string" where
  "removeBracedVars [] = []"
| "removeBracedVars (c # s) =
     (case bracedVar (c # s) of
        Some rest \<Rightarrow> removeBracedVars rest
      | None \<Rightarrow> c # removeBracedVars s)"
  by pat_completeness auto
termination
  by (relation "measure length") (auto dest: bracedVar_shorter)

text \<open>The keys by decreasing length; keys of one length in the order of the map.\<close>

definition applyEnv :: "string \<Rightarrow> envMap \<Rightarrow> string" where
  "applyEnv cmd envs =
     (let keys = sort_slice (\<lambda>a b. length a > length b) (map fst envs);
          cmd = foldl (\<lambda>cmd k. let v = the (map_of envs k) in
                  replace_all (replace_all cmd (''${'' @ k @ ''}'') v) (''$'' @ k) v) cmd keys
      in trim_space (removePlainVars (removeBracedVars cmd)))"

text \<open>\<open>reSpaces\<close> replaced by one blank: its white space is the ASCII one.\<close>

definition isReSpace :: "char \<Rightarrow> bool" where
  "isReSpace c \<longleftrightarrow> c \<in> {CHR 0x09, CHR 0x0A, CHR 0x0C, CHR 0x0D, CHR '' ''}"

function collapseSpaces :: "string \<Rightarrow> string" where
  "collapseSpaces [] = []"
| "collapseSpaces (c # s) =
     (if isReSpace c then CHR '' '' # collapseSpaces (dropWhile isReSpace s) else c # collapseSpaces s)"
  by pat_completeness auto
termination
proof (relation "measure length")
  fix c :: char and s :: string
  show "(dropWhile isReSpace s, c # s) \<in> measure length"
    using length_dropWhile_le [of isReSpace s] by simp
qed simp_all

definition sanitizeExec :: "string \<Rightarrow> string \<Rightarrow> string" where
  "sanitizeExec name cmd = trim_space (collapseSpaces (trim_space (collapseSpaces (trim_space cmd))))"

definition appendCmdExtra :: "string \<Rightarrow> string list \<Rightarrow> string" where
  "appendCmdExtra cmd extras = trim_space (foldl (\<lambda>cmd extra.
     let extra = trim_space extra in
     if extra = '''' then cmd else if cmd = '''' then extra else cmd @ '' '' @ extra) (trim_space cmd) extras)"

definition dinitQuoteRune :: "string \<Rightarrow> string" where
  "dinitQuoteRune r =
     (if r \<in> {[CHR 0x5C], [CHR 0x22], [CHR '' ''], [CHR 0x09], [CHR 0x0A], [CHR ''#'']} then CHR 0x5C # r else r)"

definition dinitQuote :: "string \<Rightarrow> string" where
  "dinitQuote s = (if s = '''' then [CHR 0x22, CHR 0x22] else concat (map dinitQuoteRune (runes s)))"

definition buildEnvPrefix :: "envMap \<Rightarrow> string" where
  "buildEnvPrefix envs =
     (if envs = [] then ''''
      else ''/usr/bin/env '' @
        join '' '' (map (\<lambda>k. k @ ''='' @ dinitQuote (the (map_of envs k))) (sort (map fst envs))) @ '' '')"

definition joinExecStarts :: "string list \<Rightarrow> string" where
  "joinExecStarts cmds =
     (case cmds of
        [] \<Rightarrow> ''/usr/bin/true''
      | [cmd] \<Rightarrow> cmd
      | _ \<Rightarrow> ''/bin/sh -c '' @ [CHR 0x27] @ join '' && '' cmds @ [CHR 0x27])"

definition isEnvAssignment :: "string \<Rightarrow> bool" where
  "isEnvAssignment f \<longleftrightarrow> f \<noteq> [] \<and> isNameStart (hd f) \<and> has_prefix (dropWhile isNameChar f) ''=''"

text \<open>
  The cutset is a raw string literal: a double quote, a single quote, a backslash, the letter
  \<open>t\<close> and a blank.
\<close>

definition parseInlineEnv :: "string \<Rightarrow> envMap" where
  "parseInlineEnv line = foldl (\<lambda>env f.
     if isEnvAssignment f then
       (case cut f CHR ''='' of
          Some (k, v) \<Rightarrow> AList.update k (trim_set v [CHR 0x22, CHR 0x27, CHR 0x5C, CHR ''t'', CHR '' '']) env
        | None \<Rightarrow> env)
     else env) [] (str_fields line)"

definition mergedServiceEnv :: "config \<Rightarrow> host \<Rightarrow> unitFile \<Rightarrow> envMap" where
  "mergedServiceEnv C H u =
     (let env = (if userMode C then mergeEnv [] (userSessionEnvDefaults C H) else []);
          env = mergeEnv env (loadEnvFiles H (uEnvironmentFile u));
          env = foldl (\<lambda>env line. mergeEnv env (parseInlineEnv line)) env (uEnvironment u)
      in AList.delete ''LISTEN_PID'' (AList.delete ''LISTEN_FDS'' (AList.delete ''NOTIFY_SOCKET'' env)))"

definition compileExecStart :: "unitFile \<Rightarrow> envMap \<Rightarrow> string" where
  "compileExecStart u envs =
     (let execStarts = (case uExecStart u of
            [] \<Rightarrow> []
          | c # cs \<Rightarrow> if uCmdExtraAppend u \<noteq> [] then appendCmdExtra c (uCmdExtraAppend u) # cs else c # cs)
      in sanitizeExec (uName u) (applyEnv (joinExecStarts execStarts) envs))"

definition compileExecStop :: "unitFile \<Rightarrow> envMap \<Rightarrow> string" where
  "compileExecStop u envs =
     (if uExecStop u = '''' then '''' else sanitizeExec (uName u) (applyEnv (uExecStop u) envs))"

definition compileExecReload :: "unitFile \<Rightarrow> envMap \<Rightarrow> string" where
  "compileExecReload u envs =
     (if uExecReload u = '''' then '''' else sanitizeExec (uName u) (applyEnv (uExecReload u) envs))"

definition normalizeSignalName :: "string \<Rightarrow> string" where
  "normalizeSignalName raw =
     (let raw = trim_space raw in if raw = '''' then '''' else trim_prefix (to_upper raw) ''SIG'')"


subsection \<open>Words\<close>

definition isWord :: "string \<Rightarrow> bool" where
  "isWord w \<longleftrightarrow> w \<noteq> [] \<and> (\<forall>i < length w. space_at (drop i w) = 0)"

lemma fields_from_words:
  assumes "\<forall>i < length cur. space_at (drop i cur @ s) = 0"
  shows "list_all isWord (fields_from cur s)"
  using assms
proof (induction cur s rule: fields_from.induct)
  case (1 cur s)
  have word: "cur \<noteq> [] \<Longrightarrow> isWord cur"
    using "1.prems" space_at_prefix by (auto simp: isWord_def)
  show ?case
  proof (cases "s = []")
    case True
    then show ?thesis using word by (subst fields_from.simps) simp
  next
    case ne: False
    show ?thesis
    proof (cases "space_at s = 0")
      case True
      have "\<forall>i < length (cur @ [hd s]). space_at (drop i (cur @ [hd s]) @ tl s) = 0"
        using "1.prems" True ne by (auto simp: less_Suc_eq)
      from "1.IH"(1) [OF ne refl True this] ne True show ?thesis
        by (subst fields_from.simps) (simp add: Let_def)
    next
      case False
      from "1.IH"(2) [OF ne refl False] word ne False show ?thesis
        by (subst fields_from.simps) (simp add: Let_def)
    qed
  qed
qed

lemma str_fields_words: "list_all isWord (str_fields s)"
  unfolding str_fields_def by (rule fields_from_words) simp

subsection \<open>What a parsed unit looks like\<close>

definition wordFields :: "unitFile \<Rightarrow> string list" where
  "wordFields u = uRequires u @ uWants u @ uBefore u @ uAfter u @ uBindsTo u @ uPartOf u @
     uRuntimeDirectory u @ uStateDirectory u @ uLogsDirectory u"

definition lineInv :: "string \<Rightarrow> string \<Rightarrow> unitFile \<Rightarrow> bool" where
  "lineInv name path u \<longleftrightarrow> uName u = name \<and> uSourcePath u = path \<and> list_all isWord (wordFields u) \<and>
     (uReadyFD u = 0 \<or> 3 \<le> uReadyFD u \<and> uReadyFD u \<le> 1023)"

lemma lineInv_empty: "lineInv name path (emptyUnit name path)"
  by (simp add: lineInv_def emptyUnit_def wordFields_def)

lemma lineInv_fields:
  assumes "lineInv name path u" "uName u' = uName u" "uSourcePath u' = uSourcePath u"
    and "wordFields u' = wordFields u" "uReadyFD u' = uReadyFD u"
  shows "lineInv name path u'"
  using assms by (simp add: lineInv_def)

lemma setUnitKey_inv: "lineInv name path u \<Longrightarrow> lineInv name path (setUnitKey k v u)"
  using str_fields_words [of v] by (auto simp: lineInv_def setUnitKey_def wordFields_def)

lemma if_resultE: "(if b then r else s) = Inr x \<Longrightarrow> (r = Inr x \<Longrightarrow> P) \<Longrightarrow> (s = Inr x \<Longrightarrow> P) \<Longrightarrow> P"
  by (cases b) auto

lemma setServiceKey_inv:
  assumes "lineInv name path u" "setServiceKey C H target k v u = Inr u'"
  shows "lineInv name path u'"
  using assms(2) unfolding setServiceKey_def
  by (elim if_resultE)
    (insert assms(1) str_fields_words [of v], auto simp: lineInv_def wordFields_def split: option.splits if_splits)

text \<open>What every key of the lines keeps, the loop over the lines keeps.\<close>

definition keyValues :: "string list \<Rightarrow> (string \<times> string) list" where
  "keyValues lines = concat (map (\<lambda>l. case matchKeyValue (trim_space l) of None \<Rightarrow> [] | Some kv \<Rightarrow> [kv]) lines)"

lemma parseLines_keyValues:
  assumes "parseLines setKey sect lines u = Inr u'" "P u" "set (keyValues lines) \<subseteq> K"
    and step: "\<And>sect k v u u'. (k, v) \<in> K \<Longrightarrow> P u \<Longrightarrow> setKey sect k v u = Inr u' \<Longrightarrow> P u'"
  shows "P u'"
  using assms(1-3)
proof (induction lines arbitrary: sect u)
  case (Cons rawLine rest)
  have rest: "set (keyValues rest) \<subseteq> K" using Cons.prems(3) by (auto simp: keyValues_def)
  let ?line = "trim_space rawLine"
  consider (skip) sect' where "parseLines setKey sect' rest u = Inr u'"
    | (key) k v u1 where "matchKeyValue ?line = Some (k, v)" "setKey sect k v u = Inr u1" "parseLines setKey sect rest u1 = Inr u'"
    using Cons.prems(1) by (auto simp: Let_def bind_err_Inr_iff split: if_splits option.splits)
  then show ?case
  proof cases
    case skip
    then show ?thesis using Cons.IH Cons.prems(2) rest by blast
  next
    case key
    then have "(k, v) \<in> K" using Cons.prems(3) by (simp add: keyValues_def)
    from step [OF this Cons.prems(2) key(2)] Cons.IH [OF key(3) _ rest] show ?thesis by blast
  qed
qed simp

lemma parseLines_inv:
  assumes "parseLines setKey sect lines u = Inr u'" "P u"
    and "\<And>sect k v u u'. P u \<Longrightarrow> setKey sect k v u = Inr u' \<Longrightarrow> P u'"
  shows "P u'"
  by (rule parseLines_keyValues [where P = P, OF assms(1,2) subset_UNIV]) (rule assms(3))

lemma setKeyOfUnit_inv:
  "lineInv name path u \<Longrightarrow> setKeyOfUnit C H target sect k v u = Inr u' \<Longrightarrow> lineInv name path u'"
  using setUnitKey_inv setServiceKey_inv by (fastforce simp: setKeyOfUnit_def split: if_splits)

lemma setKeyOfExtra_inv:
  assumes "lineInv name path u" "setKeyOfExtra sect k v u = Inr u'"
  shows "lineInv name path u'"
proof -
  have "lineInv name path (u\<lparr>uCmdExtraAppend := xs\<rparr>)" for xs
    using assms(1) by (simp add: lineInv_def wordFields_def)
  with assms show ?thesis by (auto simp: setKeyOfExtra_def split: if_splits)
qed

lemma applyUnitExtra_inv:
  assumes "lineInv name path u"
  shows "lineInv name path (applyUnitExtra C H u)"
proof -
  have "lineInv name path u'" if "parseLines setKeyOfExtra '''' lines u = Inr u'" for lines u'
    using that assms by (rule parseLines_inv [where P = "lineInv name path"]) (rule setKeyOfExtra_inv)
  with assms show ?thesis by (simp add: applyUnitExtra_def split: sum.split)
qed

lemma parseUnitAs_cases:
  assumes "parseUnitAs C H name resolved = Inr u"
  obtains target path where "target = (if has_suffix resolved ''.service'' then resolved else resolved @ ''.service'')"
    and "findUnitPath C H target = Some path" "lineInv (trim_suffix target ''.service'') path u"
    and "uReadyFD u \<noteq> 0 \<Longrightarrow> equal_fold (uType u) ''notify'' \<and> uBusName u = ''''"
proof -
  define target where "target = (if has_suffix resolved ''.service'' then resolved else resolved @ ''.service'')"
  from assms obtain path where path: "findUnitPath C H target = Some path"
    by (auto simp: parseUnitAs_def Let_def target_def split: option.splits)
  from assms obtain lines u0 where parsed: "parseLines (setKeyOfUnit C H target) '''' lines
        (emptyUnit (trim_suffix target ''.service'') path) = Inr u0"
    and u: "u = applyUnitExtra C H u0"
    and ready: "uReadyFD u \<noteq> 0 \<Longrightarrow> equal_fold (uType u) ''notify'' \<and> uBusName u = ''''"
    unfolding parseUnitAs_def target_def [symmetric]
    by (auto simp: Let_def path bind_err_Inr_iff split: if_splits)
  have "lineInv (trim_suffix target ''.service'') path u0"
    using parsed lineInv_empty
    by (rule parseLines_inv [where P = "lineInv (trim_suffix target ''.service'') path"]) (rule setKeyOfUnit_inv)
  then have "lineInv (trim_suffix target ''.service'') path u"
    by (simp add: u applyUnitExtra_inv)
  with target_def path ready show thesis using that by blast
qed

text \<open>The dependencies of a unit are words of its file.\<close>

definition fileWords :: "string \<Rightarrow> string set" where
  "fileWords data = (\<Union>(k, v) \<in> set (keyValues (splitUnitLines data)). set (str_fields v))"

lemma finite_fileWords: "finite (fileWords data)"
  by (auto simp: fileWords_def)

definition dependencyFields :: "unitFile \<Rightarrow> string list" where
  "dependencyFields u = uRequires u @ uWants u @ uBefore u @ uAfter u @ uBindsTo u @ uPartOf u"

lemma setUnitKey_dependencies: "set (dependencyFields (setUnitKey k v u)) \<subseteq> set (dependencyFields u) \<union> set (str_fields v)"
  by (auto simp: setUnitKey_def dependencyFields_def)

lemma setServiceKey_dependencies:
  "setServiceKey C H target k v u = Inr u' \<Longrightarrow> dependencyFields u' = dependencyFields u"
  unfolding setServiceKey_def
  by (elim if_resultE) (auto simp: dependencyFields_def split: option.splits if_splits)

lemma setKeyOfUnit_dependencies:
  "setKeyOfUnit C H target sect k v u = Inr u' \<Longrightarrow> set (dependencyFields u') \<subseteq> set (dependencyFields u) \<union> set (str_fields v)"
  using setUnitKey_dependencies [of k v u] setServiceKey_dependencies [of C H target k v u u']
  by (auto simp: setKeyOfUnit_def split: if_splits)

lemma setKeyOfExtra_dependencies: "setKeyOfExtra sect k v u = Inr u' \<Longrightarrow> dependencyFields u' = dependencyFields u"
proof -
  have "dependencyFields (u\<lparr>uCmdExtraAppend := xs\<rparr>) = dependencyFields u" for xs
    by (simp add: dependencyFields_def)
  then show "setKeyOfExtra sect k v u = Inr u' \<Longrightarrow> dependencyFields u' = dependencyFields u"
    by (auto simp: setKeyOfExtra_def split: if_splits)
qed

lemma applyUnitExtra_dependencies: "dependencyFields (applyUnitExtra C H u) = dependencyFields u"
proof -
  have "dependencyFields u' = dependencyFields u" if "parseLines setKeyOfExtra '''' lines u = Inr u'" for lines u'
    using that by (rule parseLines_inv [where P = "\<lambda>x. dependencyFields x = dependencyFields u"])
      (simp_all add: setKeyOfExtra_dependencies)
  then show ?thesis by (simp add: applyUnitExtra_def split: sum.split)
qed

lemma parsed_dependencies:
  assumes "parseUnitAs C H name resolved = Inr u"
  shows "\<exists>path data. hStat H path \<and> hReadFile H path = Inr data \<and> set (dependencyFields u) \<subseteq> fileWords data"
proof -
  define target where "target = (if has_suffix resolved ''.service'' then resolved else resolved @ ''.service'')"
  from assms obtain path where path: "findUnitPath C H target = Some path"
    by (auto simp: parseUnitAs_def Let_def target_def split: option.splits)
  from assms obtain data u0 where data: "hReadFile H path = Inr data"
    and parsed: "parseLines (setKeyOfUnit C H target) '''' (splitUnitLines data) (emptyUnit (trim_suffix target ''.service'') path) = Inr u0"
    and u: "u = applyUnitExtra C H u0"
    unfolding parseUnitAs_def target_def [symmetric]
    by (auto simp: Let_def path bind_err_Inr_iff readUnitLines_def split: if_splits sum.splits)
  have "set (dependencyFields (emptyUnit n p)) \<subseteq> fileWords data" for n p
    by (simp add: dependencyFields_def emptyUnit_def)
  with parsed have "set (dependencyFields u0) \<subseteq> fileWords data"
  proof (rule parseLines_keyValues [where P = "\<lambda>x. set (dependencyFields x) \<subseteq> fileWords data", OF _ _ subset_refl])
    fix sect k v x x'
    assume "(k, v) \<in> set (keyValues (splitUnitLines data))" "set (dependencyFields x) \<subseteq> fileWords data"
      "setKeyOfUnit C H target sect k v x = Inr x'"
    moreover from this(1) have "set (str_fields v) \<subseteq> fileWords data" by (auto simp: fileWords_def)
    ultimately show "set (dependencyFields x') \<subseteq> fileWords data" using setKeyOfUnit_dependencies by blast
  qed
  moreover from path have "hStat H path" unfolding findUnitPath_def by (auto simp: find_Some_iff)
  ultimately show ?thesis using data by (auto simp: u applyUnitExtra_dependencies)
qed

lemma find_Some_map: "find P (map f xs) = Some y \<Longrightarrow> \<exists>x \<in> set xs. y = f x \<and> P y"
  by (induction xs) (auto split: if_splits)

text \<open>
  Property C30. A unit that \<open>parseSystemdUnit\<close> returns is well formed: its readiness descriptor is
  absent or lies between 3 and 1023, in which case the unit is of type notify and has no bus name;
  every dependency and every directory entry is a non-empty word without white space; and it was
  read from an existing file of that name in one of the configured directories.
\<close>

theorem parsed_unit_well_formed:
  assumes "parseSystemdUnit C H name = Inr u"
  shows "(uReadyFD u = 0 \<or> 3 \<le> uReadyFD u \<and> uReadyFD u \<le> 1023 \<and> equal_fold (uType u) ''notify'' \<and> uBusName u = '''') \<and>
    list_all isWord (wordFields u) \<and>
    (\<exists>dir. dir \<in> set (cfgSystemdPaths C) \<and> uSourcePath u = path_join [dir, uName u @ ''.service''] \<and> hStat H (uSourcePath u))"
proof -
  from assms obtain target path
    where target: "target = (if has_suffix (resolveUnitAlias C H name) ''.service'' then resolveUnitAlias C H name
        else resolveUnitAlias C H name @ ''.service'')"
      and path: "findUnitPath C H target = Some path" and inv: "lineInv (trim_suffix target ''.service'') path u"
      and ready: "uReadyFD u \<noteq> 0 \<Longrightarrow> equal_fold (uType u) ''notify'' \<and> uBusName u = ''''"
    unfolding parseSystemdUnit_def by (rule parseUnitAs_cases) blast
  have "has_suffix target ''.service''" by (simp add: target)
  then have full: "trim_suffix target ''.service'' @ ''.service'' = target" by (rule trim_suffix_restore)
  from path have "\<exists>dir \<in> set (cfgSystemdPaths C). path = path_join [dir, target] \<and> hStat H path"
    unfolding findUnitPath_def by (rule find_Some_map)
  moreover from inv have "uName u @ ''.service'' = target" "uSourcePath u = path"
    by (simp_all only: lineInv_def full)
  ultimately show ?thesis using inv ready by (auto simp: lineInv_def simp del: path_join.simps)
qed


text \<open>A host with one notify unit that announces its readiness on descriptor 5.\<close>

definition demoUnitText :: string where
  "demoUnitText = join [CHR 0x0A] [''[Unit]'', ''Requires=db.service '' @ [CHR 0x5C], ''  net.service'', ''[Service]'', ''Type=notify'',
     ''ExecStart=-/bin/foo $A'', ''X-Servicectl-ReadyFD=5'', ''Environment=A=true'', '''']"

definition demoHost :: host where
  "demoHost = \<lparr>hGetenv = (\<lambda>_. ''''), hCurrentUser = None, hStat = (\<lambda>p. p = ''/lib/systemd/system/foo.service''),
     hReadFile = (\<lambda>p. if p = ''/lib/systemd/system/foo.service'' then Inr demoUnitText else Inl ''no such file'')\<rparr>"

definition demoUnit :: unitFile where
  "demoUnit = (emptyUnit ''foo'' ''/lib/systemd/system/foo.service'')
     \<lparr>uRequires := [''db.service'', ''net.service''], uType := ''notify'', uExecStart := [''/bin/foo $A''],
      uReadyFD := 5, uEnvironment := [''A=true'']\<rparr>"

lemma demo_parse: "parseSystemdUnit (initConfig demoHost) demoHost ''foo.service'' = Inr demoUnit"
  by code_simp

theorem parsed_unit_well_formed_witness:
  "(uReadyFD demoUnit = 0 \<or> 3 \<le> uReadyFD demoUnit \<and> uReadyFD demoUnit \<le> 1023 \<and> equal_fold (uType demoUnit) ''notify'' \<and> uBusName demoUnit = '''') \<and>
    list_all isWord (wordFields demoUnit) \<and>
    (\<exists>dir. dir \<in> set (cfgSystemdPaths (initConfig demoHost)) \<and> uSourcePath demoUnit = path_join [dir, uName demoUnit @ ''.service''] \<and>
      hStat demoHost (uSourcePath demoUnit))"
  by (rule parsed_unit_well_formed [OF demo_parse])


subsection \<open>The environment of a service\<close>

text \<open>
  Fact. In user mode without \<open>XDG_RUNTIME_DIR\<close> the configuration that \<open>main\<close> builds keeps
  the managed runtime directory below \<open>/run\<close>, although \<open>runtimeDir\<close> under that very
  configuration is \<open>~/.local/run\<close>: \<open>buildConfig\<close> consults the mode of the configuration it
  replaces.
\<close>

theorem user_runtime_dir_is_system_wide:
  assumes "hGetenv H ''XDG_RUNTIME_DIR'' = ''''" "hGetenv H ''HOME'' = ''/home/a''"
  shows "cfgManagedRuntimeDir (buildConfig (initConfig H) H True) = ''/run/servicectl/managed'' \<and>
    runtimeDir (buildConfig (initConfig H) H True) H = ''/home/a/.local/run''"
proof -
  have "path_join [''/run'', ''servicectl/managed''] = ''/run/servicectl/managed''"
    and "path_join [''/home/a'', ''.local'', ''run''] = ''/home/a/.local/run''"
    by code_simp+
  with assms show ?thesis
    by (simp add: buildConfig_def initConfig_def runtimeDir_def userMode_def Let_def del: path_join.simps)
qed

theorem user_runtime_dir_is_system_wide_witness:
  "cfgManagedRuntimeDir (buildConfig (initConfig (demoHost\<lparr>hGetenv := (\<lambda>_. '''')(''HOME'' := ''/home/a'')\<rparr>))
      (demoHost\<lparr>hGetenv := (\<lambda>_. '''')(''HOME'' := ''/home/a'')\<rparr>) True) = ''/run/servicectl/managed'' \<and>
    runtimeDir (buildConfig (initConfig (demoHost\<lparr>hGetenv := (\<lambda>_. '''')(''HOME'' := ''/home/a'')\<rparr>))
      (demoHost\<lparr>hGetenv := (\<lambda>_. '''')(''HOME'' := ''/home/a'')\<rparr>) True)
      (demoHost\<lparr>hGetenv := (\<lambda>_. '''')(''HOME'' := ''/home/a'')\<rparr>) = ''/home/a/.local/run''"
  by (rule user_runtime_dir_is_system_wide) simp_all

lemma map_of_mergeEnv: "distinct (map fst extra) \<Longrightarrow> map_of (mergeEnv env extra) = map_of env ++ map_of extra"
  unfolding mergeEnv_def
proof (induction extra arbitrary: env)
  case (Cons e extra)
  obtain k v where e: "e = (k, v)" by fastforce
  from Cons have "map_of (foldl (\<lambda>m (k, v). AList.update k v m) (AList.update k v env) extra) = map_of (AList.update k v env) ++ map_of extra"
    by simp
  moreover from Cons.prems have "k \<notin> dom (map_of extra)" by (simp add: e dom_map_of_conv_image_fst)
  ultimately show ?case by (auto simp: e update_conv' fun_eq_iff map_add_def dom_def split: option.split)
qed simp

lemma distinct_update_fold:
  "(\<And>m x. distinct (map fst m) \<Longrightarrow> distinct (map fst (f m x))) \<Longrightarrow> distinct (map fst m) \<Longrightarrow> distinct (map fst (foldl f m xs))"
  by (induction xs arbitrary: m) auto

lemma distinct_mergeEnv: "distinct (map fst env) \<Longrightarrow> distinct (map fst (mergeEnv env extra))"
  unfolding mergeEnv_def by (rule distinct_update_fold) (auto simp: distinct_update split: prod.splits)

lemma distinct_loadEnvFiles: "distinct (map fst (loadEnvFiles H paths))"
  unfolding loadEnvFiles_def
  by (rule distinct_update_fold)
    (auto simp: envLine_def Let_def distinct_update split: sum.split option.split intro!: distinct_update_fold)

lemma distinct_parseInlineEnv: "distinct (map fst (parseInlineEnv line))"
  unfolding parseInlineEnv_def
  by (rule distinct_update_fold) (auto simp: distinct_update split: option.split)

definition blockedKeys :: "string list" where
  "blockedKeys = [''NOTIFY_SOCKET'', ''LISTEN_FDS'', ''LISTEN_PID'']"

text \<open>
  Fact. The environment of a service has every key once and never passes on
  \<open>NOTIFY_SOCKET\<close>, \<open>LISTEN_FDS\<close> or \<open>LISTEN_PID\<close>; for every other key the last
  \<open>Environment=\<close> line that assigns it decides, before the environment files and the defaults of
  the user's session.
\<close>

theorem mergedServiceEnv_layers:
  "distinct (map fst (mergedServiceEnv C H u)) \<and>
   map_of (mergedServiceEnv C H u) = (\<lambda>k. if k \<in> set blockedKeys then None else
     (foldl (++) ((if userMode C then map_of (mergeEnv [] (userSessionEnvDefaults C H)) else Map.empty) ++ map_of (loadEnvFiles H (uEnvironmentFile u)))
       (map (\<lambda>line. map_of (parseInlineEnv line)) (uEnvironment u))) k)"
proof -
  define env0 where "env0 = mergeEnv (if userMode C then mergeEnv [] (userSessionEnvDefaults C H) else []) (loadEnvFiles H (uEnvironmentFile u))"
  define env where "env = foldl (\<lambda>env line. mergeEnv env (parseInlineEnv line)) env0 (uEnvironment u)"
  have d0: "distinct (map fst env0)" unfolding env0_def by (rule distinct_mergeEnv) (simp add: distinct_mergeEnv)
  have d: "distinct (map fst env)"
    unfolding env_def by (rule distinct_update_fold [OF distinct_mergeEnv d0])
  have m: "map_of (foldl (\<lambda>env line. mergeEnv env (parseInlineEnv line)) e ls) = foldl (++) (map_of e) (map (\<lambda>line. map_of (parseInlineEnv line)) ls)" for e ls
    by (induction ls arbitrary: e) (simp_all add: map_of_mergeEnv distinct_parseInlineEnv)
  have e: "mergedServiceEnv C H u = AList.delete ''LISTEN_PID'' (AList.delete ''LISTEN_FDS'' (AList.delete ''NOTIFY_SOCKET'' env))"
    by (simp only: mergedServiceEnv_def Let_def env_def env0_def)
  have dd: "distinct (map fst (mergedServiceEnv C H u))"
    unfolding e by (intro distinct_delete d)
  have "map_of env = foldl (++) (map_of env0) (map (\<lambda>line. map_of (parseInlineEnv line)) (uEnvironment u))"
    unfolding env_def by (rule m)
  moreover have "map_of env0 = (if userMode C then map_of (mergeEnv [] (userSessionEnvDefaults C H)) else Map.empty) ++ map_of (loadEnvFiles H (uEnvironmentFile u))"
    by (simp add: env0_def map_of_mergeEnv distinct_loadEnvFiles)
  moreover have "map_of (mergedServiceEnv C H u) = (\<lambda>k. if k \<in> set blockedKeys then None else map_of env k)"
    by (auto simp: e delete_conv' blockedKeys_def fun_eq_iff)
  ultimately show ?thesis by (intro conjI dd) (simp only:)
qed

text \<open>
  Fact. An inline \<open>Environment=\<close> value loses a leading or trailing letter \<open>t\<close> and
  backslash, which the same assignment in an environment file keeps.
\<close>

theorem inline_environment_strips_letters:
  "map_of (parseInlineEnv ''DEBUG=true'') ''DEBUG'' = Some ''rue'' \<and>
   map_of (envLine [] ''DEBUG=true'') ''DEBUG'' = Some ''true''"
  by code_simp


subsection \<open>Quoting for dinit\<close>

text \<open>
  The reference for the quoting: how dinit splits a command line, as the comment of
  \<open>dinitQuote\<close> describes it. A backslash takes the next byte literally, double quotes protect
  white space, single quotes mean nothing. The second argument is the token read so far.
\<close>

fun dinitTokens :: "bool \<Rightarrow> string option \<Rightarrow> string \<Rightarrow> string list" where
  "dinitTokens quoted cur [] = (case cur of None \<Rightarrow> [] | Some w \<Rightarrow> [w])"
| "dinitTokens quoted cur (c # s) =
     (let w = (case cur of None \<Rightarrow> [] | Some w \<Rightarrow> w) in
      if c = CHR 0x5C then (case s of [] \<Rightarrow> [w] | d # t \<Rightarrow> dinitTokens quoted (Some (w @ [d])) t)
      else if c = CHR 0x22 then dinitTokens (\<not> quoted) (Some w) s
      else if \<not> quoted \<and> c \<in> {CHR '' '', CHR 0x09, CHR 0x0A} then
        (case cur of None \<Rightarrow> [] | Some w \<Rightarrow> [w]) @ dinitTokens quoted None s
      else dinitTokens quoted (Some (w @ [c])) s)"

definition dinitSpecial :: "char \<Rightarrow> bool" where
  "dinitSpecial c \<longleftrightarrow> c \<in> {CHR 0x5C, CHR 0x22, CHR '' '', CHR 0x09, CHR 0x0A, CHR ''#''}"

lemma dinitTokens_plain:
  "list_all (\<lambda>c. \<not> dinitSpecial c) s \<Longrightarrow> dinitTokens False (Some w) (s @ t) = dinitTokens False (Some (w @ s)) t"
  by (induction s arbitrary: w) (auto simp: dinitSpecial_def)

lemma dinitQuoteRune_tokens:
  assumes "r \<in> set (runes s)"
  shows "dinitTokens False (Some w) (dinitQuoteRune r @ t) = dinitTokens False (Some (w @ r)) t"
proof (cases "\<exists>c. r = [c] \<and> dinitSpecial c")
  case True
  then obtain c where "r = [c]" "dinitSpecial c" by blast
  then show ?thesis by (simp add: dinitQuoteRune_def dinitSpecial_def)
next
  case False
  then have "dinitQuoteRune r = r" by (auto simp: dinitQuoteRune_def dinitSpecial_def)
  moreover have "list_all (\<lambda>c. \<not> dinitSpecial c) r"
  proof (cases "\<exists>c. r = [c]")
    case True
    with False show ?thesis by auto
  next
    case multi: False
    with runes_bytes [OF assms] have "\<forall>c \<in> set r. 128 \<le> (of_char c :: nat)" by blast
    then show ?thesis by (auto simp: list_all_iff dinitSpecial_def)
  qed
  ultimately show ?thesis by (simp add: dinitTokens_plain)
qed

lemma dinitQuote_tokens:
  assumes "valid_utf8 v"
  shows "dinitTokens False (Some w) (dinitQuote v @ t) = dinitTokens False (Some (w @ v)) t"
proof (cases "v = []")
  case False
  have "set rs \<subseteq> set (runes v) \<Longrightarrow>
      dinitTokens False (Some w) (concat (map dinitQuoteRune rs) @ t) = dinitTokens False (Some (w @ concat rs)) t" for rs w
  proof (induction rs arbitrary: w)
    case (Cons r rs)
    then show ?case using dinitQuoteRune_tokens [of r v w] by simp
  qed simp
  from this [of "runes v" w] False concat_runes [OF assms] show ?thesis by (simp add: dinitQuote_def)
qed (simp add: dinitQuote_def)

definition plainKey :: "string \<Rightarrow> bool" where
  "plainKey k \<longleftrightarrow> k \<noteq> [] \<and> list_all (\<lambda>c. \<not> dinitSpecial c) k"

lemma dinitTokens_word_start:
  "s \<noteq> [] \<Longrightarrow> list_all (\<lambda>c. \<not> dinitSpecial c) s \<Longrightarrow> dinitTokens False None (s @ t) = dinitTokens False (Some s) t"
  using dinitTokens_plain [of "tl s" "[hd s]" t] by (cases s) (auto simp: dinitSpecial_def)

lemma dinitTokens_assignment:
  assumes "plainKey k" "valid_utf8 v"
  shows "dinitTokens False None ((k @ ''='' @ dinitQuote v) @ '' '' @ t) = (k @ ''='' @ v) # dinitTokens False None t"
proof -
  have "dinitTokens False None ((k @ ''='') @ dinitQuote v @ '' '' @ t) = dinitTokens False (Some (k @ ''='')) (dinitQuote v @ '' '' @ t)"
    using assms(1) by (intro dinitTokens_word_start) (auto simp: plainKey_def dinitSpecial_def)
  also have "\<dots> = (k @ ''='' @ v) # dinitTokens False None t"
    by (simp add: dinitQuote_tokens [OF assms(2)])
  finally show ?thesis by simp
qed

lemma dinitTokens_assignments:
  assumes "ks \<noteq> []" "\<forall>k \<in> set ks. plainKey k \<and> valid_utf8 (f k)"
  shows "dinitTokens False None (join '' '' (map (\<lambda>k. k @ ''='' @ dinitQuote (f k)) ks) @ '' '' @ t) =
    map (\<lambda>k. k @ ''='' @ f k) ks @ dinitTokens False None t"
  using assms
proof (induction ks)
  case (Cons k ks)
  show ?case
  proof (cases "ks = []")
    case True
    with Cons.prems dinitTokens_assignment [of k "f k" t] show ?thesis by simp
  next
    case False
    let ?rest = "join '' '' (map (\<lambda>k. k @ ''='' @ dinitQuote (f k)) ks)"
    have "join '' '' (map (\<lambda>k. k @ ''='' @ dinitQuote (f k)) (k # ks)) @ '' '' @ t =
        (k @ ''='' @ dinitQuote (f k)) @ '' '' @ (?rest @ '' '' @ t)"
      using False by (simp add: join_Cons)
    then have "dinitTokens False None (join '' '' (map (\<lambda>k. k @ ''='' @ dinitQuote (f k)) (k # ks)) @ '' '' @ t) =
        (k @ ''='' @ f k) # dinitTokens False None (?rest @ '' '' @ t)"
      using Cons.prems dinitTokens_assignment [of k "f k" "?rest @ '' '' @ t"] by (simp only:) simp
    with Cons False show ?thesis by simp
  qed
qed simp

text \<open>
  Fact. The command prefix that sets the environment survives dinit's splitting: it is read
  as \<open>/usr/bin/env\<close> followed by exactly one argument \<open>key=value\<close> per variable, in the order of
  the keys, whatever blanks, quotes, backslashes or hashes the values contain; the command behind it
  is split as if it stood alone.
\<close>

theorem env_prefix_tokens:
  assumes "list_all (\<lambda>(k, v). plainKey k \<and> valid_utf8 v) envs"
  shows "dinitTokens False None (buildEnvPrefix envs @ cmd) =
    (if envs = [] then [] else ''/usr/bin/env'' # renderEnv envs) @ dinitTokens False None cmd"
proof (cases "envs = []")
  case False
  let ?keys = "sort (map fst envs)" and ?f = "\<lambda>k. the (map_of envs k)"
  have "plainKey k \<and> valid_utf8 (?f k)" if "k \<in> set ?keys" for k
  proof -
    from that obtain v where v: "map_of envs k = Some v"
      by (metis (no_types, lifting) map_of_eq_None_iff not_None_eq set_map set_sort)
    then have "(k, v) \<in> set envs" by (rule map_of_SomeD)
    with assms v show ?thesis by (auto simp: list_all_iff)
  qed
  moreover have "?keys \<noteq> []" using False by (metis Nil_is_map_conv length_0_conv length_sort)
  ultimately have body: "dinitTokens False None (join '' '' (map (\<lambda>k. k @ ''='' @ dinitQuote (?f k)) ?keys) @ '' '' @ cmd) =
      renderEnv envs @ dinitTokens False None cmd"
    unfolding renderEnv_def by (intro dinitTokens_assignments) auto
  have "dinitTokens False None (''/usr/bin/env'' @ '' '' @ t) = ''/usr/bin/env'' # dinitTokens False None t" for t
    by (subst dinitTokens_word_start) (auto simp: dinitSpecial_def)
  with body False show ?thesis by (simp only: buildEnvPrefix_def append_assoc) simp
qed (simp add: buildEnvPrefix_def)

theorem env_prefix_tokens_witness:
  "dinitTokens False None (buildEnvPrefix [(''NAME'', ''a # b''), (''A'', '''')] @ ''/bin/foo -x'') =
    (if [(''NAME'', ''a # b''), (''A'', '''')] = [] then [] else ''/usr/bin/env'' # renderEnv [(''NAME'', ''a # b''), (''A'', '''')]) @
      dinitTokens False None ''/bin/foo -x''"
  by (rule env_prefix_tokens) code_simp


subsection \<open>Continuation lines\<close>

text \<open>A line written over several raw lines: all but the last end in a blank and a backslash.\<close>

definition rawLines :: "string list \<Rightarrow> string list" where
  "rawLines ps = map (\<lambda>p. p @ [CHR '' '', CHR 0x5C]) (butlast ps) @ [last ps]"

definition plainPiece :: "string \<Rightarrow> bool" where
  "plainPiece p \<longleftrightarrow> p \<noteq> [] \<and> CHR 0x0A \<notin> set p \<and> CHR 0x0D \<notin> set p \<and>
     last p \<notin> {CHR '' '', CHR 0x09, CHR 0x5C}"

lemma lineStep_last:
  assumes "plainPiece p"
  shows "lineStep (finished, cur) p = (finished @ [(if cur \<noteq> [] then cur @ '' '' else cur) @ p], [])"
proof -
  have "\<not> has_suffix p [CHR 0x5C]" using assms by (auto simp: plainPiece_def has_suffix_iff)
  then show ?thesis
    using assms by (simp add: lineStep_def plainPiece_def trim_right_set_stop trim_suffix_none Let_def)
qed

lemma lineStep_continued:
  assumes "plainPiece p"
  shows "lineStep (finished, cur) (p @ [CHR '' '', CHR 0x5C]) = (finished, (if cur \<noteq> [] then cur @ '' '' else cur) @ p)"
proof -
  have "trim_right_set (p @ [CHR '' '', CHR 0x5C]) [CHR '' '', CHR 0x09] = (p @ '' '') @ [CHR 0x5C]"
    using trim_right_set_stop [of "p @ [CHR '' '', CHR 0x5C]" "[CHR '' '', CHR 0x09]"] by simp
  moreover have "trim_right_set (p @ '' '') [CHR '' '', CHR 0x09] = p"
    using assms by (intro trim_right_set_more) (auto simp: plainPiece_def)
  ultimately show ?thesis
    unfolding lineStep_def Let_def prod.case by (simp only: has_suffix_append trim_suffix_append if_True)
qed

lemma foldl_rawLines:
  assumes "ps \<noteq> []" "list_all plainPiece ps"
  shows "foldl lineStep (finished, cur) (rawLines ps) =
    (finished @ [(if cur \<noteq> [] then cur @ '' '' else cur) @ join '' '' ps], [])"
  using assms
proof (induction ps arbitrary: cur)
  case (Cons p ps)
  show ?case
  proof (cases "ps = []")
    case True
    with Cons.prems show ?thesis by (simp add: rawLines_def lineStep_last)
  next
    case False
    have "rawLines (p # ps) = (p @ [CHR '' '', CHR 0x5C]) # rawLines ps" using False by (simp add: rawLines_def)
    moreover have "p \<noteq> []" using Cons.prems by (simp add: plainPiece_def)
    ultimately show ?thesis
      using Cons False by (simp add: lineStep_continued join_Cons)
  qed
qed simp

lemma foldl_rawLines_all:
  "list_all (\<lambda>ps. ps \<noteq> [] \<and> list_all plainPiece ps) lss \<Longrightarrow>
    foldl lineStep (finished, []) (concat (map rawLines lss)) = (finished @ map (join '' '') lss, [])"
  by (induction lss arbitrary: finished) (simp_all add: foldl_rawLines)

lemma replace_all_absent: "c \<notin> set s \<Longrightarrow> replace_all s (c # old) new = s"
proof (induction s)
  case Nil
  show ?case by (subst replace_all.simps) simp
next
  case (Cons x s)
  then show ?case by (subst replace_all.simps) (auto simp: has_prefix_def)
qed

text \<open>
  Fact. Continuation lines are joined as written: a file whose logical lines are broken into
  pieces, each piece but the last followed by a blank and a backslash, is read as the list of the
  logical lines, the pieces of each separated by one blank.
\<close>

theorem continuation_lines_joined:
  assumes "lss \<noteq> []" "list_all (\<lambda>ps. ps \<noteq> [] \<and> list_all plainPiece ps) lss"
  shows "splitUnitLines (join [CHR 0x0A] (concat (map rawLines lss))) = map (join '' '') lss"
proof -
  let ?raw = "concat (map rawLines lss)"
  have clean: "CHR 0x0A \<notin> set l \<and> CHR 0x0D \<notin> set l" if "l \<in> set ?raw" for l
  proof -
    from that obtain ps where "ps \<in> set lss" "l \<in> set (rawLines ps)" by auto
    moreover from this assms(2) have "ps \<noteq> []" "list_all plainPiece ps" by (auto simp: list_all_iff)
    ultimately show ?thesis
      by (auto simp: rawLines_def list_all_iff plainPiece_def dest: in_set_butlastD)
  qed
  from assms have ne: "?raw \<noteq> []" by (cases lss) (auto simp: rawLines_def)
  have "CHR 0x0D \<notin> set (join [CHR 0x0A] ls)" if "\<forall>l \<in> set ls. CHR 0x0D \<notin> set l" for ls
    using that by (induction "[CHR 0x0A]" ls rule: join.induct) auto
  with clean have "CHR 0x0D \<notin> set (join [CHR 0x0A] ?raw)" by blast
  then have "replace_all (join [CHR 0x0A] ?raw) [CHR 0x0D, CHR 0x0A] [CHR 0x0A] = join [CHR 0x0A] ?raw"
    by (rule replace_all_absent)
  moreover have "split_on CHR 0x0A (join [CHR 0x0A] ?raw) = ?raw"
    using clean ne by (intro split_on_join) auto
  ultimately show ?thesis using foldl_rawLines_all [OF assms(2), of "[]"] by (simp add: splitUnitLines_def)
qed

theorem continuation_lines_joined_witness:
  "splitUnitLines (join [CHR 0x0A] (concat (map rawLines [[''[Unit]''], [''Requires=a'', ''b'', ''c'']]))) =
    map (join '' '') [[''[Unit]''], [''Requires=a'', ''b'', ''c'']]"
  by (rule continuation_lines_joined) (simp_all add: plainPiece_def)


end
