(* ===== verification/Vision_Api.thy ===== *)
theory Vision_Api
  imports Go_Path
begin

text \<open>
  The vocabulary the daemons share (\<open>src/internal/visionapi/types.go\<close>): planes and socket paths,
  event envelopes and the filter of a watch.

  The environment variables and the caller's UID are a record \<open>plane_env\<close>; the clock is an argument.
  A payload is an association list.
\<close>

abbreviation SystemRuntimeDir :: string where "SystemRuntimeDir \<equiv> ''/run/servicectl''"
abbreviation SystemServicectlSockName :: string where "SystemServicectlSockName \<equiv> ''servicectl.sock''"
abbreviation SystemServicectlEventsName :: string where "SystemServicectlEventsName \<equiv> ''servicectl-events.sock''"
abbreviation SystemPropertySockName :: string where "SystemPropertySockName \<equiv> ''sys-propertyd.sock''"
abbreviation SystemSysvisionSockName :: string where "SystemSysvisionSockName \<equiv> ''sysvisiond.sock''"
abbreviation SysvisionDirName :: string where "SysvisionDirName \<equiv> ''sysvision''"
abbreviation SysvisionIngressSockName :: string where "SysvisionIngressSockName \<equiv> ''events.sock''"
abbreviation SourceServicectl :: string where "SourceServicectl \<equiv> ''servicectl''"
abbreviation SourceSysNotifyd :: string where "SourceSysNotifyd \<equiv> ''sys-notifyd''"
abbreviation SourceSysOrchestrd :: string where "SourceSysOrchestrd \<equiv> ''sys-orchestrd''"
abbreviation SourceSysPropertyd :: string where "SourceSysPropertyd \<equiv> ''sys-propertyd''"
abbreviation KindUnitOrchestration :: string where "KindUnitOrchestration \<equiv> ''unit.orchestration''"
abbreviation KindPropertyChanged :: string where "KindPropertyChanged \<equiv> ''property.changed''"
abbreviation KindGroupChanged :: string where "KindGroupChanged \<equiv> ''group.changed''"

subsection \<open>Planes and paths\<close>

record plane_env =
  peUserRoot :: string
  peSystemRoot :: string
  peUID :: nat

record plane =
  plMode :: string
  plRuntimeDir :: string

definition RuntimeDir :: "plane_env \<Rightarrow> bool \<Rightarrow> string" where
  "RuntimeDir E user =
     (if user \<and> trim_space (peUserRoot E) \<noteq> '''' then trim_space (peUserRoot E)
      else if \<not> user \<and> trim_space (peSystemRoot E) \<noteq> '''' then trim_space (peSystemRoot E)
      else if user then path_join [''/run/user'', utoa (peUID E), ''servicectl'']
      else SystemRuntimeDir)"

definition RuntimeDirForUID :: "nat \<Rightarrow> string" where
  "RuntimeDirForUID uid = path_join [''/run/user'', utoa uid, ''servicectl'']"

definition SystemPlane :: "plane_env \<Rightarrow> plane" where
  "SystemPlane E = \<lparr>plMode = ''system'', plRuntimeDir = RuntimeDir E False\<rparr>"

definition UserPlane :: "plane_env \<Rightarrow> plane" where
  "UserPlane E = \<lparr>plMode = ''user'', plRuntimeDir = RuntimeDir E True\<rparr>"

definition PlaneForMode :: "plane_env \<Rightarrow> string \<Rightarrow> plane" where
  "PlaneForMode E mode = (if equal_fold (trim_space mode) ''user'' then UserPlane E else SystemPlane E)"

definition ModeForUser :: "bool \<Rightarrow> string" where
  "ModeForUser user = (if user then ''user'' else ''system'')"

definition ServicectlSocketPath :: "plane_env \<Rightarrow> bool \<Rightarrow> string" where
  "ServicectlSocketPath E user = path_join [RuntimeDir E user, SystemServicectlSockName]"

definition ServicectlSocketPathForMode :: "plane_env \<Rightarrow> string \<Rightarrow> string" where
  "ServicectlSocketPathForMode E mode = path_join [plRuntimeDir (PlaneForMode E mode), SystemServicectlSockName]"

definition ServicectlSocketPathForUID :: "nat \<Rightarrow> string" where
  "ServicectlSocketPathForUID uid = path_join [RuntimeDirForUID uid, SystemServicectlSockName]"

definition ServicectlEventsSocketPath :: "plane_env \<Rightarrow> bool \<Rightarrow> string" where
  "ServicectlEventsSocketPath E user = path_join [RuntimeDir E user, SystemServicectlEventsName]"

definition ServicectlEventsSocketPathForMode :: "plane_env \<Rightarrow> string \<Rightarrow> string" where
  "ServicectlEventsSocketPathForMode E mode = path_join [plRuntimeDir (PlaneForMode E mode), SystemServicectlEventsName]"

definition ServicectlEventsSocketPathForUID :: "nat \<Rightarrow> string" where
  "ServicectlEventsSocketPathForUID uid = path_join [RuntimeDirForUID uid, SystemServicectlEventsName]"

text \<open>There is one property daemon: its socket is the one of the system plane in both modes.\<close>

definition PropertySocketPath :: "plane_env \<Rightarrow> bool \<Rightarrow> string" where
  "PropertySocketPath E user = path_join [RuntimeDir E False, SystemPropertySockName]"

definition PropertySocketPathForMode :: "plane_env \<Rightarrow> string \<Rightarrow> string" where
  "PropertySocketPathForMode E mode = path_join [RuntimeDir E False, SystemPropertySockName]"

definition SysvisionDir :: "plane_env \<Rightarrow> bool \<Rightarrow> string" where
  "SysvisionDir E user = path_join [RuntimeDir E user, SysvisionDirName]"

definition SysvisionDirForMode :: "plane_env \<Rightarrow> string \<Rightarrow> string" where
  "SysvisionDirForMode E mode = path_join [plRuntimeDir (PlaneForMode E mode), SysvisionDirName]"

definition SysvisionSocketPath :: "plane_env \<Rightarrow> bool \<Rightarrow> string" where
  "SysvisionSocketPath E user = path_join [SysvisionDir E user, SystemSysvisionSockName]"

definition SysvisionSocketPathForMode :: "plane_env \<Rightarrow> string \<Rightarrow> string" where
  "SysvisionSocketPathForMode E mode = path_join [SysvisionDirForMode E mode, SystemSysvisionSockName]"

definition SysvisionSocketPathForUID :: "nat \<Rightarrow> string" where
  "SysvisionSocketPathForUID uid = path_join [RuntimeDirForUID uid, SysvisionDirName, SystemSysvisionSockName]"

definition SysvisionIngressSocketPath :: "plane_env \<Rightarrow> bool \<Rightarrow> string" where
  "SysvisionIngressSocketPath E user = path_join [SysvisionDir E user, SysvisionIngressSockName]"

definition SysvisionIngressSocketPathForMode :: "plane_env \<Rightarrow> string \<Rightarrow> string" where
  "SysvisionIngressSocketPathForMode E mode = path_join [SysvisionDirForMode E mode, SysvisionIngressSockName]"

subsection \<open>Events\<close>

type_synonym payload = "(string \<times> string) list"

text \<open>Reading a key that is not in the map gives the empty string.\<close>

definition payloadGet :: "payload \<Rightarrow> string \<Rightarrow> string" where
  "payloadGet p k = (case map_of p k of Some v \<Rightarrow> v | None \<Rightarrow> '''')"

record envelope =
  evSource :: string
  evKind :: string
  evMode :: string
  evUnit :: string
  evTarget :: string
  evTimestamp :: string
  evPayload :: payload
  evUID :: nat
  evEpoch :: string
  evGeneration :: nat

record watchFilter =
  wfSource :: string
  wfKind :: string
  wfMode :: string
  wfUnit :: string
  wfGroup :: string
  wfKey :: string
  wfUID :: "nat option"

definition Matches :: "watchFilter \<Rightarrow> envelope \<Rightarrow> bool" where
  "Matches f e \<longleftrightarrow>
     (if wfSource f \<noteq> '''' \<and> wfSource f \<noteq> evSource e then False
      else if wfKind f \<noteq> '''' \<and> wfKind f \<noteq> evKind e then False
      else if wfMode f \<noteq> '''' \<and> \<not> equal_fold (trim_space (wfMode f)) (trim_space (evMode e)) then False
      else if (case wfUID f of Some uid \<Rightarrow> uid \<noteq> evUID e | None \<Rightarrow> False) then False
      else if wfGroup f \<noteq> '''' \<and> trim_space (wfGroup f) \<noteq> trim_space (payloadGet (evPayload e) ''group'') then False
      else if wfKey f \<noteq> '''' \<and> trim_space (wfKey f) \<noteq> trim_space (payloadGet (evPayload e) ''key'') then False
      else if wfUnit f = '''' then True
      else trim_suffix (wfUnit f) ''.service'' = trim_suffix (evUnit e) ''.service'')"

definition NewEvent :: "plane_env \<Rightarrow> string \<Rightarrow> string \<Rightarrow> string \<Rightarrow> string \<Rightarrow> string \<Rightarrow> payload \<Rightarrow> envelope" where
  "NewEvent E now mode source kind unit p =
     (let cleanUnit = trim_suffix (trim_space unit) ''.service'';
          cleanUnit = (if cleanUnit \<noteq> '''' then cleanUnit @ ''.service'' else cleanUnit)
      in \<lparr>evSource = source, evKind = kind, evMode = plMode (PlaneForMode E mode), evUnit = cleanUnit, evTarget = '''',
          evTimestamp = now, evPayload = p, evUID = 0, evEpoch = '''', evGeneration = 0\<rparr>)"

subsection \<open>Small helpers shared by the binaries\<close>

definition YesNo :: "bool \<Rightarrow> string" where
  "YesNo b = (if b then ''yes'' else ''no'')"

definition FirstNonEmpty :: "string list \<Rightarrow> string" where
  "FirstNonEmpty values =
     (case find (\<lambda>v. v \<noteq> '''') (map trim_space values) of Some v \<Rightarrow> v | None \<Rightarrow> '''')"

definition JournalIdentifier :: "string \<Rightarrow> string" where
  "JournalIdentifier serviceName =
     (let clean = trim_suffix (trim_space serviceName) ''.service''
      in ''servicectl['' @ (if clean = '''' then ''service'' else clean) @ '']'')"

definition ExternalManagedValueEnabled :: "string \<Rightarrow> bool" where
  "ExternalManagedValueEnabled value \<longleftrightarrow> trim_space (to_lower value) \<in> {''1'', ''true'', ''yes'', ''on''}"

definition SanitizeS6Name :: "string \<Rightarrow> string \<Rightarrow> string" where
  "SanitizeS6Name value fallback =
     (let clean = trim_set (map (\<lambda>c. if c \<in> set ''/.: '' then CHR ''-'' else c) (trim_space value)) ''-''
      in if clean = '''' then fallback else clean)"

end
