(* ===== verification/Service_Dag.thy ===== *)
theory Service_Dag
  imports Unit_Parse Vision_Api
begin

text \<open>
  The dependency graph of the enabled services (\<open>src/enabled_dag.go\<close>), the start order of a group
  (\<open>src/group_order.go\<close>) and the dependency lists of a unit (\<open>src/deps.go\<close>).

  \<open>depsByNode\<close> is an association list from a service to the distinct services it depends on;
  iteration over it is always followed by a sort or builds a set, so its order does not matter. The
  local \<open>seenNode\<close> of \<open>buildEnabledServiceDAG\<close> holds exactly the members of \<open>nodes\<close>, and its
  queue is equal to \<open>nodes\<close>: both are written by \<open>markNode\<close> only. The worklist loop is a
  \<open>partial_function\<close>, because nothing in the code bounds it; the depth-first searches carry the
  depth of the recursion as fuel.
\<close>

subsection \<open>Names\<close>

definition normalizeServiceUnitName :: "config \<Rightarrow> host \<Rightarrow> string \<Rightarrow> string" where
  "normalizeServiceUnitName C H raw =
     (let value = trim_space raw in
      if value = '''' then ''''
      else if has_suffix value ''.target'' \<or> has_suffix value ''.socket'' then ''''
      else let value = trim_suffix (resolveUnitAlias C H (trim_suffix value ''.service'')) ''.service'' in
        if value = '''' then '''' else value @ ''.service'')"

definition s6OrchestrdServiceName :: "config \<Rightarrow> host \<Rightarrow> string \<Rightarrow> string" where
  "s6OrchestrdServiceName C H unitName = trim_suffix (resolveUnitAlias C H unitName) ''.service'' @ ''-orchestrd''"

definition s6GroupOrchestrdServiceName :: "string \<Rightarrow> string" where
  "s6GroupOrchestrdServiceName grp = ''group-'' @ SanitizeS6Name grp ''group'' @ ''-orchestrd''"

definition uniqueLinesPreserveOrder :: "string \<Rightarrow> string list" where
  "uniqueLinesPreserveOrder content = foldl (\<lambda>entries raw.
     let line = trim_space raw in
     if line = '''' \<or> line \<in> set entries then entries else entries @ [line]) [] (split_on CHR 0x0A content)"

subsection \<open>The graph\<close>

record enabledRootSet =
  ersStandalone :: "string list"
  ersGroups :: "(string \<times> string list) list"

record serviceDAG =
  dagNodes :: "string list"
  dagDeps :: "(string \<times> string list) list"
  dagHint :: "(string \<times> nat) list"
  dagOwner :: "(string \<times> string) list"

datatype dag_error =
    LookupFailed unit_error
  | CycleDetected string
  | GroupNotFound string

definition emptyDAG :: serviceDAG where
  "emptyDAG = \<lparr>dagNodes = [], dagDeps = [], dagHint = [], dagOwner = []\<rparr>"

definition markNode :: "string \<Rightarrow> serviceDAG \<Rightarrow> serviceDAG" where
  "markNode name g = (if name = '''' \<or> name \<in> set (dagNodes g) then g else g\<lparr>dagNodes := dagNodes g @ [name]\<rparr>)"

text \<open>\<open>orderCounter\<close> counts the entries of \<open>orderHint\<close>.\<close>

definition hintNode :: "string \<Rightarrow> serviceDAG \<Rightarrow> serviceDAG" where
  "hintNode name g =
     (case map_of (dagHint g) name of
        Some _ \<Rightarrow> g
      | None \<Rightarrow> g\<lparr>dagHint := dagHint g @ [(name, length (dagHint g))]\<rparr>)"

definition addStandalone :: "config \<Rightarrow> host \<Rightarrow> serviceDAG \<Rightarrow> string \<Rightarrow> serviceDAG" where
  "addStandalone C H g raw =
     (let service = normalizeServiceUnitName C H raw in
      if service = '''' then g
      else let g = hintNode service g;
               g = g\<lparr>dagOwner := AList.update service (s6OrchestrdServiceName C H service) (dagOwner g)\<rparr>
           in markNode service g)"

definition addGroupUnit :: "config \<Rightarrow> host \<Rightarrow> string \<Rightarrow> serviceDAG \<Rightarrow> string \<Rightarrow> serviceDAG" where
  "addGroupUnit C H owner g raw =
     (let service = normalizeServiceUnitName C H raw in
      if service = '''' then g
      else let g = hintNode service g;
               g = (case map_of (dagOwner g) service of
                      None \<Rightarrow> g\<lparr>dagOwner := AList.update service owner (dagOwner g)\<rparr>
                    | Some _ \<Rightarrow> g)
           in markNode service g)"

definition rootDAG :: "config \<Rightarrow> host \<Rightarrow> enabledRootSet \<Rightarrow> serviceDAG" where
  "rootDAG C H roots =
     foldl (\<lambda>g grp. foldl (addGroupUnit C H (s6GroupOrchestrdServiceName grp)) g (the (map_of (ersGroups roots) grp)))
       (foldl (addStandalone C H) emptyDAG (ersStandalone roots))
       (sort (map fst (ersGroups roots)))"

definition looseDependencies :: "unitFile \<Rightarrow> string list" where
  "looseDependencies u = uRequires u @ uWants u @ uAfter u @ uBindsTo u @ uPartOf u"

definition isUnitNotFoundError :: "unit_error \<Rightarrow> bool" where
  "isUnitNotFoundError e \<longleftrightarrow> contains (to_lower (trim_space (unitErrorText e))) ''not found''"

definition depsOf :: "serviceDAG \<Rightarrow> string \<Rightarrow> string list" where
  "depsOf g name = (case map_of (dagDeps g) name of None \<Rightarrow> [] | Some ds \<Rightarrow> ds)"

definition addDependency :: "config \<Rightarrow> host \<Rightarrow> string \<Rightarrow> serviceDAG \<Rightarrow> string \<Rightarrow> serviceDAG" where
  "addDependency C H name g depRaw =
     (let dep = normalizeServiceUnitName C H depRaw in
      if dep = '''' \<or> dep = name then g
      else markNode dep (hintNode dep
        (g\<lparr>dagDeps := AList.update name (List.insert dep (depsOf g name)) (dagDeps g)\<rparr>)))"

type_synonym unitLookup = "string \<Rightarrow> unit_error + unitFile option"

definition visitNode :: "config \<Rightarrow> host \<Rightarrow> unitLookup \<Rightarrow> string \<Rightarrow> serviceDAG \<Rightarrow> dag_error + serviceDAG" where
  "visitNode C H lookup name g =
     (case lookup name of
        Inl err \<Rightarrow> if isUnitNotFoundError err then Inr g else Inl (LookupFailed err)
      | Inr None \<Rightarrow> Inr g
      | Inr (Some u) \<Rightarrow>
          let deps = looseDependencies u in
          if deps = [] then Inr g
          else Inr (foldl (addDependency C H name)
            (g\<lparr>dagDeps := AList.update name (depsOf g name) (dagDeps g)\<rparr>) deps))"

partial_function (option) visitQueue :: "config \<Rightarrow> host \<Rightarrow> unitLookup \<Rightarrow> nat \<Rightarrow> serviceDAG \<Rightarrow> (dag_error + serviceDAG) option" where
  "visitQueue C H lookup idx g =
     (if idx < length (dagNodes g) then
        (case visitNode C H lookup (dagNodes g ! idx) g of
           Inl e \<Rightarrow> Some (Inl e)
         | Inr g' \<Rightarrow> visitQueue C H lookup (Suc idx) g')
      else Some (Inr g))"

definition buildEnabledServiceDAG :: "config \<Rightarrow> host \<Rightarrow> enabledRootSet \<Rightarrow> unitLookup \<Rightarrow> (dag_error + serviceDAG) option" where
  "buildEnabledServiceDAG C H roots lookup = visitQueue C H lookup 0 (rootDAG C H roots)"

definition lookupSystemdUnitForDAG :: "config \<Rightarrow> host \<Rightarrow> unitLookup" where
  "lookupSystemdUnitForDAG C H name =
     (case parseSystemdUnit C H (trim_suffix (normalizeServiceUnitName C H name) ''.service'') of
        Inl e \<Rightarrow> Inl e | Inr u \<Rightarrow> Inr (Some u))"

definition OwnerOf :: "config \<Rightarrow> host \<Rightarrow> serviceDAG \<Rightarrow> string \<Rightarrow> string" where
  "OwnerOf C H g unit =
     (case map_of (dagOwner g) (normalizeServiceUnitName C H unit) of None \<Rightarrow> '''' | Some owner \<Rightarrow> owner)"

subsection \<open>Topological order\<close>

definition compareByHint :: "(string \<times> nat) list \<Rightarrow> string \<Rightarrow> string \<Rightarrow> int" where
  "compareByHint hint a b =
     (case (map_of hint a, map_of hint b) of
        (Some ha, Some hb) \<Rightarrow>
          if ha \<noteq> hb then (if ha < hb then -1 else 1)
          else if a < b then -1 else if a > b then 1 else 0
      | _ \<Rightarrow> if a < b then -1 else if a > b then 1 else 0)"

definition sortByHint :: "serviceDAG \<Rightarrow> string list \<Rightarrow> string list" where
  "sortByHint g names = sort_slice (\<lambda>a b. compareByHint (dagHint g) a b < 0) names"

record topoState =
  tsMark :: "string \<Rightarrow> nat"
  tsResult :: "string list"

fun topoVisit :: "nat \<Rightarrow> serviceDAG \<Rightarrow> string \<Rightarrow> topoState \<Rightarrow> (dag_error + topoState) option"
  and topoVisitAll :: "nat \<Rightarrow> serviceDAG \<Rightarrow> string list \<Rightarrow> topoState \<Rightarrow> (dag_error + topoState) option" where
  "topoVisit 0 g name st = None"
| "topoVisit (Suc fuel) g name st =
     (if tsMark st name = 2 then Some (Inr st)
      else if tsMark st name = 1 then Some (Inl (CycleDetected name))
      else case topoVisitAll fuel g (sortByHint g (depsOf g name)) (st\<lparr>tsMark := (tsMark st)(name := 1)\<rparr>) of
        None \<Rightarrow> None
      | Some (Inl e) \<Rightarrow> Some (Inl e)
      | Some (Inr st') \<Rightarrow> Some (Inr (st'\<lparr>tsMark := (tsMark st')(name := 2), tsResult := tsResult st' @ [name]\<rparr>)))"
| "topoVisitAll fuel g [] st = Some (Inr st)"
| "topoVisitAll fuel g (d # ds) st =
     (case topoVisit fuel g d st of
        None \<Rightarrow> None
      | Some (Inl e) \<Rightarrow> Some (Inl e)
      | Some (Inr st') \<Rightarrow> topoVisitAll fuel g ds st')"

definition topoServices :: "nat \<Rightarrow> serviceDAG \<Rightarrow> (dag_error + string list) option" where
  "topoServices fuel g =
     (case topoVisitAll fuel g (sortByHint g (dagNodes g)) \<lparr>tsMark = (\<lambda>_. 0), tsResult = []\<rparr> of
        None \<Rightarrow> None
      | Some (Inl e) \<Rightarrow> Some (Inl e)
      | Some (Inr st) \<Rightarrow> Some (Inr (uniqueLinesPreserveOrder (join [CHR 0x0A] (tsResult st)))))"

text \<open>No path through the graph is longer than the number of its nodes.\<close>

definition TopologicalServices :: "serviceDAG \<Rightarrow> (dag_error + string list) option" where
  "TopologicalServices g = topoServices (Suc (length (dagNodes g))) g"

subsection \<open>Dependencies between orchestrators\<close>

definition ProjectOrchestrdDependencies :: "serviceDAG \<Rightarrow> (string \<times> string list) list" where
  "ProjectOrchestrdDependencies g =
     (let owner = (\<lambda>s. case map_of (dagOwner g) s of None \<Rightarrow> '''' | Some x \<Rightarrow> x);
          result = foldl (\<lambda>m (_, x). if trim_space x = '''' then m else AList.map_default x [] id m) [] (dagOwner g)
      in foldl (\<lambda>m (service, deps).
           let sourceOwner = owner service in
           if sourceOwner = '''' then m
           else foldl (\<lambda>m dep. let depOwner = owner dep in
                  if depOwner = '''' \<or> depOwner = sourceOwner then m
                  else AList.map_default sourceOwner [depOwner] (List.insert depOwner) m)
                (AList.map_default sourceOwner [] id m) deps) result (dagDeps g))"

subsection \<open>Groups\<close>

definition appendNew :: "string list \<Rightarrow> string \<Rightarrow> string list" where
  "appendNew result name = (if name = '''' \<or> name \<in> set result then result else result @ [name])"

text \<open>
  \<open>resolveGroupStartOrder\<close> with the answer of the property daemon and the enabled roots as arguments.
\<close>

definition resolveGroupStartOrder :: "config \<Rightarrow> host \<Rightarrow> enabledRootSet \<Rightarrow> (string \<Rightarrow> string list option) \<Rightarrow> string \<Rightarrow> (dag_error + string list) option" where
  "resolveGroupStartOrder C H roots queryGroupState grp =
     (case queryGroupState grp of
        None \<Rightarrow> Some (Inl (GroupNotFound grp))
      | Some units \<Rightarrow>
          let groupSet = filter (\<lambda>n. n \<noteq> '''') (map (normalizeServiceUnitName C H) units) in
          (case buildEnabledServiceDAG C H roots (lookupSystemdUnitForDAG C H) of
             None \<Rightarrow> None
           | Some (Inl e) \<Rightarrow> Some (Inl e)
           | Some (Inr graph) \<Rightarrow>
               (case TopologicalServices graph of
                  None \<Rightarrow> None
                | Some (Inl e) \<Rightarrow> Some (Inl e)
                | Some (Inr order) \<Rightarrow>
                    let result = foldl (\<lambda>r name. if name \<in> set groupSet \<and> name \<notin> set r then r @ [name] else r) [] order
                    in Some (Inr (foldl appendNew result (map (normalizeServiceUnitName C H) units))))))"

definition enabledRootSetFromCurrentState ::
    "config \<Rightarrow> host \<Rightarrow> string list \<Rightarrow> string list \<Rightarrow> (string \<Rightarrow> string list option) \<Rightarrow> enabledRootSet" where
  "enabledRootSetFromCurrentState C H standalone groupNames queryGroupState =
     \<lparr>ersStandalone = standalone,
      ersGroups = foldl (\<lambda>m grp. case queryGroupState grp of
          None \<Rightarrow> m
        | Some units \<Rightarrow>
            let units = filter (\<lambda>n. n \<noteq> '''') (map (normalizeServiceUnitName C H) units) in
            if units = [] then m else AList.update grp (uniqueLinesPreserveOrder (join [CHR 0x0A] units)) m) [] groupNames\<rparr>"

subsection \<open>Dependency lists of a unit\<close>

definition includeDependencyName :: "string \<Rightarrow> bool" where
  "includeDependencyName dep \<longleftrightarrow>
     (let clean = trim_space dep in clean \<noteq> '''' \<and> \<not> has_suffix clean ''.target'' \<and> \<not> has_suffix clean ''.socket'')"

definition cleanDependencies :: "string list \<Rightarrow> string list" where
  "cleanDependencies names = foldl (\<lambda>deps dep.
     let clean = trim_space dep in
     if \<not> includeDependencyName clean \<or> clean \<in> set deps then deps else deps @ [clean]) [] names"

definition hardStartDependencies :: "unitFile \<Rightarrow> string list" where
  "hardStartDependencies u = cleanDependencies (uRequires u @ uBindsTo u @ uPartOf u)"

definition degradableStartDependencies :: "unitFile \<Rightarrow> string list" where
  "degradableStartDependencies u = cleanDependencies (uWants u @ uAfter u)"

definition formatList :: "string list \<Rightarrow> string" where
  "formatList values =
     (let filtered = filter (\<lambda>v. v \<noteq> '''') (map trim_space values)
      in if filtered = [] then ''-'' else join '', '' filtered)"

definition normalizeServiceName :: "config \<Rightarrow> host \<Rightarrow> string \<Rightarrow> string" where
  "normalizeServiceName C H name =
     (let clean = trim_suffix (trim_space name) ''.service'' in
      if clean = '''' then '''' else trim_suffix (resolveUnitAlias C H clean) ''.service'')"

text \<open>\<open>readDir\<close> gives the entries of a directory, each with the flag \<open>IsDir\<close>.\<close>

definition listServiceUnitNames :: "config \<Rightarrow> host \<Rightarrow> (string \<Rightarrow> (string \<times> bool) list option) \<Rightarrow> string list" where
  "listServiceUnitNames C H readDir = sort (foldl (\<lambda>units dir.
     case readDir dir of
       None \<Rightarrow> units
     | Some entries \<Rightarrow> foldl (\<lambda>units (entry, isDir).
         if isDir \<or> \<not> has_suffix entry ''.service'' then units
         else appendNew units (normalizeServiceName C H entry)) units entries) [] (cfgSystemdPaths C))"

definition reverseRestartDependencies :: "config \<Rightarrow> host \<Rightarrow> unitFile \<Rightarrow> string list" where
  "reverseRestartDependencies C H u = foldl (\<lambda>deps dep.
     let name = normalizeServiceName C H dep in
     if name = '''' \<or> \<not> includeDependencyName name \<or> name \<in> set deps then deps else deps @ [name]) []
     (uRequires u @ uBindsTo u @ uPartOf u)"

text \<open>The started units that name a given unit in a hard dependency, by name.\<close>

definition dependentsOf :: "config \<Rightarrow> host \<Rightarrow> string list \<Rightarrow> string \<Rightarrow> string \<Rightarrow> string list" where
  "dependentsOf C H candidates target dep = sort (filter (\<lambda>candidate. candidate \<noteq> target \<and>
     (case parseSystemdUnit C H candidate of
        Inl _ \<Rightarrow> False
      | Inr u \<Rightarrow> dep \<in> set (reverseRestartDependencies C H u))) candidates)"

text \<open>The recursion visits each dependent once; the state is the visited units and the order.\<close>

fun closureVisit :: "nat \<Rightarrow> (string \<Rightarrow> string list) \<Rightarrow> (string \<Rightarrow> bool) \<Rightarrow> string list \<Rightarrow> string list \<times> string list \<Rightarrow> (string list \<times> string list) option" where
  "closureVisit fuel dependents started [] (visited, order) = Some (visited, order)"
| "closureVisit 0 dependents started (d # ds) (visited, order) = None"
| "closureVisit (Suc fuel) dependents started (d # ds) (visited, order) =
     (if d \<in> set visited \<or> \<not> started d then closureVisit (Suc fuel) dependents started ds (visited, order)
      else case closureVisit fuel dependents started (dependents d) (visited @ [d], order) of
        None \<Rightarrow> None
      | Some (visited, order) \<Rightarrow> closureVisit (Suc fuel) dependents started ds (visited, order @ [d]))"

definition reverseRestartClosure :: "config \<Rightarrow> host \<Rightarrow> (string \<Rightarrow> (string \<times> bool) list option) \<Rightarrow> (string \<Rightarrow> bool) \<Rightarrow> string \<Rightarrow> string list option" where
  "reverseRestartClosure C H readDir isUnitStarted unitName =
     (let target = normalizeServiceName C H unitName;
          candidates = listServiceUnitNames C H readDir;
          dependents = dependentsOf C H candidates target
      in map_option snd (closureVisit (Suc (length candidates)) dependents isUnitStarted (dependents target) ([], [])))"

definition reverseStrings :: "string list \<Rightarrow> string list" where
  "reverseStrings values = map (\<lambda>i. values ! (length values - 1 - i)) [0..<length values]"

subsection \<open>Depth-first search\<close>

definition depRel :: "serviceDAG \<Rightarrow> (string \<times> string) set" where
  "depRel g = {(n, d). d \<in> set (depsOf g n)}"

text \<open>Every name stands behind all its dependencies.\<close>

definition depsFirst :: "serviceDAG \<Rightarrow> string list \<Rightarrow> bool" where
  "depsFirst g xs \<longleftrightarrow> (\<forall>ys x zs. xs = ys @ x # zs \<longrightarrow> set (depsOf g x) \<subseteq> set ys)"

lemma depsFirst_Nil [simp]: "depsFirst g []"
  by (simp add: depsFirst_def)

lemma depsFirst_snoc: "depsFirst g (xs @ [x]) \<longleftrightarrow> depsFirst g xs \<and> set (depsOf g x) \<subseteq> set xs"
proof
  assume first: "depsFirst g (xs @ [x])"
  have "set (depsOf g y) \<subseteq> set ys" if "xs = ys @ y # zs" for ys y zs
    using first that by (auto simp: depsFirst_def)
  with first show "depsFirst g xs \<and> set (depsOf g x) \<subseteq> set xs" by (auto simp: depsFirst_def)
next
  assume asm: "depsFirst g xs \<and> set (depsOf g x) \<subseteq> set xs"
  have "set (depsOf g y) \<subseteq> set ys" if "xs @ [x] = ys @ y # zs" for ys y zs
    using asm that by (cases zs rule: rev_cases) (auto simp: depsFirst_def)
  then show "depsFirst g (xs @ [x])" by (simp add: depsFirst_def)
qed

lemma depsFirst_closed: "(x, y) \<in> (depRel g)\<^sup>+ \<Longrightarrow> depsFirst g xs \<Longrightarrow> xs = ys @ x # zs \<Longrightarrow> y \<in> set ys"
proof (induction arbitrary: ys zs rule: trancl_induct)
  case (base y)
  then show ?case by (auto simp: depsFirst_def depRel_def)
next
  case (step y z)
  then have "y \<in> set ys" by blast
  then obtain as bs where ys: "ys = as @ y # bs" by (meson split_list)
  with step.prems have "xs = as @ y # (bs @ x # zs)" by simp
  with step.prems(1) step.hyps(2) have "z \<in> set as" by (auto simp: depsFirst_def depRel_def)
  with ys show ?case by simp
qed

lemma depsFirst_acyclic:
  assumes "depsFirst g xs" "distinct xs" "x \<in> set xs"
  shows "(x, x) \<notin> (depRel g)\<^sup>+"
proof
  assume "(x, x) \<in> (depRel g)\<^sup>+"
  moreover from assms(3) obtain ys zs where "xs = ys @ x # zs" by (meson split_list)
  ultimately have "x \<in> set ys" "xs = ys @ x # zs" using depsFirst_closed assms(1) by blast+
  with assms(2) show False by simp
qed

definition topoInv :: "serviceDAG \<Rightarrow> topoState \<Rightarrow> bool" where
  "topoInv g st \<longleftrightarrow> {n. tsMark st n = 2} = set (tsResult st) \<and> distinct (tsResult st) \<and> depsFirst g (tsResult st)"

abbreviation grey :: "topoState \<Rightarrow> string set" where
  "grey st \<equiv> {n. tsMark st n = 1}"

text \<open>What a search from the given names yields, with enough fuel for the names that are not on the path.\<close>

definition topoResult :: "serviceDAG \<Rightarrow> string set \<Rightarrow> topoState \<Rightarrow> string set \<Rightarrow> (dag_error + topoState) option \<Rightarrow> bool" where
  "topoResult g N st names r \<longleftrightarrow>
     (case r of
        None \<Rightarrow> False
      | Some (Inl e) \<Rightarrow> \<exists>x \<in> N. e = CycleDetected x \<and> (x, x) \<in> (depRel g)\<^sup>+
      | Some (Inr st') \<Rightarrow> topoInv g st' \<and> grey st' = grey st \<and> names \<union> set (tsResult st) \<subseteq> set (tsResult st') \<and>
          set (tsResult st') \<subseteq> N)"

definition topoPre :: "serviceDAG \<Rightarrow> string set \<Rightarrow> nat \<Rightarrow> topoState \<Rightarrow> string set \<Rightarrow> bool" where
  "topoPre g N fuel st names \<longleftrightarrow> finite N \<and> (\<forall>n \<in> N. set (depsOf g n) \<subseteq> N) \<and> topoInv g st \<and> set (tsResult st) \<subseteq> N \<and> names \<subseteq> N \<and> card (N - grey st) < fuel \<and>
     (\<forall>a \<in> grey st. \<forall>n \<in> names. (a, n) \<in> (depRel g)\<^sup>+)"

lemma topoPre_enter:
  assumes pre: "topoPre g N (Suc fuel) st {name}" and white: "tsMark st name \<noteq> 2" "tsMark st name \<noteq> 1"
  shows "topoPre g N fuel (st\<lparr>tsMark := (tsMark st)(name := 1)\<rparr>) (set (sortByHint g (depsOf g name)))"
proof -
  let ?st = "st\<lparr>tsMark := (tsMark st)(name := 1)\<rparr>"
  have grey: "grey ?st = insert name (grey st)" by auto
  have "{n. tsMark ?st n = 2} = {n. tsMark st n = 2}" using white by auto
  with pre have inv: "topoInv g ?st" by (simp add: topoPre_def topoInv_def)
  have "name \<in> N - grey st" using pre white by (simp add: topoPre_def)
  then have "card (N - grey ?st) < card (N - grey st)"
    unfolding grey using pre by (intro psubset_card_mono) (auto simp: topoPre_def)
  with pre have card: "card (N - grey ?st) < fuel" by (simp add: topoPre_def)
  have "(a, d) \<in> (depRel g)\<^sup>+" if "a \<in> grey ?st" "d \<in> set (depsOf g name)" for a d
  proof (cases "a = name")
    case True
    with that(2) show ?thesis by (auto simp: depRel_def)
  next
    case False
    with that(1) pre have "(a, name) \<in> (depRel g)\<^sup>+" by (simp add: topoPre_def)
    moreover have "(name, d) \<in> depRel g" using that(2) by (simp add: depRel_def)
    ultimately show ?thesis by (rule trancl_into_trancl)
  qed
  with pre inv card show ?thesis by (simp add: topoPre_def sortByHint_def)
qed

lemma topoInv_leave:
  assumes "topoInv g st" "tsMark st name = 1" "set (depsOf g name) \<subseteq> set (tsResult st)"
  shows "topoInv g (st\<lparr>tsMark := (tsMark st)(name := 2), tsResult := tsResult st @ [name]\<rparr>)"
proof -
  from assms(1,2) have "name \<notin> set (tsResult st)"
    unfolding topoInv_def by (metis (mono_tags, lifting) mem_Collect_eq numeral_eq_one_iff semiring_norm(85))
  moreover have "{n. ((tsMark st)(name := 2)) n = 2} = insert name {n. tsMark st n = 2}" by auto
  ultimately show ?thesis using assms by (simp add: topoInv_def depsFirst_snoc)
qed

lemma topoResult_leave:
  assumes pre: "topoPre g N (Suc fuel) st {name}" and white: "tsMark st name \<noteq> 2" "tsMark st name \<noteq> 1"
    and rec: "topoResult g N (st\<lparr>tsMark := (tsMark st)(name := 1)\<rparr>) (set (depsOf g name)) r"
  shows "topoResult g N st {name} (case r of
        None \<Rightarrow> None
      | Some (Inl e) \<Rightarrow> Some (Inl e)
      | Some (Inr st') \<Rightarrow> Some (Inr (st'\<lparr>tsMark := (tsMark st')(name := 2), tsResult := tsResult st' @ [name]\<rparr>)))"
proof (cases "\<exists>st'. r = Some (Inr st')")
  case True
  then obtain st' where r: "r = Some (Inr st')" by blast
  let ?st = "st\<lparr>tsMark := (tsMark st)(name := 1)\<rparr>"
    and ?st' = "st'\<lparr>tsMark := (tsMark st')(name := 2), tsResult := tsResult st' @ [name]\<rparr>"
  from rec have inv: "topoInv g st'" and grey: "grey st' = insert name (grey st)"
    and after: "set (depsOf g name) \<union> set (tsResult st) \<subseteq> set (tsResult st')" "set (tsResult st') \<subseteq> N"
    by (auto simp: topoResult_def r)
  from grey have "tsMark st' name = 1" by auto
  then have "topoInv g ?st'" using topoInv_leave inv after by simp
  moreover have "grey ?st' = grey st" using grey white by auto
  moreover have "name \<in> N" using pre by (simp add: topoPre_def)
  ultimately show ?thesis using after by (auto simp: topoResult_def r)
next
  case False
  with rec show ?thesis by (auto simp: topoResult_def split: option.splits sum.splits)
qed

lemma topoResult_next:
  assumes pre: "topoPre g N fuel st (set (d # ds))" and first: "topoResult g N st {d} r"
    and rest: "\<And>st'. r = Some (Inr st') \<Longrightarrow> topoPre g N fuel st' (set ds) \<Longrightarrow> topoResult g N st' (set ds) (f st')"
  shows "topoResult g N st (set (d # ds)) (case r of
        None \<Rightarrow> None | Some (Inl e) \<Rightarrow> Some (Inl e) | Some (Inr st') \<Rightarrow> f st')"
proof (cases "\<exists>st'. r = Some (Inr st')")
  case True
  then obtain st' where r: "r = Some (Inr st')" by blast
  from first pre have "topoPre g N fuel st' (set ds)" by (auto simp: topoResult_def topoPre_def r)
  from rest [OF r this] first show ?thesis
    by (auto simp: r topoResult_def split: option.splits sum.splits)
next
  case False
  with first show ?thesis by (auto simp: topoResult_def split: option.splits sum.splits)
qed

lemma topoVisit_correct:
  shows "topoPre g N fuel st {name} \<Longrightarrow> topoResult g N st {name} (topoVisit fuel g name st)"
    and "topoPre g N fuel st (set names) \<Longrightarrow> topoResult g N st (set names) (topoVisitAll fuel g names st)"
proof (induction fuel g name st and fuel g names st rule: topoVisit_topoVisitAll.induct)
  case (1 g name st)
  then show ?case by (simp add: topoPre_def)
next
  case (2 fuel g name st)
  consider (black) "tsMark st name = 2" | (grey) "tsMark st name = 1"
    | (white) "tsMark st name \<noteq> 2" "tsMark st name \<noteq> 1" by blast
  then show ?case
  proof cases
    case black
    with "2.prems" show ?thesis by (auto simp: topoResult_def topoPre_def topoInv_def)
  next
    case grey
    with "2.prems" show ?thesis by (auto simp: topoResult_def topoPre_def)
  next
    case white
    from "2.IH" [OF white topoPre_enter [OF "2.prems" white]]
    have "topoResult g N (st\<lparr>tsMark := (tsMark st)(name := 1)\<rparr>) (set (depsOf g name))
      (topoVisitAll fuel g (sortByHint g (depsOf g name)) (st\<lparr>tsMark := (tsMark st)(name := 1)\<rparr>))"
      by (simp add: sortByHint_def)
    from topoResult_leave [OF "2.prems" white this] white show ?thesis by simp
  qed
next
  case (3 fuel g st)
  then show ?case by (simp add: topoResult_def topoPre_def)
next
  case (4 fuel g d ds st)
  have "topoPre g N fuel st {d}" using "4.prems" by (simp add: topoPre_def)
  from topoResult_next [OF "4.prems" "4.IH"(1) [OF this], of "topoVisitAll fuel g ds"] "4.IH"(2)
  show ?case by simp
qed

subsection \<open>The order of the services\<close>

definition lineName :: "string \<Rightarrow> bool" where
  "lineName n \<longleftrightarrow> n \<noteq> [] \<and> trim_space n = n \<and> CHR 0x0A \<notin> set n"

lemma unique_fold:
  assumes "list_all lineName ns" "distinct (acc @ ns)"
  shows "foldl (\<lambda>entries raw. let line = trim_space raw in
     if line = '''' \<or> line \<in> set entries then entries else entries @ [line]) acc ns = acc @ ns"
  using assms by (induction ns arbitrary: acc) (auto simp: lineName_def)

lemma uniqueLines_join:
  assumes "list_all lineName ns" "distinct ns"
  shows "uniqueLinesPreserveOrder (join [CHR 0x0A] ns) = ns"
proof (cases "ns = []")
  case True
  then show ?thesis by (simp add: uniqueLinesPreserveOrder_def)
next
  case False
  then have "split_on CHR 0x0A (join [CHR 0x0A] ns) = ns"
    using assms(1) by (intro split_on_join) (auto simp: list_all_iff lineName_def)
  with unique_fold [of ns "[]"] assms show ?thesis by (simp add: uniqueLinesPreserveOrder_def)
qed

text \<open>A graph in which dependencies are nodes, and the nodes have names that fit on a line.\<close>

definition closedDAG :: "serviceDAG \<Rightarrow> bool" where
  "closedDAG g \<longleftrightarrow> list_all lineName (dagNodes g) \<and>
     (\<forall>n. n \<in> set (dagNodes g) \<longrightarrow> set (depsOf g n) \<subseteq> set (dagNodes g))"

lemma topo_start:
  assumes "closedDAG g"
  shows "topoPre g (set (dagNodes g)) (Suc (length (dagNodes g))) \<lparr>tsMark = (\<lambda>_. 0), tsResult = []\<rparr> (set (sortByHint g (dagNodes g)))"
  using assms card_length [of "dagNodes g"] by (auto simp: topoPre_def closedDAG_def topoInv_def sortByHint_def)

lemma TopologicalServices_cases:
  assumes "closedDAG g"
  obtains (order) order where "TopologicalServices g = Some (Inr order)" "distinct order"
      "set order = set (dagNodes g)" "depsFirst g order"
    | (cycle) x where "TopologicalServices g = Some (Inl (CycleDetected x))" "x \<in> set (dagNodes g)" "(x, x) \<in> (depRel g)\<^sup>+"
proof -
  let ?r = "topoVisitAll (Suc (length (dagNodes g))) g (sortByHint g (dagNodes g)) \<lparr>tsMark = (\<lambda>_. 0), tsResult = []\<rparr>"
  have res: "topoResult g (set (dagNodes g)) \<lparr>tsMark = (\<lambda>_. 0), tsResult = []\<rparr> (set (sortByHint g (dagNodes g))) ?r"
    by (rule topoVisit_correct(2) [OF topo_start [OF assms]])
  then consider (ok) st where "?r = Some (Inr st)" | (bad) e where "?r = Some (Inl e)"
    by (auto simp: topoResult_def split: option.splits sum.splits)
  then show thesis
  proof cases
    case ok
    with res have st: "topoInv g st" "set (tsResult st) = set (dagNodes g)"
      by (auto simp: topoResult_def sortByHint_def)
    moreover from st assms have "uniqueLinesPreserveOrder (join [CHR 0x0A] (tsResult st)) = tsResult st"
      by (intro uniqueLines_join) (auto simp: topoInv_def closedDAG_def list_all_iff)
    ultimately show ?thesis
      using ok by (intro order [of "tsResult st"]) (simp_all add: TopologicalServices_def topoServices_def topoInv_def)
  next
    case bad
    with res obtain x where "e = CycleDetected x" "x \<in> set (dagNodes g)" "(x, x) \<in> (depRel g)\<^sup>+"
      by (auto simp: topoResult_def)
    with bad show ?thesis by (intro cycle [of x]) (simp_all add: TopologicalServices_def topoServices_def)
  qed
qed

text \<open>
  Property C10. The topological sort of a closed graph always returns. It fails exactly when the
  graph has a cycle, and then names a service on a cycle; otherwise it lists every node once, each
  one behind all the services it depends on.
\<close>

theorem TopologicalServices_correct:
  assumes "closedDAG g"
  shows "(\<exists>order. TopologicalServices g = Some (Inr order) \<and> (\<forall>x. (x, x) \<notin> (depRel g)\<^sup>+ \<or> x \<notin> set (dagNodes g)) \<and>
      distinct order \<and> set order = set (dagNodes g) \<and> depsFirst g order) \<or>
    (\<exists>x. TopologicalServices g = Some (Inl (CycleDetected x)) \<and> x \<in> set (dagNodes g) \<and> (x, x) \<in> (depRel g)\<^sup>+)"
  using assms
proof (cases rule: TopologicalServices_cases)
  case (order order)
  then have "(x, x) \<notin> (depRel g)\<^sup>+ \<or> x \<notin> set (dagNodes g)" for x
    using depsFirst_acyclic by blast
  with order show ?thesis by blast
qed blast

definition demoDAG :: serviceDAG where
  "demoDAG = \<lparr>dagNodes = [''web.service'', ''db.service'', ''net.service''],
     dagDeps = [(''web.service'', [''net.service'', ''db.service'']), (''db.service'', [''net.service''])],
     dagHint = [(''web.service'', 0), (''db.service'', 1), (''net.service'', 2)], dagOwner = []\<rparr>"

lemma demoDAG_closed: "closedDAG demoDAG"
proof -
  have "list_all lineName (dagNodes demoDAG)" by code_simp
  then show ?thesis by (auto simp: closedDAG_def demoDAG_def depsOf_def)
qed

lemma demoDAG_order: "TopologicalServices demoDAG = Some (Inr [''net.service'', ''db.service'', ''web.service''])"
  by code_simp

theorem TopologicalServices_correct_witness:
  "distinct [''net.service'', ''db.service'', ''web.service''] \<and> depsFirst demoDAG [''net.service'', ''db.service'', ''web.service'']"
  using TopologicalServices_correct [OF demoDAG_closed] by (simp add: demoDAG_order)


subsection \<open>Building the graph\<close>

text \<open>The loose dependencies between normalized names, as the lookup reports them.\<close>

definition looseRel :: "config \<Rightarrow> host \<Rightarrow> unitLookup \<Rightarrow> (string \<times> string) set" where
  "looseRel C H lookup = {(n, d). \<exists>u raw. lookup n = Inr (Some u) \<and> raw \<in> set (looseDependencies u) \<and>
     d = normalizeServiceUnitName C H raw \<and> d \<noteq> '''' \<and> d \<noteq> n}"

definition nodesInv :: "serviceDAG \<Rightarrow> bool" where
  "nodesInv g \<longleftrightarrow> distinct (dagNodes g) \<and> '''' \<notin> set (dagNodes g)"

lemma hintNode_keeps [simp]:
  "dagNodes (hintNode n g) = dagNodes g" "dagDeps (hintNode n g) = dagDeps g" "dagOwner (hintNode n g) = dagOwner g"
  by (simp_all add: hintNode_def split: option.split)

lemma markNode_keeps [simp]: "dagDeps (markNode n g) = dagDeps g" "dagOwner (markNode n g) = dagOwner g"
  by (simp_all add: markNode_def)

lemma markNode_nodes: "n \<noteq> '''' \<Longrightarrow> set (dagNodes (markNode n g)) = insert n (set (dagNodes g))"
  by (auto simp: markNode_def)

lemma markNode_inv: "nodesInv g \<Longrightarrow> nodesInv (markNode n g)"
  by (auto simp: markNode_def nodesInv_def)

lemma markNode_prefix: "\<exists>new. dagNodes (markNode n g) = dagNodes g @ new"
  by (simp add: markNode_def)

lemma nodesInv_cong: "dagNodes g' = dagNodes g \<Longrightarrow> nodesInv g' = nodesInv g"
  by (simp add: nodesInv_def)

lemma depsOf_update: "depsOf (g\<lparr>dagDeps := AList.update n ds (dagDeps g)\<rparr>) m = (if m = n then ds else depsOf g m)"
  by (simp add: depsOf_def update_conv')

lemma depsOf_cong: "dagDeps g' = dagDeps g \<Longrightarrow> depsOf g' n = depsOf g n"
  by (simp add: depsOf_def)

lemma addDependency_step:
  fixes C :: config and H :: host and raw :: string
  assumes "nodesInv g"
  defines "d \<equiv> normalizeServiceUnitName C H raw"
  shows "nodesInv (addDependency C H name g raw)"
    and "set (dagNodes (addDependency C H name g raw)) = set (dagNodes g) \<union> {d} - {'''', name} \<union> (set (dagNodes g) \<inter> {name})"
    and "\<exists>new. dagNodes (addDependency C H name g raw) = dagNodes g @ new"
    and "set (depsOf (addDependency C H name g raw) m) = set (depsOf g m) \<union> (if m = name then {d} - {'''', name} else {})"
proof -
  let ?g = "hintNode d (g\<lparr>dagDeps := AList.update name (List.insert d (depsOf g name)) (dagDeps g)\<rparr>)"
  have nodes: "dagNodes ?g = dagNodes g" by simp
  have step: "addDependency C H name g raw = (if d = '''' \<or> d = name then g else markNode d ?g)"
    by (simp add: addDependency_def d_def Let_def)
  show "nodesInv (addDependency C H name g raw)"
    using assms(1) by (simp add: step markNode_inv nodesInv_cong [OF nodes])
  show "set (dagNodes (addDependency C H name g raw)) = set (dagNodes g) \<union> {d} - {'''', name} \<union> (set (dagNodes g) \<inter> {name})"
    using assms(1) by (auto simp: step markNode_nodes nodesInv_def)
  show "\<exists>new. dagNodes (addDependency C H name g raw) = dagNodes g @ new"
    using markNode_prefix [of d ?g] by (simp add: step)
  have "depsOf (markNode d ?g) m = (if m = name then List.insert d (depsOf g name) else depsOf g m)"
    using depsOf_update [where g = g and n = name and ds = "List.insert d (depsOf g name)" and m = m] by (simp add: depsOf_def)
  then show "set (depsOf (addDependency C H name g raw) m) = set (depsOf g m) \<union> (if m = name then {d} - {'''', name} else {})"
    by (auto simp: step)
qed

lemma addDependency_fold:
  fixes C :: config and H :: host and name :: string
  assumes "nodesInv g" "name \<in> set (dagNodes g)"
  defines "D raws \<equiv> normalizeServiceUnitName C H ` set raws - {'''', name}"
  shows "nodesInv (foldl (addDependency C H name) g raws) \<and>
    set (dagNodes (foldl (addDependency C H name) g raws)) = set (dagNodes g) \<union> D raws \<and>
    (\<exists>new. dagNodes (foldl (addDependency C H name) g raws) = dagNodes g @ new) \<and>
    (\<forall>m. set (depsOf (foldl (addDependency C H name) g raws) m) = set (depsOf g m) \<union> (if m = name then D raws else {}))"
proof (induction raws rule: rev_induct)
  case Nil
  then show ?case using assms(1) by (simp add: D_def)
next
  case (snoc raw raws)
  let ?g = "foldl (addDependency C H name) g raws"
  from snoc have inv: "nodesInv ?g" and new: "\<exists>new. dagNodes ?g = dagNodes g @ new" by auto
  note step = addDependency_step [OF inv, of C H name raw]
  have "set (dagNodes (addDependency C H name ?g raw)) = set (dagNodes g) \<union> D (raws @ [raw])"
    using step(2) snoc assms(2) inv by (auto simp: D_def nodesInv_def)
  moreover have "\<forall>m. set (depsOf (addDependency C H name ?g raw) m) = set (depsOf g m) \<union> (if m = name then D (raws @ [raw]) else {})"
    using step(4) snoc by (auto simp: D_def)
  moreover have "\<exists>new. dagNodes (addDependency C H name ?g raw) = dagNodes g @ new"
    using step(3) new by force
  ultimately show ?case using step(1) by simp
qed

lemma visitNode_step:
  assumes "nodesInv g" "name \<in> set (dagNodes g)" "visitNode C H lookup name g = Inr g'"
  shows "nodesInv g' \<and> set (dagNodes g') = set (dagNodes g) \<union> looseRel C H lookup `` {name} \<and>
    (\<exists>new. dagNodes g' = dagNodes g @ new) \<and>
    (\<forall>m. set (depsOf g' m) = set (depsOf g m) \<union> (if m = name then looseRel C H lookup `` {name} else {}))"
proof (cases "\<exists>u. lookup name = Inr (Some u) \<and> looseDependencies u \<noteq> []")
  case True
  then obtain u where u: "lookup name = Inr (Some u)" "looseDependencies u \<noteq> []" by blast
  let ?g = "g\<lparr>dagDeps := AList.update name (depsOf g name) (dagDeps g)\<rparr>"
  have g': "g' = foldl (addDependency C H name) ?g (looseDependencies u)"
    using assms(3) u by (simp add: visitNode_def Let_def)
  have img: "looseRel C H lookup `` {name} = normalizeServiceUnitName C H ` set (looseDependencies u) - {'''', name}"
    using u by (auto simp: looseRel_def)
  have "depsOf ?g m = depsOf g m" for m by (simp add: depsOf_update)
  moreover have "nodesInv ?g" using assms(1) by (simp add: nodesInv_def)
  ultimately show ?thesis using addDependency_fold [of ?g name C H "looseDependencies u"] assms(2) by (simp add: g' img)
next
  case False
  then have "looseRel C H lookup `` {name} = {}" by (auto simp: looseRel_def)
  moreover from False assms(3) have "g' = g"
    by (auto simp: visitNode_def Let_def split: sum.splits option.splits if_splits)
  ultimately show ?thesis using assms(1) by simp
qed

text \<open>The first \<open>idx\<close> nodes have their dependencies recorded, the others none yet.\<close>

definition queueInv :: "config \<Rightarrow> host \<Rightarrow> unitLookup \<Rightarrow> string set \<Rightarrow> nat \<Rightarrow> serviceDAG \<Rightarrow> bool" where
  "queueInv C H lookup R idx g \<longleftrightarrow> nodesInv g \<and> R \<subseteq> set (dagNodes g) \<and>
     set (dagNodes g) \<subseteq> (looseRel C H lookup)\<^sup>* `` R \<and>
     (\<forall>n \<in> set (take idx (dagNodes g)). set (depsOf g n) = looseRel C H lookup `` {n} \<and> set (depsOf g n) \<subseteq> set (dagNodes g)) \<and>
     (\<forall>n. n \<notin> set (take idx (dagNodes g)) \<longrightarrow> depsOf g n = [])"

lemma queueInv_step:
  assumes inv: "queueInv C H lookup R idx g" and idx: "idx < length (dagNodes g)"
    and visit: "visitNode C H lookup (dagNodes g ! idx) g = Inr g'"
  shows "queueInv C H lookup R (Suc idx) g'"
proof -
  let ?name = "dagNodes g ! idx"
  have ni: "nodesInv g" and mem: "?name \<in> set (dagNodes g)" using inv idx by (simp_all add: queueInv_def)
  from visitNode_step [OF ni mem visit] obtain new where g': "nodesInv g'" "dagNodes g' = dagNodes g @ new"
      "set (dagNodes g') = set (dagNodes g) \<union> looseRel C H lookup `` {?name}"
    and deps: "\<And>m. set (depsOf g' m) = set (depsOf g m) \<union> (if m = ?name then looseRel C H lookup `` {?name} else {})"
    by blast
  have take: "set (take (Suc idx) (dagNodes g')) = insert ?name (set (take idx (dagNodes g)))"
    using idx by (simp add: g'(2) take_Suc_conv_app_nth)
  have fresh: "?name \<notin> set (take idx (dagNodes g))"
    using ni idx by (auto simp: nodesInv_def in_set_conv_nth nth_eq_iff_index_eq)
  then have "depsOf g ?name = []" using inv by (simp add: queueInv_def)
  with deps have own: "set (depsOf g' ?name) = looseRel C H lookup `` {?name}" by simp
  have "?name \<in> (looseRel C H lookup)\<^sup>* `` R" using inv mem by (auto simp: queueInv_def)
  then have "looseRel C H lookup `` {?name} \<subseteq> (looseRel C H lookup)\<^sup>* `` R" by (auto intro: rtrancl_into_rtrancl)
  then have "set (dagNodes g') \<subseteq> (looseRel C H lookup)\<^sup>* `` R" using inv g'(3) by (simp add: queueInv_def)
  moreover have "set (depsOf g' n) = looseRel C H lookup `` {n} \<and> set (depsOf g' n) \<subseteq> set (dagNodes g')"
    if "n \<in> set (take (Suc idx) (dagNodes g'))" for n
  proof (cases "n = ?name")
    case True
    with own g'(3) show ?thesis by auto
  next
    case False
    with that take have "n \<in> set (take idx (dagNodes g))" by simp
    with inv have "set (depsOf g n) = looseRel C H lookup `` {n}" "set (depsOf g n) \<subseteq> set (dagNodes g)"
      unfolding queueInv_def by blast+
    with False deps [of n] g'(3) show ?thesis by auto
  qed
  moreover have "depsOf g' n = []" if "n \<notin> set (take (Suc idx) (dagNodes g'))" for n
  proof -
    from that take have "depsOf g n = []" "n \<noteq> ?name" using inv by (simp_all add: queueInv_def)
    with deps [of n] show ?thesis by simp
  qed
  ultimately show ?thesis using inv g' by (auto simp: queueInv_def)
qed


lemma visitQueue_inv:
  assumes "visitQueue C H lookup idx g = Some (Inr g')" "queueInv C H lookup R idx g" "idx \<le> length (dagNodes g)"
  shows "queueInv C H lookup R (length (dagNodes g')) g'"
proof -
  have "queueInv C H lookup R idx g \<Longrightarrow> idx \<le> length (dagNodes g) \<Longrightarrow> r = Inr g' \<Longrightarrow> queueInv C H lookup R (length (dagNodes g')) g'"
    if "visitQueue C H lookup idx g = Some r" for r
  proof (induction C H lookup idx g r rule: visitQueue.raw_induct)
    case (1 rec C H lookup idx g r)
    show ?case
    proof (cases "idx < length (dagNodes g)")
      case True
      with "1.prems" "1.hyps" obtain g1 where g1: "visitNode C H lookup (dagNodes g ! idx) g = Inr g1"
          and rec: "rec C H lookup (Suc idx) g1 = Some r"
        by (auto split: sum.splits)
      have "length (dagNodes g) \<le> length (dagNodes g1)"
        using visitNode_step [OF _ _ g1] "1.prems"(1) True by (auto simp: queueInv_def)
      with True have "Suc idx \<le> length (dagNodes g1)" by simp
      with "1.IH" [OF rec queueInv_step [OF "1.prems"(1) True g1]] "1.prems"(3) show ?thesis by blast
    next
      case False
      with "1.prems" "1.hyps" show ?thesis by simp
    qed
  qed (rule that)
  with assms show ?thesis by blast
qed

lemma visitQueue_terminates:
  assumes "finite F" "\<And>n. looseRel C H lookup `` {n} \<subseteq> F"
  shows "nodesInv g \<Longrightarrow> set (dagNodes g) \<subseteq> F \<Longrightarrow> \<exists>r. visitQueue C H lookup idx g = Some r"
proof (induction "card F - idx" arbitrary: idx g rule: less_induct)
  case less
  show ?case
  proof (cases "idx < length (dagNodes g) \<and> (\<exists>g'. visitNode C H lookup (dagNodes g ! idx) g = Inr g')")
    case True
    then obtain g' where idx: "idx < length (dagNodes g)" and g': "visitNode C H lookup (dagNodes g ! idx) g = Inr g'" by blast
    have "length (dagNodes g) \<le> card F"
      using less.prems assms(1) by (metis card_mono distinct_card nodesInv_def)
    with idx have "card F - Suc idx < card F - idx" by simp
    moreover from visitNode_step [OF less.prems(1) _ g'] idx less.prems(2) assms(2) [of "dagNodes g ! idx"]
    have "nodesInv g'" "set (dagNodes g') \<subseteq> F" by auto
    ultimately have "\<exists>r. visitQueue C H lookup (Suc idx) g' = Some r" by (rule less.hyps)
    with idx g' show ?thesis by (subst visitQueue.simps) simp
  next
    case False
    then show ?thesis by (subst visitQueue.simps) (auto split: sum.splits)
  qed
qed

lemma rootDAG_inv: "nodesInv (rootDAG C H roots) \<and> dagDeps (rootDAG C H roots) = []"
proof -
  let ?P = "\<lambda>g. nodesInv g \<and> dagDeps g = []"
  have keep: "?P (markNode n g')" if "?P g" "dagNodes g' = dagNodes g" "dagDeps g' = dagDeps g" for g g' :: serviceDAG and n
    using that markNode_inv [of g' n] nodesInv_cong [of g' g] by simp
  have s: "?P (addStandalone C H g raw)" if "?P g" for g raw
  proof (cases "normalizeServiceUnitName C H raw = ''''")
    case True
    with that show ?thesis by (simp add: addStandalone_def)
  next
    case False
    then show ?thesis
      unfolding addStandalone_def Let_def if_not_P [OF False] by (intro keep [OF that]) simp_all
  qed
  have gu: "?P (addGroupUnit C H owner g raw)" if "?P g" for g owner raw
  proof (cases "normalizeServiceUnitName C H raw = ''''")
    case True
    with that show ?thesis by (simp add: addGroupUnit_def)
  next
    case False
    then show ?thesis
      unfolding addGroupUnit_def Let_def if_not_P [OF False] by (intro keep [OF that]) (simp_all split: option.split)
  qed
  have fold: "?P g \<Longrightarrow> ?P (foldl f g xs)" if "\<And>g x. ?P g \<Longrightarrow> ?P (f g x)" for f g and xs :: "string list"
    using that by (induction xs arbitrary: g) auto
  have "?P emptyDAG" by (simp add: emptyDAG_def nodesInv_def)
  then have "?P (foldl (addStandalone C H) emptyDAG (ersStandalone roots))" by (rule fold [OF s, rotated])
  then show ?thesis unfolding rootDAG_def by (rule fold [rotated]) (rule fold [OF gu])
qed

lemma rootDAG_queueInv: "queueInv C H lookup (set (dagNodes (rootDAG C H roots))) 0 (rootDAG C H roots)"
  using rootDAG_inv [of C H roots] by (auto simp: queueInv_def depsOf_def)

lemma buildEnabledServiceDAG_nodes:
  assumes "buildEnabledServiceDAG C H roots lookup = Some (Inr g)"
  shows "set (dagNodes g) = (looseRel C H lookup)\<^sup>* `` set (dagNodes (rootDAG C H roots))"
    and "depRel g = {(n, d) \<in> looseRel C H lookup. n \<in> set (dagNodes g)}" and "distinct (dagNodes g)"
proof -
  let ?R = "set (dagNodes (rootDAG C H roots))"
  have inv: "queueInv C H lookup ?R (length (dagNodes g)) g"
    using visitQueue_inv [OF assms [unfolded buildEnabledServiceDAG_def] rootDAG_queueInv] by simp
  then have deps: "set (depsOf g n) = looseRel C H lookup `` {n} \<and> set (depsOf g n) \<subseteq> set (dagNodes g)" if "n \<in> set (dagNodes g)" for n
    using that unfolding queueInv_def by (simp only: take_all order_refl) blast
  have "y \<in> set (dagNodes g)" if "(x, y) \<in> (looseRel C H lookup)\<^sup>*" "x \<in> ?R" for x y
    using that(1)
  proof induction
    case base
    then show ?case using inv that(2) by (auto simp: queueInv_def)
  next
    case (step y z)
    with deps [of y] show ?case by blast
  qed
  then have "set (dagNodes g) = (looseRel C H lookup)\<^sup>* `` ?R" using inv by (auto simp: queueInv_def)
  moreover have "depsOf g n = []" if "n \<notin> set (dagNodes g)" for n
    using inv that by (simp add: queueInv_def)
  then have "depRel g = {(n, d) \<in> looseRel C H lookup. n \<in> set (dagNodes g)}"
    using deps unfolding depRel_def by fastforce
  moreover have "distinct (dagNodes g)" using inv by (simp add: queueInv_def nodesInv_def)
  ultimately show "set (dagNodes g) = (looseRel C H lookup)\<^sup>* `` ?R"
    and "depRel g = {(n, d) \<in> looseRel C H lookup. n \<in> set (dagNodes g)}" and "distinct (dagNodes g)" by blast+
qed

text \<open>
  Fact. When the walk over the enabled services returns a graph, its nodes are exactly the
  services that are reachable from the enabled ones over Requires, Wants, After, BindsTo and PartOf,
  each once; and every node has exactly the dependencies that its unit file names.
\<close>

theorem buildEnabledServiceDAG_reachable:
  assumes "buildEnabledServiceDAG C H roots lookup = Some (Inr g)"
  shows "distinct (dagNodes g) \<and>
    set (dagNodes g) = (looseRel C H lookup)\<^sup>* `` set (dagNodes (rootDAG C H roots)) \<and>
    depRel g = {(n, d) \<in> looseRel C H lookup. n \<in> set (dagNodes g)}"
  using buildEnabledServiceDAG_nodes [OF assms] by blast

lemma buildEnabledServiceDAG_terminates_any:
  assumes "finite {path. hStat H path}"
  shows "\<exists>r. buildEnabledServiceDAG C H roots (lookupSystemdUnitForDAG C H) = Some r"
proof -
  let ?W = "\<Union>path \<in> {path. hStat H path}. case hReadFile H path of Inl _ \<Rightarrow> {} | Inr data \<Rightarrow> fileWords data"
  let ?F = "set (dagNodes (rootDAG C H roots)) \<union> normalizeServiceUnitName C H ` ?W"
  have fin: "finite ?F" using assms by (auto simp: finite_fileWords split: sum.split)
  have rel: "looseRel C H (lookupSystemdUnitForDAG C H) `` {n} \<subseteq> ?F" for n
  proof
    fix d assume "d \<in> looseRel C H (lookupSystemdUnitForDAG C H) `` {n}"
    then obtain u raw name where u: "parseSystemdUnit C H name = Inr u" "raw \<in> set (looseDependencies u)"
        and d: "d = normalizeServiceUnitName C H raw"
      by (auto simp: looseRel_def lookupSystemdUnitForDAG_def split: sum.splits)
    from parsed_dependencies [OF u(1) [unfolded parseSystemdUnit_def]]
    obtain path data where "hStat H path" "hReadFile H path = Inr data" "set (dependencyFields u) \<subseteq> fileWords data" by blast
    moreover have "raw \<in> set (dependencyFields u)" using u(2) by (auto simp: looseDependencies_def dependencyFields_def)
    ultimately have "raw \<in> ?W" by force
    with d show "d \<in> ?F" by blast
  qed
  have "set (dagNodes (rootDAG C H roots)) \<subseteq> ?F" by (rule Un_upper1)
  with visitQueue_terminates [OF fin rel, of "rootDAG C H roots" 0] rootDAG_inv [of C H roots] show ?thesis
    unfolding buildEnabledServiceDAG_def by blast
qed

text \<open>
  Property C8. The walk over the unit files ends: on a host with finitely many files,
  \<open>buildEnabledServiceDAG\<close> returns for every set of enabled services, although a single file can be
  reached under unboundedly many names.
\<close>

theorem buildEnabledServiceDAG_terminates:
  assumes "finite {path. hStat H path}"
  shows "\<exists>r. buildEnabledServiceDAG C H roots (lookupSystemdUnitForDAG C H) = Some r"
  by (rule buildEnabledServiceDAG_terminates_any [OF assms])

theorem buildEnabledServiceDAG_terminates_witness:
  "\<exists>r. buildEnabledServiceDAG (initConfig demoHost) demoHost \<lparr>ersStandalone = [''foo''], ersGroups = []\<rparr>
     (lookupSystemdUnitForDAG (initConfig demoHost) demoHost) = Some r"
  by (rule buildEnabledServiceDAG_terminates) (simp add: demoHost_def)


definition demoRoots :: enabledRootSet where
  "demoRoots = \<lparr>ersStandalone = [''foo''], ersGroups = []\<rparr>"

definition builtDAG :: serviceDAG where
  "builtDAG = \<lparr>dagNodes = [''foo.service'', ''db.service'', ''net.service''],
     dagDeps = [(''foo.service'', [''net.service'', ''db.service''])],
     dagHint = [(''foo.service'', 0), (''db.service'', 1), (''net.service'', 2)],
     dagOwner = [(''foo.service'', ''foo-orchestrd'')]\<rparr>"

lemma demo_steps:
  "rootDAG (initConfig demoHost) demoHost demoRoots = \<lparr>dagNodes = [''foo.service''], dagDeps = [],
     dagHint = [(''foo.service'', 0)], dagOwner = [(''foo.service'', ''foo-orchestrd'')]\<rparr>"
  "visitNode (initConfig demoHost) demoHost (lookupSystemdUnitForDAG (initConfig demoHost) demoHost) ''foo.service''
     \<lparr>dagNodes = [''foo.service''], dagDeps = [], dagHint = [(''foo.service'', 0)], dagOwner = [(''foo.service'', ''foo-orchestrd'')]\<rparr> = Inr builtDAG"
  "visitNode (initConfig demoHost) demoHost (lookupSystemdUnitForDAG (initConfig demoHost) demoHost) ''db.service'' builtDAG = Inr builtDAG"
  "visitNode (initConfig demoHost) demoHost (lookupSystemdUnitForDAG (initConfig demoHost) demoHost) ''net.service'' builtDAG = Inr builtDAG"
  by code_simp+

lemma demo_build:
  "buildEnabledServiceDAG (initConfig demoHost) demoHost demoRoots (lookupSystemdUnitForDAG (initConfig demoHost) demoHost) = Some (Inr builtDAG)"
proof -
  have nodes: "dagNodes builtDAG = [''foo.service'', ''db.service'', ''net.service'']" by (simp add: builtDAG_def)
  have "visitQueue (initConfig demoHost) demoHost (lookupSystemdUnitForDAG (initConfig demoHost) demoHost) (Suc 0) builtDAG = Some (Inr builtDAG)"
    by (subst visitQueue.simps, simp add: nodes demo_steps)+
  then show ?thesis
    unfolding buildEnabledServiceDAG_def demo_steps(1) by (subst visitQueue.simps) (simp add: demo_steps)
qed

theorem buildEnabledServiceDAG_reachable_witness:
  "distinct (dagNodes builtDAG) \<and>
    set (dagNodes builtDAG) = (looseRel (initConfig demoHost) demoHost (lookupSystemdUnitForDAG (initConfig demoHost) demoHost))\<^sup>* ``
      set (dagNodes (rootDAG (initConfig demoHost) demoHost demoRoots)) \<and>
    depRel builtDAG = {(n, d) \<in> looseRel (initConfig demoHost) demoHost (lookupSystemdUnitForDAG (initConfig demoHost) demoHost).
      n \<in> set (dagNodes builtDAG)}"
  by (rule buildEnabledServiceDAG_reachable [OF demo_build])

subsection \<open>Normalized names\<close>

lemma resolveUnitAlias_cases:
  "resolveUnitAlias C H n = ''wireplumber'' \<or> resolveUnitAlias C H n = trim_suffix (trim_space n) ''.service''"
  by (simp add: resolveUnitAlias_def Let_def)

lemma space_at_alias: "space_at (trim_suffix (resolveUnitAlias C H n) ''.service'') = 0"
proof -
  obtain r where r: "resolveUnitAlias C H n = trim_suffix (resolveUnitAlias C H n) ''.service'' @ r"
    using trim_suffix_prefix by blast
  obtain q where q: "trim_space n = trim_suffix (trim_space n) ''.service'' @ q" using trim_suffix_prefix by blast
  have "space_at (resolveUnitAlias C H n) = 0"
    using resolveUnitAlias_cases [of C H n]
  proof
    assume "resolveUnitAlias C H n = ''wireplumber''"
    moreover have "space_at ''wireplumber'' = 0" by code_simp
    ultimately show ?thesis by simp
  next
    assume "resolveUnitAlias C H n = trim_suffix (trim_space n) ''.service''"
    with q trim_space_ends(1) [of n] space_at_prefix show ?thesis by metis
  qed
  with r space_at_prefix show ?thesis by metis
qed

lemma normalized_lineName:
  assumes "CHR 0x0A \<notin> set raw" "normalizeServiceUnitName C H raw \<noteq> ''''"
  shows "lineName (normalizeServiceUnitName C H raw)"
proof -
  define v where "v = trim_suffix (resolveUnitAlias C H (trim_suffix (trim_space raw) ''.service'')) ''.service''"
  have n: "normalizeServiceUnitName C H raw = v @ ''.service''" and v: "v \<noteq> []"
    using assms(2) by (auto simp: normalizeServiceUnitName_def Let_def v_def split: if_splits)
  have "trim_space (v @ ''.service'') = v @ ''.service''"
    using v by (intro trim_space_id space_at_service space_at_end_service) (simp_all add: v_def space_at_alias)
  moreover have "set v \<subseteq> set ''wireplumber'' \<union> set raw"
  proof -
    let ?x = "trim_suffix (trim_space raw) ''.service''"
    have "set v \<subseteq> set (resolveUnitAlias C H ?x)" unfolding v_def by (rule set_trim_suffix)
    also have "\<dots> \<subseteq> set ''wireplumber'' \<union> set ?x"
      using resolveUnitAlias_cases [of C H ?x] set_trimmed [of ?x "''.service''"] by (elim disjE) (simp_all only: Un_upper1 le_supI2)
    also have "\<dots> \<subseteq> set ''wireplumber'' \<union> set raw" using set_trimmed [of raw "''.service''"] by (intro Un_mono subset_refl)
    finally show ?thesis .
  qed
  then have "CHR 0x0A \<notin> set v" using assms(1) by auto
  ultimately show ?thesis by (simp add: lineName_def n)
qed

lemma isWord_line: "isWord w \<Longrightarrow> CHR 0x0A \<notin> set w"
proof
  assume w: "isWord w" and "CHR 0x0A \<in> set w"
  then obtain i where i: "i < length w" "w ! i = CHR 0x0A" by (auto simp: in_set_conv_nth)
  then have "has_prefix (drop i w) [CHR 0x0A]" by (simp add: has_prefix_def take_Suc_conv_app_nth hd_drop_conv_nth take_Suc)
  moreover have "[CHR 0x0A] \<in> set space_encodings" by (simp add: space_encodings_def)
  ultimately have "space_at (drop i w) \<noteq> 0" by (auto simp: space_at_eq_0)
  with w i(1) show False by (simp add: isWord_def)
qed


subsection \<open>Start order of a group\<close>

definition rootNames :: "enabledRootSet \<Rightarrow> string list" where
  "rootNames roots = ersStandalone roots @ concat (map snd (ersGroups roots))"

lemma markNode_mem: "x \<in> set (dagNodes (markNode n g)) \<Longrightarrow> x \<in> set (dagNodes g) \<or> x = n \<and> n \<noteq> ''''"
  by (auto simp: markNode_def split: if_splits)

lemma rootDAG_names:
  "x \<in> set (dagNodes (rootDAG C H roots)) \<Longrightarrow> distinct (map fst (ersGroups roots)) \<Longrightarrow>
    \<exists>raw \<in> set (rootNames roots). x = normalizeServiceUnitName C H raw \<and> x \<noteq> ''''"
proof -
  assume x: "x \<in> set (dagNodes (rootDAG C H roots))" and d: "distinct (map fst (ersGroups roots))"
  let ?N = "\<lambda>raws. {n. \<exists>raw \<in> raws. n = normalizeServiceUnitName C H raw \<and> n \<noteq> ''''}"
  have s: "set (dagNodes (addStandalone C H g raw)) \<subseteq> set (dagNodes g) \<union> ?N {raw}" for g raw
    by (auto simp: addStandalone_def Let_def dest!: markNode_mem)
  have gu: "set (dagNodes (addGroupUnit C H owner g raw)) \<subseteq> set (dagNodes g) \<union> ?N {raw}" for g owner raw
    by (auto simp: addGroupUnit_def Let_def dest!: markNode_mem split: option.splits)
  have fold: "set (dagNodes (foldl f g xs)) \<subseteq> set (dagNodes g) \<union> ?N (\<Union> (F ` set xs))"
    if "\<And>g x. x \<in> set xs \<Longrightarrow> set (dagNodes (f g x)) \<subseteq> set (dagNodes g) \<union> ?N (F x)" for f F g and xs :: "string list"
    using that
  proof (induction xs arbitrary: g)
    case (Cons x xs)
    have chain: "A \<subseteq> B \<union> M \<Longrightarrow> D \<subseteq> A \<union> K \<Longrightarrow> M \<union> K \<subseteq> R \<Longrightarrow> D \<subseteq> B \<union> R" for A B D M K R :: "string set"
      by blast
    have rest: "set (dagNodes (foldl f (f g x) xs)) \<subseteq> set (dagNodes (f g x)) \<union> ?N (\<Union> (F ` set xs))"
      using Cons by simp
    have "?N (F x) \<union> ?N (\<Union> (F ` set xs)) \<subseteq> ?N (\<Union> (F ` set (x # xs)))" by auto
    from chain [OF Cons.prems [of x g] rest this] show ?case by simp
  qed simp
  let ?units = "\<lambda>grp. set (the (map_of (ersGroups roots) grp))"
  have units: "set (dagNodes (foldl (addGroupUnit C H owner) g xs)) \<subseteq> set (dagNodes g) \<union> ?N (set xs)" for owner g xs
  proof -
    have "set (dagNodes (foldl (addGroupUnit C H owner) g xs)) \<subseteq> set (dagNodes g) \<union> ?N (\<Union> ((\<lambda>raw. {raw}) ` set xs))"
      by (rule fold) (rule gu)
    then show ?thesis by simp
  qed
  have "set (dagNodes (rootDAG C H roots)) \<subseteq> set (dagNodes (foldl (addStandalone C H) emptyDAG (ersStandalone roots))) \<union>
      ?N (\<Union> (?units ` set (sort (map fst (ersGroups roots)))))"
    unfolding rootDAG_def by (rule fold) (rule units)
  then have "x \<in> set (dagNodes (foldl (addStandalone C H) emptyDAG (ersStandalone roots))) \<union> ?N (\<Union> (?units ` set (sort (map fst (ersGroups roots)))))"
    using x by (rule subsetD)
  moreover have "set (dagNodes (foldl (addStandalone C H) emptyDAG (ersStandalone roots))) \<subseteq> ?N (set (ersStandalone roots))"
  proof -
    have "set (dagNodes (foldl (addStandalone C H) emptyDAG (ersStandalone roots))) \<subseteq>
        set (dagNodes emptyDAG) \<union> ?N (\<Union> ((\<lambda>raw. {raw}) ` set (ersStandalone roots)))"
      by (rule fold) (rule s)
    then show ?thesis by (simp add: emptyDAG_def)
  qed
  moreover have "\<Union> (?units ` set (sort (map fst (ersGroups roots)))) \<subseteq> set (rootNames roots)"
    using d by (force simp: rootNames_def)
  moreover have "set (ersStandalone roots) \<subseteq> set (rootNames roots)" by (simp add: rootNames_def)
  ultimately show ?thesis by blast
qed

lemma looseDependencies_words:
  assumes "lookupSystemdUnitForDAG C H n = Inr (Some u)" "raw \<in> set (looseDependencies u)"
  shows "isWord raw"
proof -
  from assms(1) obtain name where u: "parseUnitAs C H name (resolveUnitAlias C H name) = Inr u"
    by (auto simp: lookupSystemdUnitForDAG_def parseSystemdUnit_def split: sum.splits)
  then obtain nm path where "lineInv nm path u" by (rule parseUnitAs_cases) blast
  with assms(2) show ?thesis by (auto simp: lineInv_def wordFields_def looseDependencies_def list_all_iff)
qed

lemma built_closed:
  assumes "buildEnabledServiceDAG C H roots (lookupSystemdUnitForDAG C H) = Some (Inr g)"
    and "distinct (map fst (ersGroups roots))" "list_all (\<lambda>raw. CHR 0x0A \<notin> set raw) (rootNames roots)"
  shows "closedDAG g"
proof -
  let ?L = "looseRel C H (lookupSystemdUnitForDAG C H)"
  have inv: "queueInv C H (lookupSystemdUnitForDAG C H) (set (dagNodes (rootDAG C H roots))) (length (dagNodes g)) g"
    using visitQueue_inv [OF assms(1) [unfolded buildEnabledServiceDAG_def] rootDAG_queueInv] by simp
  have root: "lineName x" if "x \<in> set (dagNodes (rootDAG C H roots))" for x
    using rootDAG_names [OF that assms(2)] assms(3) normalized_lineName by (auto simp: list_all_iff)
  have dep: "lineName y" if "(x, y) \<in> ?L" for x y
    using that looseDependencies_words isWord_line normalized_lineName by (fastforce simp: looseRel_def)
  have "lineName y" if "(x, y) \<in> ?L\<^sup>*" "x \<in> set (dagNodes (rootDAG C H roots))" for x y
    using that root dep by (metis rtranclE)
  then have "list_all lineName (dagNodes g)" using inv by (auto simp: queueInv_def list_all_iff)
  moreover have "set (depsOf g n) \<subseteq> set (dagNodes g)" if "n \<in> set (dagNodes g)" for n
    using inv that unfolding queueInv_def by (simp only: take_all order_refl) blast
  ultimately show ?thesis by (simp add: closedDAG_def)
qed

lemma pick_fold:
  "distinct (acc @ order) \<Longrightarrow>
    foldl (\<lambda>r name. if name \<in> G \<and> name \<notin> set r then r @ [name] else r) acc order = acc @ filter (\<lambda>n. n \<in> G) order"
  by (induction order arbitrary: acc) auto

lemma appendNew_fold:
  "distinct r \<Longrightarrow> \<exists>new. foldl appendNew r ns = r @ new \<and> distinct (r @ new) \<and> set (r @ new) = set r \<union> (set ns - {''''})"
proof (induction ns arbitrary: r)
  case (Cons n ns)
  have "\<exists>new. appendNew r n = r @ new \<and> distinct (r @ new) \<and> set (r @ new) = set r \<union> ({n} - {''''})"
    using Cons.prems by (auto simp: appendNew_def)
  then obtain new where new: "appendNew r n = r @ new" "distinct (r @ new)" "set (r @ new) = set r \<union> ({n} - {''''})" by blast
  from Cons.IH [OF new(2)] new show ?case by auto
qed simp

lemma picked_first:
  assumes "depsFirst g order" "distinct (filter P order @ new)" "\<forall>x \<in> set new. P x"
    and res: "filter P order @ new = before @ n # after" and n: "n \<in> set order" "P n"
    and dep: "(n, d) \<in> (depRel g)\<^sup>+" and d: "d \<in> set (filter P order @ new)"
  shows "d \<in> set before"
proof -
  from n(1) obtain as bs where o: "order = as @ n # bs" by (meson split_list)
  then have "filter P as @ n # (filter P bs @ new) = before @ n # after" using res n(2) by simp
  moreover have "n \<notin> set (filter P as)" "n \<notin> set (filter P bs @ new)" using assms(2) o n(2) by auto
  ultimately have "filter P as = before" by (metis append_Cons_eq_iff)
  moreover have "d \<in> set as" by (rule depsFirst_closed [OF dep assms(1) o])
  moreover have "P d" using d assms(3) by auto
  ultimately show ?thesis by auto
qed

lemma reachable_trancl:
  assumes "depRel g = {(n, d) \<in> L. n \<in> set (dagNodes g)}" "\<And>n. n \<in> set (dagNodes g) \<Longrightarrow> set (depsOf g n) \<subseteq> set (dagNodes g)"
    and "(n, d) \<in> L\<^sup>+" "n \<in> set (dagNodes g)"
  shows "(n, d) \<in> (depRel g)\<^sup>+ \<and> d \<in> set (dagNodes g)"
proof -
  have edge: "(x, y) \<in> depRel g \<and> y \<in> set (dagNodes g)" if "(x, y) \<in> L" "x \<in> set (dagNodes g)" for x y
  proof -
    from that assms(1) have "(x, y) \<in> depRel g" by simp
    moreover from this have "y \<in> set (depsOf g x)" by (simp add: depRel_def)
    ultimately show ?thesis using assms(2) that(2) by blast
  qed
  from assms(3,4) show ?thesis
    by (induction rule: trancl_induct) (use edge in \<open>blast intro: trancl_into_trancl\<close>)+
qed

text \<open>The two ways in which \<open>resolveGroupStartOrder\<close> returns.\<close>

lemma resolveGroupStartOrder_cases:
  assumes "finite {path. hStat H path}" "queryGroupState grp = Some units"
    and "distinct (map fst (ersGroups roots))" "list_all (\<lambda>raw. CHR 0x0A \<notin> set raw) (rootNames roots)"
  obtains (error) e where "resolveGroupStartOrder C H roots queryGroupState grp = Some (Inl e)"
    | (order) g order new P where
      "buildEnabledServiceDAG C H roots (lookupSystemdUnitForDAG C H) = Some (Inr g)" "closedDAG g"
      "set order = set (dagNodes g)" "depsFirst g order"
      "P = (\<lambda>n. n \<in> normalizeServiceUnitName C H ` set units - {''''})"
      "resolveGroupStartOrder C H roots queryGroupState grp = Some (Inr (filter P order @ new))"
      "distinct (filter P order @ new)" "set (filter P order @ new) = normalizeServiceUnitName C H ` set units - {''''}"
proof -
  define G where "G = normalizeServiceUnitName C H ` set units - {''''}"
  have G: "set (filter (\<lambda>n. n \<noteq> '''') (map (normalizeServiceUnitName C H) units)) = G" by (auto simp: G_def)
  obtain r where r: "buildEnabledServiceDAG C H roots (lookupSystemdUnitForDAG C H) = Some r"
    using buildEnabledServiceDAG_terminates_any [OF assms(1)] by blast
  show thesis
  proof (cases r)
    case (Inl e)
    with r show ?thesis by (intro error [of e]) (simp add: resolveGroupStartOrder_def assms(2))
  next
    case (Inr g)
    have closed: "closedDAG g" using built_closed r Inr assms(3,4) by blast
    then show ?thesis
    proof (cases rule: TopologicalServices_cases)
      case (cycle x)
      with r Inr show ?thesis by (intro error [of "CycleDetected x"]) (simp add: resolveGroupStartOrder_def assms(2))
    next
      case topo: (order order)
      let ?picked = "filter (\<lambda>n. n \<in> G) order"
      obtain new where new: "foldl appendNew ?picked (map (normalizeServiceUnitName C H) units) = ?picked @ new"
          "distinct (?picked @ new)" "set (?picked @ new) = set ?picked \<union> (set (map (normalizeServiceUnitName C H) units) - {''''})"
        using appendNew_fold topo(2) by (metis distinct_filter)
      have "resolveGroupStartOrder C H roots queryGroupState grp = Some (Inr (?picked @ new))"
        using r Inr topo(1) new(1) pick_fold [of "[]" order G] topo(2)
        by (simp add: resolveGroupStartOrder_def assms(2) Let_def G del: set_filter set_map)
      moreover have "set (?picked @ new) = G" using new(3) by (auto simp: G_def)
      ultimately show ?thesis
        using r Inr closed topo(3,4) new(2) by (intro order [of g order "\<lambda>n. n \<in> G" new]) (simp_all add: G_def)
    qed
  qed
qed


definition demoGroups :: "string \<Rightarrow> string list option" where
  "demoGroups grp = (if grp = ''web'' then Some [''foo'', ''db'', ''web.target''] else None)"

lemma demo_group_order:
  "resolveGroupStartOrder (initConfig demoHost) demoHost demoRoots demoGroups ''web'' = Some (Inr [''db.service'', ''foo.service''])"
proof -
  have "TopologicalServices builtDAG = Some (Inr [''db.service'', ''net.service'', ''foo.service''])" by code_simp
  moreover have "map (normalizeServiceUnitName (initConfig demoHost) demoHost) [''foo'', ''db'', ''web.target''] = [''foo.service'', ''db.service'', '''']"
    by code_simp
  ultimately show ?thesis
    unfolding resolveGroupStartOrder_def demo_build by (simp add: demoGroups_def appendNew_def Let_def)
qed


subsection \<open>Restarting with the dependents\<close>

definition startedRel :: "(string \<Rightarrow> string list) \<Rightarrow> (string \<Rightarrow> bool) \<Rightarrow> (string \<times> string) set" where
  "startedRel dependents started = {(x, y). y \<in> set (dependents x) \<and> started y}"

text \<open>
  What the recursion adds for the names \<open>ds\<close>: the started ones among them and everything reachable
  from those, each once, a unit behind its dependents unless a dependent is still being visited or
  lies on a cycle.
\<close>

definition closureResult :: "(string \<times> string) set \<Rightarrow> string set \<Rightarrow> string list \<Rightarrow> string list \<Rightarrow> (string list \<times> string list) option \<Rightarrow> bool" where
  "closureResult R ds visited order r \<longleftrightarrow> (\<exists>newV newO. r = Some (visited @ newV, order @ newO) \<and>
     distinct (visited @ newV) \<and> distinct newO \<and> set newO = set newV \<and>
     set newV \<subseteq> R\<^sup>* `` ds \<and> ds \<subseteq> set (visited @ newV) \<and> R `` set newV \<subseteq> set (visited @ newV) \<and>
     (\<forall>ys x zs y. newO = ys @ x # zs \<and> (x, y) \<in> R \<longrightarrow> y \<in> set visited \<union> set ys \<or> (y, y) \<in> R\<^sup>+))"

lemma split_three:
  assumes "A @ d # B = ys @ x # zs"
  obtains (first) zs' where "A = ys @ x # zs'" | (middle) "x = d" "ys = A" | (last) ys' where "B = ys' @ x # zs" "ys = A @ d # ys'"
  using assms by (auto simp: append_eq_append_conv2 append_eq_Cons_conv Cons_eq_append_conv)

lemma closureResult_step:
  assumes d: "d \<notin> set visited" and inner: "closureResult R (R `` {d}) (visited @ [d]) order (Some (v, ord))"
    and rest: "closureResult R ds v (ord @ [d]) r"
  shows "closureResult R (insert d ds) visited order r"
proof -
  from inner obtain V1 O1 where v: "v = visited @ [d] @ V1" and ord: "ord = order @ O1"
    and dist1: "distinct O1" "set O1 = set V1" and reach1: "set V1 \<subseteq> R\<^sup>* `` R `` {d}"
    and closed1: "R `` {d} \<subseteq> set v" "R `` set V1 \<subseteq> set v"
    and first1: "\<And>ys x zs y. O1 = ys @ x # zs \<Longrightarrow> (x, y) \<in> R \<Longrightarrow> y \<in> insert d (set visited) \<union> set ys \<or> (y, y) \<in> R\<^sup>+"
    unfolding closureResult_def by auto
  from rest obtain V2 O2 where r: "r = Some (v @ V2, (ord @ [d]) @ O2)" and dist2: "distinct (v @ V2)" "distinct O2" "set O2 = set V2"
    and reach2: "set V2 \<subseteq> R\<^sup>* `` ds" and closed2: "ds \<subseteq> set (v @ V2)" "R `` set V2 \<subseteq> set (v @ V2)"
    and first2: "\<And>ys x zs y. O2 = ys @ x # zs \<Longrightarrow> (x, y) \<in> R \<Longrightarrow> y \<in> set v \<union> set ys \<or> (y, y) \<in> R\<^sup>+"
    unfolding closureResult_def by auto
  have loop: "(d, d) \<in> R\<^sup>+" if "x \<in> set V1" "(x, d) \<in> R" for x
  proof -
    from reach1 that(1) obtain z where "(d, z) \<in> R" "(z, x) \<in> R\<^sup>*" by blast
    with that(2) show ?thesis by (meson rtrancl_into_trancl1 trancl_into_trancl2 r_into_trancl rtrancl_trancl_trancl)
  qed
  have "y \<in> set visited \<union> set ys \<or> (y, y) \<in> R\<^sup>+" if "O1 @ d # O2 = ys @ x # zs" "(x, y) \<in> R" for ys x zs y
    using that(1)
  proof (cases rule: split_three)
    case (first zs')
    then have "x \<in> set V1" using dist1(2) by auto
    with first1 [OF first that(2)] loop [of x] that(2) show ?thesis by auto
  next
    case middle
    with that(2) closed1(1) v dist1(2) show ?thesis by auto
  next
    case (last ys')
    with first2 [OF last(1) that(2)] v dist1(2) show ?thesis by auto
  qed
  moreover have "set ([d] @ V1 @ V2) \<subseteq> R\<^sup>* `` insert d ds"
  proof -
    have "R\<^sup>* `` R `` {d} \<subseteq> R\<^sup>* `` {d}" by (auto intro: converse_rtrancl_into_rtrancl)
    moreover have "R\<^sup>* `` {d} \<subseteq> R\<^sup>* `` insert d ds" "R\<^sup>* `` ds \<subseteq> R\<^sup>* `` insert d ds" by blast+
    ultimately have "set V1 \<subseteq> R\<^sup>* `` insert d ds" "set V2 \<subseteq> R\<^sup>* `` insert d ds" using reach1 reach2 by blast+
    then show ?thesis by auto
  qed
  moreover have "r = Some (visited @ ([d] @ V1 @ V2), order @ (O1 @ d # O2))" using r v ord by simp
  ultimately show ?thesis
    unfolding closureResult_def using dist1 dist2 closed1 closed2 v
    by (intro exI [of _ "[d] @ V1 @ V2"] exI [of _ "O1 @ d # O2"]) auto
qed

lemma closureResult_more:
  assumes "closureResult R A visited order r" "A \<subseteq> B" "B \<subseteq> A \<union> set visited"
  shows "closureResult R B visited order r"
proof -
  have "R\<^sup>* `` A \<subseteq> R\<^sup>* `` B" using assms(2) by blast
  with assms(1,3) show ?thesis unfolding closureResult_def by (elim ex_forward) auto
qed

lemma closureResult_distinct: "closureResult R A visited order (Some (v, ord)) \<Longrightarrow> distinct v \<and> set visited \<subseteq> set v"
  by (auto simp: closureResult_def)

lemma closureVisit_correct:
  assumes "finite N"
  shows "(\<And>x. set (dependents x) \<subseteq> N) \<Longrightarrow> distinct visited \<Longrightarrow> set ds \<subseteq> N \<Longrightarrow> card (N - set visited) < fuel \<Longrightarrow>
    closureResult (startedRel dependents started) {d \<in> set ds. started d} visited order
      (closureVisit fuel dependents started ds (visited, order))"
proof (induction fuel dependents started ds "(visited, order)" arbitrary: visited order rule: closureVisit.induct)
  case (1 fuel dependents started visited order)
  then show ?case by (auto simp: closureResult_def)
next
  case (2 dependents started d ds visited order)
  then show ?case by simp
next
  case (3 fuel dependents started d ds visited order)
  let ?R = "startedRel dependents started"
  have ds: "set ds \<subseteq> N" and d: "d \<in> N" using "3.prems"(3) by simp_all
  show ?case
  proof (cases "d \<in> set visited \<or> \<not> started d")
    case True
    have "closureResult ?R {x \<in> set ds. started x} visited order (closureVisit (Suc fuel) dependents started ds (visited, order))"
      by (rule "3.hyps"(1) [OF True "3.prems"(1,2) ds "3.prems"(4)])
    then have "closureResult ?R {x \<in> set (d # ds). started x} visited order (closureVisit (Suc fuel) dependents started ds (visited, order))"
      by (rule closureResult_more) (use True in auto)
    with True show ?thesis by simp
  next
    case False
    then have new: "d \<notin> set visited" "started d" by simp_all
    have "N - set (visited @ [d]) \<subset> N - set visited" using d new by auto
    then have "card (N - set (visited @ [d])) < card (N - set visited)" using assms by (intro psubset_card_mono) auto
    with "3.prems"(4) have card: "card (N - set (visited @ [d])) < fuel" by simp
    have image: "{x \<in> set (dependents d). started x} = ?R `` {d}" by (auto simp: startedRel_def)
    have "closureResult ?R (?R `` {d}) (visited @ [d]) order (closureVisit fuel dependents started (dependents d) (visited @ [d], order))"
      using "3.hyps"(2) [OF False "3.prems"(1) _ "3.prems"(1) card] "3.prems"(2) new by (simp add: image)
    then obtain v ord where inner: "closureResult ?R (?R `` {d}) (visited @ [d]) order (Some (v, ord))"
        and visit: "closureVisit fuel dependents started (dependents d) (visited @ [d], order) = Some (v, ord)"
      by (auto simp: closureResult_def)
    have v: "distinct v" "set visited \<subseteq> set v" using closureResult_distinct [OF inner] by auto
    have "card (N - set v) \<le> card (N - set visited)" using v(2) assms by (intro card_mono) auto
    then have "card (N - set v) < Suc fuel" using "3.prems"(4) by simp
    then have "closureResult ?R {x \<in> set ds. started x} v (ord @ [d]) (closureVisit (Suc fuel) dependents started ds (v, ord @ [d]))"
      using "3.hyps"(3) [OF False visit refl "3.prems"(1) v(1) ds] by simp
    from closureResult_step [OF new(1) inner this]
    have "closureResult ?R (insert d {x \<in> set ds. started x}) visited order (closureVisit (Suc fuel) dependents started ds (v, ord @ [d]))" .
    moreover have "insert d {x \<in> set ds. started x} = {x \<in> set (d # ds). started x}" using new by auto
    ultimately show ?thesis using False visit by simp
  qed
qed

text \<open>
  Property C31. The units to restart together with a unit: \<open>reverseRestartClosure\<close> always returns,
  it lists exactly the started units that depend on the unit through started units, each once, and a
  unit stands behind every started unit that depends on it, except for dependents on a cycle; so
  stopping in this order stops dependents first.
\<close>

theorem reverseRestartClosure_correct:
  fixes C :: config and H :: host and unitName :: string
  defines "target \<equiv> normalizeServiceName C H unitName"
  defines "R readDir started \<equiv> startedRel (dependentsOf C H (listServiceUnitNames C H readDir) target) started"
  shows "\<exists>order. reverseRestartClosure C H readDir started unitName = Some order \<and> distinct order \<and>
    set order = (R readDir started)\<^sup>+ `` {target} \<and>
    (\<forall>ys x zs y. order = ys @ x # zs \<and> (x, y) \<in> R readDir started \<longrightarrow> y \<in> set ys \<or> (y, y) \<in> (R readDir started)\<^sup>+)"
proof -
  let ?t = target and ?c = "listServiceUnitNames C H readDir"
  let ?dep = "dependentsOf C H ?c ?t" and ?R = "R readDir started"
  have sub: "set (?dep x) \<subseteq> set ?c" for x by (auto simp: dependentsOf_def)
  have image: "{d \<in> set (?dep ?t). started d} = ?R `` {?t}" by (auto simp: R_def startedRel_def)
  have "card (set ?c - set []) < Suc (length ?c)" using card_length [of ?c] by simp
  then have "closureResult ?R (?R `` {?t}) [] [] (closureVisit (Suc (length ?c)) ?dep started (?dep ?t) ([], []))"
    using closureVisit_correct [of "set ?c" ?dep "[]" "?dep ?t" "Suc (length ?c)" started "[]"] sub
    by (simp add: image R_def [symmetric])
  then obtain V Ord where visit: "closureVisit (Suc (length ?c)) ?dep started (?dep ?t) ([], []) = Some (V, Ord)"
    and ord: "distinct Ord" "set Ord = set V" and reach: "set V \<subseteq> ?R\<^sup>* `` ?R `` {?t}"
    and closed: "?R `` {?t} \<subseteq> set V" "?R `` set V \<subseteq> set V"
    and first: "\<forall>ys x zs y. Ord = ys @ x # zs \<and> (x, y) \<in> ?R \<longrightarrow> y \<in> set [] \<union> set ys \<or> (y, y) \<in> ?R\<^sup>+"
    unfolding closureResult_def by auto
  have "x \<in> set V" if "(?t, x) \<in> ?R\<^sup>+" for x
    using that by (induction rule: trancl_induct) (use closed in blast)+
  moreover have "(?t, x) \<in> ?R\<^sup>+" if "x \<in> set V" for x
    using that reach by (auto intro: rtrancl_into_trancl2)
  ultimately have "set Ord = ?R\<^sup>+ `` {?t}" using ord(2) by auto
  moreover have "reverseRestartClosure C H readDir started unitName = Some Ord"
    using visit by (simp add: reverseRestartClosure_def target_def Let_def)
  ultimately show ?thesis using ord(1) first by auto
qed

definition demoReadDir :: "string \<Rightarrow> (string \<times> bool) list option" where
  "demoReadDir dir = (if dir = ''/lib/systemd/system/'' then Some [(''foo.service'', False), (''foo.service.d'', True)] else None)"

lemma demo_names:
  "listServiceUnitNames (initConfig demoHost) demoHost demoReadDir = [''foo'']"
  "normalizeServiceName (initConfig demoHost) demoHost ''db.service'' = ''db''"
  "reverseRestartDependencies (initConfig demoHost) demoHost demoUnit = [''db'', ''net'']"
  "parseSystemdUnit (initConfig demoHost) demoHost ''foo'' = Inr demoUnit"
  by code_simp+

lemma demo_closure: "reverseRestartClosure (initConfig demoHost) demoHost demoReadDir (\<lambda>_. True) ''db.service'' = Some [''foo'']"
proof -
  have "dependentsOf (initConfig demoHost) demoHost [''foo''] ''db'' ''db'' = [''foo'']"
    "dependentsOf (initConfig demoHost) demoHost [''foo''] ''db'' ''foo'' = []"
    by (simp_all add: dependentsOf_def demo_names)
  then show ?thesis by (simp add: reverseRestartClosure_def demo_names eval_nat_numeral)
qed

theorem reverseRestartClosure_correct_witness:
  "set [''foo''] = (startedRel (dependentsOf (initConfig demoHost) demoHost (listServiceUnitNames (initConfig demoHost) demoHost demoReadDir)
      (normalizeServiceName (initConfig demoHost) demoHost ''db.service'')) (\<lambda>_. True))\<^sup>+ ``
      {normalizeServiceName (initConfig demoHost) demoHost ''db.service''}"
  using reverseRestartClosure_correct [of "initConfig demoHost" demoHost demoReadDir "\<lambda>_. True" "''db.service''"]
  unfolding demo_closure by (simp only: option.inject) blast


end
