(* ===== verification/Orchestrator.thy ===== *)
theory Orchestrator
  imports Service_Dag Interfaces
begin

text \<open>
  The per-unit and per-group orchestrator \<open>sys-orchestrd\<close> (\<open>src/cmd/sys-orchestrd/main.go\<close>,
  \<open>group_mode.go\<close>): its state machine with the circuit fuse, its start retries and its reaction to
  the events of the other daemons.

  Everything the daemon does outside its own record (state file, published events, runs of
  \<open>servicectl\<close>, queries, sleeping) is appended to a trace of effects. What the outside answers is a
  record \<open>outside\<close> of functions of that trace, so that an answer may depend on all that happened
  before. Log lines and the start-up debugger are left out. The daemon's goroutines are the
  functions \<open>handleEvent\<close>, \<open>initialSync\<close> and \<open>initialGroupSync\<close>, which run one at a time.
\<close>

subsection \<open>State\<close>

record orchestrd =
  odUnit :: string
  odGroup :: string
  odUserMode :: bool
  odState :: string
  odServiceName :: string
  odMaxFailures :: int
  odFailureCount :: int
  odFused :: bool
  odFuseReason :: string
  odGroups :: "string list"
  odGroupUnits :: "string list"

datatype effect =
    StateWritten string
  | StatePublished string payload
  | ServicectlRun "string list"
  | GroupOrderRun "string list"
  | UnitQueried string
  | GroupQueried string
  | UnitGroupsQueried string
  | Slept

record unitState =
  usState :: string
  usManagedBy :: string
  usManagerPID :: string

record groupState =
  gsUnits :: "string list"
  gsEnabled :: bool

text \<open>
  The answers: an error text or nothing for a command; error text and output of
  \<open>group-start-order\<close>; the decoded replies of sysvisiond; the clock; whether a signal arrived.
\<close>

record outside =
  outServicectl :: "effect list \<Rightarrow> string option"
  outGroupOrder :: "effect list \<Rightarrow> string option \<times> string"
  outQueryUnit :: "effect list \<Rightarrow> string + unitState"
  outQueryGroup :: "effect list \<Rightarrow> groupState option"
  outUnitGroups :: "effect list \<Rightarrow> string list option"
  outNow :: "effect list \<Rightarrow> string"
  outCancelled :: "effect list \<Rightarrow> bool"

type_synonym run = "orchestrd \<times> effect list"

record operationError =
  opExecutor :: string
  opAction :: string
  opTarget :: string
  opDetail :: string
  opErr :: "string option"
  opPermanent :: bool

definition operationErrorText :: "operationError \<Rightarrow> string" where
  "operationErrorText e = join '' ''
     ((if trim_space (opExecutor e) \<noteq> '''' then [''executor='' @ opExecutor e] else []) @
      (if trim_space (opAction e) \<noteq> '''' then [''action='' @ opAction e] else []) @
      (if trim_space (opTarget e) \<noteq> '''' then [''target='' @ opTarget e] else []) @
      (if trim_space (opDetail e) \<noteq> '''' then [''detail='' @ replace_all (trim_space (opDetail e)) [CHR 0x0A] '' | ''] else []) @
      (case opErr e of Some t \<Rightarrow> [''error='' @ t] | None \<Rightarrow> []))"

subsection \<open>Names and thresholds\<close>

definition isGroupMode :: "orchestrd \<Rightarrow> bool" where
  "isGroupMode d \<longleftrightarrow> trim_space (odGroup d) \<noteq> ''''"

definition objectName :: "orchestrd \<Rightarrow> string" where
  "objectName d = (if isGroupMode d then ''group:'' @ odGroup d else odUnit d)"

definition orchestrdServiceName :: "string \<Rightarrow> string \<Rightarrow> string" where
  "orchestrdServiceName unit grp =
     (if trim_space grp \<noteq> '''' then ''group-'' @ SanitizeS6Name grp ''service'' @ ''-orchestrd''
      else SanitizeS6Name (trim_suffix (trim_space unit) ''.service'') ''service'' @ ''-orchestrd'')"

definition orchestrdStateFile :: "plane_env \<Rightarrow> string \<Rightarrow> string \<Rightarrow> bool \<Rightarrow> string" where
  "orchestrdStateFile E override unit user =
     (if trim_space override \<noteq> '''' then trim_space override
      else path_join [RuntimeDir E user, ''orchestrd'', trim_suffix (trim_space unit) ''.service'' @ ''.state''])"

definition maxFailureThreshold :: "string \<Rightarrow> int" where
  "maxFailureThreshold raw =
     (let value = trim_space raw in
      if value = '''' then 3
      else case atoi value of None \<Rightarrow> 3 | Some n \<Rightarrow> if n < 1 then 3 else n)"

definition isPermanentStartError :: "string \<Rightarrow> bool" where
  "isPermanentStartError msg \<longleftrightarrow>
     (let v = to_lower (trim_space msg) in
      v \<noteq> '''' \<and> (contains v ''not found'' \<or> contains v ''cycle detected'' \<or> contains v ''invalid''))"

definition snapshotIsRunning :: "unitState \<Rightarrow> bool" where
  "snapshotIsRunning s \<longleftrightarrow>
     (if \<not> equal_fold (trim_space (usState s)) ''STARTED'' then False
      else if \<not> equal_fold (trim_space (usManagedBy s)) ''sys-notifyd'' then True
      else case atoi (trim_space (usManagerPID s)) of None \<Rightarrow> False | Some pid \<Rightarrow> pid > 0)"

definition newOrchestrd :: "string \<Rightarrow> string \<Rightarrow> bool \<Rightarrow> string \<Rightarrow> orchestrd" where
  "newOrchestrd unit grp user maxFailuresRaw =
     \<lparr>odUnit = trim_space unit, odGroup = trim_space grp, odUserMode = user, odState = ''waiting'',
      odServiceName = orchestrdServiceName (trim_space unit) (trim_space grp),
      odMaxFailures = maxFailureThreshold maxFailuresRaw, odFailureCount = 0, odFused = False, odFuseReason = '''',
      odGroups = [], odGroupUnits = []\<rparr>"

subsection \<open>Effects\<close>

definition writeState :: "outside \<Rightarrow> string \<Rightarrow> string \<Rightarrow> run \<Rightarrow> run" where
  "writeState X state reason r =
     (let (d, tr) = r; d = d\<lparr>odState := state\<rparr>;
          content = join [CHR 0x0A]
            [''unit='' @ odUnit d, ''service='' @ odServiceName d, ''state='' @ state, ''reason='' @ reason,
             ''failure_count='' @ itoa (odFailureCount d), ''fused='' @ YesNo (odFused d), ''updated_at='' @ outNow X tr] @ [CHR 0x0A]
      in (d, tr @ [StateWritten content]))"

definition publishState :: "string \<Rightarrow> string \<Rightarrow> run \<Rightarrow> run" where
  "publishState state reason r =
     (let (d, tr) = r
      in (d, tr @ [StatePublished (objectName d)
           [(''state'', state), (''reason'', reason), (''service'', odServiceName d),
            (''failure_count'', itoa (odFailureCount d)), (''fused'', YesNo (odFused d))]]))"

definition announce :: "outside \<Rightarrow> string \<Rightarrow> string \<Rightarrow> run \<Rightarrow> run" where
  "announce X state reason r = publishState state reason (writeState X state reason r)"

definition runServicectl :: "outside \<Rightarrow> string \<Rightarrow> run \<Rightarrow> run \<times> operationError option" where
  "runServicectl X action r =
     (let (d, tr) = r;
          args = (if odUserMode d then [''--user''] else []) @ [action, odUnit d];
          tr = tr @ [ServicectlRun args]
      in case outServicectl X tr of
           None \<Rightarrow> ((d, tr), None)
         | Some err \<Rightarrow> ((d, tr), Some \<lparr>opExecutor = ''servicectl'', opAction = action, opTarget = odUnit d, opDetail = '''',
              opErr = Some err, opPermanent = isPermanentStartError err\<rparr>))"

definition serviceUnit :: "string \<Rightarrow> string" where
  "serviceUnit unit = trim_suffix (trim_space unit) ''.service'' @ ''.service''"

fun runGroupAction :: "outside \<Rightarrow> string \<Rightarrow> string list \<Rightarrow> run \<Rightarrow> run \<times> operationError option" where
  "runGroupAction X action [] r = (r, None)"
| "runGroupAction X action (unit # units) r =
     (let (d, tr) = r;
          (r, err) = runServicectl X action (d\<lparr>odUnit := serviceUnit unit\<rparr>, tr)
      in case err of Some e \<Rightarrow> (r, Some e) | None \<Rightarrow> runGroupAction X action units r)"

subsection \<open>The fuse\<close>

definition recordAttemptSuccess :: "run \<Rightarrow> run" where
  "recordAttemptSuccess r =
     (let (d, tr) = r; d = d\<lparr>odFailureCount := 0\<rparr>
      in (if odFused d then d\<lparr>odFused := False, odFuseReason := ''''\<rparr> else d, tr))"

definition recordAttemptFailure :: "outside \<Rightarrow> operationError \<Rightarrow> run \<Rightarrow> run" where
  "recordAttemptFailure X err r =
     (let (d, tr) = r; d = d\<lparr>odFailureCount := odFailureCount d + 1\<rparr>;
          label = FirstNonEmpty [opAction err, ''start-error'']
      in if odFailureCount d \<ge> odMaxFailures d
         then announce X ''failed'' (''fused:'' @ label) (d\<lparr>odFused := True, odFuseReason := operationErrorText err\<rparr>, tr)
         else announce X ''failed'' label (d, tr))"

definition clearFuse :: "outside \<Rightarrow> string \<Rightarrow> run \<Rightarrow> run" where
  "clearFuse X trigger r =
     (let (d, tr) = r
      in if \<not> odFused d \<and> odFailureCount d = 0 then r
         else announce X ''waiting'' (''fuse-cleared:'' @ trigger)
           (d\<lparr>odFused := False, odFuseReason := '''', odFailureCount := 0\<rparr>, tr))"

text \<open>The retry loop; the first argument is the number of rounds that are left.\<close>

fun retryLoop :: "nat \<Rightarrow> outside \<Rightarrow> (run \<Rightarrow> run \<times> operationError option) \<Rightarrow> run \<Rightarrow> run \<times> bool" where
  "retryLoop 0 X runner r = (r, False)"
| "retryLoop (Suc n) X runner r =
     (let (r, err) = runner r
      in case err of
           None \<Rightarrow> (recordAttemptSuccess r, True)
         | Some e \<Rightarrow>
             let r = recordAttemptFailure X e r
             in if odFused (fst r) then (r, False)
                else retryLoop n X runner (fst r, snd r @ [Slept]))"

definition attemptStartWithRetry :: "outside \<Rightarrow> (run \<Rightarrow> run \<times> operationError option) \<Rightarrow> run \<Rightarrow> run \<times> bool" where
  "attemptStartWithRetry X runner r =
     (if odFused (fst r) then (r, False) else retryLoop (nat (odMaxFailures (fst r))) X runner r)"

subsection \<open>Queries\<close>

definition queryUnit :: "outside \<Rightarrow> run \<Rightarrow> run \<times> (string + unitState)" where
  "queryUnit X r =
     (let (d, tr) = r; tr = tr @ [UnitQueried (trim_suffix (trim_space (odUnit d)) ''.service'')]
      in ((d, tr), outQueryUnit X tr))"

definition queryGroup :: "outside \<Rightarrow> run \<Rightarrow> run \<times> groupState option" where
  "queryGroup X r =
     (let (d, tr) = r; tr = tr @ [GroupQueried (trim_space (odGroup d))]
      in ((d, tr), outQueryGroup X tr))"

definition refreshGroups :: "outside \<Rightarrow> run \<Rightarrow> run" where
  "refreshGroups X r =
     (let (d, tr) = r; tr = tr @ [UnitGroupsQueried (trim_suffix (odUnit d) ''.service'' @ ''.service'')]
      in case outUnitGroups X tr of
           None \<Rightarrow> (d, tr)
         | Some names \<Rightarrow> (d\<lparr>odGroups := remdups (map trim_space names)\<rparr>, tr))"

text \<open>The lines of the output of \<open>group-start-order\<close>, each with its suffix.\<close>

definition orderLines :: "string \<Rightarrow> string list" where
  "orderLines out = map (\<lambda>line. if has_suffix line ''.service'' then line else line @ ''.service'')
     (filter (\<lambda>line. line \<noteq> '''') (map trim_space (split_on CHR 0x0A (trim_space out))))"

definition startOrderForGroupUnits :: "outside \<Rightarrow> string list \<Rightarrow> run \<Rightarrow> run \<times> string list \<times> operationError option" where
  "startOrderForGroupUnits X fallback r =
     (let (d, tr) = r;
          args = (if odUserMode d then [''--user''] else []) @ [''group-start-order'', odGroup d];
          tr = tr @ [GroupOrderRun args]; (err, out) = outGroupOrder X tr
      in case err of
           Some e \<Rightarrow>
             let detail = (if trim_space out = '''' then ''group-start-order failed'' else trim_space out)
             in ((d, tr), fallback, Some \<lparr>opExecutor = ''servicectl'', opAction = ''group-start-order'', opTarget = odGroup d,
                   opDetail = detail, opErr = Some e, opPermanent = isPermanentStartError detail\<rparr>)
         | None \<Rightarrow> ((d, tr), if orderLines out = [] then fallback else orderLines out, None))"

subsection \<open>Handlers\<close>

definition startUnit :: "outside \<Rightarrow> run \<Rightarrow> run \<times> bool" where
  "startUnit X r = attemptStartWithRetry X (runServicectl X ''start'') r"

definition startGroup :: "outside \<Rightarrow> string \<Rightarrow> run \<Rightarrow> run" where
  "startGroup X reason r =
     (let r = announce X ''starting'' reason r;
          (r, ordered, orderErr) = startOrderForGroupUnits X (odGroupUnits (fst r)) r
      in case orderErr of
           Some e \<Rightarrow> recordAttemptFailure X e r
         | None \<Rightarrow>
             let (r, ok) = attemptStartWithRetry X (runGroupAction X ''start'' ordered) r
             in if ok then announce X ''running'' reason r else r)"

definition groupMissing :: "outside \<Rightarrow> run \<Rightarrow> run" where
  "groupMissing X r = announce X ''waiting'' (''group-not-found:'' @ odGroup (fst r)) (fst r\<lparr>odGroupUnits := []\<rparr>, snd r)"

definition initialGroupSync :: "outside \<Rightarrow> run \<Rightarrow> run" where
  "initialGroupSync X r =
     (let (r, state) = queryGroup X r
      in case state of
           None \<Rightarrow> groupMissing X r
         | Some g \<Rightarrow>
             let r = (fst r\<lparr>odGroupUnits := gsUnits g\<rparr>, snd r)
             in if \<not> gsEnabled g then announce X ''waiting'' ''group-disabled'' r
                else startGroup X ''group-enabled'' (clearFuse X ''group-enabled'' r))"

definition isEnabledPayload :: "envelope \<Rightarrow> bool" where
  "isEnabledPayload e \<longleftrightarrow>
     (let v = trim_space (payloadGet (evPayload e) ''enabled'') in equal_fold v ''yes'' \<or> v = ''1'')"

definition handleGroupChange :: "outside \<Rightarrow> envelope \<Rightarrow> run \<Rightarrow> run" where
  "handleGroupChange X e r =
     (let grp = trim_space (payloadGet (evPayload e) ''group'')
      in if grp = '''' \<or> grp \<notin> set (odGroups (fst r)) then r
         else if isEnabledPayload e then
           (let (r, snap) = queryUnit X r
            in case snap of
                 Inl err \<Rightarrow> recordAttemptFailure X \<lparr>opExecutor = ''sysvision-api'', opAction = ''query-unit'', opTarget = odUnit (fst r),
                   opDetail = '''', opErr = Some err, opPermanent = False\<rparr> r
               | Inr s \<Rightarrow> if snapshotIsRunning s then r
                          else fst (startUnit X (announce X ''starting'' (''group-enabled:'' @ grp) r)))
         else
           (let r = announce X ''stopping'' (''group-disabled:'' @ grp) r;
                (r, err) = runServicectl X ''stop'' r
            in case err of
                 Some e \<Rightarrow> recordAttemptFailure X e r
               | None \<Rightarrow> announce X ''waiting'' (''group-disabled:'' @ grp) (recordAttemptSuccess r)))"

definition handleGroupScopedChange :: "outside \<Rightarrow> envelope \<Rightarrow> run \<Rightarrow> run" where
  "handleGroupScopedChange X e r =
     (let grp = trim_space (payloadGet (evPayload e) ''group'')
      in if grp = '''' then r
         else if isGroupMode (fst r) then
           (if grp \<noteq> odGroup (fst r) then r
            else let (r, state) = queryGroup X r
                 in case state of
                      None \<Rightarrow> groupMissing X r
                    | Some g \<Rightarrow>
                        let r = (fst r\<lparr>odGroupUnits := gsUnits g\<rparr>, snd r)
                        in if isEnabledPayload e
                           then startGroup X (''group-enabled:'' @ grp) (clearFuse X ''group-change-enabled'' r)
                           else
                             let r = announce X ''stopping'' (''group-disabled:'' @ grp) r;
                                 (r, err) = runGroupAction X ''stop'' (rev (odGroupUnits (fst r))) r
                             in case err of
                                  Some e \<Rightarrow> recordAttemptFailure X e r
                                | None \<Rightarrow> announce X ''waiting'' (''group-disabled:'' @ grp) (recordAttemptSuccess r))
         else if grp \<notin> set (odGroups (fst r)) then r
         else handleGroupChange X e r)"

definition handleEvent :: "outside \<Rightarrow> run \<Rightarrow> envelope \<Rightarrow> run" where
  "handleEvent X r e =
     (if evSource e = SourceSysNotifyd then
        (let failure = trim_space (payloadGet (evPayload e) ''failure'');
             phase = trim_space (payloadGet (evPayload e) ''phase'');
             child = trim_space (payloadGet (evPayload e) ''child_state'')
         in if failure \<noteq> '''' then announce X ''failed'' failure r
            else let r = (if phase = ''ready'' \<or> child = ''running'' then announce X ''running'' (FirstNonEmpty [phase, child]) r else r)
                 in if phase = ''stopping'' \<or> child = ''stopping'' then announce X ''stopping'' (FirstNonEmpty [phase, child]) r else r)
      else if evSource e = SourceServicectl then
        (if payloadGet (evPayload e) ''action'' = ''stop'' \<and> payloadGet (evPayload e) ''result'' = ''ok''
         then announce X ''waiting'' ''stopped'' r else r)
      else if evSource e = SourceSysPropertyd then
        (let r = (if evKind e = KindGroupChanged \<or> evKind e = KindPropertyChanged then clearFuse X ''property-change'' r else r)
         in if evKind e = KindGroupChanged then handleGroupScopedChange X e r else r)
      else r)"

text \<open>The synchronization before the daemon listens to events; it ends only when it succeeds or a signal arrives.\<close>

partial_function (option) initialSync :: "outside \<Rightarrow> run \<Rightarrow> run option" where
  "initialSync X r =
     (if outCancelled X (snd r) then Some r
      else let (r, snap) = queryUnit X r
           in case snap of
                Inl err \<Rightarrow> (let r = writeState X ''waiting'' ''initial-sync'' r in initialSync X (fst r, snd r @ [Slept]))
              | Inr s \<Rightarrow>
                  if snapshotIsRunning s then Some (announce X ''running'' ''initial-state'' (refreshGroups X r))
                  else let (r, ok) = startUnit X (refreshGroups X (announce X ''starting'' ''initial-start'' r))
                       in if ok then Some r else initialSync X (fst r, snd r @ [Slept]))"

definition stopOnSignal :: "outside \<Rightarrow> run \<Rightarrow> run" where
  "stopOnSignal X r =
     (let r = writeState X ''stopping'' ''signal'' r;
          r = (if isGroupMode (fst r) then fst (runGroupAction X ''stop'' (rev (odGroupUnits (fst r))) r)
               else fst (runServicectl X ''stop'' r))
      in publishState ''stopping'' ''signal'' r)"

subsection \<open>What the steps keep\<close>

definition fuseInv :: "run \<Rightarrow> bool" where
  "fuseInv r \<longleftrightarrow> 1 \<le> odMaxFailures (fst r) \<and> 0 \<le> odFailureCount (fst r) \<and>
     (odFused (fst r) \<longleftrightarrow> odMaxFailures (fst r) \<le> odFailureCount (fst r))"

text \<open>Two records agree on the fields of the fuse.\<close>

definition sameFuse :: "orchestrd \<Rightarrow> orchestrd \<Rightarrow> bool" where
  "sameFuse d d' \<longleftrightarrow> odMaxFailures d' = odMaxFailures d \<and> odFailureCount d' = odFailureCount d \<and> odFused d' = odFused d"

lemma sameFuse_refl [simp]: "sameFuse d d"
  by (simp add: sameFuse_def)

lemma sameFuse_trans: "sameFuse a b \<Longrightarrow> sameFuse b c \<Longrightarrow> sameFuse a c"
  by (simp add: sameFuse_def)

lemma fuseInv_same: "sameFuse (fst r) (fst r') \<Longrightarrow> fuseInv r' = fuseInv r"
  by (auto simp: sameFuse_def fuseInv_def)

lemma writeState_fst [simp]: "fst (writeState X s reason r) = (fst r)\<lparr>odState := s\<rparr>"
  by (simp add: writeState_def Let_def split: prod.split)

lemma publishState_fst [simp]: "fst (publishState s reason r) = fst r"
  by (simp add: publishState_def split: prod.split)

lemma announce_fst [simp]: "fst (announce X s reason r) = (fst r)\<lparr>odState := s\<rparr>"
  by (simp add: announce_def)

lemma announce_inv [simp]: "fuseInv (announce X s reason r) = fuseInv r"
  by (rule fuseInv_same) (simp add: sameFuse_def)

lemma runServicectl_fst [simp]: "fst (fst (runServicectl X action r)) = fst r"
  by (simp add: runServicectl_def Let_def split: prod.split option.split)

lemma runGroupAction_same: "sameFuse (fst r) (fst (fst (runGroupAction X action units r)))"
proof (induction X action units r rule: runGroupAction.induct)
  case (2 X action unit units r)
  obtain d tr where r: "r = (d, tr)" by fastforce
  obtain r1 err where run: "runServicectl X action (d\<lparr>odUnit := serviceUnit unit\<rparr>, tr) = (r1, err)" by fastforce
  then have "fst r1 = d\<lparr>odUnit := serviceUnit unit\<rparr>" by (metis fst_conv runServicectl_fst)
  then have "sameFuse d (fst r1)" by (simp add: sameFuse_def)
  with "2.IH" [OF r [symmetric] refl run [symmetric]] show ?case
    by (auto simp: r run intro: sameFuse_trans split: option.split)
qed simp

lemma recordAttemptSuccess_inv: "fuseInv r \<Longrightarrow> fuseInv (recordAttemptSuccess r)"
  by (auto simp: recordAttemptSuccess_def fuseInv_def Let_def split: prod.splits)

lemma recordAttemptFailure_inv: "fuseInv r \<Longrightarrow> fuseInv (recordAttemptFailure X e r)"
  by (auto simp: recordAttemptFailure_def fuseInv_def Let_def split: prod.splits)

lemma clearFuse_inv: "fuseInv r \<Longrightarrow> fuseInv (clearFuse X trigger r)"
  by (auto simp: clearFuse_def fuseInv_def Let_def split: prod.splits)

lemma retryLoop_inv:
  assumes "\<And>r. sameFuse (fst r) (fst (fst (runner r)))"
  shows "fuseInv r \<Longrightarrow> fuseInv (fst (retryLoop n X runner r))"
proof (induction n arbitrary: r)
  case (Suc n)
  obtain r1 err where run: "runner r = (r1, err)" by fastforce
  have r1: "fuseInv r1" using assms [of r] fuseInv_same [of r r1] Suc.prems by (simp add: run)
  show ?case
  proof (cases err)
    case None
    with run r1 show ?thesis by (simp add: recordAttemptSuccess_inv)
  next
    case (Some e)
    let ?r2 = "recordAttemptFailure X e r1"
    have "fuseInv (fst ?r2, snd ?r2 @ [Slept])"
      using recordAttemptFailure_inv [OF r1, of X e] fuseInv_same [of ?r2 "(fst ?r2, snd ?r2 @ [Slept])"] by simp
    with Suc.IH recordAttemptFailure_inv [OF r1, of X e] show ?thesis
      by (simp add: run Some Let_def)
  qed
qed simp

lemma attemptStartWithRetry_inv:
  "(\<And>r. sameFuse (fst r) (fst (fst (runner r)))) \<Longrightarrow> fuseInv r \<Longrightarrow> fuseInv (fst (attemptStartWithRetry X runner r))"
  by (simp add: attemptStartWithRetry_def retryLoop_inv)

lemma startUnit_inv: "fuseInv r \<Longrightarrow> fuseInv (fst (startUnit X r))"
  unfolding startUnit_def by (rule attemptStartWithRetry_inv) simp_all

lemma queryUnit_fst [simp]: "fst (fst (queryUnit X r)) = fst r"
  by (simp add: queryUnit_def Let_def split: prod.split)

lemma queryGroup_fst [simp]: "fst (fst (queryGroup X r)) = fst r"
  by (simp add: queryGroup_def Let_def split: prod.split)

lemma startOrder_fst [simp]: "fst (fst (startOrderForGroupUnits X units r)) = fst r"
  by (simp add: startOrderForGroupUnits_def Let_def split: prod.split option.split)

lemma refreshGroups_same: "sameFuse (fst r) (fst (refreshGroups X r))"
  by (simp add: refreshGroups_def sameFuse_def Let_def split: prod.split option.split)

lemma fuseInv_fst: "fst r' = fst r \<Longrightarrow> fuseInv r' = fuseInv r"
  by (simp add: fuseInv_def)

lemma startGroup_inv:
  assumes "fuseInv r"
  shows "fuseInv (startGroup X reason r)"
proof -
  let ?r = "announce X ''starting'' reason r"
  obtain r1 ordered err where order: "startOrderForGroupUnits X (odGroupUnits (fst ?r)) ?r = (r1, ordered, err)"
    by (metis prod.exhaust)
  then have "fst r1 = fst ?r" by (metis fst_conv startOrder_fst)
  then have r1: "fuseInv r1" using fuseInv_fst [of r1 ?r] assms by simp
  then have "fuseInv (fst (attemptStartWithRetry X (runGroupAction X ''start'' ordered) r1))"
    by (intro attemptStartWithRetry_inv runGroupAction_same)
  with r1 order show ?thesis
    by (auto simp: startGroup_def Let_def recordAttemptFailure_inv split: prod.split option.split)
qed

lemma groupMissing_inv: "fuseInv r \<Longrightarrow> fuseInv (groupMissing X r)"
  using fuseInv_same [of r "(fst r\<lparr>odGroupUnits := []\<rparr>, snd r)"] by (simp add: groupMissing_def sameFuse_def)

lemma setUnits_inv: "fuseInv (fst r\<lparr>odGroupUnits := us\<rparr>, tr) = fuseInv r"
  by (rule fuseInv_same) (simp add: sameFuse_def)

lemma runServicectl_inv: "fuseInv (fst (runServicectl X action r)) = fuseInv r"
  by (rule fuseInv_fst) simp

lemma runGroupAction_inv: "fuseInv (fst (runGroupAction X action units r)) = fuseInv r"
  by (rule fuseInv_same) (rule runGroupAction_same)

lemma queryUnit_inv: "fuseInv (fst (queryUnit X r)) = fuseInv r"
  by (rule fuseInv_fst) simp

lemma queryGroup_inv: "fuseInv (fst (queryGroup X r)) = fuseInv r"
  by (rule fuseInv_fst) simp

lemmas orchestrd_keeps = recordAttemptSuccess_inv recordAttemptFailure_inv clearFuse_inv startUnit_inv startGroup_inv
  groupMissing_inv

lemma handleGroupChange_inv:
  assumes "fuseInv r"
  shows "fuseInv (handleGroupChange X e r)"
proof -
  obtain r1 snap where q: "queryUnit X r = (r1, snap)" by fastforce
  have r1: "fuseInv r1" using queryUnit_inv [of X r] assms by (simp add: q)
  have stop: "fuseInv (case runServicectl X ''stop'' r' of (r, err) \<Rightarrow>
      (case err of Some e \<Rightarrow> recordAttemptFailure X e r | None \<Rightarrow> announce X ''waiting'' reason (recordAttemptSuccess r)))"
    if "fuseInv r'" for r' reason
    using that runServicectl_inv [of X "''stop''" r'] by (auto simp: orchestrd_keeps split: prod.split option.split)
  show ?thesis
    using assms r1 stop by (auto simp: handleGroupChange_def Let_def q orchestrd_keeps split: sum.split)
qed

lemma handleGroupScopedChange_inv:
  assumes "fuseInv r"
  shows "fuseInv (handleGroupScopedChange X e r)"
proof -
  obtain r1 state where q: "queryGroup X r = (r1, state)" by fastforce
  have r1: "fuseInv r1" using queryGroup_inv [of X r] assms by (simp add: q)
  have stop: "fuseInv (case runGroupAction X ''stop'' units r' of (r, err) \<Rightarrow>
      (case err of Some e \<Rightarrow> recordAttemptFailure X e r | None \<Rightarrow> announce X ''waiting'' reason (recordAttemptSuccess r)))"
    if "fuseInv r'" for units r' reason
    using that runGroupAction_inv [of X "''stop''" units r'] by (auto simp: orchestrd_keeps split: prod.split option.split)
  show ?thesis
    using assms r1 stop
    by (auto simp: handleGroupScopedChange_def Let_def q orchestrd_keeps setUnits_inv handleGroupChange_inv split: option.split)
qed

lemma orchestrdEvent_inv: "fuseInv r \<Longrightarrow> fuseInv (handleEvent X r e)"
  by (auto simp: handleEvent_def Let_def clearFuse_inv handleGroupScopedChange_inv)

interpretation orch: machine "handleEvent X" fuseInv
  by unfold_locales (rule orchestrdEvent_inv)

lemma newOrchestrd_inv: "fuseInv (newOrchestrd unit grp user raw, tr)"
  by (auto simp: fuseInv_def newOrchestrd_def maxFailureThreshold_def Let_def split: option.split)



subsection \<open>Bounded attempts\<close>

definition servicectlRuns :: "effect list \<Rightarrow> string list list" where
  "servicectlRuns tr = concat (map (\<lambda>e. case e of ServicectlRun args \<Rightarrow> [args] | _ \<Rightarrow> []) tr)"

abbreviation runsOf :: "run \<Rightarrow> string list list" where
  "runsOf r \<equiv> servicectlRuns (snd r)"

lemma servicectlRuns_append [simp]: "servicectlRuns (a @ b) = servicectlRuns a @ servicectlRuns b"
  by (simp add: servicectlRuns_def)

lemma servicectlRuns_Cons [simp]:
  "servicectlRuns (e # tr) = (case e of ServicectlRun args \<Rightarrow> [args] | _ \<Rightarrow> []) @ servicectlRuns tr"
  "servicectlRuns [] = []"
  by (simp_all add: servicectlRuns_def)

lemma writeState_runs [simp]: "runsOf (writeState X s reason r) = runsOf r"
  by (simp add: writeState_def Let_def split: prod.split)

lemma publishState_runs [simp]: "runsOf (publishState s reason r) = runsOf r"
  by (simp add: publishState_def split: prod.split)

lemma announce_runs [simp]: "runsOf (announce X s reason r) = runsOf r"
  by (simp add: announce_def)

lemma recordAttemptSuccess_runs [simp]: "runsOf (recordAttemptSuccess r) = runsOf r"
  by (simp add: recordAttemptSuccess_def Let_def split: prod.split)

lemma recordAttemptFailure_runs [simp]: "runsOf (recordAttemptFailure X e r) = runsOf r"
  by (simp add: recordAttemptFailure_def Let_def split: prod.split)

lemma queryUnit_runs [simp]: "runsOf (fst (queryUnit X r)) = runsOf r"
  by (simp add: queryUnit_def Let_def split: prod.split)

lemma refreshGroups_runs [simp]: "runsOf (refreshGroups X r) = runsOf r"
  by (simp add: refreshGroups_def Let_def split: prod.split option.split)

definition commandArgs :: "orchestrd \<Rightarrow> string \<Rightarrow> string \<Rightarrow> string list" where
  "commandArgs d action unit = (if odUserMode d then [''--user''] else []) @ [action, unit]"

lemma runServicectl_runs: "runsOf (fst (runServicectl X action r)) = runsOf r @ [commandArgs (fst r) action (odUnit (fst r))]"
  by (simp add: runServicectl_def commandArgs_def Let_def split: prod.split option.split)

lemma recordAttemptFailure_count:
  "odFailureCount (fst (recordAttemptFailure X e r)) = odFailureCount (fst r) + 1"
  "odMaxFailures (fst (recordAttemptFailure X e r)) = odMaxFailures (fst r)"
  by (simp_all add: recordAttemptFailure_def Let_def split: prod.split)

lemma recordAttemptSuccess_clears: "\<not> odFused (fst (recordAttemptSuccess r)) \<and> odFailureCount (fst (recordAttemptSuccess r)) = 0"
  by (simp add: recordAttemptSuccess_def Let_def split: prod.split)

lemma retryLoop_bounded:
  assumes "fuseInv r" "\<not> odFused (fst r)" "odMaxFailures (fst r) - odFailureCount (fst r) \<le> int n"
    and "retryLoop n X (runServicectl X action) r = (r', ok)"
  shows "length (runsOf r') \<le> length (runsOf r) + nat (odMaxFailures (fst r) - odFailureCount (fst r)) \<and>
    (if ok then odFailureCount (fst r') = 0 \<and> \<not> odFused (fst r') else odFused (fst r'))"
  using assms
proof (induction n arbitrary: r)
  case 0
  then show ?case by (simp add: fuseInv_def)
next
  case (Suc n)
  obtain r1 err where run: "runServicectl X action r = (r1, err)" by fastforce
  have fst1: "fst r1 = fst r" using runServicectl_fst [of X action r] by (simp add: run)
  have len1: "length (runsOf r1) = Suc (length (runsOf r))" using runServicectl_runs [of X action r] by (simp add: run)
  have left: "1 \<le> odMaxFailures (fst r) - odFailureCount (fst r)" using Suc.prems(1,2) by (auto simp: fuseInv_def)
  show ?case
  proof (cases err)
    case None
    then have "r' = recordAttemptSuccess r1" "ok" using Suc.prems(4) by (simp_all add: run)
    with recordAttemptSuccess_clears [of r1] len1 left show ?thesis by simp
  next
    case (Some e)
    let ?r2 = "recordAttemptFailure X e r1" and ?k = "nat (odMaxFailures (fst r) - odFailureCount (fst r))"
    have inv2: "fuseInv ?r2" using recordAttemptFailure_inv fuseInv_fst [OF fst1] Suc.prems(1) by blast
    have k: "odMaxFailures (fst ?r2) - odFailureCount (fst ?r2) = odMaxFailures (fst r) - odFailureCount (fst r) - 1"
      by (simp add: recordAttemptFailure_count fst1)
    show ?thesis
    proof (cases "odFused (fst ?r2)")
      case True
      then have "r' = ?r2" "\<not> ok" using Suc.prems(4) by (simp_all add: run Some Let_def)
      with True len1 left show ?thesis by simp
    next
      case False
      let ?r3 = "(fst ?r2, snd ?r2 @ [Slept])"
      have "retryLoop n X (runServicectl X action) ?r3 = (r', ok)"
        using Suc.prems(4) False by (simp add: run Some Let_def)
      moreover have "fuseInv ?r3" using inv2 fuseInv_fst [of ?r3 ?r2] by simp
      ultimately have "length (runsOf r') \<le> length (runsOf ?r3) + nat (odMaxFailures (fst ?r3) - odFailureCount (fst ?r3)) \<and>
          (if ok then odFailureCount (fst r') = 0 \<and> \<not> odFused (fst r') else odFused (fst r'))"
        using Suc.prems(3) False k by (intro Suc.IH) simp_all
      then show ?thesis using len1 left k by auto
    qed
  qed
qed

text \<open>
  Fact. Starting a unit is bounded: the daemon runs \<open>servicectl start\<close> at most as often as
  attempts are left until the fuse opens, not at all when the fuse is open, and it gives up only
  with the fuse open; a success resets the count.
\<close>

theorem start_attempts_bounded:
  assumes "fuseInv r" "startUnit X r = (r', ok)"
  shows "length (runsOf r') \<le> length (runsOf r) +
      (if odFused (fst r) then 0 else nat (odMaxFailures (fst r) - odFailureCount (fst r))) \<and>
    (if ok then odFailureCount (fst r') = 0 \<and> \<not> odFused (fst r') else odFused (fst r'))"
proof (cases "odFused (fst r)")
  case True
  with assms(2) show ?thesis by (auto simp: startUnit_def attemptStartWithRetry_def)
next
  case False
  have le: "odMaxFailures (fst r) - odFailureCount (fst r) \<le> int (nat (odMaxFailures (fst r)))"
    using assms(1) by (simp add: fuseInv_def)
  have "retryLoop (nat (odMaxFailures (fst r))) X (runServicectl X ''start'') r = (r', ok)"
    using assms(2) False by (simp add: startUnit_def attemptStartWithRetry_def)
  from retryLoop_bounded [OF assms(1) False le this] False show ?thesis by simp
qed

text \<open>A host on which every start fails and no unit runs.\<close>

definition failingOutside :: outside where
  "failingOutside = \<lparr>outServicectl = (\<lambda>_. Some ''exit status 1''), outGroupOrder = (\<lambda>_. (None, '''')),
     outQueryUnit = (\<lambda>_. Inr \<lparr>usState = ''STOPPED'', usManagedBy = '''', usManagerPID = ''''\<rparr>),
     outQueryGroup = (\<lambda>_. None), outUnitGroups = (\<lambda>_. None), outNow = (\<lambda>_. ''now''), outCancelled = (\<lambda>tr. 40 < length tr)\<rparr>"

definition freshRun :: run where
  "freshRun = (newOrchestrd ''foo.service'' '''' False '''', [])"

theorem start_attempts_bounded_witness:
  "length (runsOf (fst (startUnit failingOutside freshRun))) \<le> 3 \<and> odFused (fst (fst (startUnit failingOutside freshRun)))"
proof -
  have "\<not> snd (startUnit failingOutside freshRun)" by code_simp
  moreover have "odMaxFailures (fst freshRun) = 3" "odFailureCount (fst freshRun) = 0" "\<not> odFused (fst freshRun)" "runsOf freshRun = []"
    by (simp_all add: freshRun_def newOrchestrd_def maxFailureThreshold_def)
  moreover have "fuseInv freshRun" unfolding freshRun_def by (rule newOrchestrd_inv)
  ultimately show ?thesis
    using start_attempts_bounded [OF _ prod.collapse [symmetric], of freshRun failingOutside] by simp
qed


subsection \<open>The initial synchronization\<close>

lemma startUnit_fused: "odFused (fst r) \<Longrightarrow> startUnit X r = (r, False)"
  by (simp add: startUnit_def attemptStartWithRetry_def)

lemma refreshGroups_fused [simp]: "odFused (fst (refreshGroups X r)) = odFused (fst r)"
  using refreshGroups_same [of r X] by (simp add: sameFuse_def)



subsection \<open>Events of other units\<close>

text \<open>
  Fact. The daemon does not look at the unit of an event: a failure that sys-notifyd reports
  for any unit puts this orchestrator into the state failed, and a successful stop of any unit puts
  it into the state waiting. The watch that feeds it is filtered by mode only.
\<close>

theorem foreign_events_taken:
  "(evSource e = SourceSysNotifyd \<and> trim_space (payloadGet (evPayload e) ''failure'') \<noteq> '''' \<longrightarrow>
      odState (fst (handleEvent X r (e\<lparr>evUnit := other\<rparr>))) = ''failed'') \<and>
   (evSource e = SourceServicectl \<and> payloadGet (evPayload e) ''action'' = ''stop'' \<and> payloadGet (evPayload e) ''result'' = ''ok'' \<longrightarrow>
      odState (fst (handleEvent X r (e\<lparr>evUnit := other\<rparr>))) = ''waiting'')"
  by (simp add: handleEvent_def Let_def)

definition failureOf :: "string \<Rightarrow> envelope" where
  "failureOf unit = \<lparr>evSource = SourceSysNotifyd, evKind = ''unit.runtime'', evMode = ''system'', evUnit = unit, evTarget = '''',
     evTimestamp = '''', evPayload = [(''failure'', ''exit 1'')], evUID = 0, evEpoch = '''', evGeneration = 0\<rparr>"

theorem foreign_events_taken_witness:
  "odUnit (fst freshRun) = ''foo.service'' \<and>
   odState (fst (handleEvent failingOutside freshRun ((failureOf ''foo.service'')\<lparr>evUnit := ''bar.service''\<rparr>))) = ''failed''"
proof -
  have "trim_space (payloadGet (evPayload (failureOf ''foo.service'')) ''failure'') \<noteq> ''''" by code_simp
  moreover have "evSource (failureOf ''foo.service'') = SourceSysNotifyd" by (simp add: failureOf_def)
  moreover have "odUnit (fst freshRun) = ''foo.service''" by code_simp
  ultimately show ?thesis
    using foreign_events_taken [of "failureOf ''foo.service''" failingOutside freshRun "''bar.service''"] by simp
qed

subsection \<open>Groups\<close>

text \<open>The units are handled in the given order, up to the first failure.\<close>

lemma commandArgs_cong: "odUserMode d' = odUserMode d \<Longrightarrow> commandArgs d' = commandArgs d"
  by (simp add: commandArgs_def fun_eq_iff)

lemma runGroupAction_runs:
  "\<exists>handled. runsOf (fst (runGroupAction X action units r)) = runsOf r @ map (\<lambda>u. commandArgs (fst r) action (serviceUnit u)) handled \<and>
     (case snd (runGroupAction X action units r) of None \<Rightarrow> handled = units | Some _ \<Rightarrow> handled \<noteq> [] \<and> (\<exists>rest. units = handled @ rest))"
proof (induction X action units r rule: runGroupAction.induct)
  case (2 X action unit units r)
  obtain d tr where r: "r = (d, tr)" by fastforce
  let ?d = "d\<lparr>odUnit := serviceUnit unit\<rparr>"
  obtain r1 err where run: "runServicectl X action (?d, tr) = (r1, err)" by fastforce
  have r1: "fst r1 = ?d" "runsOf r1 = servicectlRuns tr @ [commandArgs d action (serviceUnit unit)]"
    using runServicectl_fst [of X action "(?d, tr)"] runServicectl_runs [of X action "(?d, tr)"] commandArgs_cong [of ?d d]
    by (simp_all add: run)
  show ?case
  proof (cases err)
    case None
    from "2.IH" [OF refl r [symmetric] refl run [symmetric] None] obtain handled where
      h: "runsOf (fst (runGroupAction X action units r1)) = runsOf r1 @ map (\<lambda>u. commandArgs d action (serviceUnit u)) handled"
        "case snd (runGroupAction X action units r1) of None \<Rightarrow> handled = units | Some _ \<Rightarrow> handled \<noteq> [] \<and> (\<exists>rest. units = handled @ rest)"
      using commandArgs_cong [of ?d d] r1(1) by auto
    then show ?thesis
      by (intro exI [of _ "unit # handled"]) (auto simp: r run None r1(2) split: option.splits)
  next
    case (Some e)
    then show ?thesis by (intro exI [of _ "[unit]"]) (simp add: r run r1(2))
  qed
qed simp

text \<open>What \<open>servicectl group-start-order\<close> prints for an order, the daemon reads back.\<close>

definition printOrder :: "string list \<Rightarrow> string" where
  "printOrder order = concat (map (\<lambda>u. u @ [CHR 0x0A]) order)"

lemma encoding_line: "e \<in> set space_encodings \<Longrightarrow> CHR 0x0A \<in> set e \<Longrightarrow> e = [CHR 0x0A]"
  by (auto simp: space_encodings_def)

lemma space_at_line:
  assumes "space_at u = 0" "u \<noteq> []"
  shows "space_at (u @ CHR 0x0A # t) = 0"
  unfolding space_at_eq_0
proof (intro ballI notI)
  fix e assume e: "e \<in> set space_encodings" and "has_prefix (u @ CHR 0x0A # t) e"
  then obtain r where r: "u @ CHR 0x0A # t = e @ r" by (auto simp: has_prefix_iff)
  then obtain us where "u = e @ us \<or> u @ us = e \<and> CHR 0x0A # t = us @ r" by (auto simp: append_eq_append_conv2)
  moreover have "us = []" if "u @ us = e" "CHR 0x0A # t = us @ r"
    using that encoding_line [OF e] assms(2) by (cases us) (auto simp: append_eq_Cons_conv)
  ultimately have "has_prefix u e" by (auto simp: has_prefix_iff)
  with e assms(1) show False by (auto simp: space_at_eq_0)
qed

lemma space_at_end_line:
  assumes "space_at_end u = 0" "u \<noteq> []"
  shows "space_at_end (t @ CHR 0x0A # u) = 0"
  unfolding space_at_end_eq_0
proof (intro ballI notI)
  fix e assume e: "e \<in> set space_encodings" and "has_suffix (t @ CHR 0x0A # u) e"
  then obtain q where "(t @ [CHR 0x0A]) @ u = q @ e" by (auto simp: has_suffix_iff)
  then obtain us where "t @ [CHR 0x0A] = q @ us \<and> us @ u = e \<or> (t @ [CHR 0x0A]) @ us = q \<and> u = us @ e"
    unfolding append_eq_append_conv2 by blast
  moreover have "us = []" if "t @ [CHR 0x0A] = q @ us" "us @ u = e"
    using that encoding_line [OF e] assms(2) by (cases us rule: rev_cases) (auto simp: append_eq_Cons_conv)
  ultimately have "has_suffix u e" by (auto simp: has_suffix_iff)
  with e assms(1) show False by (auto simp: space_at_end_eq_0)
qed

lemma space_at_end_newline: "space_at_end (s @ [CHR 0x0A]) = 1"
  by (simp add: space_at_end_def space_encodings_def has_suffix_def)

lemma join_ends:
  assumes "order \<noteq> []" "list_all lineName order"
  shows "space_at (join [CHR 0x0A] order @ [CHR 0x0A]) = 0 \<and> space_at_end (join [CHR 0x0A] order) = 0"
proof -
  have ends: "u \<noteq> [] \<and> space_at u = 0 \<and> space_at_end u = 0" if "u \<in> set order" for u
    using that assms(2) trim_space_ends [of u] by (auto simp: list_all_iff lineName_def)
  have "space_at (join [CHR 0x0A] order @ [CHR 0x0A]) = 0"
  proof (cases order)
    case (Cons u us)
    then show ?thesis using ends [of u] space_at_line [of u] by (cases us) auto
  qed (use assms in simp)
  moreover have "space_at_end (join [CHR 0x0A] order) = 0"
  proof (cases order rule: rev_cases)
    case (snoc us u)
    then show ?thesis using ends [of u] space_at_end_line [of u "join [CHR 0x0A] us"] join_append [of us "[u]" "[CHR 0x0A]"]
      by (cases "us = []") auto
  qed (use assms in simp)
  ultimately show ?thesis by blast
qed

lemma printOrder_trim:
  assumes "order \<noteq> []" "list_all lineName order"
  shows "trim_space (printOrder order) = join [CHR 0x0A] order"
proof -
  have shape: "printOrder order = join [CHR 0x0A] order @ [CHR 0x0A]"
    using assms(1) by (induction order rule: list_nonempty_induct) (auto simp: printOrder_def join_Cons)
  have "trim_left_space (printOrder order) = printOrder order"
    using join_ends [OF assms] by (subst trim_left_space.simps) (simp add: shape Let_def)
  moreover have "trim_right_space (printOrder order) = trim_right_space (join [CHR 0x0A] order)"
    by (subst trim_right_space.simps) (simp add: shape space_at_end_newline Let_def)
  moreover have "trim_right_space (join [CHR 0x0A] order) = join [CHR 0x0A] order"
    using join_ends [OF assms] by (subst trim_right_space.simps) (simp add: Let_def)
  ultimately show ?thesis by (simp add: trim_space_def)
qed

lemma orderLines_printOrder:
  assumes "list_all (\<lambda>u. lineName u \<and> has_suffix u ''.service'') order"
  shows "orderLines (printOrder order) = order"
proof (cases "order = []")
  case True
  then show ?thesis by (simp add: printOrder_def orderLines_def)
next
  case False
  have lines: "list_all lineName order" using assms by (simp add: list_all_iff)
  have "split_on CHR 0x0A (join [CHR 0x0A] order) = order"
    using False lines by (intro split_on_join) (auto simp: list_all_iff lineName_def)
  moreover have "map trim_space order = order" "filter (\<lambda>l. l \<noteq> '''') order = order"
    using lines by (auto simp: list_all_iff lineName_def intro!: map_idI)
  moreover have "map (\<lambda>line. if has_suffix line ''.service'' then line else line @ ''.service'') order = order"
    using assms by (intro map_idI) (auto simp: list_all_iff)
  ultimately show ?thesis unfolding orderLines_def printOrder_trim [OF False lines] by (simp only:)
qed

lemma normalized_suffix: "normalizeServiceUnitName C H raw \<noteq> '''' \<Longrightarrow> has_suffix (normalizeServiceUnitName C H raw) ''.service''"
  by (auto simp: normalizeServiceUnitName_def Let_def split: if_splits)

lemma serviceUnit_id: "lineName u \<Longrightarrow> has_suffix u ''.service'' \<Longrightarrow> serviceUnit u = u"
  by (simp add: serviceUnit_def lineName_def trim_suffix_restore)

lemma group_order_names:
  assumes "finite {path. hStat H path}" "queryGroupState grp = Some units"
    and "distinct (map fst (ersGroups roots))" "list_all (\<lambda>raw. CHR 0x0A \<notin> set raw) (rootNames roots @ units)"
    and "resolveGroupStartOrder C H roots queryGroupState grp = Some (Inr order)"
  shows "list_all (\<lambda>u. lineName u \<and> has_suffix u ''.service'') order"
proof -
  have "list_all (\<lambda>raw. CHR 0x0A \<notin> set raw) (rootNames roots)" using assms(4) by simp
  with assms(1-3) have "set order = normalizeServiceUnitName C H ` set units - {''''}"
    using assms(5) by (cases rule: resolveGroupStartOrder_cases [of H queryGroupState grp units roots C]) auto
  with assms(4) show ?thesis by (auto simp: list_all_iff normalized_lineName normalized_suffix)
qed

lemma startGroup_once:
  assumes "\<not> odFused (fst r)" "1 \<le> odMaxFailures (fst r)" "\<And>tr. outServicectl X tr = None"
    and out: "\<And>tr. outGroupOrder X tr = (None, out)" "orderLines out = order" "order \<noteq> []"
  shows "runsOf (startGroup X reason r) = runsOf r @ map (\<lambda>u. commandArgs (fst r) ''start'' (serviceUnit u)) order \<and>
    odState (fst (startGroup X reason r)) = ''running''"
proof -
  let ?r = "announce X ''starting'' reason r"
  obtain d0 tr0 where r0: "?r = (d0, tr0)" by fastforce
  then have d0: "d0 = (fst r)\<lparr>odState := ''starting''\<rparr>" "servicectlRuns tr0 = runsOf r"
    using announce_fst [of X "''starting''" reason r] announce_runs [of X "''starting''" reason r] by simp_all
  define r1 where "r1 = (d0, tr0 @ [GroupOrderRun ((if odUserMode d0 then [''--user''] else []) @ [''group-start-order'', odGroup d0])])"
  have r1: "startOrderForGroupUnits X (odGroupUnits (fst ?r)) ?r = (r1, order, None)"
    unfolding r0 using out by (simp add: startOrderForGroupUnits_def r1_def Let_def)
  have runs1: "runsOf r1 = runsOf r" by (simp add: r1_def d0(2))
  have same: "odFused (fst r1) = odFused (fst r)" "odMaxFailures (fst r1) = odMaxFailures (fst r)" "odUserMode (fst r1) = odUserMode (fst r)"
    by (simp_all add: r1_def d0(1))
  have never: "snd (runGroupAction X ''start'' us s) = None" for us s
    by (induction us arbitrary: s) (auto simp: runServicectl_def assms(3) Let_def split: prod.split)
  obtain r2 where r2: "runGroupAction X ''start'' order r1 = (r2, None)" using never by (metis prod.collapse)
  obtain n where n: "nat (odMaxFailures (fst r1)) = Suc n"
    using assms(2) same(2) by (cases "nat (odMaxFailures (fst r1))") auto
  have "attemptStartWithRetry X (runGroupAction X ''start'' order) r1 = (recordAttemptSuccess r2, True)"
    using assms(1) same(1) by (simp add: attemptStartWithRetry_def n r2)
  then have "startGroup X reason r = announce X ''running'' reason (recordAttemptSuccess r2)"
    unfolding startGroup_def Let_def r1 by simp
  moreover have "runsOf r2 = runsOf r1 @ map (\<lambda>u. commandArgs (fst r) ''start'' (serviceUnit u)) order"
    using runGroupAction_runs [of X "''start''" order r1] commandArgs_cong [OF same(3)] by (simp add: r2)
  ultimately show ?thesis using runs1 by simp
qed




end
