(* ===== verification/Go_Flag.thy ===== *)
theory Go_Flag
  imports Prelude
begin

text \<open>
  The parser of Go's package \<open>flag\<close> (\<open>FlagSet.Parse\<close> with \<open>ContinueOnError\<close>), for flag sets of
  boolean and string flags: \<open>-name\<close>, \<open>--name\<close>, \<open>-name=value\<close> and \<open>-name value\<close>; the first
  argument that is no flag, or the argument \<open>--\<close>, ends the flags.
\<close>

datatype flag_kind = BoolFlag | StringFlag

datatype flag_error =
    BadFlagSyntax string
  | UndefinedFlag string
  | HelpRequested
  | InvalidBool string string
  | NeedsArgument string

definition parse_bool :: "string \<Rightarrow> bool option" where
  "parse_bool s =
     (if s \<in> {''1'', ''t'', ''T'', ''TRUE'', ''true'', ''True''} then Some True
      else if s \<in> {''0'', ''f'', ''F'', ''FALSE'', ''false'', ''False''} then Some False
      else None)"

text \<open>The name of a flag and its value after an equals sign that is not the first byte.\<close>

definition splitFlag :: "string \<Rightarrow> string \<times> string option" where
  "splitFlag s =
     (case s of
        [] \<Rightarrow> ([], None)
      | c # cs \<Rightarrow> (case cut cs CHR ''='' of None \<Rightarrow> (s, None) | Some (n, v) \<Rightarrow> (c # n, Some v)))"

text \<open>What the first argument is: no flag, the terminator, or the text of a flag.\<close>

datatype flag_arg = NotAFlag | Terminator | FlagText string

definition classifyArg :: "string \<Rightarrow> flag_arg" where
  "classifyArg s =
     (if length s < 2 \<or> hd s \<noteq> CHR ''-'' then NotAFlag
      else if s = ''--'' then Terminator
      else if s ! 1 = CHR ''-'' then FlagText (drop 2 s)
      else FlagText (drop 1 s))"

fun parseFlagArgs :: "(string \<Rightarrow> flag_kind option) \<Rightarrow> string list \<Rightarrow> flag_error + ((string \<times> string) list \<times> string list)" where
  "parseFlagArgs kind [] = Inr ([], [])"
| "parseFlagArgs kind (s # args) =
     (case classifyArg s of
        NotAFlag \<Rightarrow> Inr ([], s # args)
      | Terminator \<Rightarrow> Inr ([], args)
      | FlagText name \<Rightarrow>
          if name = [] \<or> hd name = CHR ''-'' \<or> hd name = CHR ''='' then Inl (BadFlagSyntax s)
          else let (name, val) = splitFlag name in
            (case kind name of
               None \<Rightarrow> if name = ''help'' \<or> name = ''h'' then Inl HelpRequested else Inl (UndefinedFlag name)
             | Some BoolFlag \<Rightarrow>
                 (case val of
                    None \<Rightarrow> bind_err (parseFlagArgs kind args) (\<lambda>(vs, rest). Inr ((name, ''true'') # vs, rest))
                  | Some v \<Rightarrow>
                      (case parse_bool v of
                         None \<Rightarrow> Inl (InvalidBool name v)
                       | Some b \<Rightarrow> bind_err (parseFlagArgs kind args)
                           (\<lambda>(vs, rest). Inr ((name, if b then ''true'' else ''false'') # vs, rest))))
             | Some StringFlag \<Rightarrow>
                 (case val of
                    Some v \<Rightarrow> bind_err (parseFlagArgs kind args) (\<lambda>(vs, rest). Inr ((name, v) # vs, rest))
                  | None \<Rightarrow>
                      (case args of
                         [] \<Rightarrow> Inl (NeedsArgument name)
                       | v # args \<Rightarrow> bind_err (parseFlagArgs kind args) (\<lambda>(vs, rest). Inr ((name, v) # vs, rest))))))"

text \<open>The value of a flag after parsing: the last assignment, or the default.\<close>

definition flagValue :: "(string \<times> string) list \<Rightarrow> string \<Rightarrow> string \<Rightarrow> string" where
  "flagValue vs name dflt = (case map_of (rev vs) name of None \<Rightarrow> dflt | Some v \<Rightarrow> v)"

end
