(* ===== verification/Logd_Broker.thy ===== *)
theory Logd_Broker
  imports Go_Flag Go_Path Interfaces
begin

text \<open>
  The log daemon \<open>sys-logd\<close>, part one: the broker that writes to the journal on behalf of the
  per-unit workers (\<open>src/cmd/sys-logd/protocol.go\<close>, \<open>journal.go\<close>, \<open>route.go\<close>, \<open>broker.go\<close>) and the
  worker's side of the connection (\<open>worker.go\<close>, \<open>fallback.go\<close>).

  The JSON encoding of a packet, the process table, the file status calls and the query of dinit are
  arguments. Sockets are streams of received packets and lists of sent ones.
\<close>

subsection \<open>Packets\<close>

abbreviation protocolVersion :: int where "protocolVersion \<equiv> 1"
abbreviation maxProtocolPacketBytes :: nat where "maxProtocolPacketBytes \<equiv> 1048576"
abbreviation packetHello :: string where "packetHello \<equiv> ''hello''"
abbreviation packetLog :: string where "packetLog \<equiv> ''log''"
abbreviation packetAck :: string where "packetAck \<equiv> ''ack''"
abbreviation packetNack :: string where "packetNack \<equiv> ''nack''"

record protocolPacket =
  ppVersion :: int
  ppKind :: string
  ppSequence :: uint64
  ppPriority :: int
  ppMessage :: string
  ppRetryable :: bool
  ppError :: string

datatype logd_error =
    UnsupportedVersion int
  | HelloWithFields
  | LogSequenceZero
  | LogPriority int
  | LogMessageEmpty
  | LogWithResponse
  | AckSequenceZero
  | AckWithFields
  | NackShape
  | UnsupportedKind string
  | PacketTooLarge nat
  | BadJson string
  | InvalidScope string
  | UnitEmpty
  | UnitInvalidCharacter string
  | ValueControlCharacter string
  | PriorityRange int
  | InvalidFieldName string
  | DatagramTooLarge nat
  | EmptyCommandLine
  | FlagFailed flag_error
  | NotAWorker
  | InvalidLoggerService string
  | InvalidPeerPID int
  | RouteLookup string
  | NotApproved string
  | InvalidRuntimeDir string
  | UnsafePath string
  | LoggerPIDMismatch int
  | JournalWrite string
  | FirstPacketNotHello string
  | NotALogRecord string
  | ConnectionClosed
  | ReadTimeout
  | ReadFailed string
  | WriteFailed string

definition validateProtocolPacket :: "protocolPacket \<Rightarrow> logd_error + unit" where
  "validateProtocolPacket p =
     (if ppVersion p \<noteq> protocolVersion then Inl (UnsupportedVersion (ppVersion p))
      else if ppKind p = packetHello then
        (if ppSequence p \<noteq> 0 \<or> ppPriority p \<noteq> 0 \<or> ppMessage p \<noteq> '''' \<or> ppRetryable p \<or> ppError p \<noteq> ''''
         then Inl HelloWithFields else Inr ())
      else if ppKind p = packetLog then
        (if ppSequence p = 0 then Inl LogSequenceZero
         else if ppPriority p < 0 \<or> ppPriority p > 7 then Inl (LogPriority (ppPriority p))
         else if ppMessage p = '''' then Inl LogMessageEmpty
         else if ppRetryable p \<or> ppError p \<noteq> '''' then Inl LogWithResponse
         else Inr ())
      else if ppKind p = packetAck then
        (if ppSequence p = 0 then Inl AckSequenceZero
         else if ppPriority p \<noteq> 0 \<or> ppMessage p \<noteq> '''' \<or> ppRetryable p \<or> ppError p \<noteq> '''' then Inl AckWithFields
         else Inr ())
      else if ppKind p = packetNack then
        (if ppPriority p \<noteq> 0 \<or> ppMessage p \<noteq> '''' \<or> ppError p = '''' then Inl NackShape else Inr ())
      else Inl (UnsupportedKind (ppKind p)))"

text \<open>\<open>marshal\<close> and \<open>unmarshal\<close> stand for \<open>encoding/json\<close> with unknown fields disallowed and one value per packet.\<close>

definition encodeProtocolPacket :: "(protocolPacket \<Rightarrow> string + string) \<Rightarrow> protocolPacket \<Rightarrow> logd_error + string" where
  "encodeProtocolPacket marshal p =
     bind_err (validateProtocolPacket p) (\<lambda>_.
       case marshal p of
         Inl e \<Rightarrow> Inl (BadJson e)
       | Inr b \<Rightarrow> if length b > maxProtocolPacketBytes then Inl (PacketTooLarge (length b)) else Inr b)"

definition decodeProtocolPacket :: "(string \<Rightarrow> string + protocolPacket) \<Rightarrow> string \<Rightarrow> logd_error + protocolPacket" where
  "decodeProtocolPacket unmarshal b =
     (if length b > maxProtocolPacketBytes then Inl (PacketTooLarge (length b))
      else case unmarshal b of
        Inl e \<Rightarrow> Inl (BadJson e)
      | Inr p \<Rightarrow> bind_err (validateProtocolPacket p) (\<lambda>_. Inr p))"

subsection \<open>Journal records\<close>

record logRoute =
  lrScope :: string
  lrUnit :: string
  lrIdentifier :: string
  lrLoggerService :: string
  lrUID :: nat
  lrGID :: nat
  lrPID :: int

type_synonym journalField = "string \<times> string"

definition canonicalJournalUnit :: "string \<Rightarrow> logd_error + string" where
  "canonicalJournalUnit raw =
     (let unit = trim_space raw in
      if unit = '''' then Inl UnitEmpty
      else let unit = (if has_suffix unit ''.service'' then unit else unit @ ''.service'') in
        if contains_any unit [CHR 0x00, CHR 0x0D, CHR 0x0A, CHR 0x09, CHR '' '', CHR ''/'', CHR 0x5C]
        then Inl (UnitInvalidCharacter raw) else Inr unit)"

definition validateJournalValue :: "string \<Rightarrow> string \<Rightarrow> logd_error + unit" where
  "validateJournalValue field val =
     guard_err (\<not> contains_any val [CHR 0x00, CHR 0x0D, CHR 0x0A]) (ValueControlCharacter field)"

definition journalFields :: "logRoute \<Rightarrow> int \<Rightarrow> string \<Rightarrow> logd_error + journalField list" where
  "journalFields route priority message =
     (if lrScope route \<noteq> ''system'' \<and> lrScope route \<noteq> ''user'' then Inl (InvalidScope (lrScope route))
      else bind_err (canonicalJournalUnit (lrUnit route)) (\<lambda>unit.
        bind_err (validateJournalValue ''SYSLOG_IDENTIFIER'' (lrIdentifier route)) (\<lambda>_.
        bind_err (validateJournalValue ''MESSAGE'' message) (\<lambda>_.
        if priority < 0 \<or> priority > 7 then Inl (PriorityRange priority)
        else Inr [(''MESSAGE'', message), (''PRIORITY'', itoa priority), (''SYSLOG_FACILITY'', itoa 3),
          (''SYSLOG_IDENTIFIER'', lrIdentifier route),
          (if lrScope route = ''system'' then ''OBJECT_SYSTEMD_UNIT'' else ''OBJECT_SYSTEMD_USER_UNIT'', unit)]))))"

definition validJournalFieldName :: "string \<Rightarrow> bool" where
  "validJournalFieldName name \<longleftrightarrow> name \<noteq> [] \<and>
     list_all (\<lambda>c. let n = of_char c :: nat in 65 \<le> n \<and> n \<le> 90 \<or> 48 \<le> n \<and> n \<le> 57 \<or> c = CHR ''_'') name"

text \<open>\<open>binary.LittleEndian.PutUint64\<close>.\<close>

definition le_bytes8 :: "nat \<Rightarrow> string" where
  "le_bytes8 n = rev (be_bytes 8 n)"

definition encodeField :: "journalField \<Rightarrow> string" where
  "encodeField f =
     (let (name, val) = f in
      if contains_any val [CHR 0x00, CHR 0x0A]
      then name @ [CHR 0x0A] @ le_bytes8 (length val) @ val @ [CHR 0x0A]
      else name @ ''='' @ val @ [CHR 0x0A])"

fun encodeFields :: "journalField list \<Rightarrow> logd_error + string" where
  "encodeFields [] = Inr []"
| "encodeFields (f # fs) =
     (if \<not> validJournalFieldName (fst f) then Inl (InvalidFieldName (fst f))
      else bind_err (encodeFields fs) (\<lambda>rest. Inr (encodeField f @ rest)))"

definition encodeJournalDatagram :: "journalField list \<Rightarrow> logd_error + string" where
  "encodeJournalDatagram fs =
     bind_err (encodeFields fs) (\<lambda>encoded.
       if length encoded > maxProtocolPacketBytes then Inl (DatagramTooLarge (length encoded)) else Inr encoded)"

text \<open>
  The writer with its connection: open or not. \<open>dial\<close> and \<open>send\<close> act on the outside world;
  \<open>send\<close> reports an error or the number of bytes written.
\<close>

record 'w journalSocket =
  jsDial :: "'w \<Rightarrow> 'w \<times> string option"
  jsSend :: "string \<Rightarrow> 'w \<Rightarrow> 'w \<times> (string + nat)"

definition journalWrite :: "'w journalSocket \<Rightarrow> logRoute \<Rightarrow> int \<Rightarrow> string \<Rightarrow> bool \<times> 'w \<Rightarrow> (bool \<times> 'w) \<times> logd_error option" where
  "journalWrite J route priority message st =
     (case bind_err (journalFields route priority message) encodeJournalDatagram of
        Inl e \<Rightarrow> (st, Some e)
      | Inr datagram \<Rightarrow>
          let (opened, w) = st; (w, dialErr) = (if opened then (w, None) else jsDial J w) in
          (case dialErr of
             Some e \<Rightarrow> ((False, w), Some (JournalWrite e))
           | None \<Rightarrow>
               let (w, r) = jsSend J datagram w in
               (case r of
                  Inl e \<Rightarrow> ((False, w), Some (JournalWrite e))
                | Inr written \<Rightarrow>
                    if written \<noteq> length datagram then ((False, w), Some (JournalWrite ''short journald datagram write''))
                    else ((True, w), None))))"

subsection \<open>Routes\<close>

record peerCredentials =
  pcPID :: int
  pcUID :: nat
  pcGID :: nat

record workerRoute =
  wrScope :: string
  wrUnit :: string
  wrLoggerService :: string

definition validDinitServiceName :: "string \<Rightarrow> bool" where
  "validDinitServiceName name \<longleftrightarrow> name \<noteq> '''' \<and> name \<noteq> ''.'' \<and> name \<noteq> ''..'' \<and>
     list_all (\<lambda>c. let n = of_char c :: nat in 97 \<le> n \<and> n \<le> 122 \<or> 65 \<le> n \<and> n \<le> 90 \<or> 48 \<le> n \<and> n \<le> 57 \<or> c \<in> set ''_.@:+-'') name"

definition workerFlags :: "string \<Rightarrow> flag_kind option" where
  "workerFlags name =
     (if name = ''worker'' then Some BoolFlag
      else if name \<in> {''scope'', ''unit'', ''logger-service'', ''service'', ''spill-dir'', ''socket''} then Some StringFlag
      else None)"

definition parseWorkerRoute :: "string list \<Rightarrow> logd_error + workerRoute" where
  "parseWorkerRoute args =
     (case args of
        [] \<Rightarrow> Inl EmptyCommandLine
      | _ # rest \<Rightarrow>
          (case parseFlagArgs workerFlags rest of
             Inl e \<Rightarrow> Inl (FlagFailed e)
           | Inr (vs, nargs) \<Rightarrow>
               if flagValue vs ''worker'' ''false'' \<noteq> ''true'' \<or> nargs \<noteq> [] then Inl NotAWorker
               else let scope = flagValue vs ''scope'' '''' in
                 if scope \<noteq> ''system'' \<and> scope \<noteq> ''user'' then Inl (InvalidScope scope)
                 else bind_err (canonicalJournalUnit (flagValue vs ''unit'' '''')) (\<lambda>unit.
                   let loggerService = flagValue vs ''logger-service'' '''' in
                   if \<not> validDinitServiceName loggerService then Inl (InvalidLoggerService loggerService)
                   else Inr \<lparr>wrScope = scope, wrUnit = unit, wrLoggerService = loggerService\<rparr>)))"

definition splitNul :: "string \<Rightarrow> string list" where
  "splitNul data = split_on CHR 0x00 data"

definition parseProcCmdline :: "string \<Rightarrow> string list option" where
  "parseProcCmdline data = (let args = filter (\<lambda>p. p \<noteq> '''') (splitNul data) in if args = [] then None else Some args)"

definition parseProcEnvironment :: "string \<Rightarrow> (string \<times> string) list" where
  "parseProcEnvironment data = foldl (\<lambda>env entry.
     case cut entry CHR ''='' of
       Some (name, val) \<Rightarrow> if name \<noteq> '''' then AList.update name val env else env
     | None \<Rightarrow> env) [] (splitNul data)"

definition validateApprovedSysLogdPath :: "string \<Rightarrow> logd_error + unit" where
  "validateApprovedSysLogdPath path =
     guard_err (clean (trim_space path) \<in> {''/usr/bin/sys-logd'', ''/usr/local/bin/sys-logd'', ''/root/.local/bin/sys-logd''})
       (NotApproved path)"

text \<open>\<open>os.Lstat\<close>: owner, symbolic link, directory, writable by group or others.\<close>

record lstatInfo =
  liUID :: nat
  liSymlink :: bool
  liDir :: bool
  liLooseWrite :: bool

fun walkPath :: "(string \<Rightarrow> lstatInfo option) \<Rightarrow> string \<Rightarrow> string list \<Rightarrow> lstatInfo option \<Rightarrow> logd_error + lstatInfo option" where
  "walkPath lstat current [] info = Inr info"
| "walkPath lstat current (part # parts) info =
     (if part = '''' then walkPath lstat current parts info
      else let current = path_join [current, part] in
        (case lstat current of
           None \<Rightarrow> Inl (UnsafePath current)
         | Some i \<Rightarrow>
             if liSymlink i then Inl (UnsafePath current)
             else if parts \<noteq> [] \<and> \<not> liDir i then Inl (UnsafePath current)
             else walkPath lstat current parts (Some i)))"

definition validatePeerOwnedPath :: "(string \<Rightarrow> lstatInfo option) \<Rightarrow> string \<Rightarrow> nat \<Rightarrow> logd_error + unit" where
  "validatePeerOwnedPath lstat path uid =
     (let cleanPath = clean path in
      if \<not> is_abs cleanPath \<or> cleanPath = ''/'' then Inl (UnsafePath path)
      else bind_err (walkPath lstat ''/'' (split_on CHR ''/'' (trim_prefix cleanPath ''/'')) None) (\<lambda>info.
        case info of
          None \<Rightarrow> Inl (UnsafePath path)
        | Some i \<Rightarrow>
            if liUID i \<noteq> uid then Inl (UnsafePath path)
            else if liDir i \<and> liLooseWrite i then Inl (UnsafePath path)
            else Inr ()))"

text \<open>The dependencies of the route resolution: texts of errors on the left.\<close>

record routeDependencies =
  rdCmdline :: "int \<Rightarrow> string + string list"
  rdEnvironment :: "int \<Rightarrow> string + (string \<times> string) list"
  rdExecutable :: "int \<Rightarrow> string + string"
  rdExecutableSecure :: "string \<Rightarrow> logd_error + unit"
  rdPathSecure :: "string \<Rightarrow> nat \<Rightarrow> logd_error + unit"
  rdDinitPID :: "string \<Rightarrow> string \<Rightarrow> string + int"

abbreviation systemDinitSocketPath :: string where "systemDinitSocketPath \<equiv> ''/run/dinitctl''"

definition lookup_err :: "string + 'a \<Rightarrow> logd_error + 'a" where
  "lookup_err r = (case r of Inl e \<Rightarrow> Inl (RouteLookup e) | Inr x \<Rightarrow> Inr x)"

definition dinitSocketOf :: "routeDependencies \<Rightarrow> peerCredentials \<Rightarrow> workerRoute \<Rightarrow> logd_error + string" where
  "dinitSocketOf R peer worker =
     (if wrScope worker = ''user'' then
        bind_err (lookup_err (rdEnvironment R (pcPID peer))) (\<lambda>env.
          let raw = (case map_of env ''XDG_RUNTIME_DIR'' of Some v \<Rightarrow> v | None \<Rightarrow> '''');
              runtimeDir = clean (trim_space raw)
          in if runtimeDir = ''.'' \<or> runtimeDir = ''/'' \<or> \<not> is_abs runtimeDir then Inl (InvalidRuntimeDir raw)
             else bind_err (rdPathSecure R runtimeDir (pcUID peer)) (\<lambda>_.
               let socket = path_join [runtimeDir, ''dinitctl'']
               in bind_err (rdPathSecure R socket (pcUID peer)) (\<lambda>_. Inr socket)))
      else Inr systemDinitSocketPath)"

definition resolvePeerRoute :: "routeDependencies \<Rightarrow> peerCredentials \<Rightarrow> logd_error + logRoute" where
  "resolvePeerRoute R peer =
     (if pcPID peer \<le> 0 then Inl (InvalidPeerPID (pcPID peer))
      else bind_err (lookup_err (rdExecutable R (pcPID peer))) (\<lambda>executable.
        bind_err (rdExecutableSecure R executable) (\<lambda>_.
        bind_err (lookup_err (rdCmdline R (pcPID peer))) (\<lambda>args.
        bind_err (parseWorkerRoute args) (\<lambda>worker.
        bind_err (dinitSocketOf R peer worker) (\<lambda>dinitSocket.
        bind_err (lookup_err (rdDinitPID R dinitSocket (wrLoggerService worker))) (\<lambda>managerPID.
        if managerPID \<noteq> pcPID peer then Inl (LoggerPIDMismatch managerPID)
        else Inr \<lparr>lrScope = wrScope worker, lrUnit = wrUnit worker,
          lrIdentifier = ''servicectl['' @ trim_suffix (wrUnit worker) ''.service'' @ '']'',
          lrLoggerService = wrLoggerService worker, lrUID = pcUID peer, lrGID = pcGID peer, lrPID = pcPID peer\<rparr>)))))))"

subsection \<open>Connections\<close>

record connectionLimiter =
  clMaxTotal :: int
  clMaxPerUID :: int
  clTotal :: int
  clPerUID :: "nat \<Rightarrow> int"

definition newBrokerConnectionLimiter :: "int \<Rightarrow> int \<Rightarrow> connectionLimiter" where
  "newBrokerConnectionLimiter maxTotal maxPerUID =
     \<lparr>clMaxTotal = maxTotal, clMaxPerUID = maxPerUID, clTotal = 0, clPerUID = (\<lambda>_. 0)\<rparr>"

definition Acquire :: "connectionLimiter \<Rightarrow> nat \<Rightarrow> connectionLimiter \<times> bool" where
  "Acquire l uid =
     (if clTotal l \<ge> clMaxTotal l \<or> clPerUID l uid \<ge> clMaxPerUID l then (l, False)
      else (l\<lparr>clTotal := clTotal l + 1, clPerUID := (clPerUID l)(uid := clPerUID l uid + 1)\<rparr>, True))"

definition Release :: "connectionLimiter \<Rightarrow> nat \<Rightarrow> connectionLimiter" where
  "Release l uid =
     (if clPerUID l uid = 0 then l
      else l\<lparr>clTotal := clTotal l - 1, clPerUID := (clPerUID l)(uid := clPerUID l uid - 1)\<rparr>)"

text \<open>
  One connection: what each read yields (the bytes of a packet or an error), whether each write
  succeeds, the sent packets and the journal records, in order. The journal may refuse a record. A
  connection whose reads are used up is at its end.
\<close>

datatype incoming_packet =
    Received string
  | ReadError logd_error

record connectionLog =
  cnSent :: "protocolPacket list"
  cnJournal :: "(logRoute \<times> int \<times> string) list"

definition ackPacket :: "uint64 \<Rightarrow> protocolPacket" where
  "ackPacket sq = \<lparr>ppVersion = protocolVersion, ppKind = packetAck, ppSequence = sq, ppPriority = 0, ppMessage = '''',
     ppRetryable = False, ppError = ''''\<rparr>"

definition nackPacket :: "uint64 \<Rightarrow> bool \<Rightarrow> string \<Rightarrow> protocolPacket" where
  "nackPacket sq retryable err = \<lparr>ppVersion = protocolVersion, ppKind = packetNack, ppSequence = sq, ppPriority = 0,
     ppMessage = '''', ppRetryable = retryable, ppError = err\<rparr>"

record brokerEnv =
  beResolve :: "peerCredentials \<Rightarrow> logd_error + logRoute"
  beJournal :: "connectionLog \<Rightarrow> logRoute \<Rightarrow> int \<Rightarrow> string \<Rightarrow> logd_error option"
  beSendOk :: "connectionLog \<Rightarrow> string \<Rightarrow> bool"
  beText :: "logd_error \<Rightarrow> string"
  beMarshal :: "protocolPacket \<Rightarrow> string + string"
  beUnmarshal :: "string \<Rightarrow> string + protocolPacket"

fun readBrokerPacket :: "brokerEnv \<Rightarrow> incoming_packet \<Rightarrow> logd_error + protocolPacket" where
  "readBrokerPacket B (Received b) = decodeProtocolPacket (beUnmarshal B) b"
| "readBrokerPacket B (ReadError e) = Inl e"

definition isQuietBrokerReadError :: "logd_error \<Rightarrow> bool" where
  "isQuietBrokerReadError e \<longleftrightarrow> e = ReadTimeout"

definition writeBrokerPacket :: "brokerEnv \<Rightarrow> protocolPacket \<Rightarrow> connectionLog \<Rightarrow> connectionLog \<times> logd_error option" where
  "writeBrokerPacket B p c =
     (case encodeProtocolPacket (beMarshal B) p of
        Inl e \<Rightarrow> (c, Some e)
      | Inr encoded \<Rightarrow>
          if beSendOk B c encoded then (c\<lparr>cnSent := cnSent c @ [p]\<rparr>, None) else (c, Some (WriteFailed ''broker packet'')))"

definition writeBrokerNack :: "brokerEnv \<Rightarrow> uint64 \<Rightarrow> bool \<Rightarrow> logd_error \<Rightarrow> connectionLog \<Rightarrow> connectionLog \<times> logd_error option" where
  "writeBrokerNack B sq retryable e c = writeBrokerPacket B (nackPacket sq retryable (beText B e)) c"

definition refuse :: "brokerEnv \<Rightarrow> uint64 \<Rightarrow> bool \<Rightarrow> logd_error \<Rightarrow> connectionLog \<Rightarrow> connectionLog \<times> logd_error option" where
  "refuse B sq retryable e c = (fst (writeBrokerNack B sq retryable e c), Some e)"

fun serveRecords :: "brokerEnv \<Rightarrow> logRoute \<Rightarrow> incoming_packet list \<Rightarrow> connectionLog \<Rightarrow> connectionLog \<times> logd_error option" where
  "serveRecords B route [] c = (c, None)"
| "serveRecords B route (i # rest) c =
     (case readBrokerPacket B i of
        Inl e \<Rightarrow>
          if e = ConnectionClosed then (c, None)
          else if isQuietBrokerReadError e then (c, None)
          else refuse B 0 False e c
      | Inr p \<Rightarrow>
          if ppKind p \<noteq> packetLog then refuse B (ppSequence p) False (NotALogRecord (ppKind p)) c
          else case beJournal B c route (ppPriority p) (ppMessage p) of
            Some e \<Rightarrow> refuse B (ppSequence p) True e c
          | None \<Rightarrow>
              let c = c\<lparr>cnJournal := cnJournal c @ [(route, ppPriority p, ppMessage p)]\<rparr>;
                  (c, e) = writeBrokerPacket B (ackPacket (ppSequence p)) c
              in (case e of Some e \<Rightarrow> (c, Some e) | None \<Rightarrow> serveRecords B route rest c))"

definition serveBrokerConnection :: "brokerEnv \<Rightarrow> peerCredentials \<Rightarrow> incoming_packet list \<Rightarrow> connectionLog \<Rightarrow> connectionLog \<times> logd_error option" where
  "serveBrokerConnection B peer incoming c =
     (case (case incoming of [] \<Rightarrow> Inl ConnectionClosed | i # _ \<Rightarrow> readBrokerPacket B i) of
        Inl e \<Rightarrow> if isQuietBrokerReadError e then (c, None) else refuse B 0 False e c
      | Inr hello \<Rightarrow>
          if ppKind hello \<noteq> packetHello then refuse B 0 False (FirstPacketNotHello (ppKind hello)) c
          else case beResolve B peer of
            Inl e \<Rightarrow> refuse B 0 False e c
          | Inr route \<Rightarrow> serveRecords B route (tl incoming) c)"

subsection \<open>The worker's sinks\<close>

text \<open>
  The broker sink: whether it is connected and its last sequence number. The outside answers a
  connection attempt, the write of a packet's bytes (with the number written) and a read.
\<close>

record 'w brokerSocket =
  bsConnect :: "'w \<Rightarrow> 'w \<times> bool"
  bsWrite :: "string \<Rightarrow> 'w \<Rightarrow> 'w \<times> nat option"
  bsRead :: "'w \<Rightarrow> 'w \<times> string option"
  bsMarshal :: "protocolPacket \<Rightarrow> string + string"
  bsUnmarshal :: "string \<Rightarrow> string + protocolPacket"

record brokerSink =
  skConnected :: bool
  skSeq :: uint64

definition helloPacket :: protocolPacket where
  "helloPacket = \<lparr>ppVersion = protocolVersion, ppKind = packetHello, ppSequence = 0, ppPriority = 0, ppMessage = '''',
     ppRetryable = False, ppError = ''''\<rparr>"

definition logPacket :: "uint64 \<Rightarrow> string \<Rightarrow> protocolPacket" where
  "logPacket sq message = \<lparr>ppVersion = protocolVersion, ppKind = packetLog, ppSequence = sq, ppPriority = 6, ppMessage = message,
     ppRetryable = False, ppError = ''''\<rparr>"

definition writePacketLocked :: "'w brokerSocket \<Rightarrow> protocolPacket \<Rightarrow> 'w \<Rightarrow> 'w \<times> bool" where
  "writePacketLocked S p w =
     (case encodeProtocolPacket (bsMarshal S) p of
        Inl _ \<Rightarrow> (w, False)
      | Inr encoded \<Rightarrow> let (w, written) = bsWrite S encoded w in (w, written = Some (length encoded)))"

definition readPacketLocked :: "'w brokerSocket \<Rightarrow> 'w \<Rightarrow> 'w \<times> protocolPacket option" where
  "readPacketLocked S w =
     (let (w, b) = bsRead S w in
      (w, case b of
            None \<Rightarrow> None
          | Some b \<Rightarrow> (case decodeProtocolPacket (bsUnmarshal S) b of Inl _ \<Rightarrow> None | Inr p \<Rightarrow> Some p)))"

definition ensureConnected :: "'w brokerSocket \<Rightarrow> brokerSink \<times> 'w \<Rightarrow> (brokerSink \<times> 'w) \<times> bool" where
  "ensureConnected S st =
     (let (k, w) = st in
      if skConnected k then (st, True)
      else let (w, ok) = bsConnect S w in
        if \<not> ok then ((k, w), False)
        else let (w, ok) = writePacketLocked S helloPacket w in ((k\<lparr>skConnected := ok\<rparr>, w), ok))"

definition nextSequence :: "uint64 \<Rightarrow> uint64" where
  "nextSequence sq = (if sq + 1 = 0 then 1 else sq + 1)"

definition brokerWriteMessage :: "'w brokerSocket \<Rightarrow> string \<Rightarrow> brokerSink \<times> 'w \<Rightarrow> (brokerSink \<times> 'w) \<times> bool" where
  "brokerWriteMessage S message st =
     (let (st, ok) = ensureConnected S st in
      if \<not> ok then (st, False)
      else let (k, w) = st; k = k\<lparr>skSeq := nextSequence (skSeq k)\<rparr>;
               packet = logPacket (skSeq k) message;
               (w, ok) = writePacketLocked S packet w
           in if \<not> ok then ((k\<lparr>skConnected := False\<rparr>, w), False)
              else let (w, response) = readPacketLocked S w in
                (case response of
                   None \<Rightarrow> ((k\<lparr>skConnected := False\<rparr>, w), False)
                 | Some p \<Rightarrow>
                     if ppKind p = packetNack then ((k\<lparr>skConnected := False\<rparr>, w), False)
                     else if ppKind p \<noteq> packetAck \<or> ppSequence p \<noteq> ppSequence packet then ((k\<lparr>skConnected := False\<rparr>, w), False)
                     else ((k, w), True)))"

text \<open>The fallback sink over any two sinks; times are instants of a monotonic clock.\<close>

record fallbackSink =
  fsRetryInterval :: duration
  fsBrokerDisabled :: "time option"

definition newFallbackSink :: "duration \<Rightarrow> fallbackSink" where
  "newFallbackSink retry = \<lparr>fsRetryInterval = (if retry \<le> 0 then 1000000000 else retry), fsBrokerDisabled = None\<rparr>"

definition fallbackWriteMessage :: "(string \<Rightarrow> 'w \<Rightarrow> 'w \<times> bool) \<Rightarrow> (string \<Rightarrow> 'w \<Rightarrow> 'w \<times> bool) \<Rightarrow> time \<Rightarrow> string \<Rightarrow> fallbackSink \<times> 'w \<Rightarrow> (fallbackSink \<times> 'w) \<times> bool" where
  "fallbackWriteMessage broker fallback now message st =
     (let (k, w) = st in
      if (case fsBrokerDisabled k of None \<Rightarrow> True | Some until \<Rightarrow> until \<le> now) then
        (let (w, ok) = broker message w in
         if ok then ((k\<lparr>fsBrokerDisabled := None\<rparr>, w), True)
         else let (w, ok) = fallback message w in ((k\<lparr>fsBrokerDisabled := Some (now + fsRetryInterval k)\<rparr>, w), ok))
      else let (w, ok) = fallback message w in ((k, w), ok))"

subsection \<open>Datagrams and the journal\<close>

text \<open>
  The reader of the journal's native protocol, the reference for the encoder: a line with an equals
  sign is a text field; a line without one names a binary field, whose length follows in eight
  little-endian bytes.
\<close>

function parseJournal :: "string \<Rightarrow> journalField list option" where
  "parseJournal s =
     (if s = [] then Some []
      else case cut s CHR 0x0A of
        None \<Rightarrow> None
      | Some (line, rest) \<Rightarrow>
          (case cut line CHR ''='' of
             Some f \<Rightarrow> map_option ((#) f) (parseJournal rest)
           | None \<Rightarrow>
               let n = be_val (rev (take 8 rest)); body = drop 8 rest in
               if length body \<le> n \<or> body ! n \<noteq> CHR 0x0A then None
               else map_option ((#) (line, take n body)) (parseJournal (drop (Suc n) body))))"
  by pat_completeness auto
termination by (relation "measure length") (auto simp: cut_Some_iff)

declare parseJournal.simps [simp del]

lemma validName_chars: "validJournalFieldName n \<Longrightarrow> CHR ''='' \<notin> set n \<and> CHR 0x0A \<notin> set n"
  by (auto simp: validJournalFieldName_def list_all_iff Let_def)

lemma cut_at: "c \<notin> set a \<Longrightarrow> cut (a @ c # b) c = Some (a, b)"
  by (simp add: cut_Some_iff)

lemma parseJournal_field:
  assumes "validJournalFieldName n" "length v < 256 ^ 8"
  shows "parseJournal (encodeField (n, v) @ t) = map_option ((#) (n, v)) (parseJournal t)"
proof (cases "contains_any v [CHR 0x00, CHR 0x0A]")
  case True
  let ?rest = "le_bytes8 (length v) @ v @ CHR 0x0A # t"
  have enc: "encodeField (n, v) @ t = n @ CHR 0x0A # ?rest" using True by (simp add: encodeField_def)
  have c1: "cut (n @ CHR 0x0A # ?rest) CHR 0x0A = Some (n, ?rest)" using validName_chars [OF assms(1)] by (simp add: cut_at)
  have c2: "cut n CHR ''='' = None" using validName_chars [OF assms(1)] by (simp add: cut_None_iff)
  have len: "length (le_bytes8 (length v)) = 8" by (simp add: le_bytes8_def)
  have n: "be_val (rev (take 8 ?rest)) = length v" using assms(2) by (simp add: len le_bytes8_def be_val_be_bytes)
  have body: "drop 8 ?rest = v @ CHR 0x0A # t" by (simp add: len)
  define rest where "rest = ?rest"
  have "parseJournal (n @ CHR 0x0A # rest) = map_option ((#) (n, take (length v) (drop 8 rest))) (parseJournal (drop (Suc (length v)) (drop 8 rest)))"
    if "cut (n @ CHR 0x0A # rest) CHR 0x0A = Some (n, rest)" "be_val (rev (take 8 rest)) = length v" "drop 8 rest = v @ CHR 0x0A # t"
    using that c2 by (subst parseJournal.simps) (simp add: Let_def del: drop_drop length_drop)
  from this [unfolded rest_def, OF c1 n body] show ?thesis unfolding enc body by simp
next
  case False
  then have lf: "CHR 0x0A \<notin> set v" by (auto simp: contains_any_iff)
  have enc: "encodeField (n, v) @ t = (n @ CHR ''='' # v) @ CHR 0x0A # t" using False by (simp add: encodeField_def)
  have c1: "cut ((n @ CHR ''='' # v) @ CHR 0x0A # t) CHR 0x0A = Some (n @ CHR ''='' # v, t)"
    using validName_chars [OF assms(1)] lf by (intro cut_at) auto
  have c2: "cut (n @ CHR ''='' # v) CHR ''='' = Some (n, v)" using validName_chars [OF assms(1)] by (simp add: cut_at)
  show ?thesis unfolding enc by (subst parseJournal.simps) (simp add: c1 c2 del: append_assoc append_Cons)
qed

lemma encodeFields_parse:
  "encodeFields fs = Inr b \<Longrightarrow> length b < 256 ^ 8 \<Longrightarrow> parseJournal b = Some fs"
proof (induction fs arbitrary: b)
  case Nil
  then show ?case by (subst parseJournal.simps) simp
next
  case (Cons f fs)
  obtain n v where f: "f = (n, v)" by fastforce
  from Cons.prems obtain rest where name: "validJournalFieldName n" and rest: "encodeFields fs = Inr rest" "b = encodeField (n, v) @ rest"
    by (auto simp: f bind_err_Inr_iff split: if_splits)
  have "length v \<le> length (encodeField (n, v))" by (simp add: encodeField_def)
  with Cons.prems(2) rest(2) have "length v < 256 ^ 8" "length rest < 256 ^ 8" by simp_all
  with Cons.IH [OF rest(1)] parseJournal_field [OF name] rest(2) show ?case by (simp add: f)
qed

lemma encodeJournalDatagram_parse: "encodeJournalDatagram fs = Inr b \<Longrightarrow> parseJournal b = Some fs"
  by (auto simp: encodeJournalDatagram_def bind_err_Inr_iff split: if_splits intro: encodeFields_parse)

text \<open>
  Property C12. What a worker logs cannot forge journal fields: the datagram sent for a message is
  read back by the journal as exactly the message, the priority, the facility, the identifier and
  the unit of the route, whatever bytes the message contains.
\<close>

theorem journal_record_faithful:
  assumes "bind_err (journalFields route priority message) encodeJournalDatagram = Inr datagram"
  shows "\<exists>unit. canonicalJournalUnit (lrUnit route) = Inr unit \<and> 0 \<le> priority \<and> priority \<le> 7 \<and>
    parseJournal datagram = Some [(''MESSAGE'', message), (''PRIORITY'', itoa priority), (''SYSLOG_FACILITY'', itoa 3),
      (''SYSLOG_IDENTIFIER'', lrIdentifier route),
      (if lrScope route = ''system'' then ''OBJECT_SYSTEMD_UNIT'' else ''OBJECT_SYSTEMD_USER_UNIT'', unit)]"
proof -
  from assms obtain fs where fs: "journalFields route priority message = Inr fs" "encodeJournalDatagram fs = Inr datagram"
    by (auto simp: bind_err_Inr_iff)
  from fs(1) obtain unit where unit: "canonicalJournalUnit (lrUnit route) = Inr unit" "0 \<le> priority" "priority \<le> 7"
    and "fs = [(''MESSAGE'', message), (''PRIORITY'', itoa priority), (''SYSLOG_FACILITY'', itoa 3), (''SYSLOG_IDENTIFIER'', lrIdentifier route),
      (if lrScope route = ''system'' then ''OBJECT_SYSTEMD_UNIT'' else ''OBJECT_SYSTEMD_USER_UNIT'', unit)]"
    unfolding journalFields_def by (auto simp: bind_err_Inr_iff split: if_splits)
  with encodeJournalDatagram_parse [OF fs(2)] show ?thesis by blast
qed

definition demoRoute :: logRoute where
  "demoRoute = \<lparr>lrScope = ''system'', lrUnit = ''foo'', lrIdentifier = ''servicectl[foo]'', lrLoggerService = ''foo-log'',
     lrUID = 0, lrGID = 0, lrPID = 7\<rparr>"

theorem journal_record_faithful_witness:
  "\<exists>unit. canonicalJournalUnit (lrUnit demoRoute) = Inr unit \<and> (0::int) \<le> 6 \<and> (6::int) \<le> 7 \<and>
    parseJournal (concat (map encodeField [(''MESSAGE'', ''a=b''), (''PRIORITY'', ''6''), (''SYSLOG_FACILITY'', ''3''),
      (''SYSLOG_IDENTIFIER'', ''servicectl[foo]''), (''OBJECT_SYSTEMD_UNIT'', ''foo.service'')])) =
    Some [(''MESSAGE'', ''a=b''), (''PRIORITY'', itoa 6), (''SYSLOG_FACILITY'', itoa 3), (''SYSLOG_IDENTIFIER'', lrIdentifier demoRoute),
      (if lrScope demoRoute = ''system'' then ''OBJECT_SYSTEMD_UNIT'' else ''OBJECT_SYSTEMD_USER_UNIT'', unit)]"
proof (rule journal_record_faithful)
  have "journalFields demoRoute 6 ''a=b'' = Inr [(''MESSAGE'', ''a=b''), (''PRIORITY'', ''6''), (''SYSLOG_FACILITY'', ''3''),
      (''SYSLOG_IDENTIFIER'', ''servicectl[foo]''), (''OBJECT_SYSTEMD_UNIT'', ''foo.service'')]" by code_simp
  moreover have "encodeFields [(''MESSAGE'', ''a=b''), (''PRIORITY'', ''6''), (''SYSLOG_FACILITY'', ''3''),
      (''SYSLOG_IDENTIFIER'', ''servicectl[foo]''), (''OBJECT_SYSTEMD_UNIT'', ''foo.service'')] =
      Inr (concat (map encodeField [(''MESSAGE'', ''a=b''), (''PRIORITY'', ''6''), (''SYSLOG_FACILITY'', ''3''),
      (''SYSLOG_IDENTIFIER'', ''servicectl[foo]''), (''OBJECT_SYSTEMD_UNIT'', ''foo.service'')]))" by code_simp
  moreover have "length (concat (map encodeField [(''MESSAGE'', ''a=b''), (''PRIORITY'', ''6''), (''SYSLOG_FACILITY'', ''3''),
      (''SYSLOG_IDENTIFIER'', ''servicectl[foo]''), (''OBJECT_SYSTEMD_UNIT'', ''foo.service'')])) \<le> 1048576"
    by (simp add: encodeField_def contains_any_def)
  ultimately show "bind_err (journalFields demoRoute 6 ''a=b'') encodeJournalDatagram =
    Inr (concat (map encodeField [(''MESSAGE'', ''a=b''), (''PRIORITY'', ''6''), (''SYSLOG_FACILITY'', ''3''),
      (''SYSLOG_IDENTIFIER'', ''servicectl[foo]''), (''OBJECT_SYSTEMD_UNIT'', ''foo.service'')]))"
    by (simp only: bind_err_simps encodeJournalDatagram_def not_less [symmetric] if_False)
qed


subsection \<open>What a connection leaves behind\<close>

definition acknowledged :: "connectionLog \<Rightarrow> uint64 list" where
  "acknowledged c = map ppSequence (filter (\<lambda>p. ppKind p = packetAck) (cnSent c))"

definition recordOf :: "logRoute \<Rightarrow> protocolPacket \<Rightarrow> logRoute \<times> int \<times> string" where
  "recordOf route p = (route, ppPriority p, ppMessage p)"

lemma refuse_kept [simp]:
  "cnJournal (fst (refuse B sq retryable e c)) = cnJournal c"
  "acknowledged (fst (refuse B sq retryable e c)) = acknowledged c"
  "snd (refuse B sq retryable e c) = Some e"
  by (auto simp: refuse_def writeBrokerNack_def writeBrokerPacket_def nackPacket_def acknowledged_def split: sum.splits)

lemma ack_written:
  "writeBrokerPacket B (ackPacket sq) c = (c', e) \<Longrightarrow>
   cnJournal c' = cnJournal c \<and> acknowledged c' = acknowledged c @ (if e = None then [sq] else [])"
  by (auto simp: writeBrokerPacket_def acknowledged_def ackPacket_def split: sum.splits if_splits)

text \<open>
  The packets taken from a connection are a prefix of what was received; all but possibly the last
  are acknowledged, and the last one is not only when the acknowledgement could not be sent.
\<close>

lemma serveRecords_journal:
  "\<exists>ps. list_all2 (\<lambda>i p. readBrokerPacket B i = Inr p \<and> ppKind p = packetLog) (take (length ps) is) ps \<and>
     length ps \<le> length is \<and>
     cnJournal (fst (serveRecords B route is c)) = cnJournal c @ map (recordOf route) ps \<and>
     (acknowledged (fst (serveRecords B route is c)) = acknowledged c @ map ppSequence ps \<or>
      ps \<noteq> [] \<and> acknowledged (fst (serveRecords B route is c)) = acknowledged c @ map ppSequence (butlast ps) \<and>
      snd (serveRecords B route is c) \<noteq> None)"
proof (induction "is" arbitrary: c)
  case Nil
  then show ?case by simp
next
  case (Cons i rest)
  show ?case
  proof (cases "\<exists>p. readBrokerPacket B i = Inr p \<and> ppKind p = packetLog \<and> beJournal B c route (ppPriority p) (ppMessage p) = None")
    case False
    then have "cnJournal (fst (serveRecords B route (i # rest) c)) = cnJournal c"
      "acknowledged (fst (serveRecords B route (i # rest) c)) = acknowledged c"
      by (auto split: sum.splits option.splits)
    then show ?thesis by (intro exI [of _ "[]"]) simp
  next
    case True
    then obtain p where go: "readBrokerPacket B i = Inr p" "ppKind p = packetLog" "beJournal B c route (ppPriority p) (ppMessage p) = None"
      by blast
    obtain c' e where w: "writeBrokerPacket B (ackPacket (ppSequence p)) (c\<lparr>cnJournal := cnJournal c @ [recordOf route p]\<rparr>) = (c', e)"
      by fastforce
    have c': "cnJournal c' = cnJournal c @ [recordOf route p]" "acknowledged c' = acknowledged c @ (if e = None then [ppSequence p] else [])"
      using ack_written [OF w] by (auto simp: acknowledged_def)
    have step: "serveRecords B route (i # rest) c = (case e of Some e \<Rightarrow> (c', Some e) | None \<Rightarrow> serveRecords B route rest c')"
      using go w by (simp add: recordOf_def)
    show ?thesis
    proof (cases e)
      case (Some x)
      with step c' go show ?thesis by (intro exI [of _ "[p]"]) simp
    next
      case None
      from Cons.IH [of c'] obtain ps where
        "list_all2 (\<lambda>i p. readBrokerPacket B i = Inr p \<and> ppKind p = packetLog) (take (length ps) rest) ps" "length ps \<le> length rest"
        "cnJournal (fst (serveRecords B route rest c')) = cnJournal c' @ map (recordOf route) ps"
        "acknowledged (fst (serveRecords B route rest c')) = acknowledged c' @ map ppSequence ps \<or>
         ps \<noteq> [] \<and> acknowledged (fst (serveRecords B route rest c')) = acknowledged c' @ map ppSequence (butlast ps) \<and>
         snd (serveRecords B route rest c') \<noteq> None" by blast
      with step c' go None show ?thesis by (intro exI [of _ "p # ps"]) auto
    qed
  qed
qed


subsection \<open>Admission of connections\<close>

definition limiterInv :: "connectionLimiter \<Rightarrow> bool" where
  "limiterInv l \<longleftrightarrow> finite {u. clPerUID l u \<noteq> 0} \<and> clTotal l = (\<Sum>u | clPerUID l u \<noteq> 0. clPerUID l u) \<and>
     (\<forall>u. 0 \<le> clPerUID l u \<and> clPerUID l u \<le> max 0 (clMaxPerUID l)) \<and> clTotal l \<le> max 0 (clMaxTotal l)"

datatype limiter_event = Connect nat | Disconnect nat

fun limiterStep :: "connectionLimiter \<Rightarrow> limiter_event \<Rightarrow> connectionLimiter" where
  "limiterStep l (Connect uid) = fst (Acquire l uid)"
| "limiterStep l (Disconnect uid) = Release l uid"

lemma sum_support_upd:
  fixes f :: "nat \<Rightarrow> int"
  assumes "finite {u. f u \<noteq> 0}"
  shows "finite {u. (f(x := v)) u \<noteq> 0}"
    and "(\<Sum>u | (f(x := v)) u \<noteq> 0. (f(x := v)) u) = (\<Sum>u | f u \<noteq> 0. f u) - f x + v"
proof -
  let ?A = "insert x {u. f u \<noteq> 0}"
  have A: "finite ?A" using assms by simp
  have sub: "{u. (f(x := v)) u \<noteq> 0} \<subseteq> ?A" by auto
  show "finite {u. (f(x := v)) u \<noteq> 0}" using sub A by (rule finite_subset)
  have "(\<Sum>u | (f(x := v)) u \<noteq> 0. (f(x := v)) u) = (\<Sum>u\<in>?A. (f(x := v)) u)"
    using sub A by (intro sum.mono_neutral_left) auto
  also have "\<dots> = v + (\<Sum>u\<in>?A - {x}. f u)" using A by (subst sum.remove [of _ x]) auto
  also have "(\<Sum>u\<in>?A - {x}. f u) = (\<Sum>u\<in>?A. f u) - f x" using A by (subst sum.remove [of ?A x]) auto
  also have "(\<Sum>u\<in>?A. f u) = (\<Sum>u | f u \<noteq> 0. f u)" using A by (intro sum.mono_neutral_right) auto
  finally show "(\<Sum>u | (f(x := v)) u \<noteq> 0. (f(x := v)) u) = (\<Sum>u | f u \<noteq> 0. f u) - f x + v" by simp
qed

lemma limiterStep_inv: "limiterInv l \<Longrightarrow> limiterInv (limiterStep l ev)"
proof -
  assume inv: "limiterInv l"
  have upd: "limiterInv (l\<lparr>clTotal := clTotal l + d, clPerUID := (clPerUID l)(uid := clPerUID l uid + d)\<rparr>)"
    if "0 \<le> clPerUID l uid + d" "clPerUID l uid + d \<le> max 0 (clMaxPerUID l)" "clTotal l + d \<le> max 0 (clMaxTotal l)" for uid d
    using inv that sum_support_upd [of "clPerUID l" uid "clPerUID l uid + d"] by (simp add: limiterInv_def)
  show ?thesis
  proof (cases ev)
    case (Connect uid)
    have "0 \<le> clPerUID l uid" using inv by (simp add: limiterInv_def)
    then show ?thesis using inv upd [of uid 1] by (auto simp: Connect Acquire_def)
  next
    case (Disconnect uid)
    have "0 \<le> clPerUID l uid" "clPerUID l uid \<le> max 0 (clMaxPerUID l)" "clTotal l \<le> max 0 (clMaxTotal l)"
      using inv by (simp_all add: limiterInv_def)
    then show ?thesis using inv upd [of uid "- 1"] by (auto simp: Disconnect Release_def)
  qed
qed

interpretation limiter: machine limiterStep limiterInv
  by unfold_locales (rule limiterStep_inv)

lemma limiter_limits: "clMaxTotal (limiterStep l ev) = clMaxTotal l \<and> clMaxPerUID (limiterStep l ev) = clMaxPerUID l"
  by (cases ev) (auto simp: Acquire_def Release_def)

lemma limiter_run_limits: "clMaxTotal (foldl limiterStep l es) = clMaxTotal l \<and> clMaxPerUID (foldl limiterStep l es) = clMaxPerUID l"
  by (induction es arbitrary: l) (auto simp: limiter_limits)

text \<open>
  Fact. Whatever the order of connections and disconnections, the broker never holds more than
  the configured number of connections in all or of one user, and its count is the number of
  connections it admitted and has not released.
\<close>

theorem broker_connections_bounded:
  fixes m p :: nat and events :: "limiter_event list"
  defines "l \<equiv> foldl limiterStep (newBrokerConnectionLimiter (int m) (int p)) events"
  shows "0 \<le> clTotal l \<and> clTotal l \<le> int m \<and> 0 \<le> clPerUID l uid \<and> clPerUID l uid \<le> int p \<and> clPerUID l uid \<le> clTotal l"
proof -
  have "limiterInv (newBrokerConnectionLimiter (int m) (int p))" by (simp add: limiterInv_def newBrokerConnectionLimiter_def)
  then have "limiterInv l" unfolding l_def by (rule limiter.run_inv)
  moreover have "clMaxTotal l = int m" "clMaxPerUID l = int p"
    using limiter_run_limits [of "newBrokerConnectionLimiter (int m) (int p)" events] by (simp_all add: l_def newBrokerConnectionLimiter_def)
  ultimately have inv: "finite {u. clPerUID l u \<noteq> 0}" "clTotal l = (\<Sum>u | clPerUID l u \<noteq> 0. clPerUID l u)"
    "\<forall>u. 0 \<le> clPerUID l u \<and> clPerUID l u \<le> int p" "clTotal l \<le> int m" by (simp_all add: limiterInv_def)
  moreover have "0 \<le> clTotal l" unfolding inv(2) by (rule sum_nonneg) (use inv(3) in simp)
  moreover have "clPerUID l uid \<le> clTotal l"
  proof (cases "clPerUID l uid = 0")
    case False
    then show ?thesis unfolding inv(2) by (intro member_le_sum) (use inv(1,3) in auto)
  qed (use \<open>0 \<le> clTotal l\<close> in simp)
  ultimately show ?thesis by blast
qed

definition demoBroker :: brokerEnv where
  "demoBroker = \<lparr>beResolve = (\<lambda>peer. Inr demoRoute), beJournal = (\<lambda>_ _ _ _. None), beSendOk = (\<lambda>_ _. True), beText = (\<lambda>_. ''refused''),
     beMarshal = (\<lambda>_. Inr ''packet''), beUnmarshal = (\<lambda>b. if b = ''hello'' then Inr helloPacket else Inr (logPacket 1 b))\<rparr>"

definition demoPeer :: peerCredentials where
  "demoPeer = \<lparr>pcPID = 7, pcUID = 0, pcGID = 0\<rparr>"

lemma demoBroker_run:
  "serveBrokerConnection demoBroker demoPeer [Received ''hello'', Received ''line''] \<lparr>cnSent = [], cnJournal = []\<rparr> =
   (\<lparr>cnSent = [ackPacket 1], cnJournal = [(demoRoute, 6, ''line'')]\<rparr>, None)"
  by (simp add: serveBrokerConnection_def demoBroker_def decodeProtocolPacket_def validateProtocolPacket_def helloPacket_def
      logPacket_def writeBrokerPacket_def encodeProtocolPacket_def ackPacket_def)


subsection \<open>Resolved routes\<close>

lemma canonicalJournalUnit_sound:
  assumes "canonicalJournalUnit raw = Inr u"
  shows "canonicalJournalUnit u = Inr u \<and> \<not> contains_any u [CHR 0x00, CHR 0x0D, CHR 0x0A]"
proof -
  from assms have u: "u \<noteq> []" "has_suffix u ''.service''" "trim_space u = u"
    "\<not> contains_any u [CHR 0x00, CHR 0x0D, CHR 0x0A, CHR 0x09, CHR '' '', CHR ''/'', CHR 0x5C]"
    using trim_space_ends [of raw] by (auto simp: canonicalJournalUnit_def Let_def has_suffix_iff
        intro!: trim_space_id space_at_service space_at_end_service split: if_splits)
  then show ?thesis by (auto simp: canonicalJournalUnit_def Let_def contains_any_iff)
qed

lemma parseWorkerRoute_sound:
  assumes "parseWorkerRoute args = Inr worker"
  shows "wrScope worker \<in> {''system'', ''user''} \<and> canonicalJournalUnit (wrUnit worker) = Inr (wrUnit worker) \<and>
   \<not> contains_any (wrUnit worker) [CHR 0x00, CHR 0x0D, CHR 0x0A] \<and> validDinitServiceName (wrLoggerService worker)"
proof -
  from assms obtain raw where "canonicalJournalUnit raw = Inr (wrUnit worker)" "wrScope worker \<in> {''system'', ''user''}"
    "validDinitServiceName (wrLoggerService worker)"
    by (auto simp: parseWorkerRoute_def Let_def bind_err_Inr_iff split: list.splits sum.splits prod.splits if_splits)
  with canonicalJournalUnit_sound show ?thesis by blast
qed

lemma resolvePeerRoute_worker:
  assumes "resolvePeerRoute R peer = Inr route"
  obtains args worker socket executable where
    "rdExecutable R (pcPID peer) = Inr executable" "rdExecutableSecure R executable = Inr ()"
    "rdCmdline R (pcPID peer) = Inr args" "parseWorkerRoute args = Inr worker"
    "dinitSocketOf R peer worker = Inr socket" "rdDinitPID R socket (wrLoggerService worker) = Inr (pcPID peer)"
    "0 < pcPID peer"
    "route = \<lparr>lrScope = wrScope worker, lrUnit = wrUnit worker,
      lrIdentifier = ''servicectl['' @ trim_suffix (wrUnit worker) ''.service'' @ '']'',
      lrLoggerService = wrLoggerService worker, lrUID = pcUID peer, lrGID = pcGID peer, lrPID = pcPID peer\<rparr>"
  using assms by (auto simp: resolvePeerRoute_def bind_err_Inr_iff lookup_err_def split: if_splits sum.splits)

lemma dinitSocketOf_sound:
  "dinitSocketOf R peer worker = Inr socket \<Longrightarrow>
   (if wrScope worker = ''user'' then rdPathSecure R socket (pcUID peer) = Inr () else socket = systemDinitSocketPath)"
  by (auto simp: dinitSocketOf_def bind_err_Inr_iff Let_def split: if_splits)

lemma set_identifier: "set (''servicectl['' @ trim_suffix u p @ '']'') \<subseteq> set ''servicectl[]'' \<union> set u"
  using set_trim_suffix [of u p] by auto


definition demoDependencies :: routeDependencies where
  "demoDependencies = \<lparr>rdCmdline = (\<lambda>pid. Inr [''sys-logd'', ''--worker'', ''--scope=system'', ''--unit=foo'', ''--logger-service=foo-log'']),
     rdEnvironment = (\<lambda>pid. Inr []), rdExecutable = (\<lambda>pid. Inr ''/usr/bin/sys-logd''), rdExecutableSecure = validateApprovedSysLogdPath,
     rdPathSecure = (\<lambda>path uid. Inr ()), rdDinitPID = (\<lambda>socket service. Inr 7)\<rparr>"

lemma demo_resolved:
  "resolvePeerRoute demoDependencies demoPeer = Inr (demoRoute\<lparr>lrUnit := ''foo.service''\<rparr>)"
  by code_simp


subsection \<open>Delivery by a worker\<close>

lemma nextSequence_nonzero: "nextSequence sq \<noteq> 0"
  by (simp add: nextSequence_def)

text \<open>
  Fact. A worker's broker sink reports success only when the broker acknowledged this very
  message: the bytes written last are the log packet with the sink's new, nonzero sequence number,
  and the answer read is an acknowledgement of that number. In every other case the connection is
  given up, so that no late answer is taken for a later message.
\<close>

theorem broker_sink_acknowledged:
  assumes "brokerWriteMessage S message (k, w) = ((k', w'), ok)"
  shows "if ok then skConnected k' \<and> skSeq k' = nextSequence (skSeq k) \<and> skSeq k' \<noteq> 0 \<and>
      (\<exists>w1 w2 encoded b p. encodeProtocolPacket (bsMarshal S) (logPacket (skSeq k') message) = Inr encoded \<and>
        bsWrite S encoded w1 = (w2, Some (length encoded)) \<and> bsRead S w2 = (w', Some b) \<and>
        decodeProtocolPacket (bsUnmarshal S) b = Inr p \<and> ppKind p = packetAck \<and> ppSequence p = skSeq k')
    else \<not> skConnected k'"
proof -
  obtain k1 w1 c where c: "ensureConnected S (k, w) = ((k1, w1), c)" by (metis surj_pair)
  have k1: "skSeq k1 = skSeq k" "c = skConnected k1"
    using c by (auto simp: ensureConnected_def Let_def split: if_splits prod.splits)
  show ?thesis
  proof (cases c)
    case False
    with assms c k1 show ?thesis by (auto simp: brokerWriteMessage_def Let_def)
  next
    case True
    define sq where "sq = nextSequence (skSeq k)"
    obtain w2 sent where w2: "writePacketLocked S (logPacket sq message) w1 = (w2, sent)" by fastforce
    obtain w3 r where w3: "readPacketLocked S w2 = (w3, r)" by fastforce
    from assms True c k1 w2 w3 have res: "((k', w'), ok) = (if \<not> sent then ((k1\<lparr>skSeq := sq, skConnected := False\<rparr>, w2), False)
        else case r of None \<Rightarrow> ((k1\<lparr>skSeq := sq, skConnected := False\<rparr>, w3), False)
          | Some p \<Rightarrow> if ppKind p \<noteq> packetAck \<or> ppSequence p \<noteq> sq then ((k1\<lparr>skSeq := sq, skConnected := False\<rparr>, w3), False)
              else ((k1\<lparr>skSeq := sq\<rparr>, w3), True))"
      by (auto simp: brokerWriteMessage_def Let_def sq_def logPacket_def split: option.splits if_splits)
    show ?thesis
    proof (cases ok)
      case True
      with res obtain p where p: "sent" "r = Some p" "ppKind p = packetAck" "ppSequence p = sq" "k' = k1\<lparr>skSeq := sq\<rparr>" "w' = w3"
        by (auto split: option.splits if_splits)
      from w2 p(1) obtain encoded where "encodeProtocolPacket (bsMarshal S) (logPacket sq message) = Inr encoded"
        "bsWrite S encoded w1 = (w2, Some (length encoded))" by (auto simp: writePacketLocked_def split: sum.splits prod.splits)
      moreover from w3 p(2) obtain b where "bsRead S w2 = (w3, Some b)" "decodeProtocolPacket (bsUnmarshal S) b = Inr p"
        by (auto simp: readPacketLocked_def split: option.splits sum.splits prod.splits)
      ultimately show ?thesis using p True \<open>c\<close> k1 by (auto simp: sq_def nextSequence_nonzero)
    next
      case False
      with res show ?thesis by (auto split: option.splits if_splits)
    qed
  qed
qed

definition demoSocket :: "unit brokerSocket" where
  "demoSocket = \<lparr>bsConnect = (\<lambda>w. (w, True)), bsWrite = (\<lambda>b w. (w, Some (length b))), bsRead = (\<lambda>w. (w, Some ''ack'')),
     bsMarshal = (\<lambda>p. Inr ''packet''), bsUnmarshal = (\<lambda>b. Inr (ackPacket 1))\<rparr>"

lemma demoSocket_run:
  "brokerWriteMessage demoSocket ''line'' (\<lparr>skConnected = False, skSeq = 0\<rparr>, ()) = ((\<lparr>skConnected = True, skSeq = 1\<rparr>, ()), True)"
  by (simp add: brokerWriteMessage_def ensureConnected_def demoSocket_def writePacketLocked_def readPacketLocked_def encodeProtocolPacket_def
      decodeProtocolPacket_def validateProtocolPacket_def helloPacket_def logPacket_def ackPacket_def nextSequence_def)

theorem broker_sink_acknowledged_witness:
  "(1 :: uint64) \<noteq> 0 \<and>
   (\<exists>w1 w2 encoded b p. encodeProtocolPacket (bsMarshal demoSocket) (logPacket 1 ''line'') = Inr encoded \<and>
      bsWrite demoSocket encoded w1 = (w2, Some (length encoded)) \<and> bsRead demoSocket w2 = ((), Some b) \<and>
      decodeProtocolPacket (bsUnmarshal demoSocket) b = Inr p \<and> ppKind p = packetAck \<and> ppSequence p = 1)"
  using broker_sink_acknowledged [OF demoSocket_run] by simp

end
