(* ===== verification/Logd_Spill.thy ===== *)
theory Logd_Spill
  imports Logd_Broker
begin

text \<open>
  The log daemon \<open>sys-logd\<close>, part two: the spill files of a worker (\<open>src/cmd/sys-logd/spill.go\<close>) and
  the worker itself (\<open>main.go\<close>): what it reads from standard input goes through a bounded queue to a
  sink, and to the spill files while the sink or the queue does not take it.

  The file system is an explicit store, names on one side and file contents on the other, because
  the worker keeps a descriptor open while it renames and removes names. Every system call that
  the code checks may fail; the faults of a call are an argument. Reading an open file does not fail.
\<close>

subsection \<open>Files\<close>

record spillFS =
  fsNames :: "string \<rightharpoonup> nat"
  fsData :: "nat \<Rightarrow> string"
  fsNext :: nat

definition fsOpen :: "bool \<Rightarrow> string \<Rightarrow> spillFS \<Rightarrow> spillFS \<times> nat" where
  "fsOpen trunc path fs =
     (case fsNames fs path of
        Some i \<Rightarrow> (if trunc then fs\<lparr>fsData := (fsData fs)(i := [])\<rparr> else fs, i)
      | None \<Rightarrow> (fs\<lparr>fsNames := (fsNames fs)(path \<mapsto> fsNext fs), fsData := (fsData fs)(fsNext fs := []), fsNext := Suc (fsNext fs)\<rparr>, fsNext fs))"

definition fsAppend :: "nat \<Rightarrow> string \<Rightarrow> spillFS \<Rightarrow> spillFS" where
  "fsAppend i s fs = fs\<lparr>fsData := (fsData fs)(i := fsData fs i @ s)\<rparr>"

definition fsRemove :: "string \<Rightarrow> spillFS \<Rightarrow> spillFS" where
  "fsRemove path fs = fs\<lparr>fsNames := (fsNames fs)(path := None)\<rparr>"

definition fsRename :: "string \<Rightarrow> string \<Rightarrow> spillFS \<Rightarrow> spillFS" where
  "fsRename old new fs =
     (case fsNames fs old of None \<Rightarrow> fs | Some i \<Rightarrow> fs\<lparr>fsNames := (fsNames fs)(old := None, new := Some i)\<rparr>)"

definition fsContent :: "spillFS \<Rightarrow> string \<Rightarrow> string" where
  "fsContent fs path = (case fsNames fs path of None \<Rightarrow> [] | Some i \<Rightarrow> fsData fs i)"

datatype spill_op =
    OpMkdir | OpChmod | OpOpen string | OpStat string | OpClose | OpRemove string | OpRename string string | OpWrite | OpSync

text \<open>Which calls fail, with which text, and how much a failing write still writes.\<close>

record spillFaults =
  flFail :: "spill_op \<Rightarrow> string option"
  flShort :: nat

definition noFaults :: spillFaults where
  "noFaults = \<lparr>flFail = (\<lambda>_. None), flShort = 0\<rparr>"

text \<open>A step that may fail, and the next one if it did not; the state is kept on failure.\<close>

definition and_then :: "'s \<times> string option \<Rightarrow> ('s \<Rightarrow> 's \<times> string option) \<Rightarrow> 's \<times> string option" where
  "and_then r f = (case r of (s, None) \<Rightarrow> f s | (s, Some e) \<Rightarrow> (s, Some e))"

lemma and_then_simps [simp]: "and_then (s, None) f = f s" "and_then (s, Some e) f = (s, Some e)"
  by (simp_all add: and_then_def)

lemma and_then_None_iff: "and_then r f = (s, None) \<longleftrightarrow> (\<exists>t. r = (t, None) \<and> f t = (s, None))"
  by (cases r; cases "snd r") auto

definition try_op :: "spillFaults \<Rightarrow> spill_op \<Rightarrow> ('s \<Rightarrow> 's) \<Rightarrow> 's \<Rightarrow> 's \<times> string option" where
  "try_op F c f s = (case flFail F c of Some e \<Rightarrow> (s, Some e) | None \<Rightarrow> (f s, None))"

lemma try_op_noFaults [simp]: "try_op noFaults c f s = (f s, None)"
  by (simp add: try_op_def noFaults_def)

subsection \<open>The spill manager\<close>

record spillManager =
  smService :: string
  smDir :: string
  smMaxBytes :: int
  smRotations :: nat
  smFile :: "nat option"
  smFileSize :: int

definition spillSafeName :: "string \<Rightarrow> string" where
  "spillSafeName service =
     (let service = trim_space service in
      if service = '''' then ''service''
      else map (\<lambda>c. if c = CHR ''/'' \<or> c = CHR 0x5C \<or> c = CHR '' '' then CHR ''_'' else c) service)"

definition newSpillManager :: "string \<Rightarrow> string \<Rightarrow> int \<Rightarrow> nat \<Rightarrow> spillManager" where
  "newSpillManager service dir maxBytes rotations =
     \<lparr>smService = spillSafeName service, smDir = dir, smMaxBytes = maxBytes, smRotations = rotations, smFile = None, smFileSize = 0\<rparr>"

definition pathForIndex :: "spillManager \<Rightarrow> nat \<Rightarrow> string" where
  "pathForIndex m index =
     (if index = 0 then path_join [smDir m, smService m @ ''.log'']
      else path_join [smDir m, smService m @ ''.log.'' @ itoa (int index)])"

text \<open>One state: the manager and the files.\<close>

type_synonym spill = "spillManager \<times> spillFS"

definition onFiles :: "(spillFS \<Rightarrow> spillFS) \<Rightarrow> spill \<Rightarrow> spill" where
  "onFiles f s = (fst s, f (snd s))"

definition closeFile :: "spillFaults \<Rightarrow> spill \<Rightarrow> spill \<times> string option" where
  "closeFile F s =
     (case smFile (fst s) of
        None \<Rightarrow> (s, None)
      | Some i \<Rightarrow> try_op F OpClose (\<lambda>s. ((fst s)\<lparr>smFile := None, smFileSize := 0\<rparr>, snd s)) s)"

fun renameFrom :: "spillFaults \<Rightarrow> nat \<Rightarrow> spill \<Rightarrow> spill \<times> string option" where
  "renameFrom F 0 s = (s, None)"
| "renameFrom F (Suc i) s =
     (let old = pathForIndex (fst s) i; new = pathForIndex (fst s) (Suc i) in
      and_then (try_op F (OpRename old new) (onFiles (fsRename old new)) s) (renameFrom F i))"

definition rotateLocked :: "spillFaults \<Rightarrow> spill \<Rightarrow> spill \<times> string option" where
  "rotateLocked F s =
     and_then (closeFile F s) (\<lambda>s.
       let oldest = pathForIndex (fst s) (smRotations (fst s)) in
       and_then (try_op F (OpRemove oldest) (onFiles (fsRemove oldest)) s) (renameFrom F (smRotations (fst s))))"

text \<open>
  \<open>openCurrent\<close> is the first half of \<open>ensureCurrentLocked\<close>. A file whose status cannot be read was
  created all the same.
\<close>

definition openCurrent :: "spillFaults \<Rightarrow> spill \<Rightarrow> spill \<times> string option" where
  "openCurrent F s =
     (let (m, fs) = s; path = pathForIndex m 0 in
      if smFile m \<noteq> None then (s, None)
      else case flFail F (OpOpen path) of
        Some e \<Rightarrow> (s, Some e)
      | None \<Rightarrow>
          let (fs, i) = fsOpen False path fs in
          (case flFail F (OpStat path) of
             Some e \<Rightarrow> ((m, fs), Some e)
           | None \<Rightarrow> ((m\<lparr>smFile := Some i, smFileSize := int (length (fsData fs i))\<rparr>, fs), None)))"

definition openFresh :: "spillFaults \<Rightarrow> spill \<Rightarrow> spill \<times> string option" where
  "openFresh F s =
     (let (m, fs) = s; path = pathForIndex m 0 in
      try_op F (OpOpen path) (\<lambda>_. let (fs, i) = fsOpen True path fs in (m\<lparr>smFile := Some i, smFileSize := 0\<rparr>, fs)) s)"

definition ensureCurrentLocked :: "spillFaults \<Rightarrow> int \<Rightarrow> spill \<Rightarrow> spill \<times> string option" where
  "ensureCurrentLocked F nextWrite s =
     and_then (openCurrent F s) (\<lambda>s.
       if smFileSize (fst s) + nextWrite \<le> smMaxBytes (fst s) then (s, None)
       else and_then (rotateLocked F s) (openFresh F))"

definition writeString :: "spillFaults \<Rightarrow> string \<Rightarrow> spill \<Rightarrow> spill \<times> string option" where
  "writeString F line s =
     (let (m, fs) = s in
      case smFile m of
        None \<Rightarrow> (s, Some ''file already closed'')
      | Some i \<Rightarrow>
          let written = (if flFail F OpWrite = None then line else take (flShort F) line) in
          ((m\<lparr>smFileSize := smFileSize m + int (length written)\<rparr>, fsAppend i written fs), flFail F OpWrite))"

definition WriteLine :: "spillFaults \<Rightarrow> string \<Rightarrow> spill \<Rightarrow> spill \<times> string option" where
  "WriteLine F message s =
     and_then (try_op F OpMkdir id s) (\<lambda>s.
     and_then (try_op F OpChmod id s) (\<lambda>s.
       let line = message @ [CHR 0x0A] in
       and_then (ensureCurrentLocked F (int (length line)) s) (\<lambda>s.
       and_then (writeString F line s) (try_op F OpSync id))))"

text \<open>A file that can be examined and is not empty.\<close>

definition nonEmptyFile :: "spillFaults \<Rightarrow> spillFS \<Rightarrow> string \<Rightarrow> bool" where
  "nonEmptyFile F fs path \<longleftrightarrow> flFail F (OpStat path) = None \<and> fsNames fs path \<noteq> None \<and> fsContent fs path \<noteq> []"

definition HasSpill :: "spillFaults \<Rightarrow> spill \<Rightarrow> bool" where
  "HasSpill F s \<longleftrightarrow> smFile (fst s) \<noteq> None \<and> smFileSize (fst s) > 0 \<or>
     list_ex (\<lambda>i. nonEmptyFile F (snd s) (pathForIndex (fst s) i)) [0..<Suc (smRotations (fst s))]"

definition prepareReplayPaths :: "spillFaults \<Rightarrow> spill \<Rightarrow> spill \<times> (string + string list)" where
  "prepareReplayPaths F s =
     (case closeFile F s of
        (s, Some e) \<Rightarrow> (s, Inl e)
      | (s, None) \<Rightarrow>
          (s, Inr (filter (nonEmptyFile F (snd s))
                (map (pathForIndex (fst s)) (rev [1..<Suc (smRotations (fst s))]) @ [pathForIndex (fst s) 0]))))"

fun replayLines :: "(string \<Rightarrow> 'w \<Rightarrow> 'w \<times> string option) \<Rightarrow> string list \<Rightarrow> 'w \<Rightarrow> 'w \<times> string option" where
  "replayLines writeLine [] w = (w, None)"
| "replayLines writeLine (l # ls) w =
     (let message = trim_right_set l [CHR 0x0D, CHR 0x0A] in
      if message = '''' then replayLines writeLine ls w
      else and_then (writeLine message w) (replayLines writeLine ls))"

definition replayFile :: "spillFaults \<Rightarrow> spillFS \<Rightarrow> string \<Rightarrow> (string \<Rightarrow> 'w \<Rightarrow> 'w \<times> string option) \<Rightarrow> 'w \<Rightarrow> 'w \<times> string option" where
  "replayFile F fs path writeLine w =
     (case flFail F (OpOpen path) of
        Some e \<Rightarrow> (w, Some e)
      | None \<Rightarrow>
          if fsNames fs path = None then (w, Some ''no such file or directory'')
          else let (ls, tooLong) = scan_lines_max 1048576 (fsContent fs path) in
            and_then (replayLines writeLine ls w) (\<lambda>w. (w, if tooLong then Some ''token too long'' else None)))"

fun replayPaths :: "spillFaults \<Rightarrow> (string \<Rightarrow> 'w \<Rightarrow> 'w \<times> string option) \<Rightarrow> string list \<Rightarrow> spillFS \<times> 'w \<Rightarrow> (spillFS \<times> 'w) \<times> string option" where
  "replayPaths F writeLine [] st = (st, None)"
| "replayPaths F writeLine (path # paths) (fs, w) =
     (case replayFile F fs path writeLine w of
        (w, Some e) \<Rightarrow> ((fs, w), Some e)
      | (w, None) \<Rightarrow> and_then (try_op F (OpRemove path) (\<lambda>(fs, w). (fsRemove path fs, w)) (fs, w)) (replayPaths F writeLine paths))"

definition ReplayTo :: "spillFaults \<Rightarrow> (string \<Rightarrow> 'w \<Rightarrow> 'w \<times> string option) \<Rightarrow> spill \<times> 'w \<Rightarrow> (spill \<times> 'w) \<times> string option" where
  "ReplayTo F writeLine st =
     (case prepareReplayPaths F (fst st) of
        (s, Inl e) \<Rightarrow> ((s, snd st), Some e)
      | (s, Inr paths) \<Rightarrow>
          (case replayPaths F writeLine paths (snd s, snd st) of ((fs, w), e) \<Rightarrow> (((fst s, fs), w), e)))"

subsection \<open>The worker\<close>

text \<open>The reporter: whether it announced spill mode, and what it wrote to standard error.\<close>

record statusReporter =
  rpService :: string
  rpSpilling :: bool
  rpStderr :: "string list"

definition enterSpill :: "string \<Rightarrow> statusReporter \<Rightarrow> statusReporter" where
  "enterSpill reason r =
     (if rpSpilling r then r
      else r\<lparr>rpSpilling := True, rpStderr := rpStderr r @ [''sys-logd: entering spill mode for '' @ rpService r @ '': '' @ reason]\<rparr>)"

definition replayStart :: "statusReporter \<Rightarrow> statusReporter" where
  "replayStart r =
     (if \<not> rpSpilling r then r else r\<lparr>rpStderr := rpStderr r @ [''sys-logd: replaying buffered logs for '' @ rpService r]\<rparr>)"

definition exitSpill :: "statusReporter \<Rightarrow> statusReporter" where
  "exitSpill r =
     (if \<not> rpSpilling r then r
      else r\<lparr>rpSpilling := False, rpStderr := rpStderr r @ [''sys-logd: spill recovered for '' @ rpService r]\<rparr>)"

definition spillFailure :: "string \<Rightarrow> statusReporter \<Rightarrow> statusReporter" where
  "spillFailure err r = r\<lparr>rpStderr := rpStderr r @ [''sys-logd: spill write failed for '' @ rpService r @ '': '' @ err]\<rparr>"

text \<open>
  The shared state of the reader and the writer goroutine. The queue holds at most \<open>wkQueueSize\<close>
  messages; \<open>wkSink\<close> is the state behind the sink.
\<close>

record 'w workerState =
  wkQueue :: "string list"
  wkQueueSize :: nat
  wkClosed :: bool
  wkSpillMode :: bool
  wkSpill :: spill
  wkReporter :: statusReporter
  wkSink :: 'w
  wkInputClosed :: bool

definition spillLine :: "spillFaults \<Rightarrow> string \<Rightarrow> 'w workerState \<Rightarrow> 'w workerState" where
  "spillLine F message k =
     (case WriteLine F message (wkSpill k) of
        (s, None) \<Rightarrow> k\<lparr>wkSpill := s\<rparr>
      | (s, Some e) \<Rightarrow> k\<lparr>wkSpill := s, wkReporter := spillFailure e (wkReporter k)\<rparr>)"

text \<open>The queue takes the message, or the timer fires first; it always does when the queue stays full.\<close>

definition routeMessage :: "spillFaults \<Rightarrow> bool \<Rightarrow> string \<Rightarrow> 'w workerState \<Rightarrow> 'w workerState" where
  "routeMessage F timedOut message k =
     (if wkSpillMode k then spillLine F message k
      else if \<not> timedOut \<and> length (wkQueue k) < wkQueueSize k then k\<lparr>wkQueue := wkQueue k @ [message]\<rparr>
      else spillLine F message (k\<lparr>wkSpillMode := True, wkReporter := enterSpill ''queue saturated'' (wkReporter k)\<rparr>))"

text \<open>One line of the reader's loop (with its end, if it has one); the end of the input closes the queue.\<close>

definition readLine :: "spillFaults \<Rightarrow> bool \<Rightarrow> string \<Rightarrow> 'w workerState \<Rightarrow> 'w workerState" where
  "readLine F timedOut line k =
     (let message = trim_right_set line [CHR 0x0D, CHR 0x0A] in
      if message = '''' then k else routeMessage F timedOut message k)"

definition writeMessage :: "(string \<Rightarrow> 'w \<Rightarrow> 'w \<times> string option) \<Rightarrow> string \<Rightarrow> 'w \<Rightarrow> 'w \<times> string option" where
  "writeMessage sink message w = (if trim_space message = '''' then (w, None) else sink message w)"

text \<open>\<open>None\<close> is a loop that does not end.\<close>

partial_function (option) replaySpill :: "spillFaults \<Rightarrow> (string \<Rightarrow> 'w \<Rightarrow> 'w \<times> string option) \<Rightarrow> (spill \<times> 'w) \<times> statusReporter \<Rightarrow> (((spill \<times> 'w) \<times> statusReporter) \<times> string option) option" where
  "replaySpill F sink st =
     (if \<not> HasSpill F (fst (fst st)) then Some (st, None)
      else let r = replayStart (snd st) in
        (case ReplayTo F (writeMessage sink) (fst st) of
           (sw, Some e) \<Rightarrow> Some ((sw, r), Some e)
         | (sw, None) \<Rightarrow> replaySpill F sink (sw, r)))"

text \<open>
  One round of the writer's loop; the second component tells that the writer returned. A round with
  nothing to receive blocks and changes nothing.
\<close>

definition writerReplay :: "spillFaults \<Rightarrow> (string \<Rightarrow> 'w \<Rightarrow> 'w \<times> string option) \<Rightarrow> 'w workerState \<Rightarrow> ('w workerState \<times> bool) option" where
  "writerReplay F sink k =
     map_option (\<lambda>(((s, w), r), e).
       let k = k\<lparr>wkSpill := s, wkSink := w, wkReporter := r\<rparr>;
           k = (case e of
                  None \<Rightarrow> if \<not> HasSpill F s then k\<lparr>wkSpillMode := False, wkReporter := exitSpill r\<rparr> else k
                | Some e \<Rightarrow> k\<lparr>wkReporter := enterSpill (''log sink unavailable: '' @ e) r\<rparr>)
       in (k, wkInputClosed k \<and> wkQueue k = [] \<and> \<not> wkSpillMode k))
     (replaySpill F sink ((wkSpill k, wkSink k), wkReporter k))"

definition writerReceive :: "spillFaults \<Rightarrow> (string \<Rightarrow> 'w \<Rightarrow> 'w \<times> string option) \<Rightarrow> 'w workerState \<Rightarrow> 'w workerState" where
  "writerReceive F sink k =
     (case wkQueue k of
        [] \<Rightarrow> if wkClosed k then k\<lparr>wkInputClosed := True\<rparr> else k
      | msg # rest \<Rightarrow>
          let (w, e) = writeMessage sink msg (wkSink k); k = k\<lparr>wkQueue := rest, wkSink := w\<rparr> in
          (case e of
             None \<Rightarrow> k
           | Some e \<Rightarrow>
               spillLine F msg (k\<lparr>wkSpillMode := True, wkReporter := enterSpill (''log sink write failed: '' @ e) (wkReporter k)\<rparr>)))"

definition writerRound :: "spillFaults \<Rightarrow> (string \<Rightarrow> 'w \<Rightarrow> 'w \<times> string option) \<Rightarrow> 'w workerState \<Rightarrow> ('w workerState \<times> bool) option" where
  "writerRound F sink k =
     (if wkSpillMode k \<and> wkQueue k = [] then writerReplay F sink k
      else if wkInputClosed k then Some (k, \<not> wkSpillMode k)
      else Some (writerReceive F sink k, False))"

subsection \<open>Settings from the environment\<close>

definition envString :: "(string \<Rightarrow> string) \<Rightarrow> string \<Rightarrow> string \<Rightarrow> string" where
  "envString getenv name fallback = (let v = trim_space (getenv name) in if v = '''' then fallback else v)"

definition envInt :: "(string \<Rightarrow> string) \<Rightarrow> string \<Rightarrow> int \<Rightarrow> int" where
  "envInt getenv name fallback =
     (let v = trim_space (getenv name) in
      if v = '''' then fallback else case atoi v of None \<Rightarrow> fallback | Some n \<Rightarrow> n)"

text \<open>\<open>time.Duration(parsed) * time.Millisecond\<close> wraps around at 64 bits.\<close>

definition envDurationMillis :: "(string \<Rightarrow> string) \<Rightarrow> string \<Rightarrow> duration \<Rightarrow> duration" where
  "envDurationMillis getenv name fallback =
     (let v = trim_space (getenv name) in
      if v = '''' then fallback
      else case atoi v of
        None \<Rightarrow> fallback
      | Some n \<Rightarrow> if n < 0 then fallback else sint (word_of_int (n * 1000000) :: 64 word))"

record logdSettings =
  lsQueueSize :: int
  lsEnqueueTimeout :: duration
  lsReconnectInterval :: duration
  lsSpillDir :: string
  lsSpillMaxBytes :: int
  lsSpillRotations :: int

definition logdSettingsOf :: "(string \<Rightarrow> string) \<Rightarrow> string \<Rightarrow> logdSettings" where
  "logdSettingsOf getenv spillDir =
     \<lparr>lsQueueSize = max 1 (envInt getenv ''SERVICECTL_LOGD_QUEUE_SIZE'' 1024),
      lsEnqueueTimeout = envDurationMillis getenv ''SERVICECTL_LOGD_ENQUEUE_TIMEOUT_MS'' 10000000,
      lsReconnectInterval = envDurationMillis getenv ''SERVICECTL_LOGD_RECONNECT_INTERVAL_MS'' 1000000000,
      lsSpillDir = (if trim_space spillDir = '''' then envString getenv ''SERVICECTL_LOGSPILL_DIR'' ''/run/servicectl/logspill'' else spillDir),
      lsSpillMaxBytes = max 1024 (envInt getenv ''SERVICECTL_LOGD_SPILL_MAX_BYTES'' 16777216),
      lsSpillRotations = max 1 (envInt getenv ''SERVICECTL_LOGD_SPILL_ROTATIONS'' 4)\<rparr>"

subsection \<open>The files of a manager\<close>

lemma clean_comps_snoc:
  assumes "normal n"
  shows "clean_comps (d @ ''/'' @ n) = foldl (clean_step (is_abs (d @ ''/'' @ n))) [] (split_on CHR ''/'' d) @ [n]"
proof -
  have "split_on CHR ''/'' (d @ ''/'' @ n) = split_on CHR ''/'' d @ [n]"
    using assms by (induction d) (auto simp: normal_def split_on_absent split: list.splits)
  with assms show ?thesis by (auto simp: clean_comps_def normal_def)
qed

lemma path_join_name_inj:
  assumes "normal a" "normal b" "path_join [d, a] = path_join [d, b]"
  shows "a = b"
proof (cases "d = []")
  case True
  have "clean n = n" if "normal n" for n
    using that by (auto simp: clean_def clean_comps_def normal_def split_on_absent render_path_def is_abs_def has_prefix_def
        intro: list.exhaust [of n])
  with True assms show ?thesis by (auto simp: normal_def)
next
  case False
  have abs: "is_abs (d @ ''/'' @ n) = is_abs d" for n using False by (cases d) (simp_all add: is_abs_def has_prefix_def)
  define cs where "cs = foldl (clean_step (is_abs d)) [] (split_on CHR ''/'' d)"
  have "path_join [d, n] = render_path (is_abs d) (cs @ [n])" if "normal n" for n
    using False that clean_comps_snoc [of n d] abs [of n] by (simp add: clean_def cs_def)
  with assms have "join ''/'' (cs @ [a]) = join ''/'' (cs @ [b])" by (simp add: render_path_def split: if_splits)
  then show ?thesis by (cases "cs = []") (simp_all add: join_append)
qed

lemma pathForIndex_inj:
  assumes "CHR ''/'' \<notin> set (smService m)" "pathForIndex m i = pathForIndex m j"
  shows "i = j"
proof -
  define f where "f = (\<lambda>i. smService m @ ''.log'' @ (if i = 0 then [] else CHR ''.'' # itoa (int i)))"
  have path: "pathForIndex m i = path_join [smDir m, f i]" for i
    by (simp add: pathForIndex_def f_def)
  have "CHR ''/'' \<notin> set (utoa n)" for n by (auto dest: utoa_digits simp: is_digit_def)
  then have normal: "normal (f i)" for i
    using assms(1) by (auto simp: normal_def f_def itoa_def append_eq_Cons_conv)
  have "f i = f j" using path_join_name_inj [OF normal normal] assms(2) unfolding path .
  then show ?thesis by (auto simp: f_def split: if_splits dest: itoa_inj)
qed

definition wellNamed :: "spill \<Rightarrow> bool" where
  "wellNamed s \<longleftrightarrow> CHR ''/'' \<notin> set (smService (fst s)) \<and> (\<forall>p i. fsNames (snd s) p = Some i \<longrightarrow> i < fsNext (snd s)) \<and>
     (\<forall>p q i. fsNames (snd s) p = Some i \<and> fsNames (snd s) q = Some i \<longrightarrow> p = q)"

definition spillInv :: "spill \<Rightarrow> bool" where
  "spillInv s \<longleftrightarrow> wellNamed s \<and>
     (\<forall>i. smFile (fst s) = Some i \<longrightarrow> fsNames (snd s) (pathForIndex (fst s) 0) = Some i \<and> smFileSize (fst s) = int (length (fsData (snd s) i)))"

text \<open>The inode of the file with an index, and its content.\<close>

definition nodeAt :: "spill \<Rightarrow> nat \<Rightarrow> nat option" where
  "nodeAt s i = fsNames (snd s) (pathForIndex (fst s) i)"

definition segment :: "spill \<Rightarrow> nat \<Rightarrow> string" where
  "segment s i = fsContent (snd s) (pathForIndex (fst s) i)"

lemma segment_node: "segment s i = (case nodeAt s i of None \<Rightarrow> [] | Some n \<Rightarrow> fsData (snd s) n)"
  by (simp add: segment_def nodeAt_def fsContent_def)

lemma path_eq: "wellNamed s \<Longrightarrow> pathForIndex (fst s) i = pathForIndex (fst s) j \<longleftrightarrow> i = j"
  using pathForIndex_inj by (auto simp: wellNamed_def)

text \<open>The manager up to its open file.\<close>

definition sameManager :: "spill \<Rightarrow> spill \<Rightarrow> bool" where
  "sameManager s t \<longleftrightarrow> smService (fst s) = smService (fst t) \<and> smDir (fst s) = smDir (fst t) \<and>
     smMaxBytes (fst s) = smMaxBytes (fst t) \<and> smRotations (fst s) = smRotations (fst t)"

lemma sameManager_refl [simp]: "sameManager s s"
  by (simp add: sameManager_def)

lemma sameManager_trans: "sameManager s t \<Longrightarrow> sameManager t u \<Longrightarrow> sameManager s u"
  by (simp add: sameManager_def)

lemma sameManager_path: "sameManager s t \<Longrightarrow> pathForIndex (fst s) i = pathForIndex (fst t) i"
  by (simp add: sameManager_def pathForIndex_def)

lemma renamed:
  assumes "wellNamed s" "nodeAt s (Suc i) = None"
  defines "t \<equiv> onFiles (fsRename (pathForIndex (fst s) i) (pathForIndex (fst s) (Suc i))) s"
  shows "wellNamed t \<and> fst t = fst s \<and> fsData (snd t) = fsData (snd s) \<and>
    nodeAt t j = (if j = i then None else if j = Suc i then nodeAt s i else nodeAt s j)"
proof (cases "nodeAt s i")
  case None
  then have "t = s" by (simp add: t_def onFiles_def fsRename_def nodeAt_def)
  with None assms(1,2) show ?thesis by auto
next
  case (Some n)
  then have t: "t = (fst s, (snd s)\<lparr>fsNames := (fsNames (snd s))(pathForIndex (fst s) i := None, pathForIndex (fst s) (Suc i) := Some n)\<rparr>)"
    by (simp add: t_def onFiles_def fsRename_def nodeAt_def)
  have free: "fsNames (snd s) q = Some n \<longleftrightarrow> q = pathForIndex (fst s) i" for q
    using assms(1) Some by (auto simp: wellNamed_def nodeAt_def)
  have "wellNamed t" using assms(1) Some free unfolding wellNamed_def t nodeAt_def by auto
  then show ?thesis using path_eq [OF assms(1)] Some by (simp add: t nodeAt_def)
qed

lemma renameFrom_shift:
  assumes "wellNamed s" "nodeAt s n = None"
  obtains t where "renameFrom noFaults n s = (t, None)" "wellNamed t" "fst t = fst s" "fsData (snd t) = fsData (snd s)"
    "\<And>j. nodeAt t j = (if j = 0 then None else if j \<le> n then nodeAt s (j - 1) else nodeAt s j)"
  using assms
proof (induction n arbitrary: s thesis)
  case 0
  show ?case by (rule "0.prems"(1) [of s]) (use "0.prems" in auto)
next
  case (Suc i)
  define u where "u = onFiles (fsRename (pathForIndex (fst s) i) (pathForIndex (fst s) (Suc i))) s"
  have u: "wellNamed u" "fst u = fst s" "fsData (snd u) = fsData (snd s)"
    "\<And>j. nodeAt u j = (if j = i then None else if j = Suc i then nodeAt s i else nodeAt s j)"
    using renamed [OF Suc.prems(2,3)] by (simp_all add: u_def)
  obtain t where t: "renameFrom noFaults i u = (t, None)" "wellNamed t" "fst t = fst u" "fsData (snd t) = fsData (snd u)"
    "\<And>j. nodeAt t j = (if j = 0 then None else if j \<le> i then nodeAt u (j - 1) else nodeAt u j)"
    using Suc.IH [of u] u by auto
  show ?case
  proof (rule Suc.prems(1) [of t])
    show "renameFrom noFaults (Suc i) s = (t, None)" using t(1) by (simp add: Let_def u_def)
    show "nodeAt t j = (if j = 0 then None else if j \<le> Suc i then nodeAt s (j - 1) else nodeAt s j)" for j
      using t(5) [of j] u(4) [of j] u(4) [of "j - 1"] by (auto simp: le_Suc_eq)
  qed (use t u in simp_all)
qed

lemma closeFile_closed:
  assumes "spillInv s"
  obtains t where "closeFile noFaults s = (t, None)" "spillInv t" "smFile (fst t) = None" "snd t = snd s" "sameManager s t"
proof (cases "smFile (fst s)")
  case None
  then show ?thesis using assms by (intro that [of s]) (simp_all add: closeFile_def)
next
  case (Some i)
  let ?t = "((fst s)\<lparr>smFile := None, smFileSize := 0\<rparr>, snd s)"
  show ?thesis by (rule that [of ?t]) (use assms Some in \<open>auto simp: closeFile_def spillInv_def wellNamed_def sameManager_def\<close>)
qed

lemma removed_node:
  fixes i :: nat
  assumes "wellNamed s"
  defines "t \<equiv> onFiles (fsRemove (pathForIndex (fst s) i)) s"
  shows "wellNamed t \<and> fst t = fst s \<and> fsData (snd t) = fsData (snd s) \<and> nodeAt t j = (if j = i then None else nodeAt s j)"
proof -
  have "wellNamed t" using assms(1) by (auto simp: t_def onFiles_def fsRemove_def wellNamed_def)
  then show ?thesis using path_eq [OF assms(1)] by (simp add: t_def onFiles_def fsRemove_def nodeAt_def)
qed

lemma rotateLocked_shift:
  assumes "spillInv s"
  obtains t where "rotateLocked noFaults s = (t, None)" "wellNamed t" "smFile (fst t) = None" "sameManager s t"
    "nodeAt t 0 = None" "\<And>j. j < smRotations (fst s) \<Longrightarrow> segment t (Suc j) = segment s j"
proof -
  obtain u where u: "closeFile noFaults s = (u, None)" "spillInv u" "smFile (fst u) = None" "snd u = snd s" "sameManager s u"
    using closeFile_closed [OF assms] by blast
  define v where "v = onFiles (fsRemove (pathForIndex (fst u) (smRotations (fst u)))) u"
  have "wellNamed u" using u(2) by (simp add: spillInv_def)
  then have v: "wellNamed v" "fst v = fst u" "fsData (snd v) = fsData (snd u)"
    "\<And>j. nodeAt v j = (if j = smRotations (fst u) then None else nodeAt u j)"
    using removed_node by (simp_all add: v_def)
  obtain t where t: "renameFrom noFaults (smRotations (fst u)) v = (t, None)" "wellNamed t" "fst t = fst v" "fsData (snd t) = fsData (snd v)"
    "\<And>j. nodeAt t j = (if j = 0 then None else if j \<le> smRotations (fst u) then nodeAt v (j - 1) else nodeAt v j)"
    using renameFrom_shift [OF v(1), of "smRotations (fst u)"] v(4) by auto
  have same: "segment u j = segment s j" for j
    using u(4) sameManager_path [OF u(5)] by (simp add: segment_def)
  show ?thesis
  proof (rule that [of t])
    show "rotateLocked noFaults s = (t, None)" using t(1) u(1) by (simp add: rotateLocked_def v_def Let_def onFiles_def)
    show "segment t (Suc j) = segment s j" if "j < smRotations (fst s)" for j
      using that t(4,5) v(3,4) u(5) same [of j] by (simp add: segment_node sameManager_def split: option.splits)
  qed (use t v u in \<open>auto simp: sameManager_def\<close>)
qed

lemma opened:
  fixes trunc :: bool
  assumes "wellNamed s"
  defines "fs \<equiv> fst (fsOpen trunc (pathForIndex (fst s) 0) (snd s))" and "i \<equiv> snd (fsOpen trunc (pathForIndex (fst s) 0) (snd s))"
  shows "wellNamed (m, fs) \<longleftrightarrow> CHR ''/'' \<notin> set (smService m)" and "fsNames fs (pathForIndex (fst s) 0) = Some i"
    and "fsData fs i = (if trunc then [] else segment s 0)"
    and "0 < j \<Longrightarrow> fsContent fs (pathForIndex (fst s) j) = segment s j"
proof -
  let ?p = "pathForIndex (fst s) 0"
  note w = assms(1) [unfolded wellNamed_def]
  have other: "pathForIndex (fst s) j \<noteq> ?p" if "0 < j" for j using path_eq [OF assms(1)] that by simp
  have sep: "fsNames (snd s) q \<noteq> Some n" if "fsNames (snd s) ?p = Some n" "q \<noteq> ?p" for q n
    using w that by metis
  show "wellNamed (m, fs) \<longleftrightarrow> CHR ''/'' \<notin> set (smService m)" and "fsNames fs ?p = Some i"
    and "fsData fs i = (if trunc then [] else segment s 0)"
    and "0 < j \<Longrightarrow> fsContent fs (pathForIndex (fst s) j) = segment s j"
    using w other [of j] sep [of _ "pathForIndex (fst s) j"]
    by (auto simp: fs_def i_def fsOpen_def wellNamed_def segment_def fsContent_def less_Suc_eq split: option.splits)
qed

text \<open>A state whose current file is open.\<close>

definition opensAt :: "spill \<Rightarrow> nat \<Rightarrow> bool" where
  "opensAt s i \<longleftrightarrow> spillInv s \<and> smFile (fst s) = Some i"

lemma openCurrent_opens:
  assumes "spillInv s"
  obtains t i where "openCurrent noFaults s = (t, None)" "opensAt t i" "sameManager s t" "\<And>j. segment t j = segment s j"
proof (cases "smFile (fst s)")
  case (Some i)
  then show ?thesis using assms by (intro that [of s i]) (auto simp: openCurrent_def opensAt_def split: prod.splits)
next
  case None
  obtain m fs where s: "s = (m, fs)" by fastforce
  have w: "wellNamed s" "CHR ''/'' \<notin> set (smService m)" using assms by (simp_all add: spillInv_def wellNamed_def s)
  obtain fs' i where o: "fsOpen False (pathForIndex m 0) fs = (fs', i)" by fastforce
  let ?t = "(m\<lparr>smFile := Some i, smFileSize := int (length (fsData fs' i))\<rparr>, fs')"
  note op = opened [OF w(1), where trunc = False, unfolded s fst_conv snd_conv o]
  have same: "sameManager s ?t" by (simp add: sameManager_def s)
  show ?thesis
  proof (rule that [of ?t i])
    show "openCurrent noFaults s = (?t, None)" using None o by (simp add: openCurrent_def s noFaults_def)
    show "opensAt ?t i" using op(1,2) w(2) sameManager_path [OF same, of 0] by (simp add: opensAt_def spillInv_def s)
    show "segment ?t j = segment s j" for j
      using op(2,3) op(4) [of j] sameManager_path [OF same, of j] by (cases "j = 0") (simp_all add: segment_def fsContent_def s)
  qed (rule same)
qed

lemma openFresh_opens:
  assumes "wellNamed s"
  obtains t i where "openFresh noFaults s = (t, None)" "opensAt t i" "sameManager s t" "segment t 0 = []" "\<And>j. 0 < j \<Longrightarrow> segment t j = segment s j"
proof -
  obtain m fs where s: "s = (m, fs)" by fastforce
  have w: "CHR ''/'' \<notin> set (smService m)" using assms by (simp add: wellNamed_def s)
  obtain fs' i where o: "fsOpen True (pathForIndex m 0) fs = (fs', i)" by fastforce
  let ?t = "(m\<lparr>smFile := Some i, smFileSize := 0\<rparr>, fs')"
  note op = opened [OF assms, where trunc = True, unfolded s fst_conv snd_conv o]
  have same: "sameManager s ?t" by (simp add: sameManager_def s)
  show ?thesis
  proof (rule that [of ?t i])
    show "openFresh noFaults s = (?t, None)" using o by (simp add: openFresh_def s)
    show "opensAt ?t i" using op(1-3) w sameManager_path [OF same, of 0] by (simp add: opensAt_def spillInv_def s)
    show "segment ?t 0 = []" using op(2,3) sameManager_path [OF same, of 0] by (simp add: segment_def fsContent_def s)
    show "segment ?t j = segment s j" if "0 < j" for j
      using op(4) [of j] that sameManager_path [OF same, of j] by (simp add: segment_def s)
  qed (rule same)
qed

lemma writeString_appends:
  assumes "opensAt s i"
  obtains t where "writeString noFaults line s = (t, None)" "opensAt t i" "sameManager s t" "segment t 0 = segment s 0 @ line"
    "\<And>j. 0 < j \<Longrightarrow> segment t j = segment s j"
proof -
  obtain m fs where s: "s = (m, fs)" by fastforce
  let ?t = "(m\<lparr>smFileSize := smFileSize m + int (length line)\<rparr>, fsAppend i line fs)"
  have inv: "spillInv s" "smFile m = Some i" "fsNames fs (pathForIndex m 0) = Some i" "wellNamed s"
    using assms by (auto simp: opensAt_def spillInv_def s)
  have same: "sameManager s ?t" by (simp add: sameManager_def s)
  note path = sameManager_path [OF same]
  have other: "fsNames fs (pathForIndex m j) \<noteq> Some i" if "0 < j" for j
    using inv(3,4) path_eq [OF inv(4), of j 0] that by (auto simp: wellNamed_def s)
  show ?thesis
  proof (rule that [of ?t])
    show "writeString noFaults line s = (?t, None)" using inv(2) by (simp add: writeString_def s noFaults_def)
    show "opensAt ?t i" using inv path [of 0] by (simp add: opensAt_def spillInv_def wellNamed_def s fsAppend_def)
    show "segment ?t 0 = segment s 0 @ line" using inv(3) path [of 0] by (simp add: segment_def s fsContent_def fsAppend_def)
    show "segment ?t j = segment s j" if "0 < j" for j
      using other [OF that] path [of j] by (auto simp: segment_def s fsContent_def fsAppend_def split: option.splits)
  qed (rule same)
qed

lemma opensAt_size: "opensAt s i \<Longrightarrow> smFileSize (fst s) = int (length (segment s 0))"
  by (auto simp: opensAt_def spillInv_def segment_def fsContent_def)

subsection \<open>The spill files as a bounded log\<close>

text \<open>
  The abstract view: the contents of the files, the oldest first. A line is appended to the newest
  if it fits; otherwise the oldest is given up and the line opens a new one.
\<close>

definition segments :: "spill \<Rightarrow> string list" where
  "segments s = map (segment s) (rev [0..<Suc (smRotations (fst s))])"

definition spillSpec :: "int \<Rightarrow> string \<Rightarrow> string list \<Rightarrow> string list" where
  "spillSpec maxBytes line segs =
     (if int (length (last segs)) + int (length line) \<le> maxBytes then butlast segs @ [last segs @ line] else tl segs @ [line])"

lemma segments_split: "segments s = map (segment s) (rev [1..<Suc (smRotations (fst s))]) @ [segment s 0]"
proof -
  have "[0..<Suc n] = 0 # [1..<Suc n]" for n using upt_conv_Cons [of 0 "Suc n"] by simp
  then show ?thesis by (simp add: segments_def del: upt_Suc)
qed

lemma segments_shift:
  assumes "\<And>j. j < smRotations (fst s) \<Longrightarrow> segment t (Suc j) = segment s j" "smRotations (fst t) = smRotations (fst s)"
  shows "segments t = tl (segments s) @ [segment t 0]"
proof -
  have "map (segment t) (rev [1..<Suc n]) = tl (map (segment s) (rev [0..<Suc n]))" if "n = smRotations (fst s)" for n
  proof -
    have "map (segment t) [1..<Suc n] = map (segment s) [0..<n]"
      using assms(1) that by (intro nth_equalityI) (simp_all del: upt_Suc)
    then have "rev (map (segment t) [1..<Suc n]) = rev (map (segment s) [0..<n])" by simp
    then show ?thesis by (simp add: rev_map [symmetric])
  qed
  from this [OF refl] show ?thesis unfolding segments_split [of t] assms(2) by (simp add: segments_def del: upt_Suc)
qed

lemma segments_cong:
  "(\<And>j. j \<le> smRotations (fst s) \<Longrightarrow> segment t j = segment s j) \<Longrightarrow> smRotations (fst t) = smRotations (fst s) \<Longrightarrow> segments t = segments s"
  by (auto simp: segments_def)

lemma WriteLine_spec:
  assumes "spillInv s"
  obtains t i where "WriteLine noFaults message s = (t, None)" "opensAt t i" "sameManager s t"
    "segments t = spillSpec (smMaxBytes (fst s)) (message @ [CHR 0x0A]) (segments s)"
proof -
  let ?line = "message @ [CHR 0x0A]"
  obtain u i where u: "openCurrent noFaults s = (u, None)" "opensAt u i" "sameManager s u" "\<And>j. segment u j = segment s j"
    using openCurrent_opens [OF assms] by blast
  have sgu: "segments u = segments s" using u(3,4) by (intro segments_cong) (simp_all add: sameManager_def)
  have fits: "smFileSize (fst u) + int (length ?line) \<le> smMaxBytes (fst u) \<longleftrightarrow>
      int (length (last (segments s))) + int (length ?line) \<le> smMaxBytes (fst s)"
    using opensAt_size [OF u(2)] u(3,4) by (simp add: segments_split sameManager_def)
  show ?thesis
  proof (cases "smFileSize (fst u) + int (length ?line) \<le> smMaxBytes (fst u)")
    case True
    obtain t where t: "writeString noFaults ?line u = (t, None)" "opensAt t i" "sameManager u t" "segment t 0 = segment u 0 @ ?line"
      "\<And>j. 0 < j \<Longrightarrow> segment t j = segment u j" using writeString_appends [OF u(2)] by blast
    show ?thesis
    proof (rule that [of t i])
      show "WriteLine noFaults message s = (t, None)" using u(1) t(1) True by (simp add: WriteLine_def ensureCurrentLocked_def)
      have "segments t = map (segment u) (rev [1..<Suc (smRotations (fst u))]) @ [segment u 0 @ ?line]"
        using t(3-5) by (auto simp: segments_split sameManager_def)
      then show "segments t = spillSpec (smMaxBytes (fst s)) ?line (segments s)"
        using True fits sgu by (simp add: spillSpec_def segments_split del: upt_Suc)
    qed (use t u in \<open>auto intro: sameManager_trans\<close>)
  next
    case False
    from u(2) have "spillInv u" by (simp add: opensAt_def)
    then obtain v where v: "rotateLocked noFaults u = (v, None)" "wellNamed v" "sameManager u v"
      "\<And>j. j < smRotations (fst u) \<Longrightarrow> segment v (Suc j) = segment u j" using rotateLocked_shift by metis
    obtain x k where x: "openFresh noFaults v = (x, None)" "opensAt x k" "sameManager v x" "segment x 0 = []" "\<And>j. 0 < j \<Longrightarrow> segment x j = segment v j"
      using openFresh_opens [OF v(2)] by metis
    obtain t where t: "writeString noFaults ?line x = (t, None)" "opensAt t k" "sameManager x t" "segment t 0 = segment x 0 @ ?line"
      "\<And>j. 0 < j \<Longrightarrow> segment t j = segment x j" using writeString_appends [OF x(2)] by blast
    show ?thesis
    proof (rule that [of t k])
      show "WriteLine noFaults message s = (t, None)"
        using u(1) v(1) x(1) t(1) False by (simp add: WriteLine_def ensureCurrentLocked_def)
      have "segments t = tl (segments u) @ [segment t 0]"
        using t(3,5) v(3,4) x(3,5) by (intro segments_shift) (simp_all add: sameManager_def)
      then show "segments t = spillSpec (smMaxBytes (fst s)) ?line (segments s)"
        using False fits sgu t(4) x(4) by (simp add: spillSpec_def)
    qed (use t u v x in \<open>auto intro: sameManager_trans\<close>)
  qed
qed

subsection \<open>Replay\<close>

definition messagesOf :: "string \<Rightarrow> string list" where
  "messagesOf content =
     filter (\<lambda>m. m \<noteq> []) (map (\<lambda>l. trim_right_set l [CHR 0x0D, CHR 0x0A]) (fst (scan_lines_max 1048576 content)))"

fun deliver :: "(string \<Rightarrow> 'w \<Rightarrow> 'w \<times> string option) \<Rightarrow> string list \<Rightarrow> 'w \<Rightarrow> 'w \<times> string option" where
  "deliver writeLine [] w = (w, None)"
| "deliver writeLine (m # ms) w = and_then (writeLine m w) (deliver writeLine ms)"

lemma deliver_append: "deliver f (xs @ ys) w = and_then (deliver f xs w) (deliver f ys)"
proof (induction xs arbitrary: w)
  case (Cons x xs)
  obtain v e where "f x w = (v, e)" by fastforce
  with Cons.IH show ?case by (cases e) simp_all
qed simp

lemma replayLines_deliver:
  "replayLines f ls w = deliver f (filter (\<lambda>m. m \<noteq> []) (map (\<lambda>l. trim_right_set l [CHR 0x0D, CHR 0x0A]) ls)) w"
proof (induction ls arbitrary: w)
  case (Cons l ls)
  obtain v e where "f (trim_right_set l [CHR 0x0D, CHR 0x0A]) w = (v, e)" by fastforce
  with Cons.IH show ?case by (cases e) (simp_all add: Let_def)
qed simp

lemma nonEmptyFile_iff: "nonEmptyFile noFaults fs path \<longleftrightarrow> fsContent fs path \<noteq> []"
  by (auto simp: nonEmptyFile_def noFaults_def fsContent_def split: option.splits)

lemma nonEmptyFile_fun: "nonEmptyFile noFaults fs = (\<lambda>path. fsContent fs path \<noteq> [])"
  by (simp add: nonEmptyFile_iff fun_eq_iff)

lemma replayFile_delivers:
  assumes "fsContent fs path \<noteq> []"
  shows "replayFile noFaults fs path f w =
    and_then (deliver f (messagesOf (fsContent fs path)) w) (\<lambda>w. (w, if snd (scan_lines_max 1048576 (fsContent fs path)) then Some ''token too long'' else None))"
proof -
  have "fsNames fs path \<noteq> None" using assms by (auto simp: fsContent_def split: option.splits)
  then show ?thesis by (auto simp: replayFile_def noFaults_def messagesOf_def replayLines_deliver split: prod.split)
qed

lemma messagesOf_Nil [simp]: "messagesOf [] = []" "snd (scan_lines_max 1048576 []) = False"
  by (simp_all add: messagesOf_def scan_lines_max_def)

text \<open>
  Files are replayed one after the other; those that were delivered completely are gone, the others
  are as they were.
\<close>

lemma replayPaths_delivers:
  assumes "wellNamed (m, fs)" "distinct is" "\<forall>i\<in>set is. fsContent fs (pathForIndex m i) = fsContent fs0 (pathForIndex m i)"
    and "replayPaths noFaults f (filter (nonEmptyFile noFaults fs0) (map (pathForIndex m) is)) (fs, w) = ((fs', w'), e)"
  shows "\<exists>k w1. k \<le> length is \<and> wellNamed (m, fs') \<and>
    (\<forall>j. fsContent fs' (pathForIndex m j) = (if j \<in> set (take k is) then [] else fsContent fs (pathForIndex m j))) \<and>
    deliver f (concat (map (\<lambda>i. messagesOf (fsContent fs (pathForIndex m i))) (take k is))) w = (w1, None) \<and>
    (e = None \<longrightarrow> k = length is \<and> w1 = w' \<and> list_all (\<lambda>i. \<not> snd (scan_lines_max 1048576 (fsContent fs (pathForIndex m i)))) is) \<and>
    (e \<noteq> None \<longrightarrow> fst (deliver f (concat (map (\<lambda>i. messagesOf (fsContent fs (pathForIndex m i))) (take (Suc k) is))) w) = w')"
  using assms
proof (induction "is" arbitrary: fs w)
  case Nil
  then show ?case by (intro exI [of _ 0] exI [of _ w]) auto
next
  case (Cons i rest)
  let ?p = "pathForIndex m i" let ?c = "fsContent fs ?p"
  have paths: "pathForIndex m j = ?p \<longleftrightarrow> j = i" for j using path_eq [OF Cons.prems(1)] by simp
  show ?case
  proof (cases "?c = []")
    case True
    with Cons.prems have "replayPaths noFaults f (filter (nonEmptyFile noFaults fs0) (map (pathForIndex m) rest)) (fs, w) = ((fs', w'), e)"
      by (simp add: nonEmptyFile_fun)
    with Cons.IH [of fs w] Cons.prems obtain k w1 where k: "k \<le> length rest" "wellNamed (m, fs')"
      "\<forall>j. fsContent fs' (pathForIndex m j) = (if j \<in> set (take k rest) then [] else fsContent fs (pathForIndex m j))"
      "deliver f (concat (map (\<lambda>i. messagesOf (fsContent fs (pathForIndex m i))) (take k rest))) w = (w1, None)"
      "e = None \<longrightarrow> k = length rest \<and> w1 = w' \<and> list_all (\<lambda>i. \<not> snd (scan_lines_max 1048576 (fsContent fs (pathForIndex m i)))) rest"
      "e \<noteq> None \<longrightarrow> fst (deliver f (concat (map (\<lambda>i. messagesOf (fsContent fs (pathForIndex m i))) (take (Suc k) rest))) w) = w'"
      by auto
    then show ?thesis using True by (intro exI [of _ "Suc k"] exI [of _ w1]) auto
  next
    case False
    obtain v x where v: "deliver f (messagesOf ?c) w = (v, x)" by fastforce
    have whole: "replayFile noFaults fs ?p f w = (v, if x = None \<and> snd (scan_lines_max 1048576 ?c) then Some ''token too long'' else x)"
      using replayFile_delivers [OF False, of f w] v by (cases x) simp_all
    have step: "replayPaths noFaults f (filter (nonEmptyFile noFaults fs0) (map (pathForIndex m) (i # rest))) (fs, w) =
      (if x = None \<and> \<not> snd (scan_lines_max 1048576 ?c)
       then replayPaths noFaults f (filter (nonEmptyFile noFaults fs0) (map (pathForIndex m) rest)) (fsRemove ?p fs, v)
       else ((fs, v), if x = None then Some ''token too long'' else x))"
      using False Cons.prems(3) whole by (auto simp: nonEmptyFile_fun split: option.splits)
    show ?thesis
    proof (cases "x = None \<and> \<not> snd (scan_lines_max 1048576 ?c)")
      case False
      with step Cons.prems(1,4) v show ?thesis by (intro exI [of _ 0] exI [of _ w]) (auto split: if_splits)
    next
      case True
      have gone: "fsContent (fsRemove ?p fs) (pathForIndex m j) = (if j = i then [] else fsContent fs (pathForIndex m j))" for j
        using paths [of j] by (auto simp: fsContent_def fsRemove_def split: option.splits)
      have wn: "wellNamed (m, fsRemove ?p fs)" using removed_node [OF Cons.prems(1), of i] by (simp add: onFiles_def)
      have rest: "distinct rest" "i \<notin> set rest" using Cons.prems(2) by simp_all
      have same: "\<forall>j\<in>set rest. fsContent (fsRemove ?p fs) (pathForIndex m j) = fsContent fs0 (pathForIndex m j)"
        using Cons.prems(3) rest(2) by (auto simp: gone)
      have run: "replayPaths noFaults f (filter (nonEmptyFile noFaults fs0) (map (pathForIndex m) rest)) (fsRemove ?p fs, v) = ((fs', w'), e)"
        using step True Cons.prems(4) by simp
      obtain k w1 where k: "k \<le> length rest" "wellNamed (m, fs')"
        "\<forall>j. fsContent fs' (pathForIndex m j) = (if j \<in> set (take k rest) then [] else fsContent (fsRemove ?p fs) (pathForIndex m j))"
        "deliver f (concat (map (\<lambda>j. messagesOf (fsContent (fsRemove ?p fs) (pathForIndex m j))) (take k rest))) v = (w1, None)"
        "e = None \<longrightarrow> k = length rest \<and> w1 = w' \<and>
          list_all (\<lambda>j. \<not> snd (scan_lines_max 1048576 (fsContent (fsRemove ?p fs) (pathForIndex m j)))) rest"
        "e \<noteq> None \<longrightarrow> fst (deliver f (concat (map (\<lambda>j. messagesOf (fsContent (fsRemove ?p fs) (pathForIndex m j))) (take (Suc k) rest))) v) = w'"
        using Cons.IH [OF wn rest(1) same run] by blast
      have kept: "map (\<lambda>j. messagesOf (fsContent (fsRemove ?p fs) (pathForIndex m j))) (take l rest) = map (\<lambda>j. messagesOf (fsContent fs (pathForIndex m j))) (take l rest)" for l
        using rest(2) by (auto simp: gone dest: in_set_takeD)
      note k4 = k(4) [unfolded kept] and k6 = k(6) [unfolded kept]
      have "deliver f (concat (map (\<lambda>j. messagesOf (fsContent fs (pathForIndex m j))) (take (Suc k) (i # rest)))) w = (w1, None)"
        using k4 v True by (simp add: deliver_append)
      moreover have "list_all (\<lambda>j. \<not> snd (scan_lines_max 1048576 (fsContent fs (pathForIndex m j)))) (i # rest)" if "e = None"
        using that k(5) True rest(2) by (auto simp: gone list_all_iff split: if_splits)
      moreover have "fst (deliver f (concat (map (\<lambda>j. messagesOf (fsContent fs (pathForIndex m j))) (take (Suc (Suc k)) (i # rest)))) w) = w'" if "e \<noteq> None"
        using that k6 v True by (simp add: deliver_append)
      ultimately show ?thesis using k(1-3,5) gone by (intro exI [of _ "Suc k"] exI [of _ w1]) auto
    qed
  qed
qed

lemma HasSpill_iff:
  assumes "spillInv s"
  shows "HasSpill noFaults s \<longleftrightarrow> list_ex (\<lambda>c. c \<noteq> []) (segments s)"
proof -
  have "segment s 0 \<noteq> []" if "smFile (fst s) = Some i" "0 < smFileSize (fst s)" for i
    using assms that by (auto simp: spillInv_def segment_def fsContent_def)
  moreover have "list_ex (\<lambda>c. c \<noteq> []) (segments s) \<longleftrightarrow> list_ex (\<lambda>i. segment s i \<noteq> []) [0..<Suc (smRotations (fst s))]"
    by (simp add: segments_def list_ex_iff del: upt_Suc)
  moreover have "0 \<in> set [0..<Suc (smRotations (fst s))]" by (simp del: upt_Suc)
  ultimately show ?thesis
    unfolding HasSpill_def nonEmptyFile_iff segment_def [symmetric] by (auto simp: list_ex_iff simp del: set_upt upt_Suc)
qed

lemma ReplayTo_effect:
  assumes "spillInv s" "ReplayTo noFaults f (s, w) = ((t, w'), e)"
  shows "\<exists>k w1. k \<le> length (segments s) \<and> spillInv t \<and> sameManager s t \<and> segments t = replicate k [] @ drop k (segments s) \<and>
    deliver f (concat (map messagesOf (take k (segments s)))) w = (w1, None) \<and>
    (e = None \<longrightarrow> k = length (segments s) \<and> w1 = w' \<and> list_all (\<lambda>c. \<not> snd (scan_lines_max 1048576 c)) (segments s)) \<and>
    (e \<noteq> None \<longrightarrow> fst (deliver f (concat (map messagesOf (take (Suc k) (segments s)))) w) = w')"
proof -
  obtain u where u: "closeFile noFaults s = (u, None)" "spillInv u" "smFile (fst u) = None" "snd u = snd s" "sameManager s u"
    using closeFile_closed [OF assms(1)] by blast
  obtain m fs where m: "u = (m, fs)" by fastforce
  define ixs where "ixs = rev [0..<Suc (smRotations m)]"
  have ixs: "map (pathForIndex m) (rev [1..<Suc (smRotations m)]) @ [pathForIndex m 0] = map (pathForIndex m) ixs"
    using upt_conv_Cons [of 0 "Suc (smRotations m)"] by (simp add: ixs_def del: upt_Suc)
  have "prepareReplayPaths noFaults s = (u, Inr (filter (nonEmptyFile noFaults fs) (map (pathForIndex m) ixs)))"
    using u(1) ixs by (simp add: prepareReplayPaths_def m del: upt_Suc map_append)
  then obtain fs' where run: "replayPaths noFaults f (filter (nonEmptyFile noFaults fs) (map (pathForIndex m) ixs)) (fs, w) = ((fs', w'), e)" "t = (m, fs')"
    using assms(2) by (auto simp: ReplayTo_def m split: prod.splits)
  have wn: "wellNamed (m, fs)" and d: "distinct ixs" using u(2) by (simp_all add: spillInv_def m ixs_def del: upt_Suc)
  have view: "fsContent fs (pathForIndex m i) = segment u i" "fsContent fs' (pathForIndex m i) = segment t i" for i
    by (simp_all add: segment_def m run(2))
  obtain k w1 where k: "k \<le> length ixs" "wellNamed t"
    "\<forall>j. segment t j = (if j \<in> set (take k ixs) then [] else segment u j)"
    "deliver f (concat (map (\<lambda>i. messagesOf (segment u i)) (take k ixs))) w = (w1, None)"
    "e = None \<longrightarrow> k = length ixs \<and> w1 = w' \<and> list_all (\<lambda>i. \<not> snd (scan_lines_max 1048576 (segment u i))) ixs"
    "e \<noteq> None \<longrightarrow> fst (deliver f (concat (map (\<lambda>i. messagesOf (segment u i)) (take (Suc k) ixs))) w) = w'"
    using replayPaths_delivers [OF wn d ballI [OF refl] run(1)] unfolding view run(2) [symmetric] by blast
  have same: "sameManager s t" using u(5) by (simp add: sameManager_def run(2) m)
  have seg: "segments s = map (segment u) ixs" "segments t = map (segment t) ixs"
    using u(4,5) sameManager_path [OF u(5)] by (simp_all add: segments_def ixs_def segment_def m run(2) sameManager_def del: upt_Suc)
  have "map (segment t) ixs = map (segment t) (take k ixs) @ map (segment t) (drop k ixs)" by (metis append_take_drop_id map_append)
  also have "map (segment t) (take k ixs) = replicate k []" using k(1) map_cong [OF refl, of "take k ixs" "segment t" "\<lambda>_. []"] k(3) by (simp add: map_replicate_const)
  also have "map (segment t) (drop k ixs) = map (segment u) (drop k ixs)"
    using k(3) d set_take_disj_set_drop_if_distinct [of ixs k k] by (auto simp: disjoint_iff)
  finally have "segments t = replicate k [] @ drop k (segments s)" by (simp add: seg drop_map)
  moreover have "spillInv t" using k(2) u(3) by (simp add: spillInv_def run(2) m)
  moreover have "map messagesOf (take l (segments s)) = map (\<lambda>i. messagesOf (segment u i)) (take l ixs)" for l by (simp add: seg take_map)
  ultimately show ?thesis using k(1,4-6) same by (intro exI [of _ k] exI [of _ w1]) (simp add: seg list_all_iff)
qed

lemma replay_empty:
  assumes "spillInv s" "ReplayTo noFaults f (s, w) = ((t, w'), None)"
  shows "\<not> HasSpill noFaults t"
proof -
  obtain k where "spillInv t" "segments t = replicate k [] @ drop k (segments s)" "k = length (segments s)"
    using ReplayTo_effect [OF assms] by blast
  then show ?thesis using HasSpill_iff [of t] by (simp add: list_ex_iff)
qed

text \<open>
  Fact. Replaying never loses a spilled line while nothing else writes: whatever the sink does,
  the files that are gone were delivered completely, oldest first, and every other file is as it
  was. If the replay succeeds, everything was delivered and nothing is left.
\<close>

theorem replay_loses_nothing:
  assumes "spillInv s" "ReplayTo noFaults f (s, w) = ((t, w'), e)"
  shows "\<exists>k w1. spillInv t \<and> segments t = replicate k [] @ drop k (segments s) \<and>
    deliver f (concat (map messagesOf (take k (segments s)))) w = (w1, None) \<and>
    (e = None \<longrightarrow> deliver f (concat (map messagesOf (segments s))) w = (w', None) \<and> \<not> HasSpill noFaults t)"
proof -
  obtain k w1 where k: "k \<le> length (segments s)" "spillInv t" "segments t = replicate k [] @ drop k (segments s)"
    "deliver f (concat (map messagesOf (take k (segments s)))) w = (w1, None)" "e = None \<longrightarrow> k = length (segments s) \<and> w1 = w'"
    using ReplayTo_effect [OF assms] by blast
  then show ?thesis using replay_empty [OF assms(1), of f w t w'] assms(2) by (intro exI [of _ k] exI [of _ w1]) auto
qed

subsection \<open>Spilling and replaying\<close>

definition spillAll :: "string list \<Rightarrow> spill \<Rightarrow> spill" where
  "spillAll ms s = foldl (\<lambda>s m. fst (WriteLine noFaults m s)) s ms"

lemma spillAll_spec:
  "spillInv s \<Longrightarrow> spillInv (spillAll ms s) \<and> sameManager s (spillAll ms s) \<and>
   segments (spillAll ms s) = foldl (\<lambda>segs m. spillSpec (smMaxBytes (fst s)) (m @ [CHR 0x0A]) segs) (segments s) ms"
proof (induction ms arbitrary: s)
  case Nil
  then show ?case by (simp add: spillAll_def)
next
  case (Cons m ms)
  obtain t i where t: "WriteLine noFaults m s = (t, None)" "opensAt t i" "sameManager s t"
    "segments t = spillSpec (smMaxBytes (fst s)) (m @ [CHR 0x0A]) (segments s)" using WriteLine_spec [OF Cons.prems] by metis
  have "spillInv t" "smMaxBytes (fst t) = smMaxBytes (fst s)" using t(2,3) by (simp_all add: opensAt_def sameManager_def)
  with Cons.IH [of t] t show ?case by (auto simp: spillAll_def intro: sameManager_trans)
qed

lemma length_segments [simp]: "length (segments s) = Suc (smRotations (fst s))"
  by (simp add: segments_def del: upt_Suc)

lemma spillSpec_bound:
  assumes "list_all (\<lambda>c. int (length c) \<le> B) segs" "segs \<noteq> []" "int (length line) \<le> B" "maxBytes \<le> B"
  shows "list_all (\<lambda>c. int (length c) \<le> B) (spillSpec maxBytes line segs)"
  using assms by (auto simp: spillSpec_def list_all_iff dest: in_set_butlastD list.set_sel(2))

lemma spillSpec_nonempty [simp]: "spillSpec maxBytes line segs \<noteq> []"
  by (simp add: spillSpec_def)

lemma spillSpec_fold_bound:
  "list_all (\<lambda>c. int (length c) \<le> B) segs \<Longrightarrow> segs \<noteq> [] \<Longrightarrow> list_all (\<lambda>m. int (length m) < B) ms \<Longrightarrow> maxBytes \<le> B \<Longrightarrow>
   list_all (\<lambda>c. int (length c) \<le> B) (foldl (\<lambda>segs m. spillSpec maxBytes (m @ [CHR 0x0A]) segs) segs ms)"
  by (induction ms arbitrary: segs) (simp_all add: spillSpec_bound)

text \<open>
  Property C14. The spill files implement a bounded log. Any sequence of messages, whatever they
  contain, leaves the files with the contents the abstract log has: lines are appended to the
  newest segment, and a full one pushes the oldest out. The number of files is fixed, and none
  is larger than the configured size or the longest line.
\<close>

theorem spill_refines_bounded_log:
  assumes "spillInv s" "list_all (\<lambda>c. int (length c) \<le> B) (segments s)" "list_all (\<lambda>m. int (length m) < B) ms" "smMaxBytes (fst s) \<le> B"
  shows "segments (spillAll ms s) = foldl (\<lambda>segs m. spillSpec (smMaxBytes (fst s)) (m @ [CHR 0x0A]) segs) (segments s) ms \<and>
    length (segments (spillAll ms s)) = Suc (smRotations (fst s)) \<and> list_all (\<lambda>c. int (length c) \<le> B) (segments (spillAll ms s))"
proof -
  have "segments s \<noteq> []" by (metis length_0_conv length_segments nat.distinct(1))
  moreover have "length (segments (spillAll ms s)) = Suc (smRotations (fst s))"
    using spillAll_spec [OF assms(1), of ms] unfolding length_segments by (simp only: sameManager_def)
  ultimately show ?thesis using spillAll_spec [OF assms(1), of ms] spillSpec_fold_bound [OF assms(2) _ assms(3,4)] by metis
qed

text \<open>The messages that survive a line-oriented file: one line each, not empty, shorter than the reader's buffer.\<close>

definition spillable :: "string \<Rightarrow> bool" where
  "spillable m \<longleftrightarrow> m \<noteq> [] \<and> CHR 0x0A \<notin> set m \<and> last m \<noteq> CHR 0x0D \<and> length m < 1048576"

lemma split_spilled: "list_all spillable ms \<Longrightarrow> split_on CHR 0x0A (linesText ms) = ms @ [[]]"
  by (rule split_linesText) (auto simp: list_all_iff spillable_def)

lemma takeWhile_all: "list_all P xs \<Longrightarrow> takeWhile P xs = xs"
  by (induction xs) auto

lemma scan_linesText:
  assumes "list_all spillable ms"
  shows "scan_lines_max 1048576 (linesText ms) = (ms, False)"
proof -
  have "list_all (\<lambda>l. length l < 1048576) ms" "map drop_cr ms = ms"
    using assms by (auto simp: list_all_iff spillable_def drop_cr_def intro!: map_idI)
  then show ?thesis unfolding scan_lines_max_def split_spilled [OF assms]
    by (auto simp: takeWhile_all list_ex_iff list_all_iff)
qed

lemma messagesOf_linesText:
  assumes "list_all spillable ms"
  shows "messagesOf (linesText ms) = ms"
proof -
  have "map (\<lambda>l. trim_right_set l [CHR 0x0D, CHR 0x0A]) ms = ms"
    using assms by (intro map_idI trim_right_set_stop) (auto simp: list_all_iff spillable_def, metis last_in_set)
  moreover have "filter (\<lambda>m. m \<noteq> []) ms = ms" using assms by (auto simp: filter_id_conv list_all_iff spillable_def)
  ultimately show ?thesis by (simp add: messagesOf_def scan_linesText [OF assms])
qed

text \<open>The segments hold the newest messages, cut into files.\<close>

lemma spillSpec_lines:
  assumes "parts \<noteq> []"
  shows "\<exists>parts' n. parts' \<noteq> [] \<and> spillSpec maxBytes (m @ [CHR 0x0A]) (map linesText parts) = map linesText parts' \<and>
    concat parts' = drop n (concat parts @ [m]) \<and> n \<le> length (concat parts) \<and>
    (int (length (linesText (concat parts @ [m]))) \<le> maxBytes \<longrightarrow> n = 0)"
proof (cases "int (length (last (map linesText parts))) + int (length (m @ [CHR 0x0A])) \<le> maxBytes")
  case True
  obtain ps p where p: "parts = ps @ [p]" using assms by (cases parts rule: rev_cases) auto
  have "spillSpec maxBytes (m @ [CHR 0x0A]) (map linesText parts) = map linesText (ps @ [p @ [m]])"
    using True by (simp add: spillSpec_def p linesText_def)
  then show ?thesis by (intro exI [of _ "ps @ [p @ [m]]"] exI [of _ 0]) (simp add: p)
next
  case False
  obtain p ps where p: "parts = p # ps" using assms by (cases parts) auto
  have "spillSpec maxBytes (m @ [CHR 0x0A]) (map linesText parts) = map linesText (ps @ [[m]])"
    using False by (simp add: spillSpec_def p linesText_def)
  moreover have "length (last (map linesText parts)) \<le> length (linesText (concat parts))"
    using assms by (cases parts rule: rev_cases) (simp_all add: linesText_def)
  ultimately show ?thesis using False by (intro exI [of _ "ps @ [[m]]"] exI [of _ "length p"]) (auto simp: p linesText_def)
qed

lemma spillSpec_run:
  assumes "parts \<noteq> []"
  shows "\<exists>parts' n. foldl (\<lambda>segs m. spillSpec maxBytes (m @ [CHR 0x0A]) segs) (map linesText parts) ms = map linesText parts' \<and>
    concat parts' = drop n (concat parts @ ms) \<and> (int (length (linesText (concat parts @ ms))) \<le> maxBytes \<longrightarrow> n = 0)"
  using assms
proof (induction ms arbitrary: parts)
  case Nil
  then show ?case by (intro exI [of _ parts] exI [of _ 0]) simp
next
  case (Cons m ms)
  obtain parts1 n1 where p1: "parts1 \<noteq> []" "spillSpec maxBytes (m @ [CHR 0x0A]) (map linesText parts) = map linesText parts1"
    "concat parts1 = drop n1 (concat parts @ [m])" "n1 \<le> length (concat parts)"
    "int (length (linesText (concat parts @ [m]))) \<le> maxBytes \<longrightarrow> n1 = 0" using spillSpec_lines [OF Cons.prems] by blast
  obtain parts2 n2 where p2: "foldl (\<lambda>segs m. spillSpec maxBytes (m @ [CHR 0x0A]) segs) (map linesText parts1) ms = map linesText parts2"
    "concat parts2 = drop n2 (concat parts1 @ ms)" "int (length (linesText (concat parts1 @ ms))) \<le> maxBytes \<longrightarrow> n2 = 0"
    using Cons.IH [OF p1(1)] by blast
  have "concat parts2 = drop (n1 + n2) (concat parts @ m # ms)" using p1(3,4) p2(2) by (simp add: add.commute)
  moreover have "n1 + n2 = 0" if "int (length (linesText (concat parts @ m # ms))) \<le> maxBytes"
    using that p1(3,5) p2(3) by (simp add: linesText_def)
  ultimately show ?case using p1(2) p2(1) by (intro exI [of _ parts2] exI [of _ "n1 + n2"]) auto
qed

lemma concat_messages: "list_all spillable (concat parts) \<Longrightarrow> concat (map messagesOf (map linesText parts)) = concat parts"
  by (induction parts) (simp_all add: messagesOf_linesText)

lemma scan_parts: "list_all spillable (concat parts) \<Longrightarrow> list_all (\<lambda>c. \<not> snd (scan_lines_max 1048576 c)) (map linesText parts)"
  by (induction parts) (simp_all add: scan_linesText)

text \<open>A sink that takes everything and remembers it.\<close>

definition recordSink :: "string \<Rightarrow> string list \<Rightarrow> string list \<times> string option" where
  "recordSink m ms = (ms @ [m], None)"

lemma deliver_record: "deliver recordSink ms w = (w @ ms, None)"
  by (induction ms arbitrary: w) (simp_all add: recordSink_def)

lemma deliver_succeeds: "\<forall>m w. snd (f m w) = None \<Longrightarrow> snd (deliver f ms w) = None"
  by (induction ms arbitrary: w) (auto simp: and_then_def split: prod.splits option.splits, metis option.distinct(1) snd_conv)

lemma replayPaths_succeeds:
  assumes "\<forall>m w. snd (f m w) = None" "distinct ps"
    and "\<forall>p\<in>set ps. fsContent fs p \<noteq> [] \<and> \<not> snd (scan_lines_max 1048576 (fsContent fs p))"
  shows "snd (replayPaths noFaults f ps (fs, w)) = None"
  using assms(2,3)
proof (induction ps arbitrary: fs w)
  case (Cons p ps)
  obtain v where "deliver f (messagesOf (fsContent fs p)) w = (v, None)"
    using deliver_succeeds [OF assms(1)] by (metis prod.collapse)
  then have "replayFile noFaults fs p f w = (v, None)"
    using replayFile_delivers [of fs p f w] Cons.prems(2) by simp
  moreover have "fsContent (fsRemove p fs) q = fsContent fs q" if "q \<in> set ps" for q
    using that Cons.prems(1) by (auto simp: fsContent_def fsRemove_def split: option.splits)
  ultimately show ?case using Cons.IH [of "fsRemove p fs" v] Cons.prems by simp
qed simp

lemma ReplayTo_succeeds:
  assumes "spillInv s" "\<forall>m w. snd (f m w) = None" "list_all (\<lambda>c. \<not> snd (scan_lines_max 1048576 c)) (segments s)"
    and "ReplayTo noFaults f (s, w) = ((t, w'), e)"
  shows "e = None"
proof -
  obtain u where u: "closeFile noFaults s = (u, None)" "spillInv u" "snd u = snd s" "sameManager s u"
    using closeFile_closed [OF assms(1)] by blast
  let ?ps = "map (pathForIndex (fst u)) (rev [1..<Suc (smRotations (fst u))]) @ [pathForIndex (fst u) 0]"
  have "wellNamed u" using u(2) by (simp add: spillInv_def)
  then have "distinct ?ps" by (auto simp: distinct_map inj_on_def path_eq simp del: upt_Suc)
  moreover have "fsContent (snd u) p \<in> set (segments s)" if "p \<in> set ?ps" for p
    using that u(3,4) sameManager_path [OF u(4)] unfolding segments_split
    by (auto simp: segment_def sameManager_def simp del: upt_Suc)
  ultimately have "snd (replayPaths noFaults f (filter (nonEmptyFile noFaults (snd u)) ?ps) (snd u, w)) = None"
    using assms(2,3) by (intro replayPaths_succeeds distinct_filter) (auto simp: nonEmptyFile_iff list_all_iff simp del: upt_Suc)
  then show ?thesis using assms(4) u(1) by (auto simp: ReplayTo_def prepareReplayPaths_def simp del: upt_Suc map_append split: prod.splits)
qed

text \<open>
  Fact. Spilled messages come back: after a manager that starts without files spilled any
  one-line messages, a replay to a working sink delivers the newest of them, in their order and
  once each, and leaves nothing behind; it delivers all of them if they fit in one file.
\<close>

theorem spill_roundtrip:
  assumes "spillInv s" "segments s = replicate (Suc (smRotations (fst s))) []" "list_all spillable ms"
  shows "\<exists>t n. ReplayTo noFaults recordSink (spillAll ms s, []) = ((t, drop n ms), None) \<and> \<not> HasSpill noFaults t \<and>
    (int (length (linesText ms)) \<le> smMaxBytes (fst s) \<longrightarrow> n = 0)"
proof -
  let ?parts0 = "replicate (Suc (smRotations (fst s))) [] :: string list list"
  let ?s = "spillAll ms s"
  have empty: "segments s = map linesText ?parts0" "concat ?parts0 = []" using assms(2) by (simp_all add: linesText_def)
  note spill = spillAll_spec [OF assms(1), of ms]
  obtain parts n where p: "segments ?s = map linesText parts" "concat parts = drop n ms"
    "int (length (linesText ms)) \<le> smMaxBytes (fst s) \<longrightarrow> n = 0"
    using spillSpec_run [of ?parts0 "smMaxBytes (fst s)" ms] spill unfolding empty(2) empty(1) [symmetric] by auto
  have clean: "list_all spillable (concat parts)" using assms(3) p(2) by (auto simp: list_all_iff dest: in_set_dropD)
  obtain t w e where run: "ReplayTo noFaults recordSink (?s, []) = ((t, w), e)" by (metis surj_pair)
  obtain k w1 where k: "spillInv t" "segments t = replicate k [] @ drop k (segments ?s)"
    "deliver recordSink (concat (map messagesOf (take k (segments ?s)))) [] = (w1, None)"
    "e = None \<longrightarrow> k = length (segments ?s) \<and> w1 = w"
    using ReplayTo_effect [OF _ run] spill by blast
  have "e = None" using ReplayTo_succeeds [OF _ _ _ run] spill scan_parts [OF clean] p(1) by (simp add: recordSink_def)
  then have "k = length (segments ?s)" "w = concat parts"
    using k(3,4) concat_messages [OF clean] p(1) by (simp_all add: deliver_record)
  moreover from this(1) have "\<not> HasSpill noFaults t" using HasSpill_iff [OF k(1)] k(2) by (simp add: list_ex_iff)
  ultimately show ?thesis using run \<open>e = None\<close> p(2,3) by auto
qed

definition demoManager :: spillManager where
  "demoManager = newSpillManager ''foo'' ''/s'' 100 4"

definition noFiles :: spillFS where
  "noFiles = \<lparr>fsNames = Map.empty, fsData = (\<lambda>_. []), fsNext = 0\<rparr>"

lemma demo_spill: "spillInv (demoManager, noFiles)" "segments (demoManager, noFiles) = replicate (Suc (smRotations demoManager)) []"
proof -
  have "spillSafeName ''foo'' = ''foo''" by (simp add: spillSafeName_def space_eval)
  then show "spillInv (demoManager, noFiles)"
    by (simp add: spillInv_def wellNamed_def demoManager_def noFiles_def newSpillManager_def)
  have "segment (demoManager, noFiles) = (\<lambda>_. [])" by (simp add: fun_eq_iff segment_def fsContent_def noFiles_def)
  then show "segments (demoManager, noFiles) = replicate (Suc (smRotations demoManager)) []"
    by (simp add: segments_def map_replicate_const del: upt_Suc replicate_Suc)
qed

theorem spill_roundtrip_witness:
  "\<exists>t n. ReplayTo noFaults recordSink (spillAll [''a'', ''b''] (demoManager, noFiles), []) = ((t, drop n [''a'', ''b'']), None) \<and> \<not> HasSpill noFaults t"
  using spill_roundtrip [of "(demoManager, noFiles)" "[''a'', ''b'']"] demo_spill by (auto simp: spillable_def)

theorem spill_refines_bounded_log_witness:
  "segments (spillAll [''a'', ''b''] (demoManager, noFiles)) = replicate 4 [] @ [''a'' @ [CHR 0x0A] @ ''b'' @ [CHR 0x0A]]"
proof -
  have m: "smMaxBytes demoManager = 100" "smRotations demoManager = 4" by (simp_all add: demoManager_def newSpillManager_def)
  then have "segments (spillAll [''a'', ''b''] (demoManager, noFiles)) =
    foldl (\<lambda>segs m. spillSpec 100 (m @ [CHR 0x0A]) segs) (replicate 5 []) [''a'', ''b'']"
    using spill_refines_bounded_log [of "(demoManager, noFiles)" 100 "[''a'', ''b'']"] demo_spill by (simp add: list_all_iff)
  then show ?thesis by (simp add: spillSpec_def eval_nat_numeral)
qed

theorem replay_loses_nothing_witness:
  "\<exists>t w' e k w1. ReplayTo noFaults recordSink (spillAll [''a''] (demoManager, noFiles), []) = ((t, w'), e) \<and>
    segments t = replicate k [] @ drop k (segments (spillAll [''a''] (demoManager, noFiles))) \<and>
    deliver recordSink (concat (map messagesOf (take k (segments (spillAll [''a''] (demoManager, noFiles)))))) [] = (w1, None)"
proof -
  obtain t w' e where run: "ReplayTo noFaults recordSink (spillAll [''a''] (demoManager, noFiles), []) = ((t, w'), e)" by (metis surj_pair)
  show ?thesis using replay_loses_nothing [OF _ run] spillAll_spec [OF demo_spill(1)] run by blast
qed

subsection \<open>Two ways to lose a spilled line\<close>


lemma demo_spilled:
  "spillInv (spillAll [''a''] (demoManager, noFiles))"
  "segments (spillAll [''a''] (demoManager, noFiles)) = replicate (smRotations (fst (spillAll [''a''] (demoManager, noFiles)))) [] @ [''a'' @ [CHR 0x0A]]"
  "smMaxBytes (fst (spillAll [''a''] (demoManager, noFiles))) = 100"
proof -
  have m: "smMaxBytes demoManager = 100" "smRotations demoManager = 4" by (simp_all add: demoManager_def newSpillManager_def)
  note spill = spillAll_spec [OF demo_spill(1), of "[''a'']"]
  show "spillInv (spillAll [''a''] (demoManager, noFiles))" using spill by simp
  show "smMaxBytes (fst (spillAll [''a''] (demoManager, noFiles))) = 100" using spill m by (simp add: sameManager_def)
  show "segments (spillAll [''a''] (demoManager, noFiles)) = replicate (smRotations (fst (spillAll [''a''] (demoManager, noFiles)))) [] @ [''a'' @ [CHR 0x0A]]"
  proof -
    have rot: "smRotations (fst (spillAll [''a''] (demoManager, noFiles))) = 4" using spill m by (simp add: sameManager_def)
    have "segments (spillAll [''a''] (demoManager, noFiles)) = spillSpec 100 [CHR ''a'', CHR 0x0A] (replicate 5 [])"
      using spill m demo_spill(2) by simp
    then show ?thesis unfolding rot by (simp add: spillSpec_def numeral_eq_Suc)
  qed
qed


text \<open>
  Fact. A spilled line of a mebibyte or more is accepted by the spill files but never leaves
  them: whatever the sink, no replay succeeds while such a line is there.
\<close>

theorem long_line_blocks_replay:
  assumes "spillInv s" "CHR 0x0A \<notin> set message" "1048576 \<le> length message" "segments s = replicate (Suc (smRotations (fst s))) []"
  shows "\<exists>t. WriteLine noFaults message s = (t, None) \<and> (\<forall>f w. snd (ReplayTo noFaults f (t, w)) \<noteq> None)"
proof -
  obtain t i where t: "WriteLine noFaults message s = (t, None)" "opensAt t i"
    "segments t = spillSpec (smMaxBytes (fst s)) (message @ [CHR 0x0A]) (segments s)" using WriteLine_spec [OF assms(1)] by metis
  have "message @ [CHR 0x0A] \<in> set (segments t)" unfolding t(3) assms(4) by (simp add: spillSpec_def)
  moreover have "snd (scan_lines_max 1048576 (message @ [CHR 0x0A]))"
    using assms(2,3) by (simp add: scan_lines_max_def split_on_append)
  ultimately have "\<not> list_all (\<lambda>c. \<not> snd (scan_lines_max 1048576 c)) (segments t)" by (auto simp: list_all_iff)
  moreover have "spillInv t" using t(2) by (simp add: opensAt_def)
  ultimately have "snd (ReplayTo noFaults f (t, w)) \<noteq> None" for f :: "string \<Rightarrow> 'w \<Rightarrow> 'w \<times> string option" and w
    using ReplayTo_effect by (metis prod.collapse)
  with t(1) show ?thesis by blast
qed

theorem long_line_blocks_replay_witness:
  "\<exists>t. WriteLine noFaults (replicate 1048576 CHR ''x'') (demoManager, noFiles) = (t, None) \<and> snd (ReplayTo noFaults recordSink (t, [])) \<noteq> None"
proof -
  have "CHR 0x0A \<notin> set (replicate 1048576 CHR ''x'')" "1048576 \<le> length (replicate 1048576 CHR ''x'')" by simp_all
  from long_line_blocks_replay [OF demo_spill(1) this] demo_spill(2) show ?thesis by (metis fst_conv)
qed

subsection \<open>The worker keeps every message\<close>

text \<open>A sink that refuses some of its calls, with the messages it took and the number of calls.\<close>

definition flakySink :: "(nat \<Rightarrow> bool) \<Rightarrow> string \<Rightarrow> string list \<times> nat \<Rightarrow> (string list \<times> nat) \<times> string option" where
  "flakySink fails message w =
     (let (log, n) = w in if fails n then ((log, Suc n), Some ''sink unavailable'') else ((log @ [message], Suc n), None))"

datatype worker_event = Line bool string | EndOfInput | Turn

fun workerStep :: "(nat \<Rightarrow> bool) \<Rightarrow> worker_event \<Rightarrow> (string list \<times> nat) workerState \<Rightarrow> (string list \<times> nat) workerState option" where
  "workerStep fails (Line timedOut line) k = Some (readLine noFaults timedOut line k)"
| "workerStep fails EndOfInput k = Some (k\<lparr>wkClosed := True\<rparr>)"
| "workerStep fails Turn k = map_option fst (writerRound noFaults (flakySink fails) k)"

fun workerRun :: "(nat \<Rightarrow> bool) \<Rightarrow> worker_event list \<Rightarrow> (string list \<times> nat) workerState \<Rightarrow> (string list \<times> nat) workerState option" where
  "workerRun fails [] k = Some k"
| "workerRun fails (ev # evs) k = Option.bind (workerStep fails ev k) (workerRun fails evs)"

text \<open>The messages of the lines read, without their ends and without the empty ones.\<close>

fun received :: "worker_event list \<Rightarrow> string list" where
  "received [] = []"
| "received (Line timedOut line # evs) =
     (let m = trim_right_set line [CHR 0x0D, CHR 0x0A] in if m = '''' then received evs else m # received evs)"
| "received (_ # evs) = received evs"

text \<open>The spill files hold exactly the given messages.\<close>

definition holds :: "spill \<Rightarrow> string list \<Rightarrow> bool" where
  "holds s ms \<longleftrightarrow> spillInv s \<and> list_all spillable ms \<and> (\<exists>parts. segments s = map linesText parts \<and> concat parts = ms)"

lemma holds_WriteLine:
  assumes "holds s ms" "spillable m" "int (length (linesText (ms @ [m]))) \<le> smMaxBytes (fst s)"
  obtains t where "WriteLine noFaults m s = (t, None)" "holds t (ms @ [m])" "sameManager s t"
proof -
  from assms(1) obtain parts where p: "spillInv s" "segments s = map linesText parts" "concat parts = ms" "list_all spillable ms"
    by (auto simp: holds_def)
  obtain t i where t: "WriteLine noFaults m s = (t, None)" "opensAt t i" "sameManager s t"
    "segments t = spillSpec (smMaxBytes (fst s)) (m @ [CHR 0x0A]) (segments s)" using WriteLine_spec [OF p(1)] by metis
  have "parts \<noteq> []" using p(2) length_segments [of s] by auto
  then obtain parts' n where "segments t = map linesText parts'" "concat parts' = drop n (ms @ [m])" "n = 0"
    using spillSpec_lines [of parts "smMaxBytes (fst s)" m] t(4) p(2,3) assms(3) by auto
  then have "holds t (ms @ [m])" using t(2) p(4) assms(2) by (auto simp: holds_def opensAt_def)
  then show ?thesis using t(1,3) by (intro that [of t])
qed

lemma deliver_flaky:
  assumes "deliver (writeMessage (flakySink fails)) ms w = (w', e)"
  shows "set (fst w) \<subseteq> set (fst w') \<and> (e = None \<longrightarrow> (\<forall>m\<in>set ms. trim_space m \<noteq> '''' \<longrightarrow> m \<in> set (fst w')))"
  using assms
proof (induction ms arbitrary: w)
  case (Cons m ms)
  obtain v x where v: "writeMessage (flakySink fails) m w = (v, x)" by fastforce
  have grow: "set (fst w) \<subseteq> set (fst v)" "x = None \<Longrightarrow> trim_space m \<noteq> '''' \<Longrightarrow> m \<in> set (fst v)"
    using v by (auto simp: writeMessage_def flakySink_def split: if_splits prod.splits)
  show ?case
  proof (cases x)
    case None
    with Cons.prems v have "deliver (writeMessage (flakySink fails)) ms v = (w', e)" by simp
    from Cons.IH [OF this] grow None show ?thesis by auto
  next
    case (Some y)
    with Cons.prems v grow show ?thesis by auto
  qed
qed simp

lemma concat_drop_take: "concat xs = concat (take k xs) @ concat (drop k xs)"
  by (metis append_take_drop_id concat_append)

lemma concat_replicate_Nil: "concat (replicate k []) = []"
  by (induction k) auto

text \<open>What a replay leaves in the files and what the sink took in the meantime.\<close>

lemma holds_ReplayTo:
  assumes "holds s ms" "ReplayTo noFaults (writeMessage (flakySink fails)) (s, w) = ((t, w'), e)"
  obtains sent rest where "ms = sent @ rest" "holds t rest" "sameManager s t" "set (fst w) \<subseteq> set (fst w')"
    "\<forall>m\<in>set sent. trim_space m \<noteq> '''' \<longrightarrow> m \<in> set (fst w')" "e = None \<longrightarrow> rest = []"
proof -
  let ?f = "writeMessage (flakySink fails)"
  from assms(1) obtain parts where p: "spillInv s" "segments s = map linesText parts" "concat parts = ms" "list_all spillable ms"
    by (auto simp: holds_def)
  obtain k w1 where k: "k \<le> length (segments s)" "spillInv t" "sameManager s t" "segments t = replicate k [] @ drop k (segments s)"
    "deliver ?f (concat (map messagesOf (take k (segments s)))) w = (w1, None)"
    "e = None \<longrightarrow> k = length (segments s) \<and> w1 = w'"
    "e \<noteq> None \<longrightarrow> fst (deliver ?f (concat (map messagesOf (take (Suc k) (segments s)))) w) = w'"
    using ReplayTo_effect [OF p(1) assms(2)] by blast
  define sent rest where "sent = concat (take k parts)" and "rest = concat (drop k parts)"
  have ms: "ms = sent @ rest" using concat_drop_take [of parts k] p(3) by (simp add: sent_def rest_def)
  have msgs: "concat (map messagesOf (take l (segments s))) = concat (take l parts)" for l
  proof -
    have "list_all spillable (concat (take l parts))"
      using p(3,4) by (auto simp: list_all_iff dest: in_set_takeD)
    then show ?thesis using concat_messages [of "take l parts"] by (simp add: p(2) take_map)
  qed
  have "segments t = map linesText (replicate k [] @ drop k parts)" using k(4) p(2) by (simp add: drop_map linesText_def)
  then have "holds t rest" using k(2) p(4) ms unfolding holds_def
    by (intro conjI exI [of _ "replicate k [] @ drop k parts"]) (simp_all add: rest_def concat_replicate_Nil list_all_append)
  moreover have w1: "set (fst w) \<subseteq> set (fst w1)" "\<forall>m\<in>set sent. trim_space m \<noteq> '''' \<longrightarrow> m \<in> set (fst w1)"
    using deliver_flaky [OF k(5)] by (simp_all add: msgs sent_def)
  moreover have "set (fst w1) \<subseteq> set (fst w')"
  proof (cases e)
    case None
    with k(6) show ?thesis by simp
  next
    case (Some x)
    have "concat (take (Suc k) parts) = sent @ concat (drop k (take (Suc k) parts))"
      using concat_drop_take [of "take (Suc k) parts" k] by (simp add: sent_def)
    then have "fst (deliver ?f (sent @ concat (drop k (take (Suc k) parts))) w) = w'" using k(7) Some by (simp add: msgs)
    moreover have "deliver ?f sent w = (w1, None)" using k(5) by (simp add: msgs sent_def)
    ultimately have "fst (deliver ?f (concat (drop k (take (Suc k) parts))) w1) = w'" by (simp add: deliver_append)
    with deliver_flaky show ?thesis by (metis prod.collapse)
  qed
  moreover have "e = None \<longrightarrow> rest = []" using k(6) p(2) by (auto simp: rest_def)
  ultimately show ?thesis using that [OF ms _ k(3)] by blast
qed

lemma ReplayTo_done:
  assumes "holds s ms" "ReplayTo noFaults f (s, w) = ((t, w'), None)" shows "\<not> HasSpill noFaults t"
  using replay_empty [of s f w t w'] assms by (simp add: holds_def)

text \<open>The loop of \<open>replaySpill\<close> ends: after a replay that succeeded nothing is left to replay.\<close>

lemma replaySpill_ends:
  assumes "holds s ms"
  obtains t w' r' e sent rest where "replaySpill noFaults (flakySink fails) ((s, w), r) = Some (((t, w'), r'), e)"
    "ms = sent @ rest" "holds t rest" "sameManager s t" "set (fst w) \<subseteq> set (fst w')"
    "\<forall>m\<in>set sent. trim_space m \<noteq> '''' \<longrightarrow> m \<in> set (fst w')"
proof (cases "HasSpill noFaults s")
  case False
  have "replaySpill noFaults (flakySink fails) ((s, w), r) = Some (((s, w), r), None)"
    using False by (simp add: replaySpill.simps)
  then show ?thesis using assms by (intro that [of s w r None "[]" ms]) simp_all
next
  case True
  obtain t w' e where run: "ReplayTo noFaults (writeMessage (flakySink fails)) (s, w) = ((t, w'), e)" by (metis surj_pair)
  obtain sent rest where split: "ms = sent @ rest" "holds t rest" "sameManager s t" "set (fst w) \<subseteq> set (fst w')"
    "\<forall>m\<in>set sent. trim_space m \<noteq> '''' \<longrightarrow> m \<in> set (fst w')" using holds_ReplayTo [OF assms run] by metis
  have "replaySpill noFaults (flakySink fails) ((s, w), r) = Some (((t, w'), replayStart r), e)"
  proof (cases e)
    case None
    have "\<not> HasSpill noFaults t" by (rule ReplayTo_done [OF assms run [unfolded None]])
    with None True run show ?thesis
      by (simp add: replaySpill.simps [of _ _ "((s, w), r)"] replaySpill.simps [of _ _ "((t, w'), replayStart r)"])
  next
    case (Some x)
    with True run show ?thesis by (simp add: replaySpill.simps [of _ _ "((s, w), r)"])
  qed
  with split show ?thesis by (intro that [of t w' "replayStart r" e sent rest])
qed

text \<open>
  Every received message was taken by the sink, waits in the queue or lies in the spill files, and
  what waits or lies there is bounded by what was received.
\<close>

definition workerInv :: "int \<Rightarrow> string list \<Rightarrow> (string list \<times> nat) workerState \<Rightarrow> bool" where
  "workerInv M rs k \<longleftrightarrow> smMaxBytes (fst (wkSpill k)) = M \<and> list_all spillable (wkQueue k) \<and>
     (\<exists>ms. holds (wkSpill k) ms \<and> length (linesText (ms @ wkQueue k)) \<le> length (linesText rs) \<and>
       (\<forall>m\<in>set rs. trim_space m \<noteq> '''' \<longrightarrow> m \<in> set (fst (wkSink k)) \<union> set (wkQueue k) \<union> set ms))"

lemma length_linesText [simp]: "length (linesText (xs @ ys)) = length (linesText xs) + length (linesText ys)"
  "length (linesText (x # xs)) = Suc (length x) + length (linesText xs)" "length (linesText []) = 0"
  by (simp_all add: linesText_def)

lemma spillLine_keeps:
  assumes "holds (wkSpill k) ms" "spillable m" "int (length (linesText (ms @ [m]))) \<le> smMaxBytes (fst (wkSpill k))"
  shows "holds (wkSpill (spillLine noFaults m k)) (ms @ [m]) \<and> smMaxBytes (fst (wkSpill (spillLine noFaults m k))) = smMaxBytes (fst (wkSpill k)) \<and>
    wkQueue (spillLine noFaults m k) = wkQueue k \<and> wkSink (spillLine noFaults m k) = wkSink k"
proof -
  obtain t where "WriteLine noFaults m (wkSpill k) = (t, None)" "holds t (ms @ [m])" "sameManager (wkSpill k) t"
    using holds_WriteLine [OF assms] by blast
  then show ?thesis by (simp add: spillLine_def sameManager_def)
qed

lemma readLine_inv:
  assumes "workerInv M rs k" "list_all spillable (received [Line timedOut line])" "int (length (linesText (rs @ received [Line timedOut line]))) \<le> M"
  shows "workerInv M (rs @ received [Line timedOut line]) (readLine noFaults timedOut line k)"
proof -
  define m where "m = trim_right_set line [CHR 0x0D, CHR 0x0A]"
  from assms(1) obtain ms where ms: "smMaxBytes (fst (wkSpill k)) = M" "list_all spillable (wkQueue k)" "holds (wkSpill k) ms"
    "length (linesText (ms @ wkQueue k)) \<le> length (linesText rs)"
    "\<forall>m\<in>set rs. trim_space m \<noteq> '''' \<longrightarrow> m \<in> set (fst (wkSink k)) \<union> set (wkQueue k) \<union> set ms" by (auto simp: workerInv_def)
  show ?thesis
  proof (cases "m = ''''")
    case True
    then show ?thesis using assms(1) by (simp add: readLine_def m_def [symmetric])
  next
    case False
    have m: "spillable m" "received [Line timedOut line] = [m]" using False assms(2) by (simp_all add: m_def Let_def split: if_splits)
    show ?thesis
    proof (cases "\<not> wkSpillMode k \<and> \<not> timedOut \<and> length (wkQueue k) < wkQueueSize k")
      case True
      then have "readLine noFaults timedOut line k = k\<lparr>wkQueue := wkQueue k @ [m]\<rparr>" using False by (simp add: readLine_def m_def [symmetric] routeMessage_def)
      then show ?thesis using ms m unfolding workerInv_def by (auto intro!: exI [of _ ms])
    next
      case notQueued: False
      define k1 where "k1 = (if wkSpillMode k then k else k\<lparr>wkSpillMode := True, wkReporter := enterSpill ''queue saturated'' (wkReporter k)\<rparr>)"
      have step: "readLine noFaults timedOut line k = spillLine noFaults m k1"
        using False notQueued by (auto simp: readLine_def m_def [symmetric] routeMessage_def k1_def)
      have k1: "wkSpill k1 = wkSpill k" "wkQueue k1 = wkQueue k" "wkSink k1 = wkSink k" by (simp_all add: k1_def)
      show ?thesis using spillLine_keeps [of k1 ms m] ms m assms(3) unfolding step k1 workerInv_def
        by (auto intro!: exI [of _ "ms @ [m]"])
    qed
  qed
qed

lemma writerReplay_inv:
  assumes "workerInv M rs k"
  obtains k' b where "writerReplay noFaults (flakySink fails) k = Some (k', b)" "workerInv M rs k'"
proof -
  from assms obtain ms where ms: "smMaxBytes (fst (wkSpill k)) = M" "list_all spillable (wkQueue k)" "holds (wkSpill k) ms"
    "length (linesText (ms @ wkQueue k)) \<le> length (linesText rs)"
    "\<forall>m\<in>set rs. trim_space m \<noteq> '''' \<longrightarrow> m \<in> set (fst (wkSink k)) \<union> set (wkQueue k) \<union> set ms" by (auto simp: workerInv_def)
  obtain t w' r' e sent rest where run: "replaySpill noFaults (flakySink fails) ((wkSpill k, wkSink k), wkReporter k) = Some (((t, w'), r'), e)"
    and split: "ms = sent @ rest" "holds t rest" "sameManager (wkSpill k) t" "set (fst (wkSink k)) \<subseteq> set (fst w')"
      "\<forall>m\<in>set sent. trim_space m \<noteq> '''' \<longrightarrow> m \<in> set (fst w')"
    using replaySpill_ends [OF ms(3)] by metis
  obtain k' b where k': "writerReplay noFaults (flakySink fails) k = Some (k', b)" by (simp add: writerReplay_def run) (metis surj_pair)
  then have "wkSpill k' = t" "wkQueue k' = wkQueue k" "wkSink k' = w'"
    by (auto simp: writerReplay_def run Let_def split: option.splits if_splits)
  moreover have "smMaxBytes (fst t) = M" using split(3) ms(1) by (simp add: sameManager_def)
  ultimately have "workerInv M rs k'" using ms split unfolding workerInv_def by (auto intro!: exI [of _ rest])
  with k' show ?thesis by (rule that)
qed

lemma writerReceive_inv:
  assumes "workerInv M rs k" "int (length (linesText rs)) \<le> M"
  shows "workerInv M rs (writerReceive noFaults (flakySink fails) k)"
proof -
  from assms(1) obtain ms where ms: "smMaxBytes (fst (wkSpill k)) = M" "list_all spillable (wkQueue k)" "holds (wkSpill k) ms"
    "length (linesText (ms @ wkQueue k)) \<le> length (linesText rs)"
    "\<forall>m\<in>set rs. trim_space m \<noteq> '''' \<longrightarrow> m \<in> set (fst (wkSink k)) \<union> set (wkQueue k) \<union> set ms" by (auto simp: workerInv_def)
  show ?thesis
  proof (cases "wkQueue k")
    case Nil
    with assms(1) show ?thesis by (simp add: writerReceive_def workerInv_def)
  next
    case (Cons m rest)
    obtain w e where w: "writeMessage (flakySink fails) m (wkSink k) = (w, e)" by fastforce
    have sent: "set (fst (wkSink k)) \<subseteq> set (fst w)" "e = None \<Longrightarrow> trim_space m \<noteq> '''' \<Longrightarrow> m \<in> set (fst w)"
      using w by (auto simp: writeMessage_def flakySink_def split: if_splits prod.splits)
    show ?thesis
    proof (cases e)
      case None
      then have "writerReceive noFaults (flakySink fails) k = k\<lparr>wkQueue := rest, wkSink := w\<rparr>" by (simp add: writerReceive_def Cons w)
      then show ?thesis using ms sent None Cons unfolding workerInv_def by (auto intro!: exI [of _ ms])
    next
      case (Some x)
      define k1 where "k1 = k\<lparr>wkQueue := rest, wkSink := w, wkSpillMode := True, wkReporter := enterSpill (''log sink write failed: '' @ x) (wkReporter k)\<rparr>"
      have step: "writerReceive noFaults (flakySink fails) k = spillLine noFaults m k1" by (simp add: writerReceive_def Cons w Some k1_def)
      have k1: "wkSpill k1 = wkSpill k" "wkQueue k1 = rest" "wkSink k1 = w" by (simp_all add: k1_def)
      show ?thesis using spillLine_keeps [of k1 ms m] ms sent(1) Cons assms(2) unfolding step k1 workerInv_def
        by (auto intro!: exI [of _ "ms @ [m]"])
    qed
  qed
qed

lemma workerStep_inv:
  assumes "workerInv M rs k" "list_all spillable (received [ev])" "int (length (linesText (rs @ received [ev]))) \<le> M"
  obtains k' where "workerStep fails ev k = Some k'" "workerInv M (rs @ received [ev]) k'"
proof (cases ev)
  case (Line timedOut line)
  then show ?thesis using readLine_inv assms by (intro that [of "readLine noFaults timedOut line k"]) (simp_all del: received.simps)
next
  case EndOfInput
  then show ?thesis using assms(1) by (intro that [of "k\<lparr>wkClosed := True\<rparr>"]) (simp_all add: workerInv_def)
next
  case Turn
  then have rs: "rs @ received [ev] = rs" by simp
  have "\<exists>k' b. writerRound noFaults (flakySink fails) k = Some (k', b) \<and> workerInv M rs k'"
  proof (cases "wkSpillMode k \<and> wkQueue k = []")
    case True
    obtain k' b where "writerReplay noFaults (flakySink fails) k = Some (k', b)" "workerInv M rs k'" using writerReplay_inv [OF assms(1)] by metis
    with True show ?thesis by (auto simp: writerRound_def)
  next
    case False
    then show ?thesis using writerReceive_inv [OF assms(1)] assms(1,3) unfolding rs by (auto simp: writerRound_def)
  qed
  with Turn that show ?thesis unfolding rs by auto
qed

lemma received_Cons: "received (ev # evs) = received [ev] @ received evs"
  by (cases ev) (simp_all add: Let_def)

lemma workerRun_inv:
  assumes "workerInv M rs k" "list_all spillable (received evs)" "int (length (linesText (rs @ received evs))) \<le> M"
  shows "\<exists>k'. workerRun fails evs k = Some k' \<and> workerInv M (rs @ received evs) k'"
  using assms
proof (induction evs arbitrary: rs k)
  case Nil
  then show ?case by simp
next
  case (Cons ev evs)
  have "int (length (linesText (rs @ received [ev]))) \<le> M" "list_all spillable (received [ev])"
    using Cons.prems(2,3) by (simp_all add: received_Cons [of ev evs])
  then obtain k1 where k1: "workerStep fails ev k = Some k1" "workerInv M (rs @ received [ev]) k1"
    using workerStep_inv [OF Cons.prems(1)] by metis
  have "list_all spillable (received evs)" "int (length (linesText ((rs @ received [ev]) @ received evs))) \<le> M"
    using Cons.prems(2,3) by (simp_all add: received_Cons [of ev evs])
  from Cons.IH [OF k1(2) this] k1(1) show ?case by (simp add: received_Cons [of ev evs])
qed

definition newWorker :: "nat \<Rightarrow> spill \<Rightarrow> (string list \<times> nat) workerState" where
  "newWorker queueSize s =
     \<lparr>wkQueue = [], wkQueueSize = queueSize, wkClosed = False, wkSpillMode = False, wkSpill = s,
      wkReporter = \<lparr>rpService = smService (fst s), rpSpilling = False, rpStderr = []\<rparr>, wkSink = ([], 0), wkInputClosed = False\<rparr>"


definition demoEvents :: "worker_event list" where
  "demoEvents = [Line False ''a'', Turn, Line False ''b'', Turn, Turn, EndOfInput]"


end
