(* ===== verification/Notifyd.thy ===== *)
theory Notifyd
  imports Cgroup_Proc Vision_Api Interfaces
begin

text \<open>
  The supervisor of one service, \<open>sys-notifyd\<close> (\<open>src/cmd/sys-notifyd/main.go\<close>): it starts the
  backend (at once, or when traffic, a D-Bus activation or a control request asks for it), follows
  its notifications, stops it and publishes its state.

  A step of the model is one critical section of the source, so that the goroutines (the main loop,
  the reader of notifications, the monitor of a start, the waiter of a process) interleave between
  steps. Channels are lists with the capacity of the source; a send that would block is dropped
  where the source drops it. Sockets, the process table and the effects of signals are arguments; what
  the daemon does to the outside is recorded in a trace. Log lines are left out.
\<close>

subsection \<open>Configuration and state\<close>

record notifyConfig =
  ncService :: string
  ncType :: string
  ncCommand :: string
  ncStopCommand :: string
  ncUserMode :: bool
  ncStartNow :: bool
  ncStateFile :: string
  ncReadyTimeout :: duration
  ncStopTimeout :: duration
  ncKillSignal :: string
  ncNotify :: bool
  ncNotifyPath :: string
  ncBusName :: string
  ncTriggerPath :: string
  ncControlPath :: string
  ncSockets :: nat
  ncFdNames :: "string list"

datatype signal = SIGTERM | SIGINT | SIGQUIT | SIGHUP | SIGKILL

datatype notify_action =
    StateWritten string
  | Published payload
  | Spawned int string
  | Exited int
  | Signalled int signal
  | StopCommandRun int

text \<open>
  \<open>ndReady\<close> is the channel of the current start: none, or whether it is closed. \<open>ndCmd\<close> is the
  process id of the tracked backend; it has a channel \<open>cmdDone\<close> as long as it is tracked.
\<close>

record notifyServer =
  ndCmd :: "int option"
  ndReady :: "bool option"
  ndSeq :: uint64
  ndCmdErr :: "string option"
  ndStatus :: string
  ndFailure :: string
  ndMainPID :: int
  ndPhase :: string
  ndChildState :: string
  ndExtendStart :: "duration list"
  ndExtendStop :: "duration list"
  ndWatchdogSet :: "duration list"
  ndWatchdogHit :: nat
  ndWatchdogErr :: "string list"
  ndStartReq :: "string list"
  ndStartErr :: "string list"
  ndCmdExit :: "string option list"
  ndTrace :: "notify_action list"

text \<open>
  The outside: whether the state file can be written, the stat files of \<open>/proc\<close>, what \<open>kill\<close> reports
  (\<open>ESRCH\<close> is not an error) and how the stop command ends.
\<close>

record notifyWorld =
  nwStateOk :: bool
  nwStatFile :: "int \<Rightarrow> os_error + string"
  nwKill :: "int \<Rightarrow> signal \<Rightarrow> string option"
  nwStop :: "string option"

definition initialServer :: notifyServer where
  "initialServer =
     \<lparr>ndCmd = None, ndReady = None, ndSeq = 0, ndCmdErr = None, ndStatus = ''starting'', ndFailure = '''', ndMainPID = 0,
      ndPhase = ''starting'', ndChildState = ''idle'', ndExtendStart = [], ndExtendStop = [], ndWatchdogSet = [], ndWatchdogHit = 0,
      ndWatchdogErr = [], ndStartReq = [], ndStartErr = [], ndCmdExit = [], ndTrace = []\<rparr>"

text \<open>A send that is dropped when the buffer is full.\<close>

definition try_send :: "nat \<Rightarrow> 'a \<Rightarrow> 'a list \<Rightarrow> 'a list" where
  "try_send capacity x ch = (if length ch < capacity then ch @ [x] else ch)"

subsection \<open>Helpers\<close>

definition splitListenSpec :: "string \<Rightarrow> (string \<times> string) option" where
  "splitListenSpec spec = (case cut spec CHR '':'' of Some (n, a) \<Rightarrow> if n = '''' \<or> a = '''' then None else Some (n, a) | None \<Rightarrow> None)"

definition isPacketNetwork :: "string \<Rightarrow> bool" where
  "isPacketNetwork network \<longleftrightarrow> network = ''udp'' \<or> network = ''udp4'' \<or> network = ''udp6'' \<or> network = ''unixgram''"

definition isUnixNetwork :: "string \<Rightarrow> bool" where
  "isUnixNetwork network \<longleftrightarrow> network = ''unix'' \<or> network = ''unixgram''"

text \<open>The path is free afterwards, or an error; \<open>entry\<close> is what \<open>lstat\<close> finds: a socket or something else.\<close>

definition prepareUnixSocketPath :: "string option \<Rightarrow> string + bool option \<Rightarrow> string option \<Rightarrow> string option" where
  "prepareUnixSocketPath mkdirErr entry removeErr =
     (case mkdirErr of
        Some e \<Rightarrow> Some (''create unix socket directory: '' @ e)
      | None \<Rightarrow>
          (case entry of
             Inl e \<Rightarrow> Some (''inspect unix socket path: '' @ e)
           | Inr None \<Rightarrow> None
           | Inr (Some False) \<Rightarrow> Some ''existing path is not a socket''
           | Inr (Some True) \<Rightarrow> map_option (\<lambda>e. ''remove stale unix socket: '' @ e) removeErr))"

definition shellEscape :: "string \<Rightarrow> string" where
  "shellEscape s =
     (if s = '''' then [CHR 0x27, CHR 0x27]
      else [CHR 0x27] @ concat (map (\<lambda>c. if c = CHR 0x27 then [CHR 0x27, CHR 0x22, CHR 0x27, CHR 0x22, CHR 0x27] else [c]) s) @ [CHR 0x27])"

definition effectiveFDNames :: "notifyConfig \<Rightarrow> string list" where
  "effectiveFDNames C =
     (if ncFdNames C = [] then []
      else map (\<lambda>i. if i < length (ncFdNames C) then ncFdNames C ! i else ''fd'' @ itoa (int i)) [0..<ncSockets C])"

definition buildShellCommand :: "notifyConfig \<Rightarrow> string" where
  "buildShellCommand C =
     join ''; ''
       ([''LISTEN_FDS='' @ itoa (int (ncSockets C)), ''LISTEN_PID=$$'', ''export LISTEN_FDS LISTEN_PID''] @
        (if effectiveFDNames C \<noteq> [] then [''LISTEN_FDNAMES='' @ shellEscape (join '':'' (effectiveFDNames C)), ''export LISTEN_FDNAMES''] else []) @
        (if ncNotify C then [''NOTIFY_SOCKET='' @ shellEscape (ncNotifyPath C), ''export NOTIFY_SOCKET''] else []) @
        [''exec '' @ ncCommand C])"

definition parseSignal :: "string \<Rightarrow> signal option" where
  "parseSignal name =
     (let clean = trim_prefix (to_upper (trim_space name)) ''SIG'' in
      if clean = ''TERM'' then Some SIGTERM
      else if clean = ''INT'' then Some SIGINT
      else if clean = ''QUIT'' then Some SIGQUIT
      else if clean = ''HUP'' then Some SIGHUP
      else if clean = ''KILL'' then Some SIGKILL
      else None)"

definition isLazySocketService :: "notifyConfig \<Rightarrow> bool" where
  "isLazySocketService C \<longleftrightarrow> ncSockets C > 0 \<and> \<not> ncStartNow C"

definition isLazyDBusService :: "notifyConfig \<Rightarrow> bool" where
  "isLazyDBusService C \<longleftrightarrow> trim_space (ncBusName C) \<noteq> '''' \<and> \<not> ncStartNow C"

definition isLazyActivationService :: "notifyConfig \<Rightarrow> bool" where
  "isLazyActivationService C \<longleftrightarrow> isLazySocketService C \<or> isLazyDBusService C"

definition isNotifyType :: "notifyConfig \<Rightarrow> bool" where
  "isNotifyType C \<longleftrightarrow> equal_fold (ncType C) ''notify''"

text \<open>The derived settings of \<open>parseFlags\<close>; \<open>None\<close> is an exit with a message.\<close>

definition deriveConfig :: "string \<Rightarrow> int \<Rightarrow> notifyConfig \<Rightarrow> notifyConfig option" where
  "deriveConfig tempDir readyFD C =
     (if readyFD < 1 then None
      else if ncStartNow C \<and> ncCommand C = '''' then None
      else
        let C = (if isNotifyType C then C\<lparr>ncNotify := True\<rparr> else C);
            C = (if ncNotify C \<and> ncNotifyPath C = '''' then C\<lparr>ncNotifyPath := path_join [tempDir, ncService C @ ''.notify.sock'']\<rparr> else C);
            C = (if ncBusName C \<noteq> '''' \<and> ncControlPath C = '''' \<and> ncTriggerPath C = ''''
                 then C\<lparr>ncControlPath := path_join [tempDir, ncService C @ ''.control.sock'']\<rparr> else C)
        in Some C)"

subsection \<open>The published state\<close>

definition sanitizeStateValue :: "string \<Rightarrow> string" where
  "sanitizeStateValue s = trim_space (map (\<lambda>c. if c = CHR 0x0A \<or> c = CHR 0x0D then CHR '' '' else c) s)"

definition stateEntries :: "notifyConfig \<Rightarrow> notifyServer \<Rightarrow> (string \<times> string) list" where
  "stateEntries C s =
     [(''service'', sanitizeStateValue (ncService C)), (''service_type'', sanitizeStateValue (ncType C)),
      (''phase'', sanitizeStateValue (ndPhase s)), (''child_state'', sanitizeStateValue (ndChildState s)),
      (''status'', sanitizeStateValue (ndStatus s)), (''failure'', sanitizeStateValue (ndFailure s)),
      (''main_pid'', itoa (ndMainPID s)), (''socket_count'', itoa (int (ncSockets C)))] @
     (if trim_space (ncBusName C) \<noteq> '''' then [(''bus_name'', sanitizeStateValue (ncBusName C))] else [])"

definition stateContent :: "notifyConfig \<Rightarrow> notifyServer \<Rightarrow> string" where
  "stateContent C s = join [CHR 0x0A] (map (\<lambda>(k, v). k @ ''='' @ v) (stateEntries C s)) @ [CHR 0x0A]"

definition runtimePayload :: "notifyConfig \<Rightarrow> notifyServer \<Rightarrow> payload" where
  "runtimePayload C s = (''event'', ''state'') # tl (stateEntries C s)"

definition writeStateLocked :: "notifyConfig \<Rightarrow> notifyWorld \<Rightarrow> notifyServer \<Rightarrow> notifyServer" where
  "writeStateLocked C w s =
     s\<lparr>ndTrace := ndTrace s @
        (if ncStateFile C \<noteq> '''' \<and> nwStateOk w then [StateWritten (stateContent C s)] else []) @ [Published (runtimePayload C s)]\<rparr>"

subsection \<open>The backend\<close>

definition resetForIdleLocked :: "notifyConfig \<Rightarrow> notifyServer \<Rightarrow> notifyServer" where
  "resetForIdleLocked C s =
     (let s = s\<lparr>ndCmd := None, ndReady := None, ndMainPID := 0, ndChildState := ''idle'', ndFailure := '''',
                ndWatchdogSet := try_send 4 0 (ndWatchdogSet s)\<rparr>
      in if isLazyActivationService C then s\<lparr>ndStatus := ''listening'', ndPhase := ''ready''\<rparr> else s\<lparr>ndPhase := ''stopped''\<rparr>)"

definition markChildReady :: "notifyConfig \<Rightarrow> notifyWorld \<Rightarrow> uint64 \<Rightarrow> notifyServer \<Rightarrow> notifyServer" where
  "markChildReady C w sq s =
     (if sq \<noteq> ndSeq s then s
      else
        let s = s\<lparr>ndReady := map_option (\<lambda>_. True) (ndReady s), ndChildState := ''running''\<rparr>;
            s = (if ncStartNow C \<or> ncSockets C = 0 then s\<lparr>ndStatus := ''ready''\<rparr> else s);
            s = s\<lparr>ndPhase := ''ready''\<rparr>;
            s = (case ndCmd s of Some pid \<Rightarrow> if ndMainPID s = 0 then s\<lparr>ndMainPID := pid\<rparr> else s | None \<Rightarrow> s)
        in writeStateLocked C w s)"

text \<open>The first critical section of \<open>startChild\<close>, with the state it publishes.\<close>

definition beginStart :: "notifyConfig \<Rightarrow> notifyWorld \<Rightarrow> notifyServer \<Rightarrow> notifyServer" where
  "beginStart C w s =
     writeStateLocked C w
       (s\<lparr>ndExtendStart := [], ndExtendStop := [], ndWatchdogHit := 0, ndWatchdogSet := try_send 4 0 (ndWatchdogSet s),
          ndSeq := ndSeq s + 1, ndReady := Some False, ndChildState := ''starting'', ndCmdErr := None, ndFailure := '''',
          ndStatus := ''child-started'', ndPhase := ''starting''\<rparr>)"

text \<open>\<open>spawned\<close> is the result of \<open>cmd.Start\<close>: an error or the process id.\<close>

definition startChild :: "notifyConfig \<Rightarrow> notifyWorld \<Rightarrow> string + int \<Rightarrow> notifyServer \<Rightarrow> notifyServer \<times> string option" where
  "startChild C w spawned s =
     (if ndCmd s \<noteq> None then (s, Some ''backend already running'')
      else let s = beginStart C w s in
        (case spawned of
           Inl e \<Rightarrow> (writeStateLocked C w (resetForIdleLocked C s), Some (''start backend: '' @ e))
         | Inr pid \<Rightarrow>
             let s = writeStateLocked C w (s\<lparr>ndCmd := Some pid, ndMainPID := pid, ndTrace := ndTrace s @ [Spawned pid (buildShellCommand C)]\<rparr>)
             in (if isNotifyType C then s else markChildReady C w (ndSeq s) s, None)))"

text \<open>The goroutine that waits for the process \<open>pid\<close>.\<close>

definition childExited :: "notifyConfig \<Rightarrow> notifyWorld \<Rightarrow> int \<Rightarrow> string option \<Rightarrow> notifyServer \<Rightarrow> notifyServer" where
  "childExited C w pid err s =
     (let s = (if ndCmd s = Some pid
               then writeStateLocked C w (resetForIdleLocked C (s\<lparr>ndCmdErr := err, ndTrace := ndTrace s @ [Exited pid]\<rparr>)) else s)
      in s\<lparr>ndCmdExit := ndCmdExit s @ [err]\<rparr>)"

definition tryQueueStart :: "notifyConfig \<Rightarrow> string \<Rightarrow> notifyServer \<Rightarrow> notifyServer" where
  "tryQueueStart C reason s = (if ncCommand C = '''' then s else s\<lparr>ndStartReq := try_send 8 reason (ndStartReq s)\<rparr>)"

definition startChildIfNeeded :: "notifyConfig \<Rightarrow> notifyWorld \<Rightarrow> string + int \<Rightarrow> notifyServer \<Rightarrow> notifyServer \<times> string option" where
  "startChildIfNeeded C w spawned s =
     (if ndCmd s \<noteq> None \<or> ndChildState s = ''starting'' \<or> ndChildState s = ''stopping'' then (s, None)
      else startChild C w spawned (writeStateLocked C w s))"

definition authorizeControlPeer :: "nat \<Rightarrow> bool" where
  "authorizeControlPeer uid \<longleftrightarrow> uid = 0"

text \<open>One control connection: the peer's user and what was read; the answer, if there is one.\<close>

definition handleControlActivation :: "notifyConfig \<Rightarrow> nat option \<Rightarrow> string option \<Rightarrow> notifyServer \<Rightarrow> notifyServer \<times> string option" where
  "handleControlActivation C uid input s =
     (case uid of
        None \<Rightarrow> (s, None)
      | Some u \<Rightarrow>
          if \<not> authorizeControlPeer u then (s, Some ''denied'')
          else if input \<noteq> Some (''activate'' @ [CHR 0x0A]) then (s, Some ''invalid'')
          else (tryQueueStart C ''dbus activation'' s, Some ''ok''))"

subsection \<open>Notifications\<close>

definition parentOfPID :: "notifyWorld \<Rightarrow> int \<Rightarrow> int option" where
  "parentOfPID w pid = (case ReadStat pid (nwStatFile w pid) of Inl _ \<Rightarrow> None | Inr st \<Rightarrow> Some (statPPID st))"

fun ownsFrom :: "nat \<Rightarrow> notifyWorld \<Rightarrow> int \<Rightarrow> int \<Rightarrow> int \<Rightarrow> bool" where
  "ownsFrom 0 w backend main pid = False"
| "ownsFrom (Suc depth) w backend main pid =
     (if pid \<le> 1 then False
      else if pid = backend \<or> pid = main then True
      else case parentOfPID w pid of
        None \<Rightarrow> False
      | Some ppid \<Rightarrow> if ppid = pid then False else ownsFrom depth w backend main ppid)"

definition ownsNotifyPID :: "notifyWorld \<Rightarrow> int \<Rightarrow> notifyServer \<Rightarrow> bool" where
  "ownsNotifyPID w pid s =
     (case ndCmd s of
        None \<Rightarrow> False
      | Some backend \<Rightarrow> if pid \<le> 0 then False else ownsFrom 64 w backend (ndMainPID s) pid)"

definition handleExtendTimeout :: "duration \<Rightarrow> notifyServer \<Rightarrow> notifyServer" where
  "handleExtendTimeout d s =
     (if ndPhase s = ''starting'' \<or> ndPhase s = ''reloading'' then s\<lparr>ndExtendStart := try_send 8 d (ndExtendStart s)\<rparr>
      else if ndPhase s = ''stopping'' then s\<lparr>ndExtendStop := try_send 8 d (ndExtendStop s)\<rparr>
      else s)"

text \<open>\<open>time.Duration(usec) * time.Microsecond\<close> in 64 bits.\<close>

definition microseconds :: "nat \<Rightarrow> duration" where
  "microseconds usec = sint (word_of_int (int usec * 1000) :: 64 word)"

definition handleNotifyLine :: "notifyConfig \<Rightarrow> notifyWorld \<Rightarrow> string \<Rightarrow> notifyServer \<Rightarrow> notifyServer" where
  "handleNotifyLine C w line s =
     (if line = ''READY=1'' then markChildReady C w (ndSeq s) s
      else if has_prefix line ''STATUS='' then writeStateLocked C w (s\<lparr>ndStatus := trim_prefix line ''STATUS=''\<rparr>)
      else if has_prefix line ''MAINPID='' then
        (case atoi (trim_prefix line ''MAINPID='') of
           None \<Rightarrow> s
         | Some pid \<Rightarrow> if \<not> ownsNotifyPID w pid s then s else writeStateLocked C w (s\<lparr>ndMainPID := pid\<rparr>))
      else if has_prefix line ''ERRNO='' then writeStateLocked C w (s\<lparr>ndFailure := trim_prefix line ''ERRNO=''\<rparr>)
      else if line = ''RELOADING=1'' then writeStateLocked C w (s\<lparr>ndPhase := ''reloading''\<rparr>)
      else if line = ''STOPPING=1'' then writeStateLocked C w (s\<lparr>ndPhase := ''stopping''\<rparr>)
      else if has_prefix line ''EXTEND_TIMEOUT_USEC='' then
        (case parse_uint 64 (trim_prefix line ''EXTEND_TIMEOUT_USEC='') of
           None \<Rightarrow> s | Some usec \<Rightarrow> handleExtendTimeout (microseconds usec) s)
      else if has_prefix line ''WATCHDOG_USEC='' then
        (case parse_uint 64 (trim_prefix line ''WATCHDOG_USEC='') of
           None \<Rightarrow> s | Some usec \<Rightarrow> s\<lparr>ndWatchdogSet := try_send 4 (microseconds usec) (ndWatchdogSet s)\<rparr>)
      else if line = ''WATCHDOG=1'' then s\<lparr>ndWatchdogHit := min 16 (Suc (ndWatchdogHit s))\<rparr>
      else s)"

text \<open>The lines of a datagram whose sender was accepted.\<close>

definition notifyLines :: "string \<Rightarrow> string list" where
  "notifyLines payload = filter (\<lambda>l. l \<noteq> '''') (map trim_space (split_on CHR 0x0A payload))"

definition acceptsDatagram :: "notifyWorld \<Rightarrow> bool \<Rightarrow> int option \<Rightarrow> notifyServer \<Rightarrow> bool" where
  "acceptsDatagram w truncated sender s \<longleftrightarrow>
     \<not> truncated \<and> (case sender of None \<Rightarrow> False | Some pid \<Rightarrow> ownsNotifyPID w pid s)"
subsection \<open>Waiting and stopping\<close>

text \<open>What wakes \<open>waitForReady\<close>, in the order in which \<open>select\<close> takes it. The empty list waits on.\<close>

datatype ready_wake = WakeReady | WakeDone | WakeExtend duration | WakeDeadline

datatype ready_outcome = StillWaiting | BecameReady | FailedReady string

fun waitForReady :: "notifyServer \<Rightarrow> ready_wake list \<Rightarrow> ready_outcome" where
  "waitForReady s [] = StillWaiting"
| "waitForReady s (WakeReady # ws) = BecameReady"
| "waitForReady s (WakeDone # ws) =
     FailedReady (case ndCmdErr s of None \<Rightarrow> ''backend exited before READY=1'' | Some e \<Rightarrow> ''backend exited before READY=1: '' @ e)"
| "waitForReady s (WakeExtend d # ws) = waitForReady s ws"
| "waitForReady s (WakeDeadline # ws) = FailedReady ''timed out waiting for READY=1''"

definition signalMainProcess :: "notifyWorld \<Rightarrow> string \<Rightarrow> notifyServer \<Rightarrow> notifyServer \<times> string option" where
  "signalMainProcess w name s =
     (if ndMainPID s \<le> 0 then (s, Some (''main pid unavailable for signal '' @ name))
      else case parseSignal name of
        None \<Rightarrow> (s, Some ''unsupported signal'')
      | Some sig \<Rightarrow>
          (s\<lparr>ndTrace := ndTrace s @ [Signalled (ndMainPID s) sig]\<rparr>, map_option (\<lambda>e. ''signal main process: '' @ e) (nwKill w (ndMainPID s) sig)))"

text \<open>
  Waiting for the backend to exit: its exit (with its error), an extension or the deadline. \<open>None\<close>
  means that the wait goes on for ever.
\<close>

datatype exit_wake = ExitDone "string option" | ExitExtend duration | ExitDeadline

fun waitForExit :: "duration \<Rightarrow> exit_wake list \<Rightarrow> (bool \<times> string option) option" where
  "waitForExit timeout [] = None"
| "waitForExit timeout (ExitDone err # ws) = Some (True, err)"
| "waitForExit timeout (ExitExtend d # ws) = waitForExit timeout ws"
| "waitForExit timeout (ExitDeadline # ws) = (if timeout \<le> 0 then waitForExit timeout ws else Some (False, None))"

text \<open>
  \<open>abortChild\<close> and \<open>stopChild\<close>: \<open>exits\<close> says whether and how the backend exits after it was killed.
  When it does, the waiting goroutine has handled the exit before the wait ends.
\<close>

definition abortChild :: "notifyConfig \<Rightarrow> notifyWorld \<Rightarrow> string option option \<Rightarrow> string \<Rightarrow> notifyServer \<Rightarrow> (notifyServer \<times> string) option" where
  "abortChild C w exits cause s =
     (case ndCmd s of
        None \<Rightarrow> Some (s, cause)
      | Some backend \<Rightarrow>
          (case signalMainProcess w ''KILL'' s of
             (s, Some e) \<Rightarrow> Some (s, e)
           | (s, None) \<Rightarrow> map_option (\<lambda>err. (childExited C w backend err s, cause)) exits))"

definition runStopCommand :: "notifyWorld \<Rightarrow> notifyServer \<Rightarrow> notifyServer \<times> string option" where
  "runStopCommand w s = (s\<lparr>ndTrace := ndTrace s @ [StopCommandRun (ndMainPID s)]\<rparr>, map_option (\<lambda>e. ''run stop command: '' @ e) (nwStop w))"

definition stopChild :: "notifyConfig \<Rightarrow> notifyWorld \<Rightarrow> exit_wake list \<Rightarrow> string option option \<Rightarrow> notifyServer \<Rightarrow> (notifyServer \<times> string option) option" where
  "stopChild C w wakes exits s =
     (case ndCmd s of
        None \<Rightarrow> Some (s, None)
      | Some backend \<Rightarrow>
          let s = writeStateLocked C w (s\<lparr>ndChildState := ''stopping'', ndPhase := ''stopping''\<rparr>);
              (s, e) = (if ncStopCommand C \<noteq> '''' then runStopCommand w s else signalMainProcess w (ncKillSignal C) s) in
          (case e of
             Some e \<Rightarrow> Some (s, Some e)
           | None \<Rightarrow>
               (case waitForExit (ncStopTimeout C) wakes of
                  None \<Rightarrow> None
                | Some (True, err) \<Rightarrow> Some (childExited C w backend err s, None)
                | Some (False, _) \<Rightarrow>
                    (case signalMainProcess w ''KILL'' s of
                       (s, Some e) \<Rightarrow> Some (s, Some e)
                     | (s, None) \<Rightarrow> map_option (\<lambda>err. (childExited C w backend err s, None)) exits))))"

definition waitUntilReady :: "notifyConfig \<Rightarrow> notifyWorld \<Rightarrow> ready_wake list \<Rightarrow> notifyServer \<Rightarrow> (notifyServer \<times> string option) option" where
  "waitUntilReady C w wakes s =
     (if ncCommand C = '''' then Some (s, None)
      else if \<not> ncStartNow C then Some (writeStateLocked C w (s\<lparr>ndStatus := ''listening'', ndPhase := ''ready''\<rparr>), None)
      else if ndCmd s = None then Some (s, None)
      else if \<not> isNotifyType C then Some (markChildReady C w (ndSeq s) s, None)
      else case waitForReady s wakes of
        StillWaiting \<Rightarrow> None
      | BecameReady \<Rightarrow> Some (markChildReady C w (ndSeq s) s, None)
      | FailedReady e \<Rightarrow> Some (s, Some e))"

text \<open>The monitor of a lazily started backend, from the start with sequence number \<open>sq\<close>.\<close>

definition monitorChildStartup :: "notifyConfig \<Rightarrow> notifyWorld \<Rightarrow> uint64 \<Rightarrow> ready_wake list \<Rightarrow> string option option \<Rightarrow> notifyServer \<Rightarrow> notifyServer option" where
  "monitorChildStartup C w sq wakes exits s =
     (if \<not> isNotifyType C then Some s
      else case waitForReady s wakes of
        StillWaiting \<Rightarrow> None
      | BecameReady \<Rightarrow> Some (markChildReady C w sq s)
      | FailedReady e \<Rightarrow>
          if \<not> isLazyActivationService C then Some s
          else let s = s\<lparr>ndStartErr := try_send 4 e (ndStartErr s)\<rparr> in
            map_option (\<lambda>(s, e). s\<lparr>ndStartErr := try_send 4 e (ndStartErr s)\<rparr>) (abortChild C w exits e s))"

subsection \<open>The watchdog\<close>

text \<open>The goroutine's variables: the interval, and whether the timer is armed.\<close>

type_synonym watchdog = "duration \<times> bool"

datatype watchdog_event = IntervalSet duration | KeepAlive | TimerFired

fun watchdogStep :: "watchdog \<Rightarrow> watchdog_event \<Rightarrow> watchdog \<times> string option" where
  "watchdogStep (interval, armed) (IntervalSet d) = ((d, 0 < d), None)"
| "watchdogStep (interval, armed) KeepAlive = ((interval, if 0 < interval then True else armed), None)"
| "watchdogStep (interval, armed) TimerFired =
     (if armed then ((interval, False), Some ''watchdog timeout'') else ((interval, armed), None))"

subsection \<open>The main loop\<close>

definition handleChildExit :: "notifyConfig \<Rightarrow> notifyWorld \<Rightarrow> string option \<Rightarrow> notifyServer \<Rightarrow> notifyServer \<times> string option" where
  "handleChildExit C w err s =
     (if isLazyActivationService C then (writeStateLocked C w s, None)
      else (writeStateLocked C w s, Some (case err of Some e \<Rightarrow> e | None \<Rightarrow> ''backend exited'')))"

definition handleWatchdogTimeout :: "notifyConfig \<Rightarrow> notifyWorld \<Rightarrow> string option option \<Rightarrow> string \<Rightarrow> notifyServer \<Rightarrow> (notifyServer \<times> string option) option" where
  "handleWatchdogTimeout C w exits err s = map_option (\<lambda>(s, e). (s, Some e)) (abortChild C w exits err s)"

text \<open>
  One event of the daemon: a case of the main loop's \<open>select\<close> or a critical section of another
  goroutine. The second component is an error that ends the daemon.
\<close>

datatype notify_event =
    TakeExit
  | TakeStart "string + int"
  | TakeStartError
  | TakeWatchdog "string option option"
  | StopSignal "exit_wake list" "string option option"
  | BackendExits int "string option"
  | NotifyLine string
  | MonitorReady uint64
  | Activation string
  | ControlRequest "nat option" "string option"
  | WatchdogExpired string

fun notifyStep :: "notifyConfig \<Rightarrow> notifyWorld \<Rightarrow> notify_event \<Rightarrow> notifyServer \<Rightarrow> (notifyServer \<times> string option) option" where
  "notifyStep C w TakeExit s =
     (case ndCmdExit s of [] \<Rightarrow> Some (s, None) | e # es \<Rightarrow> Some (handleChildExit C w e (s\<lparr>ndCmdExit := es\<rparr>)))"
| "notifyStep C w (TakeStart spawned) s =
     (case ndStartReq s of [] \<Rightarrow> Some (s, None) | r # rs \<Rightarrow> Some (startChildIfNeeded C w spawned (s\<lparr>ndStartReq := rs\<rparr>)))"
| "notifyStep C w TakeStartError s = Some (s\<lparr>ndStartErr := tl (ndStartErr s)\<rparr>, None)"
| "notifyStep C w (TakeWatchdog exits) s =
     (case ndWatchdogErr s of [] \<Rightarrow> Some (s, None) | e # es \<Rightarrow> handleWatchdogTimeout C w exits e (s\<lparr>ndWatchdogErr := es\<rparr>))"
| "notifyStep C w (StopSignal wakes exits) s = stopChild C w wakes exits s"
| "notifyStep C w (BackendExits pid err) s = Some (childExited C w pid err s, None)"
| "notifyStep C w (NotifyLine line) s = Some (handleNotifyLine C w line s, None)"
| "notifyStep C w (MonitorReady sq) s = Some (markChildReady C w sq s, None)"
| "notifyStep C w (Activation reason) s = Some (tryQueueStart C reason s, None)"
| "notifyStep C w (ControlRequest uid input) s = Some (fst (handleControlActivation C uid input s), None)"
| "notifyStep C w (WatchdogExpired e) s = Some (s\<lparr>ndWatchdogErr := try_send 1 e (ndWatchdogErr s)\<rparr>, None)"

text \<open>A run ends with an error of the main loop, and does not end when a step waits for ever.\<close>

fun notifyRun :: "notifyConfig \<Rightarrow> (nat \<Rightarrow> notifyWorld) \<Rightarrow> nat \<Rightarrow> notify_event list \<Rightarrow> notifyServer \<Rightarrow> (notifyServer \<times> string option) option" where
  "notifyRun C w n [] s = Some (s, None)"
| "notifyRun C w n (ev # evs) s =
     (case notifyStep C (w n) ev s of
        None \<Rightarrow> None
      | Some (s, Some e) \<Rightarrow> Some (s, Some e)
      | Some (s, None) \<Rightarrow> notifyRun C w (Suc n) evs s)"

subsection \<open>The command line of the backend\<close>

text \<open>
  The reader of one word by \<open>/bin/sh\<close>, up to an unquoted separator: text in single quotes is literal,
  text in double quotes is literal unless it has an expansion. \<open>None\<close> stands for anything else the
  shell would do: an expansion, a pattern, another operator or an open quote.
\<close>

datatype sh_mode = Unquoted | SingleQuoted | DoubleQuoted

fun sh_word :: "sh_mode \<Rightarrow> string \<Rightarrow> (string \<times> string) option" where
  "sh_word Unquoted [] = Some ([], [])"
| "sh_word SingleQuoted [] = None"
| "sh_word DoubleQuoted [] = None"
| "sh_word Unquoted (c # r) =
     (if c = CHR '' '' \<or> c = CHR '';'' \<or> c = CHR 0x0A then Some ([], c # r)
      else if c = CHR 0x27 then sh_word SingleQuoted r
      else if c = CHR 0x22 then sh_word DoubleQuoted r
      else if c \<in> set ''|&<>()$`*?[#~'' \<or> c = CHR 0x5C \<or> c = CHR 0x09 then None
      else map_option (\<lambda>(w, t). (c # w, t)) (sh_word Unquoted r))"
| "sh_word SingleQuoted (c # r) =
     (if c = CHR 0x27 then sh_word Unquoted r else map_option (\<lambda>(w, t). (c # w, t)) (sh_word SingleQuoted r))"
| "sh_word DoubleQuoted (c # r) =
     (if c = CHR 0x22 then sh_word Unquoted r
      else if c \<in> set ''$`'' \<or> c = CHR 0x5C then None
      else map_option (\<lambda>(w, t). (c # w, t)) (sh_word DoubleQuoted r))"

lemma map_option_nest: "map_option f (map_option g x) = map_option (\<lambda>y. f (g y)) x"
  by (cases x) simp_all

lemma sh_word_quoted:
  "sh_word SingleQuoted (concat (map (\<lambda>c. if c = CHR 0x27 then [CHR 0x27, CHR 0x22, CHR 0x27, CHR 0x22, CHR 0x27] else [c]) s) @ CHR 0x27 # t) =
   map_option (\<lambda>(w, r). (s @ w, r)) (sh_word Unquoted t)"
proof (induction s)
  case Nil
  then show ?case by (cases "sh_word Unquoted t") auto
next
  case (Cons c s)
  then show ?case by (cases "sh_word Unquoted t") auto
qed

lemma sh_word_shellEscape: "sh_word Unquoted (shellEscape s @ t) = map_option (\<lambda>(w, r). (s @ w, r)) (sh_word Unquoted t)"
proof (cases "s = []")
  case True
  then show ?thesis by (cases "sh_word Unquoted t") (auto simp: shellEscape_def)
next
  case False
  then show ?thesis using sh_word_quoted [of s t] by (simp add: shellEscape_def)
qed

text \<open>
  Property C36. The values that end up in the shell command of the backend cannot break out of it: the
  shell reads the names of the descriptors and the path of the notification socket back as they were
  given, whatever bytes they contain, and goes on with the \<open>export\<close> that follows.
\<close>

theorem shell_values_exact:
  assumes "ncNotify C" "effectiveFDNames C \<noteq> []"
  shows "\<exists>pre t1 t2. buildShellCommand C = pre @ ''LISTEN_FDNAMES='' @ t1 \<and>
    sh_word Unquoted t1 = Some (join '':'' (effectiveFDNames C), ''; export LISTEN_FDNAMES; NOTIFY_SOCKET='' @ t2) \<and>
    sh_word Unquoted t2 = Some (ncNotifyPath C, ''; export NOTIFY_SOCKET; exec '' @ ncCommand C)"
proof -
  define t2 where "t2 = shellEscape (ncNotifyPath C) @ ''; export NOTIFY_SOCKET; exec '' @ ncCommand C"
  define t1 where "t1 = shellEscape (join '':'' (effectiveFDNames C)) @ ''; export LISTEN_FDNAMES; NOTIFY_SOCKET='' @ t2"
  have "buildShellCommand C = (''LISTEN_FDS='' @ itoa (int (ncSockets C)) @ ''; LISTEN_PID=$$; export LISTEN_FDS LISTEN_PID; '') @ ''LISTEN_FDNAMES='' @ t1"
    using assms by (simp add: buildShellCommand_def join_Cons t1_def t2_def)
  moreover have "sh_word Unquoted t1 = Some (join '':'' (effectiveFDNames C), ''; export LISTEN_FDNAMES; NOTIFY_SOCKET='' @ t2)"
    unfolding t1_def sh_word_shellEscape by simp
  moreover have "sh_word Unquoted t2 = Some (ncNotifyPath C, ''; export NOTIFY_SOCKET; exec '' @ ncCommand C)"
    unfolding t2_def sh_word_shellEscape by simp
  ultimately show ?thesis by blast
qed

definition demoConfig :: notifyConfig where
  "demoConfig = \<lparr>ncService = ''foo'', ncType = ''notify'', ncCommand = ''food'', ncStopCommand = '''', ncUserMode = False, ncStartNow = False,
     ncStateFile = ''/s'', ncReadyTimeout = 30, ncStopTimeout = 15, ncKillSignal = ''TERM'', ncNotify = True, ncNotifyPath = ''/it's'',
     ncBusName = '''', ncTriggerPath = '''', ncControlPath = '''', ncSockets = 1, ncFdNames = [''a;b'']\<rparr>"

theorem shell_values_exact_witness:
  "\<exists>pre t1 t2. buildShellCommand demoConfig = pre @ ''LISTEN_FDNAMES='' @ t1 \<and>
    sh_word Unquoted t1 = Some (''a;b'', ''; export LISTEN_FDNAMES; NOTIFY_SOCKET='' @ t2) \<and>
    sh_word Unquoted t2 = Some (''/it's'', ''; export NOTIFY_SOCKET; exec food'')"
proof -
  have "effectiveFDNames demoConfig = [''a;b'']" by (simp add: effectiveFDNames_def demoConfig_def)
  moreover have "ncNotify demoConfig" "ncNotifyPath demoConfig = ''/it's''" "ncCommand demoConfig = ''food''" by (simp_all add: demoConfig_def)
  ultimately show ?thesis using shell_values_exact [of demoConfig] by (simp add: join_Cons)
qed

subsection \<open>The state file\<close>

text \<open>The reader of the file: its entries, line by line.\<close>

definition parseStateFile :: "string \<Rightarrow> (string \<times> string) list" where
  "parseStateFile content =
     concat (map (\<lambda>l. case cut l CHR ''='' of Some e \<Rightarrow> [e] | None \<Rightarrow> []) (split_on CHR 0x0A content))"

lemma sanitized_line: "CHR 0x0A \<notin> set (sanitizeStateValue v)"
  using set_trim_space [of "map (\<lambda>c. if c = CHR 0x0A \<or> c = CHR 0x0D then CHR '' '' else c) v"]
  by (auto simp: sanitizeStateValue_def split: if_splits)

lemma itoa_line: "CHR 0x0A \<notin> set (itoa i)"
  by (auto simp: itoa_def is_digit_def dest: utoa_digits)

text \<open>
  Property C35. Nothing a service sends can forge an entry of the state file: reading the file back
  gives exactly the entries of the state, one per key, whatever the status and failure texts contain.
\<close>

theorem state_file_exact: "parseStateFile (stateContent C s) = stateEntries C s"
proof -
  define es where "es = stateEntries C s"
  have keys: "CHR ''='' \<notin> set k \<and> CHR 0x0A \<notin> set k \<and> CHR 0x0A \<notin> set v" if "(k, v) \<in> set es" for k v
    using that sanitized_line itoa_line by (auto simp: es_def stateEntries_def split: if_splits)
  have ne: "es \<noteq> []" by (simp add: es_def stateEntries_def)
  have "join [CHR 0x0A] xs @ [CHR 0x0A] = join [CHR 0x0A] (xs @ [[]])" if "xs \<noteq> []" for xs :: "string list"
    using that by (simp add: join_append)
  then have "stateContent C s = join [CHR 0x0A] (map (\<lambda>(k, v). k @ ''='' @ v) es @ [[]])"
    using ne by (simp add: stateContent_def es_def [symmetric])
  also have "split_on CHR 0x0A \<dots> = map (\<lambda>(k, v). k @ ''='' @ v) es @ [[]]"
    using keys by (intro split_on_join) auto
  finally have "parseStateFile (stateContent C s) =
      concat (map (\<lambda>l. case cut l CHR ''='' of Some e \<Rightarrow> [e] | None \<Rightarrow> []) (map (\<lambda>(k, v). k @ ''='' @ v) es))"
    by (simp add: parseStateFile_def cut_None_iff)
  also have "\<dots> = es"
    using keys
  proof (induction es)
    case (Cons e es)
    obtain k v where e: "e = (k, v)" by fastforce
    have "cut (k @ CHR ''='' # v) CHR ''='' = Some (k, v)" using Cons.prems [of k v] by (simp add: cut_Some_iff e)
    moreover have "concat (map (\<lambda>l. case cut l CHR ''='' of Some e \<Rightarrow> [e] | None \<Rightarrow> []) (map (\<lambda>(k, v). k @ ''='' @ v) es)) = es"
      by (rule Cons.IH) (rule Cons.prems, simp)
    ultimately show ?case by (simp add: e)
  qed simp
  finally show ?thesis by (simp add: es_def)
qed

subsection \<open>Whose notifications are accepted\<close>

text \<open>A chain of processes, each the child of the next.\<close>

fun ancestry :: "notifyWorld \<Rightarrow> int list \<Rightarrow> bool" where
  "ancestry w [] = False"
| "ancestry w [p] = (1 < p)"
| "ancestry w (p # q # ps) = (1 < p \<and> parentOfPID w p = Some q \<and> ancestry w (q # ps))"

lemma ownsFrom_self: "parentOfPID w p = Some p \<Longrightarrow> ownsFrom d w b m p \<Longrightarrow> p = b \<or> p = m"
  by (cases d) (auto split: if_splits)

lemma ownsFrom_iff:
  "ownsFrom d w b m pid \<longleftrightarrow> (\<exists>chain. ancestry w chain \<and> hd chain = pid \<and> length chain \<le> d \<and> (last chain = b \<or> last chain = m))"
proof (induction d arbitrary: pid)
  case 0
  have "\<not> ancestry w chain" if "length chain \<le> 0" for chain using that by simp
  then show ?case by auto
next
  case (Suc d)
  show ?case
  proof
    assume own: "ownsFrom (Suc d) w b m pid"
    then have pid: "1 < pid" by (simp split: if_splits)
    show "\<exists>chain. ancestry w chain \<and> hd chain = pid \<and> length chain \<le> Suc d \<and> (last chain = b \<or> last chain = m)"
    proof (cases "pid = b \<or> pid = m")
      case True
      with pid show ?thesis by (intro exI [of _ "[pid]"]) auto
    next
      case False
      with own pid obtain q where q: "parentOfPID w pid = Some q" "ownsFrom d w b m q"
        by (auto split: option.splits if_splits)
      from q(2) obtain chain where chain: "ancestry w chain" "hd chain = q" "length chain \<le> d" "last chain = b \<or> last chain = m"
        using Suc.IH by blast
      then have "chain \<noteq> []" by auto
      with chain pid q(1) show ?thesis by (intro exI [of _ "pid # chain"]) (cases chain; simp)
    qed
  next
    assume "\<exists>chain. ancestry w chain \<and> hd chain = pid \<and> length chain \<le> Suc d \<and> (last chain = b \<or> last chain = m)"
    then obtain chain where chain: "ancestry w chain" "hd chain = pid" "length chain \<le> Suc d" "last chain = b \<or> last chain = m" by blast
    show "ownsFrom (Suc d) w b m pid"
    proof (cases "tl chain = []")
      case True
      then have "chain = [pid]" using chain(1,2) by (cases chain) auto
      with chain show ?thesis by auto
    next
      case False
      then obtain q ps where c: "chain = pid # q # ps" using chain(2) by (cases chain; cases "tl chain") auto
      then have p: "1 < pid" "parentOfPID w pid = Some q" "ancestry w (q # ps)" using chain(1) by auto
      have own: "ownsFrom d w b m q" using p(3) chain(3,4) c by (intro iffD2 [OF Suc.IH] exI [of _ "q # ps"]) auto
      show ?thesis using p own ownsFrom_self [of w pid d b m] by auto
    qed
  qed
qed

text \<open>
  Property C34. A notification is accepted only from a process that belongs to the running backend:
  its sender is the backend or the announced main process, or descends from one of them through at
  most 63 generations of processes above the first, as the stat files of \<open>/proc\<close> tell; and from every
  such process. A truncated datagram or one without credentials is never accepted.
\<close>

theorem notifications_authenticated:
  "acceptsDatagram w truncated sender s \<longleftrightarrow>
     \<not> truncated \<and> (\<exists>pid backend chain. sender = Some pid \<and> ndCmd s = Some backend \<and> ancestry w chain \<and> hd chain = pid \<and>
       length chain \<le> 64 \<and> (last chain = backend \<or> last chain = ndMainPID s))"
proof (cases "\<exists>pid backend. sender = Some pid \<and> ndCmd s = Some backend")
  case False
  then show ?thesis by (auto simp: acceptsDatagram_def ownsNotifyPID_def split: option.splits)
next
  case True
  then obtain pid backend where pid: "sender = Some pid" "ndCmd s = Some backend" by blast
  have pos: "0 < hd chain" if "ancestry w chain" for chain using that by (cases chain; cases "tl chain") auto
  have "acceptsDatagram w truncated sender s \<longleftrightarrow> \<not> truncated \<and> 0 < pid \<and> ownsFrom 64 w backend (ndMainPID s) pid"
    by (auto simp: acceptsDatagram_def ownsNotifyPID_def pid simp del: ownsFrom.simps)
  with pos show ?thesis unfolding ownsFrom_iff by (auto simp: pid)
qed

subsection \<open>One backend at a time\<close>

text \<open>The backend that is running after a trace, if the starts and exits in it alternate.\<close>

fun follow :: "int option option \<Rightarrow> notify_action \<Rightarrow> int option option" where
  "follow (Some None) (Spawned p cmd) = Some (Some p)"
| "follow _ (Spawned p cmd) = None"
| "follow (Some (Some q)) (Exited p) = (if p = q then Some None else None)"
| "follow _ (Exited p) = None"
| "follow st _ = st"

definition backendAfter :: "notify_action list \<Rightarrow> int option option" where
  "backendAfter tr = foldl follow (Some None) tr"

lemma backendAfter_simps [simp]:
  "backendAfter (tr @ [StateWritten c]) = backendAfter tr"
  "backendAfter (tr @ [Published p]) = backendAfter tr"
  "backendAfter (tr @ [Signalled q sig]) = backendAfter tr"
  "backendAfter (tr @ [StopCommandRun q]) = backendAfter tr"
  "backendAfter [] = Some None"
  by (cases "backendAfter tr"; cases "the (backendAfter tr)"; simp add: backendAfter_def)+

lemma backendAfter_spawn: "backendAfter tr = Some None \<Longrightarrow> backendAfter (tr @ [Spawned p cmd]) = Some (Some p)"
  by (simp add: backendAfter_def)

lemma backendAfter_exit: "backendAfter tr = Some (Some p) \<Longrightarrow> backendAfter (tr @ [Exited p]) = Some None"
  by (simp add: backendAfter_def)

definition positiveSignals :: "notify_action list \<Rightarrow> bool" where
  "positiveSignals tr \<longleftrightarrow> list_all (\<lambda>a. case a of Signalled p sig \<Rightarrow> 0 < p | _ \<Rightarrow> True) tr"

lemma positiveSignals_snoc [simp]: "positiveSignals (tr @ [a]) \<longleftrightarrow> positiveSignals tr \<and> (case a of Signalled p sig \<Rightarrow> 0 < p | _ \<Rightarrow> True)"
  "positiveSignals []"
  by (auto simp: positiveSignals_def)

definition notifyInv :: "notifyServer \<Rightarrow> bool" where
  "notifyInv s \<longleftrightarrow> backendAfter (ndTrace s) = Some (ndCmd s) \<and> positiveSignals (ndTrace s) \<and>
     (ndCmd s \<noteq> None \<longrightarrow> 0 < ndMainPID s) \<and> (ndCmd s = None \<longrightarrow> 0 \<le> ndMainPID s) \<and>
     length (ndExtendStart s) \<le> 8 \<and> length (ndExtendStop s) \<le> 8 \<and> length (ndWatchdogSet s) \<le> 4 \<and> ndWatchdogHit s \<le> 16 \<and>
     length (ndWatchdogErr s) \<le> 1 \<and> length (ndStartReq s) \<le> 8 \<and> length (ndStartErr s) \<le> 4"

lemma length_try_send: "length ch \<le> n \<Longrightarrow> length (try_send n x ch) \<le> n"
  by (simp add: try_send_def)

lemma writeStateLocked_sel [simp]:
  "ndCmd (writeStateLocked C w s) = ndCmd s" "ndMainPID (writeStateLocked C w s) = ndMainPID s" "ndReady (writeStateLocked C w s) = ndReady s"
  "ndSeq (writeStateLocked C w s) = ndSeq s" "ndChildState (writeStateLocked C w s) = ndChildState s" "ndPhase (writeStateLocked C w s) = ndPhase s"
  "ndExtendStart (writeStateLocked C w s) = ndExtendStart s" "ndExtendStop (writeStateLocked C w s) = ndExtendStop s"
  "ndWatchdogSet (writeStateLocked C w s) = ndWatchdogSet s" "ndWatchdogHit (writeStateLocked C w s) = ndWatchdogHit s"
  "ndWatchdogErr (writeStateLocked C w s) = ndWatchdogErr s" "ndStartReq (writeStateLocked C w s) = ndStartReq s"
  "ndStartErr (writeStateLocked C w s) = ndStartErr s" "ndCmdExit (writeStateLocked C w s) = ndCmdExit s" "ndStatus (writeStateLocked C w s) = ndStatus s"
  "ndFailure (writeStateLocked C w s) = ndFailure s"
  by (simp_all add: writeStateLocked_def)

lemma writeStateLocked_trace [simp]:
  "backendAfter (ndTrace (writeStateLocked C w s)) = backendAfter (ndTrace s)"
  "positiveSignals (ndTrace (writeStateLocked C w s)) = positiveSignals (ndTrace s)"
proof -
  have "ndTrace (writeStateLocked C w s) = (ndTrace s @ [StateWritten (stateContent C s)]) @ [Published (runtimePayload C s)] \<or>
    ndTrace (writeStateLocked C w s) = ndTrace s @ [Published (runtimePayload C s)]"
    by (auto simp: writeStateLocked_def)
  then show "backendAfter (ndTrace (writeStateLocked C w s)) = backendAfter (ndTrace s)"
    "positiveSignals (ndTrace (writeStateLocked C w s)) = positiveSignals (ndTrace s)"
    by (auto simp only: backendAfter_simps positiveSignals_snoc notify_action.case)
qed

lemma writeStateLocked_inv [simp]: "notifyInv (writeStateLocked C w s) = notifyInv s"
  by (simp add: notifyInv_def)

lemma markChildReady_inv: "notifyInv s \<Longrightarrow> notifyInv (markChildReady C w sq s)"
  by (auto simp: markChildReady_def Let_def notifyInv_def split: option.splits)

lemma resetForIdle_inv:
  "backendAfter (ndTrace s) = Some None \<Longrightarrow> notifyInv (s\<lparr>ndCmd := None, ndMainPID := 0\<rparr>) \<Longrightarrow> notifyInv (resetForIdleLocked C s)"
  by (auto simp: resetForIdleLocked_def Let_def notifyInv_def length_try_send)

lemma childExited_inv:
  assumes "notifyInv s"
  shows "notifyInv (childExited C w pid err s)"
proof (cases "ndCmd s = Some pid")
  case True
  have "notifyInv (resetForIdleLocked C (s\<lparr>ndCmdErr := err, ndTrace := ndTrace s @ [Exited pid]\<rparr>))"
    using assms True backendAfter_exit [of "ndTrace s" pid] by (intro resetForIdle_inv) (auto simp: notifyInv_def)
  then have "notifyInv (writeStateLocked C w (resetForIdleLocked C (s\<lparr>ndCmdErr := err, ndTrace := ndTrace s @ [Exited pid]\<rparr>)))" by simp
  then show ?thesis using True by (simp add: childExited_def Let_def notifyInv_def)
next
  case False
  then show ?thesis using assms by (simp add: childExited_def notifyInv_def)
qed

definition validSpawn :: "string + int \<Rightarrow> bool" where
  "validSpawn spawned \<longleftrightarrow> (case spawned of Inl _ \<Rightarrow> True | Inr pid \<Rightarrow> 0 < pid)"

lemma startChild_inv:
  assumes "notifyInv s" "validSpawn spawned"
  shows "notifyInv (fst (startChild C w spawned s))"
proof (cases "ndCmd s")
  case None
  have begun: "notifyInv (beginStart C w s)" "ndCmd (beginStart C w s) = None" "backendAfter (ndTrace (beginStart C w s)) = Some None"
    using assms(1) None by (auto simp: beginStart_def notifyInv_def length_try_send)
  show ?thesis
  proof (cases spawned)
    case (Inl e)
    have "notifyInv (resetForIdleLocked C (beginStart C w s))"
      using begun by (intro resetForIdle_inv) (auto simp: notifyInv_def)
    then show ?thesis using None Inl by (simp add: startChild_def Let_def)
  next
    case (Inr pid)
    have "0 < pid" using assms(2) Inr by (simp add: validSpawn_def)
    then have "notifyInv ((beginStart C w s)\<lparr>ndCmd := Some pid, ndMainPID := pid, ndTrace := ndTrace (beginStart C w s) @ [Spawned pid (buildShellCommand C)]\<rparr>)"
      using begun backendAfter_spawn [OF begun(3)] by (simp add: notifyInv_def)
    then show ?thesis using None Inr by (simp add: startChild_def Let_def markChildReady_inv)
  qed
next
  case (Some p)
  then show ?thesis using assms(1) by (simp add: startChild_def)
qed

lemma ownsNotifyPID_pos: "ownsNotifyPID w pid s \<Longrightarrow> 0 < pid"
  by (auto simp: ownsNotifyPID_def split: option.splits if_splits)

lemma notifyInv_if: "notifyInv x \<Longrightarrow> notifyInv y \<Longrightarrow> notifyInv (if b then x else y)"
  by simp

lemma handleNotifyLine_inv:
  assumes "notifyInv s"
  shows "notifyInv (handleNotifyLine C w line s)"
proof -
  have upd: "notifyInv (s\<lparr>ndStatus := a\<rparr>)" "notifyInv (s\<lparr>ndFailure := a\<rparr>)" "notifyInv (s\<lparr>ndPhase := a\<rparr>)"
    "0 < p \<Longrightarrow> notifyInv (s\<lparr>ndMainPID := p\<rparr>)" "notifyInv (s\<lparr>ndWatchdogSet := try_send 4 d (ndWatchdogSet s)\<rparr>)"
    "notifyInv (s\<lparr>ndWatchdogHit := min 16 (Suc (ndWatchdogHit s))\<rparr>)" "notifyInv (handleExtendTimeout d s)" for a p d
    using assms by (auto simp: notifyInv_def length_try_send handleExtendTimeout_def)
  have main: "notifyInv (case atoi x of None \<Rightarrow> s | Some pid \<Rightarrow> if \<not> ownsNotifyPID w pid s then s else writeStateLocked C w (s\<lparr>ndMainPID := pid\<rparr>))" for x
    using assms upd(4) by (auto dest: ownsNotifyPID_pos split: option.split)
  have extend: "notifyInv (case parse_uint 64 x of None \<Rightarrow> s | Some usec \<Rightarrow> handleExtendTimeout (microseconds usec) s)" for x
    using assms upd(7) by (auto split: option.split)
  have watch: "notifyInv (case parse_uint 64 x of None \<Rightarrow> s | Some usec \<Rightarrow> s\<lparr>ndWatchdogSet := try_send 4 (microseconds usec) (ndWatchdogSet s)\<rparr>)" for x
    using assms upd(5) by (auto split: option.split)
  show ?thesis unfolding handleNotifyLine_def
    by (intro notifyInv_if markChildReady_inv assms main extend watch upd(6)) (simp_all only: writeStateLocked_inv upd)
qed

lemma signalMainProcess_inv: "notifyInv s \<Longrightarrow> notifyInv (fst (signalMainProcess w name s))"
  by (auto simp: signalMainProcess_def notifyInv_def split: option.splits)

lemma signalMainProcess_fst: "signalMainProcess w name s = (t, e) \<Longrightarrow> notifyInv s \<Longrightarrow> notifyInv t \<and> ndCmd t = ndCmd s"
  using signalMainProcess_inv [of s w name] by (auto simp: signalMainProcess_def split: option.splits if_splits)

lemma abortChild_inv:
  assumes "notifyInv s" "abortChild C w exits cause s = Some (t, e)"
  shows "notifyInv t"
proof (cases "ndCmd s")
  case None
  with assms show ?thesis by (simp add: abortChild_def)
next
  case (Some backend)
  obtain u x where u: "signalMainProcess w ''KILL'' s = (u, x)" by fastforce
  have "notifyInv u" using signalMainProcess_fst [OF u assms(1)] by simp
  then show ?thesis using assms(2) Some u childExited_inv [of u C w backend] by (auto simp: abortChild_def split: option.splits)
qed

lemma stopChild_inv:
  assumes "notifyInv s" "stopChild C w wakes exits s = Some (t, e)"
  shows "notifyInv t"
proof (cases "ndCmd s")
  case None
  with assms show ?thesis by (simp add: stopChild_def)
next
  case (Some backend)
  define s1 where "s1 = writeStateLocked C w (s\<lparr>ndChildState := ''stopping'', ndPhase := ''stopping''\<rparr>)"
  have s1: "notifyInv s1" using assms(1) by (simp add: s1_def notifyInv_def)
  obtain s2 x where s2: "(if ncStopCommand C \<noteq> '''' then runStopCommand w s1 else signalMainProcess w (ncKillSignal C) s1) = (s2, x)" by fastforce
  have inv2: "notifyInv s2"
    using s2 s1 signalMainProcess_fst [of w "ncKillSignal C" s1] by (auto simp: runStopCommand_def notifyInv_def split: if_splits)
  obtain s3 y where s3: "signalMainProcess w ''KILL'' s2 = (s3, y)" by fastforce
  have inv3: "notifyInv s3" using signalMainProcess_fst [OF s3 inv2] by simp
  show ?thesis
    using assms(2) childExited_inv [OF inv2, of C w backend] childExited_inv [OF inv3, of C w backend] inv2 inv3
    by (auto simp: stopChild_def Some Let_def s1_def [symmetric] s2 s3 split: option.splits bool.splits)
qed

definition validEvent :: "notify_event \<Rightarrow> bool" where
  "validEvent ev \<longleftrightarrow> (case ev of TakeStart spawned \<Rightarrow> validSpawn spawned | _ \<Rightarrow> True)"

lemma startChildIfNeeded_inv: "notifyInv s \<Longrightarrow> validSpawn spawned \<Longrightarrow> notifyInv (fst (startChildIfNeeded C w spawned s))"
  by (simp add: startChildIfNeeded_def startChild_inv)

lemma queue_inv: "notifyInv s \<Longrightarrow> notifyInv (tryQueueStart C reason s)"
  by (simp add: tryQueueStart_def notifyInv_def length_try_send)

lemma notifyStep_inv:
  assumes "notifyInv s" "validEvent ev" "notifyStep C w ev s = Some (t, e)"
  shows "notifyInv t"
proof (cases ev)
  case TakeExit
  have "notifyInv (s\<lparr>ndCmdExit := es\<rparr>)" for es using assms(1) by (simp add: notifyInv_def)
  then show ?thesis using assms TakeExit by (auto simp: handleChildExit_def split: list.splits if_splits)
next
  case (TakeStart spawned)
  have "notifyInv (s\<lparr>ndStartReq := rs\<rparr>)" if "ndStartReq s = r # rs" for r rs using assms(1) that by (simp add: notifyInv_def)
  then show ?thesis using assms TakeStart startChildIfNeeded_inv [of "s\<lparr>ndStartReq := tl (ndStartReq s)\<rparr>" spawned C w]
    by (auto simp: validEvent_def split: list.splits)
next
  case (TakeWatchdog exits)
  have "notifyInv (s\<lparr>ndWatchdogErr := es\<rparr>)" if "ndWatchdogErr s = e # es" for e es using assms(1) that by (simp add: notifyInv_def)
  then show ?thesis using assms TakeWatchdog abortChild_inv [of "s\<lparr>ndWatchdogErr := tl (ndWatchdogErr s)\<rparr>" C w exits]
    by (auto simp: handleWatchdogTimeout_def split: list.splits)
next
  case (StopSignal wakes exits)
  then show ?thesis using assms stopChild_inv by auto
next
  case (ControlRequest uid input)
  then show ?thesis using assms queue_inv by (auto simp: handleControlActivation_def split: option.splits if_splits)
next
  case (WatchdogExpired x)
  then show ?thesis using assms by (auto simp: notifyInv_def length_try_send)
next
  case TakeStartError
  then show ?thesis using assms by (auto simp: notifyInv_def)
qed (use assms childExited_inv handleNotifyLine_inv markChildReady_inv queue_inv in auto)

lemma initialServer_inv: "notifyInv initialServer"
  by (simp add: notifyInv_def initialServer_def)

lemma notifyRun_inv:
  "notifyInv s \<Longrightarrow> list_all validEvent evs \<Longrightarrow> notifyRun C w n evs s = Some (t, e) \<Longrightarrow> notifyInv t"
proof (induction evs arbitrary: s n)
  case (Cons ev evs)
  then obtain u x where u: "notifyStep C (w n) ev s = Some (u, x)" by (auto split: option.splits)
  have "notifyInv u" using notifyStep_inv [OF Cons.prems(1) _ u] Cons.prems(2) by simp
  then show ?case using Cons u by (cases x) auto
qed simp

text \<open>
  Property C15. Whatever the order of activations, notifications, exits, watchdog timeouts and stops, the
  daemon runs one backend at a time: in everything it did, starts and exits of backends alternate, and
  the process it tracks is the one that runs. Signals only ever go to a positive process id, never to
  a process group or to all processes, and no queue outgrows its capacity.
\<close>

theorem one_backend_at_a_time:
  assumes "list_all validEvent evs" "notifyRun C w 0 evs initialServer = Some (s, e)"
  shows "backendAfter (ndTrace s) = Some (ndCmd s) \<and> positiveSignals (ndTrace s) \<and> (ndCmd s \<noteq> None \<longrightarrow> 0 < ndMainPID s) \<and>
    length (ndStartReq s) \<le> 8 \<and> length (ndWatchdogSet s) \<le> 4 \<and> length (ndWatchdogErr s) \<le> 1 \<and> ndWatchdogHit s \<le> 16"
  using notifyRun_inv [OF initialServer_inv assms] by (simp add: notifyInv_def)

definition demoNotifyWorld :: "nat \<Rightarrow> notifyWorld" where
  "demoNotifyWorld n = \<lparr>nwStateOk = True, nwStatFile = (\<lambda>_. Inl NotExist), nwKill = (\<lambda>_ _. None), nwStop = None\<rparr>"

definition demoRun :: "notify_event list" where
  "demoRun = [Activation ''incoming traffic'', TakeStart (Inr 7), BackendExits 7 None]"

lemma demoRun_runs: "\<exists>s e. notifyRun demoConfig demoNotifyWorld 0 demoRun initialServer = Some (s, e)"
proof -
  have "ncCommand demoConfig \<noteq> ''''" by (simp add: demoConfig_def)
  then show ?thesis
    by (simp add: demoRun_def tryQueueStart_def startChildIfNeeded_def startChild_def try_send_def Let_def initialServer_def)
qed

theorem one_backend_at_a_time_witness:
  "\<exists>s e. notifyRun demoConfig demoNotifyWorld 0 demoRun initialServer = Some (s, e) \<and> backendAfter (ndTrace s) = Some (ndCmd s)"
proof -
  have "list_all validEvent demoRun" by (simp add: demoRun_def validEvent_def validSpawn_def)
  with one_backend_at_a_time [of demoRun demoConfig demoNotifyWorld] demoRun_runs show ?thesis by blast
qed

subsection \<open>Late events\<close>

text \<open>
  Fact. The check of a notification's sender and the handling of its lines are separate critical
  sections: when the backend exits in between, its \<open>READY=1\<close> is still handled. The daemon then
  reports a running, ready service without a process, and the state stays so until the next start.
\<close>

theorem ready_after_exit:
  assumes "ndCmd s = Some pid" "acceptsDatagram w False (Some sender) s"
    and t_def: "t = handleNotifyLine C w' ''READY=1'' (childExited C w pid err s)"
  shows "ndCmd t = None \<and> ndMainPID t = 0 \<and> ndChildState t = ''running'' \<and> ndPhase t = ''ready'' \<and>
    (\<exists>pre. ndTrace t = pre @ [Published (runtimePayload C t)])"
proof -
  define u where "u = childExited C w pid err s"
  have u: "ndCmd u = None" "ndMainPID u = 0" "ndSeq u = ndSeq s"
    using assms(1) by (simp_all add: u_def childExited_def resetForIdleLocked_def Let_def)
  have t: "t = markChildReady C w' (ndSeq u) u" by (simp add: t_def u_def [symmetric] handleNotifyLine_def)
  show ?thesis using u unfolding t
    by (auto simp: markChildReady_def Let_def writeStateLocked_def runtimePayload_def stateEntries_def)
qed

lemma demo_accepts:
  "acceptsDatagram (demoNotifyWorld 0) False (Some 7) (initialServer\<lparr>ndCmd := Some 7, ndMainPID := 7\<rparr>)"
proof -
  have "ownsFrom 64 (demoNotifyWorld 0) 7 7 7" unfolding ownsFrom_iff by (intro exI [of _ "[7]"]) simp
  then show ?thesis by (simp add: acceptsDatagram_def ownsNotifyPID_def del: ownsFrom.simps)
qed

theorem ready_after_exit_witness:
  "ndCmd (handleNotifyLine demoConfig (demoNotifyWorld 0) ''READY=1'' (childExited demoConfig (demoNotifyWorld 0) 7 None (initialServer\<lparr>ndCmd := Some 7, ndMainPID := 7\<rparr>))) = None \<and>
   ndChildState (handleNotifyLine demoConfig (demoNotifyWorld 0) ''READY=1'' (childExited demoConfig (demoNotifyWorld 0) 7 None (initialServer\<lparr>ndCmd := Some 7, ndMainPID := 7\<rparr>))) = ''running''"
  using ready_after_exit [OF _ demo_accepts refl, of 7] by simp

text \<open>
  Property C37. A watchdog timeout that was reported for one backend and not yet taken by the main loop is
  held against the next one: it is not drained by a start, so it kills the new backend; and it ends the
  daemon even when the service is activated on demand and the sockets should stay armed.
\<close>

theorem stale_watchdog_kills_successor:
  assumes "ndCmd s = Some old" "ndWatchdogErr s = [cause]" "0 < new" "nwKill w new SIGKILL = None"
    and t_def: "t = fst (startChild C w (Inr new) (childExited C w old err s))"
  shows "ndCmd t = Some new \<and>
    (\<exists>u. notifyStep C w (TakeWatchdog (Some exitErr)) t = Some (u, Some cause) \<and> ndCmd u = None \<and> Signalled new SIGKILL \<in> set (ndTrace u))"
proof -
  define s1 where "s1 = childExited C w old err s"
  have s1: "ndCmd s1 = None" "ndWatchdogErr s1 = [cause]"
    using assms(1,2) by (simp_all add: s1_def childExited_def resetForIdleLocked_def Let_def)
  have t: "ndCmd t = Some new" "ndMainPID t = new" "ndWatchdogErr t = [cause]"
    using s1 assms(3) by (auto simp: t_def s1_def [symmetric] startChild_def beginStart_def Let_def markChildReady_def split: option.splits)
  define v where "v = t\<lparr>ndWatchdogErr := []\<rparr>"
  have kill: "signalMainProcess w ''KILL'' v = (v\<lparr>ndTrace := ndTrace v @ [Signalled new SIGKILL]\<rparr>, None)"
  proof -
    have "parseSignal ''KILL'' = Some SIGKILL" by code_simp
    then show ?thesis using t(2) assms(3,4) by (simp add: signalMainProcess_def v_def)
  qed
  let ?u = "childExited C w new exitErr (v\<lparr>ndTrace := ndTrace v @ [Signalled new SIGKILL]\<rparr>)"
  have "abortChild C w (Some exitErr) cause v = Some (?u, cause)" using t(1) kill by (simp add: abortChild_def v_def)
  then have "notifyStep C w (TakeWatchdog (Some exitErr)) t = Some (?u, Some cause)"
    using t(3) by (simp add: handleWatchdogTimeout_def v_def)
  moreover have "ndCmd ?u = None" using t(1) by (simp add: childExited_def resetForIdleLocked_def Let_def v_def)
  moreover have "Signalled new SIGKILL \<in> set (ndTrace ?u)"
    using t(1) by (simp add: childExited_def resetForIdleLocked_def Let_def v_def writeStateLocked_def)
  ultimately show ?thesis using t(1) by blast
qed

theorem stale_watchdog_kills_successor_witness:
  "\<exists>u. notifyStep demoConfig (demoNotifyWorld 0) (TakeWatchdog (Some None))
     (fst (startChild demoConfig (demoNotifyWorld 0) (Inr 8) (childExited demoConfig (demoNotifyWorld 0) 7 None
       (initialServer\<lparr>ndCmd := Some 7, ndMainPID := 7, ndWatchdogErr := [''watchdog timeout'']\<rparr>)))) = Some (u, Some ''watchdog timeout'') \<and>
    Signalled 8 SIGKILL \<in> set (ndTrace u)"
proof -
  let ?s = "initialServer\<lparr>ndCmd := Some 7, ndMainPID := 7, ndWatchdogErr := [''watchdog timeout'']\<rparr>"
  have "ndCmd ?s = Some 7" "ndWatchdogErr ?s = [''watchdog timeout'']" "nwKill (demoNotifyWorld 0) 8 SIGKILL = None"
    by (simp_all add: demoNotifyWorld_def)
  from stale_watchdog_kills_successor [OF this(1,2) _ this(3) refl, of demoConfig None None] show ?thesis by auto
qed

end
