(* ===== verification/Dinit_Gen.thy ===== *)
theory Dinit_Gen
  imports Service_Dag Logd_Broker Cgroup_Server
begin

text \<open>
  The definitions servicectl writes for dinit: \<open>src/dinit_gen.go\<close>, with the helpers it calls in
  \<open>src/binary_paths.go\<close>, \<open>src/managed_runtime.go\<close>, \<open>src/external_management_dinit.go\<close>,
  \<open>src/dinit_cgroup.go\<close> and the command-line splitter of \<open>src/servicectl_api.go\<close>.

  The generators are functions from the configuration, the host and the unit to the text of the file. The
  installer works on a \<open>disk\<close>: the regular files and the symbolic links by path, the state of the running
  dinit (a parameter, with its answer to a query and its reaction to a command) and the list of the effects
  that leave the model (directories, modes, owners, dinit commands, bus reloads), oldest first.
\<close>

subsection \<open>The outside\<close>

record genEnv =
  geConfig :: config
  geHost :: host
  geExecutableDir :: string
  geLookPath :: "string \<Rightarrow> string option"
  geExternal :: "string \<Rightarrow> bool"
  geLookupUser :: "string \<Rightarrow> (string \<times> string) option"
  geLookupGroup :: "string \<Rightarrow> string option"
  geDiskFails :: "string \<Rightarrow> bool"
  geCgroupDo :: "request \<Rightarrow> bool + response"

subsection \<open>Binaries\<close>

definition existingBinaryInDir :: "genEnv \<Rightarrow> string \<Rightarrow> string \<Rightarrow> string" where
  "existingBinaryInDir E dir name =
     (if trim_space dir = '''' then ''''
      else let candidate = path_join [dir, name] in if hStat (geHost E) candidate then candidate else '''')"

definition siblingBinaryPath :: "genEnv \<Rightarrow> string \<Rightarrow> string" where
  "siblingBinaryPath E name = existingBinaryInDir E (geExecutableDir E) name"

definition userBinaryPath :: "genEnv \<Rightarrow> string \<Rightarrow> string" where
  "userBinaryPath E name =
     (if siblingBinaryPath E name \<noteq> '''' then siblingBinaryPath E name
      else case geLookPath E name of
        Some candidate \<Rightarrow> candidate
      | None \<Rightarrow>
          let home = trim_space (hGetenv (geHost E) ''HOME'') in
          if home = '''' then name
          else let local = existingBinaryInDir E (path_join [home, ''.local'', ''bin'']) name;
                   candidate = path_join [home, ''servicectl'', name]
            in if local \<noteq> '''' then local else if hStat (geHost E) candidate then candidate else name)"

definition systemHelperBinaryDirs :: "string list" where
  "systemHelperBinaryDirs = [''/usr/local/bin'', ''/usr/bin'', ''/bin'']"

definition systemHelperBinaryPath :: "genEnv \<Rightarrow> string \<Rightarrow> string" where
  "systemHelperBinaryPath E name =
     (case find (\<lambda>p. p \<noteq> '''') (map (\<lambda>dir. existingBinaryInDir E dir name) systemHelperBinaryDirs) of
        Some candidate \<Rightarrow> candidate
      | None \<Rightarrow>
          if siblingBinaryPath E name \<noteq> '''' then siblingBinaryPath E name
          else case geLookPath E name of Some candidate \<Rightarrow> candidate | None \<Rightarrow> name)"

definition servicectlBinaryPath :: "genEnv \<Rightarrow> string" where
  "servicectlBinaryPath E = userBinaryPath E ''servicectl''"

definition notifydBinaryPath :: "genEnv \<Rightarrow> string" where
  "notifydBinaryPath E = systemHelperBinaryPath E ''sys-notifyd''"

definition logdBinaryPath :: "genEnv \<Rightarrow> string" where
  "logdBinaryPath E = systemHelperBinaryPath E ''sys-logd''"

subsection \<open>Names and modes\<close>

datatype managedServiceMode = managedDirect | managedNotifyd | managedSocketd | managedDbusd

definition dinitArg :: "string \<Rightarrow> string" where
  "dinitArg s =
     (if s \<noteq> '''' \<and> \<not> contains_any s [CHR '' '', CHR 0x09, CHR 0x0A, CHR 0x0D, CHR 0x22, CHR 0x5C] then s
      else [CHR 0x22] @ replace_all (replace_all s [CHR 0x5C] [CHR 0x5C, CHR 0x5C]) [CHR 0x22] [CHR 0x5C, CHR 0x22] @ [CHR 0x22])"

definition managedServiceModeForUnit :: "unitFile option \<Rightarrow> socketUnit option \<Rightarrow> managedServiceMode" where
  "managedServiceModeForUnit unit socketUnit =
     (if (case socketUnit of Some s \<Rightarrow> suAccept s | None \<Rightarrow> False) then managedDirect
      else if (case unit of Some u \<Rightarrow> trim_space (uBusName u) \<noteq> '''' | None \<Rightarrow> False) then managedDbusd
      else if socketUnit \<noteq> None then managedSocketd
      else if (case unit of Some u \<Rightarrow> equal_fold (uType u) ''notify'' \<and> uReadyFD u = 0 | None \<Rightarrow> False) then managedNotifyd
      else managedDirect)"

definition managedServiceName :: "string \<Rightarrow> managedServiceMode \<Rightarrow> string" where
  "managedServiceName name mode =
     (let cleanName = trim_suffix name ''.service'' in
      case mode of
        managedNotifyd \<Rightarrow> cleanName @ ''-notifyd''
      | managedSocketd \<Rightarrow> cleanName @ ''-socketd''
      | managedDbusd \<Rightarrow> cleanName @ ''-dbusd''
      | managedDirect \<Rightarrow> cleanName)"

definition shouldManageWithNotifyd :: "unitFile option \<Rightarrow> socketUnit option \<Rightarrow> bool" where
  "shouldManageWithNotifyd unit socketUnit \<longleftrightarrow> managedServiceModeForUnit unit socketUnit \<noteq> managedDirect"

definition genAlias :: "genEnv \<Rightarrow> string \<Rightarrow> string" where
  "genAlias E = resolveUnitAlias (geConfig E) (geHost E)"

definition genParse :: "genEnv \<Rightarrow> string \<Rightarrow> unit_error + unitFile" where
  "genParse E = parseSystemdUnit (geConfig E) (geHost E)"

definition dinitNameForUnit :: "genEnv \<Rightarrow> string \<Rightarrow> string" where
  "dinitNameForUnit E unitName =
     (let cleanName = genAlias E (trim_suffix unitName ''.service'') in
      case genParse E cleanName of
        Inl _ \<Rightarrow> cleanName
      | Inr unit \<Rightarrow>
          (case parseOptionalSocketUnit (geConfig E) (geHost E) cleanName of
             Inr socketUnit \<Rightarrow> managedServiceName cleanName (managedServiceModeForUnit (Some unit) socketUnit)
           | Inl _ \<Rightarrow> managedServiceName cleanName (managedServiceModeForUnit (Some unit) None)))"

text \<open>The second argument tells which services the running dinit knows.\<close>

definition resolvedDependencyServiceName :: "genEnv \<Rightarrow> (string \<Rightarrow> bool) \<Rightarrow> string \<Rightarrow> string option" where
  "resolvedDependencyServiceName E isDinitServiceKnown dep =
     (let cleanName = trim_suffix (trim_space dep) ''.service'' in
      if \<not> includeDependencyName cleanName then None
      else let cleanName = genAlias E cleanName in
        if is_ok (genParse E cleanName) then Some (dinitNameForUnit E cleanName)
        else if isDinitServiceKnown cleanName then Some cleanName
        else let mapped = dinitNameForUnit E cleanName in
          if mapped \<noteq> cleanName \<and> isDinitServiceKnown mapped then Some mapped else None)"

definition externalManagedPlaceholderName :: "genEnv \<Rightarrow> string \<Rightarrow> string" where
  "externalManagedPlaceholderName E unitName =
     (let cleanName = trim_suffix (trim_space (genAlias E unitName)) ''.service''
      in if cleanName = '''' then ''external-managed'' else ''external-managed-'' @ cleanName)"

definition externalManagedDependencyServiceName :: "genEnv \<Rightarrow> string \<Rightarrow> bool \<Rightarrow> string" where
  "externalManagedDependencyServiceName E unitName external =
     (if external then externalManagedPlaceholderName E unitName
      else trim_suffix (trim_space (genAlias E unitName)) ''.service'')"

definition resolvedManagedDependencyServiceName :: "genEnv \<Rightarrow> (string \<Rightarrow> bool) \<Rightarrow> string \<Rightarrow> string option" where
  "resolvedManagedDependencyServiceName E known dep =
     (let cleanName = trim_suffix (trim_space dep) ''.service'' in
      if \<not> includeDependencyName cleanName then None
      else if geExternal E cleanName then Some (externalManagedPlaceholderName E cleanName)
      else resolvedDependencyServiceName E known dep)"

definition loggerServiceName :: "string \<Rightarrow> string" where
  "loggerServiceName serviceName = serviceName @ ''-log''"

subsection \<open>Paths of the managed runtime\<close>

definition managedRuntimeServiceDir :: "genEnv \<Rightarrow> string \<Rightarrow> managedServiceMode \<Rightarrow> string" where
  "managedRuntimeServiceDir E name mode = path_join [cfgManagedRuntimeDir (geConfig E), managedServiceName name mode]"

definition notifydStatePath :: "genEnv \<Rightarrow> string \<Rightarrow> managedServiceMode \<Rightarrow> string" where
  "notifydStatePath E name mode = path_join [managedRuntimeServiceDir E name mode, ''state'']"

definition managedNotifySocketPath :: "genEnv \<Rightarrow> string \<Rightarrow> managedServiceMode \<Rightarrow> string" where
  "managedNotifySocketPath E name mode = path_join [managedRuntimeServiceDir E name mode, ''notify.sock'']"

definition managedDBusTriggerPath :: "genEnv \<Rightarrow> string \<Rightarrow> managedServiceMode \<Rightarrow> string" where
  "managedDBusTriggerPath E name mode = path_join [managedRuntimeServiceDir E name mode, ''dbus.trigger'']"

definition managedControlPath :: "genEnv \<Rightarrow> string \<Rightarrow> managedServiceMode \<Rightarrow> string" where
  "managedControlPath E name mode = path_join [managedRuntimeServiceDir E name mode, ''control.sock'']"

definition loggerSpillDir :: "genEnv \<Rightarrow> string \<Rightarrow> string" where
  "loggerSpillDir E loggerName =
     (let user = userMode (geConfig E);
          base = trim_space (cfgManagedRuntimeDir (geConfig E));
          base = (if base \<noteq> '''' then base
            else if user then path_join [runtimeDir (geConfig E) (geHost E), ''servicectl'', ''managed'']
            else ''/run/servicectl/managed'');
          spillBase = path_join [path_dir base, ''logspill''];
          spillBase = (if user then spillBase else path_join [spillBase, ''system''])
      in path_join [spillBase, loggerName])"

subsection \<open>Values\<close>

definition normalizeSocketAddress :: "string \<Rightarrow> string" where
  "normalizeSocketAddress value =
     (let value = trim_space value in
      if value = '''' then value else if atoi value \<noteq> None then '':'' @ value else value)"

text \<open>
  What \<open>strconv.ParseFloat\<close> with 64 bits accepts. A decimal number is rejected when it rounds to infinity,
  that is from the middle between the largest float and \<open>2^1024\<close> on.
\<close>

definition floatLimit :: nat where
  "floatLimit = 2 ^ 1024 - 2 ^ 970"

definition takeSign :: "string \<Rightarrow> bool \<times> string" where
  "takeSign s = (if has_prefix s ''-'' then (True, drop 1 s) else if has_prefix s ''+'' then (False, drop 1 s) else (False, s))"

definition digitsValue :: "nat \<Rightarrow> (char \<Rightarrow> nat) \<Rightarrow> string \<Rightarrow> nat" where
  "digitsValue b val ds = foldl (\<lambda>n c. b * n + val c) 0 ds"

text \<open>The exponent after its letter: an optional sign and at least one decimal digit, to the end of the text.\<close>

definition readExponent :: "string \<Rightarrow> int option" where
  "readExponent s =
     (let (neg, ds) = takeSign s in
      map_option (\<lambda>n. if neg then - int n else int n) (parse_dec ds))"

text \<open>The digits before and after the point, the value of all of them, and what follows.\<close>

definition readMantissa :: "(char \<Rightarrow> bool) \<Rightarrow> string \<Rightarrow> string \<times> string \<times> string" where
  "readMantissa digit s =
     (let whole = takeWhile digit s; rest = dropWhile digit s in
      if has_prefix rest ''.'' then (whole, takeWhile digit (tl rest), dropWhile digit (tl rest)) else (whole, '''', rest))"

definition inFloatRange :: "nat \<Rightarrow> nat \<Rightarrow> int \<Rightarrow> bool" where
  "inFloatRange m b e \<longleftrightarrow> m * b ^ nat e < floatLimit * b ^ nat (- e)"

definition isHexDigit :: "char \<Rightarrow> bool" where
  "isHexDigit c \<longleftrightarrow> is_digit c \<or> lower_char c \<in> set ''abcdef''"

definition hexVal :: "char \<Rightarrow> nat" where
  "hexVal c = (if is_digit c then digit_val c else of_char (lower_char c) - 87)"

text \<open>
  Underscores are taken only after a base prefix, where each must stand between two digits or between the
  prefix and a digit; the second argument tells whether the byte before is a digit or the prefix.
\<close>

fun underscoreOK :: "bool \<Rightarrow> string \<Rightarrow> bool" where
  "underscoreOK prev [] = True"
| "underscoreOK prev (c # s) =
     (if c = CHR ''_'' then prev \<and> s \<noteq> [] \<and> isHexDigit (hd s) \<and> underscoreOK False s
      else underscoreOK (isHexDigit c) s)"

definition parseFloatOK :: "string \<Rightarrow> bool" where
  "parseFloatOK text =
     (let s = snd (takeSign text) in
      if to_lower s \<in> {''inf'', ''infinity''} \<or> to_lower text = ''nan'' then True
      else if has_prefix (to_lower s) ''0x'' then
        (let (whole, fraction, rest) = readMantissa (\<lambda>c. isHexDigit c \<or> c = CHR ''_'') (drop 2 s);
             hex = filter (\<lambda>c. c \<noteq> CHR ''_'') in
         underscoreOK True (drop 2 s) \<and> hex (whole @ fraction) \<noteq> [] \<and> rest \<noteq> [] \<and> lower_char (hd rest) = CHR ''p'' \<and>
         (case readExponent (filter (\<lambda>c. c \<noteq> CHR ''_'') (tl rest)) of
            None \<Rightarrow> False
          | Some e \<Rightarrow> inFloatRange (digitsValue 16 hexVal (hex (whole @ fraction))) 2 (e - 4 * int (length (hex fraction)))))
      else
        (let (whole, fraction, rest) = readMantissa is_digit s;
             inRange = (\<lambda>e. inFloatRange (digitsValue 10 digit_val (whole @ fraction)) 10 (e - int (length fraction))) in
         whole @ fraction \<noteq> [] \<and>
         (if rest = [] then inRange 0
          else lower_char (hd rest) = CHR ''e'' \<and> (case readExponent (tl rest) of None \<Rightarrow> False | Some e \<Rightarrow> inRange e))))"

definition normalizeTimeoutValue :: "string \<Rightarrow> string" where
  "normalizeTimeoutValue raw =
     (let raw = trim_space raw in
      if raw = '''' \<or> equal_fold raw ''infinity'' then ''''
      else if atoi raw \<noteq> None then raw @ ''s''
      else let value = trim_suffix raw ''min'' in
        if value \<noteq> raw \<and> parseFloatOK value then value @ ''m'' else raw)"

text \<open>\<open>strconv.ParseUint(raw, 8, 32)\<close>.\<close>

definition parseOctal :: "string \<Rightarrow> nat option" where
  "parseOctal s =
     (if s \<noteq> [] \<and> list_all (\<lambda>c. is_digit c \<and> digit_val c < 8) s \<and> digitsValue 8 digit_val s < 2 ^ 32
      then Some (digitsValue 8 digit_val s) else None)"

definition directoryMode :: "string \<Rightarrow> nat" where
  "directoryMode raw =
     (let raw = trim_space raw in
      if raw = '''' then 493 else case parseOctal raw of None \<Rightarrow> 493 | Some v \<Rightarrow> v)"

text \<open>
  The bits \<open>os.Mkdir\<close> and \<open>os.Chmod\<close> pass to the kernel for a Go file mode: the nine permission bits, and
  the set-user-ID, set-group-ID and sticky bits from the places Go keeps them, bits 23, 22 and 20.
\<close>

definition syscallMode :: "nat \<Rightarrow> nat" where
  "syscallMode m = m mod 512 + (if bit m 23 then 2048 else 0) + (if bit m 22 then 1024 else 0) + (if bit m 20 then 512 else 0)"

definition managedDirectoryBase :: "genEnv \<Rightarrow> string \<Rightarrow> string" where
  "managedDirectoryBase E kind =
     (let env = hGetenv (geHost E); home = env ''HOME'' in
      if cfgIsRoot (geConfig E) \<and> \<not> userMode (geConfig E) then
        (if kind = ''runtime'' then ''/run'' else if kind = ''state'' then ''/var/lib'' else if kind = ''logs'' then ''/var/log'' else ''/'')
      else if kind = ''runtime'' then
        (if env ''XDG_RUNTIME_DIR'' \<noteq> '''' then env ''XDG_RUNTIME_DIR'' else path_join [home, ''.local'', ''run''])
      else if kind = ''state'' then
        (if env ''XDG_STATE_HOME'' \<noteq> '''' then env ''XDG_STATE_HOME'' else path_join [home, ''.local'', ''state''])
      else if kind = ''logs'' then
        (if env ''XDG_STATE_HOME'' \<noteq> '''' then path_join [env ''XDG_STATE_HOME'', ''log''] else path_join [home, ''.local'', ''state'', ''log''])
      else home)"


subsection \<open>The text of the definitions\<close>

abbreviation newline :: string where
  "newline \<equiv> [CHR 0x0A]"

definition loggerArgs :: "genEnv \<Rightarrow> string \<Rightarrow> string \<Rightarrow> string list" where
  "loggerArgs E serviceName logicalName =
     (let loggerName = loggerServiceName serviceName; unit = trim_suffix logicalName ''.service'' in
      [logdBinaryPath E, ''-worker'', ''-scope'', cfgMode (geConfig E), ''-unit'', unit @ ''.service'',
       ''-logger-service'', loggerName, ''-service'', unit, ''-spill-dir'', loggerSpillDir E loggerName])"

definition generateLoggerDinit :: "genEnv \<Rightarrow> string \<Rightarrow> string \<Rightarrow> unitFile option \<Rightarrow> string" where
  "generateLoggerDinit E serviceName logicalName unit =
     ''# Log consumer for '' @ serviceName @ newline @
     ''type = process'' @ newline @
     ''consumer-of = '' @ serviceName @ newline @
     ''command = '' @ join '' '' (map dinitArg (loggerArgs E serviceName logicalName)) @ newline @
     (case unit of
        Some u \<Rightarrow>
          if \<not> userMode (geConfig E) \<and> trim_space (uUser u) \<noteq> '''' then ''run-as = '' @ dinitArg (trim_space (uUser u)) @ newline
          else ''''
      | None \<Rightarrow> '''') @
     ''restart = false'' @ newline"

definition listenArgs :: "string \<Rightarrow> string \<Rightarrow> string \<Rightarrow> string list" where
  "listenArgs inet unix addr =
     [''-listen'', dinitArg ((if has_prefix addr ''/'' then unix else inet) @ '':'' @ normalizeSocketAddress addr)]"

definition socketListenArgs :: "socketUnit option \<Rightarrow> string list" where
  "socketListenArgs socketUnit =
     (case socketUnit of
        None \<Rightarrow> []
      | Some s \<Rightarrow>
          concat (map (listenArgs ''tcp'' ''unix'') (suListenStreams s)) @
          concat (map (listenArgs ''udp'' ''unixgram'') (suListenDgrams s)) @
          (if suSocketMode s \<noteq> '''' then [''-socket-mode'', dinitArg (suSocketMode s)] else []) @
          concat (map (\<lambda>fdName. [''-fdname'', dinitArg fdName]) (suFDNames s)) @
          (if suSocketUser s \<noteq> '''' then [''-socket-user'', dinitArg (suSocketUser s)] else []) @
          (if suSocketGroup s \<noteq> '''' then [''-socket-group'', dinitArg (suSocketGroup s)] else []))"

text \<open>The resolved hard dependencies, each once and never the service itself, in the order of the unit.\<close>

definition dependsOn :: "genEnv \<Rightarrow> (string \<Rightarrow> bool) \<Rightarrow> unitFile \<Rightarrow> string \<Rightarrow> string list" where
  "dependsOn E known u self = foldl (\<lambda>seen d.
     case resolvedManagedDependencyServiceName E known d of
       Some resolved \<Rightarrow> if resolved \<noteq> self \<and> resolved \<notin> set seen then seen @ [resolved] else seen
     | None \<Rightarrow> seen) [] (hardStartDependencies u)"

definition dependsLines :: "string list \<Rightarrow> string" where
  "dependsLines names = concat (map (\<lambda>n. ''depends-on = '' @ n @ newline) names)"

definition GenerateDinit :: "genEnv \<Rightarrow> (string \<Rightarrow> bool) \<Rightarrow> unitFile \<Rightarrow> string" where
  "GenerateDinit E known u =
     (let sysType = to_lower (uType u);
          dType = (if sysType = ''forking'' then ''bgprocess'' else if sysType = ''oneshot'' then ''scripted'' else ''process'');
          allEnvs = mergedServiceEnv (geConfig E) (geHost E) u;
          finalCmd = compileExecStart u allEnvs;
          finalCmd = (if 3 \<le> uReadyFD u then ''/usr/bin/env -u NOTIFY_SOCKET '' @ finalCmd else finalCmd)
      in ''# Generated from '' @ uName u @ ''.service'' @ newline @
         (if uDescription u \<noteq> '''' then ''# '' @ uDescription u @ newline else '''') @
         ''type = '' @ dType @ newline @
         (if 3 \<le> uReadyFD u then ''ready-notification = pipefd:'' @ itoa (uReadyFD u) @ newline else '''') @
         (if dType = ''bgprocess'' \<and> uPIDFile u \<noteq> '''' then ''pid-file = '' @ uPIDFile u @ newline else '''') @
         (if dType \<noteq> ''scripted'' then ''smooth-recovery = true'' @ newline else '''') @
         ''command = '' @ buildEnvPrefix allEnvs @ finalCmd @ newline @
         (if uExecStop u \<noteq> '''' then ''stop-command = '' @ compileExecStop u allEnvs @ newline else '''') @
         (if uUser u \<noteq> '''' then ''run-as = '' @ uUser u @ newline else '''') @
         (if uWorkingDirectory u \<noteq> '''' then ''working-dir = '' @ uWorkingDirectory u @ newline else '''') @
         dependsLines (dependsOn E known u (uName u)) @
         ''depends-on = '' @ loggerServiceName (uName u) @ newline @
         ''log-type = pipe'' @ newline)"

text \<open>The words of the command line, already quoted.\<close>

definition notifydArgs :: "genEnv \<Rightarrow> unitFile \<Rightarrow> managedServiceMode \<Rightarrow> socketUnit option \<Rightarrow> string list" where
  "notifydArgs E u mode socketUnit =
     (let backendEnv = mergedServiceEnv (geConfig E) (geHost E) u;
          backendCmd = buildEnvPrefix backendEnv @ compileExecStart u backendEnv;
          stopCmd = compileExecStop u backendEnv
      in [notifydBinaryPath E, ''-service'', dinitArg (uName u), ''-service-type'', dinitArg (to_lower (uType u))] @
         (if mode = managedDbusd
          then [''-bus-name'', dinitArg (uBusName u), ''-control-path'', dinitArg (managedControlPath E (uName u) mode)] else []) @
         [''-command'', dinitArg backendCmd, ''-state-file'', dinitArg (notifydStatePath E (uName u) mode), ''-ready-fd'', ''3''] @
         (if userMode (geConfig E) then [''-user''] else []) @
         (if stopCmd \<noteq> '''' then [''-stop-command'', dinitArg stopCmd] else []) @
         (if equal_fold (uType u) ''notify''
          then [''-notify'', ''-notify-path'', dinitArg (managedNotifySocketPath E (uName u) mode), ''-ready-timeout'', ''30s''] else []) @
         (let t = normalizeTimeoutValue (uTimeoutStartSec u) in if t \<noteq> '''' then [''-ready-timeout'', dinitArg t] else []) @
         (let t = normalizeTimeoutValue (uTimeoutStopSec u) in if t \<noteq> '''' then [''-stop-timeout'', dinitArg t] else []) @
         (let sig = normalizeSignalName (uKillSignal u) in if sig \<noteq> '''' then [''-kill-signal'', dinitArg sig] else []) @
         (if mode = managedSocketd \<or> mode = managedDbusd then socketListenArgs socketUnit else [''-start-now'']))"

definition GenerateNotifydDinit :: "genEnv \<Rightarrow> (string \<Rightarrow> bool) \<Rightarrow> unitFile \<Rightarrow> managedServiceMode \<Rightarrow> socketUnit option \<Rightarrow> string" where
  "GenerateNotifydDinit E known u mode socketUnit =
     (let managedName = managedServiceName (uName u) mode in
      ''# Generated from '' @ uName u @ ''.service'' @ newline @
      (case socketUnit of
         Some s \<Rightarrow> if mode = managedSocketd then ''# Socket activation via '' @ suName s @ ''.socket'' @ newline else ''''
       | None \<Rightarrow> '''') @
      (if uDescription u \<noteq> '''' then ''# '' @ uDescription u @ newline else '''') @
      ''type = process'' @ newline @
      ''ready-notification = pipefd:3'' @ newline @ ''start-timeout = 0'' @ newline @
      (if uUser u \<noteq> '''' then ''run-as = '' @ uUser u @ newline else '''') @
      (if uWorkingDirectory u \<noteq> '''' then ''working-dir = '' @ uWorkingDirectory u @ newline else '''') @
      dependsLines (dependsOn E known u managedName) @
      ''depends-on = '' @ loggerServiceName managedName @ newline @
      ''command = '' @ join '' '' (notifydArgs E u mode socketUnit) @ newline @
      ''smooth-recovery = true'' @ newline @
      ''log-type = pipe'' @ newline)"

definition generateExternalManagedPlaceholderDinit :: "genEnv \<Rightarrow> string \<Rightarrow> string" where
  "generateExternalManagedPlaceholderDinit E unitName =
     ''# External-managed placeholder for '' @ trim_suffix (trim_space (genAlias E unitName)) ''.service'' @ ''.service'' @
     newline @ ''type = internal'' @ newline"

definition generateDBusActivationFile :: "genEnv \<Rightarrow> string \<Rightarrow> string \<Rightarrow> string" where
  "generateDBusActivationFile E unitName busName =
     ''[D-BUS Service]'' @ newline @
     ''Name='' @ trim_space busName @ newline @
     ''Exec='' @ join '' '' ([servicectlBinaryPath E] @ (if userMode (geConfig E) then [''--user''] else []) @
       [''activate-dbus'', unitName]) @ newline @
     (if userMode (geConfig E) then '''' else ''User=root'' @ newline)"


subsection \<open>The disk and the running dinit\<close>

datatype gen_effect =
    MkdirAll string nat
  | Chmod string nat
  | Chown string string
  | ChownIds string int int
  | Dinitctl "string list"
  | ReloadDBus

record 'd disk =
  dkFiles :: "string \<Rightarrow> string option"
  dkLinks :: "string \<Rightarrow> string option"
  dkDinit :: 'd
  dkEffects :: "gen_effect list"

record 'd dinitProcess =
  dpKnown :: "'d \<Rightarrow> string \<Rightarrow> bool"
  dpCommand :: "string list \<Rightarrow> 'd \<Rightarrow> 'd \<times> bool"

definition emit :: "gen_effect \<Rightarrow> 'd disk \<Rightarrow> 'd disk" where
  "emit e k = k\<lparr>dkEffects := dkEffects k @ [e]\<rparr>"

definition isDinitServiceKnown :: "'d dinitProcess \<Rightarrow> 'd disk \<Rightarrow> string \<Rightarrow> bool" where
  "isDinitServiceKnown P k = dpKnown P (dkDinit k)"

definition runDinitctl :: "'d dinitProcess \<Rightarrow> string list \<Rightarrow> 'd disk \<Rightarrow> 'd disk \<times> bool" where
  "runDinitctl P args k =
     (let (d, ok) = dpCommand P args (dkDinit k) in (emit (Dinitctl args) (k\<lparr>dkDinit := d\<rparr>), ok))"

definition osWriteFile :: "genEnv \<Rightarrow> string \<Rightarrow> string \<Rightarrow> 'd disk \<Rightarrow> 'd disk \<times> bool" where
  "osWriteFile E path content k =
     (if geDiskFails E path then (k, False) else (k\<lparr>dkFiles := (dkFiles k)(path \<mapsto> content)\<rparr>, True))"

definition osRemove :: "genEnv \<Rightarrow> string \<Rightarrow> 'd disk \<Rightarrow> 'd disk" where
  "osRemove E path k =
     (if geDiskFails E path then k
      else k\<lparr>dkFiles := (dkFiles k)(path := None), dkLinks := (dkLinks k)(path := None)\<rparr>)"

definition osSymlink :: "genEnv \<Rightarrow> string \<Rightarrow> string \<Rightarrow> 'd disk \<Rightarrow> 'd disk \<times> bool" where
  "osSymlink E target path k =
     (if geDiskFails E path \<or> dkFiles k path \<noteq> None \<or> dkLinks k path \<noteq> None then (k, False)
      else (k\<lparr>dkLinks := (dkLinks k)(path \<mapsto> target)\<rparr>, True))"

subsection \<open>Directories and owners\<close>

definition chownPath :: "genEnv \<Rightarrow> string \<Rightarrow> string \<Rightarrow> string \<Rightarrow> 'd disk \<Rightarrow> 'd disk" where
  "chownPath E path owner grp k =
     (if \<not> cfgIsRoot (geConfig E) \<or> owner = '''' \<and> grp = '''' then k
      else emit (Chown path (if owner = '''' then '':'' @ grp else if grp \<noteq> '''' then owner @ '':'' @ grp else owner)) k)"

definition ensureManagedDirectories :: "genEnv \<Rightarrow> string list \<Rightarrow> string \<Rightarrow> string \<Rightarrow> string \<Rightarrow> string \<Rightarrow> 'd disk \<Rightarrow> 'd disk" where
  "ensureManagedDirectories E entries kind rawMode owner grp k = foldl (\<lambda>k entry.
     let entry = trim_space entry in
     if entry = '''' then k
     else let path = path_join [managedDirectoryBase E kind, dropWhile (\<lambda>c. c = CHR ''/'') entry];
              mode = syscallMode (directoryMode rawMode)
       in chownPath E path (trim_space owner) (trim_space grp) (emit (Chmod path mode) (emit (MkdirAll path mode) k))) k entries"

definition ensureServiceDirectories :: "genEnv \<Rightarrow> unitFile \<Rightarrow> 'd disk \<Rightarrow> 'd disk" where
  "ensureServiceDirectories E u k =
     ensureManagedDirectories E (uLogsDirectory u) ''logs'' (uLogsDirMode u) (uUser u) (uGroup u)
       (ensureManagedDirectories E (uStateDirectory u) ''state'' (uStateDirMode u) (uUser u) (uGroup u)
         (ensureManagedDirectories E (uRuntimeDirectory u) ''runtime'' (uRuntimeDirMode u) (uUser u) (uGroup u) k))"

definition lookupOwnership :: "genEnv \<Rightarrow> string \<Rightarrow> string \<Rightarrow> (int \<times> int) option" where
  "lookupOwnership E owner grp =
     (case (if trim_space owner = '''' then Some (-1, -1)
            else case geLookupUser E owner of
              None \<Rightarrow> None
            | Some (uid, gid) \<Rightarrow>
                (case atoi uid of
                   None \<Rightarrow> None
                 | Some parsedUID \<Rightarrow>
                     if trim_space grp = '''' then map_option (Pair parsedUID) (atoi gid) else Some (parsedUID, -1))) of
        None \<Rightarrow> None
      | Some (uid, gid) \<Rightarrow>
          if trim_space grp = '''' then Some (uid, gid)
          else case geLookupGroup E grp of None \<Rightarrow> None | Some g \<Rightarrow> map_option (Pair uid) (atoi g))"

definition chownTo :: "genEnv \<Rightarrow> string \<Rightarrow> unitFile option \<Rightarrow> 'd disk \<Rightarrow> 'd disk \<times> bool" where
  "chownTo E path unit k =
     (case unit of
        None \<Rightarrow> (k, True)
      | Some u \<Rightarrow>
          if \<not> cfgIsRoot (geConfig E) \<or> trim_space (uUser u) = '''' \<and> trim_space (uGroup u) = '''' then (k, True)
          else case lookupOwnership E (uUser u) (uGroup u) of
            None \<Rightarrow> (k, False)
          | Some (uid, gid) \<Rightarrow> if geDiskFails E path then (k, False) else (emit (ChownIds path uid gid) k, True))"

definition ensureLoggerSpillDir :: "genEnv \<Rightarrow> string \<Rightarrow> unitFile option \<Rightarrow> 'd disk \<Rightarrow> 'd disk \<times> bool" where
  "ensureLoggerSpillDir E path unit k =
     (if geDiskFails E path then (k, False) else chownTo E path unit (emit (Chmod path 448) (emit (MkdirAll path 448) k)))"

definition ensureManagedRuntimeDir :: "genEnv \<Rightarrow> string \<Rightarrow> managedServiceMode \<Rightarrow> unitFile option \<Rightarrow> 'd disk \<Rightarrow> 'd disk \<times> bool" where
  "ensureManagedRuntimeDir E name mode unit k =
     (let dir = managedRuntimeServiceDir E name mode in
      if geDiskFails E dir then (k, False) else chownTo E dir unit (emit (MkdirAll dir 493) k))"


subsection \<open>Installing a definition\<close>

type_synonym installOptions = "string \<Rightarrow> bool"

text \<open>The two halves before dinit is told: the file, and the link to it.\<close>

definition installFile :: "genEnv \<Rightarrow> string \<Rightarrow> string \<Rightarrow> 'd disk \<Rightarrow> 'd disk \<times> bool" where
  "installFile E genPath content k =
     (if dkFiles k genPath \<noteq> Some content then osWriteFile E genPath content k else (k, True))"

definition installLink :: "genEnv \<Rightarrow> string \<Rightarrow> string \<Rightarrow> 'd disk \<Rightarrow> 'd disk \<times> bool" where
  "installLink E genPath linkPath k =
     (if dkLinks k linkPath \<noteq> Some genPath then osSymlink E genPath linkPath (osRemove E linkPath k) else (k, True))"

definition installGeneratedService ::
    "genEnv \<Rightarrow> 'd dinitProcess \<Rightarrow> installOptions \<Rightarrow> string \<Rightarrow> string \<Rightarrow> 'd disk \<Rightarrow> 'd disk \<times> bool" where
  "installGeneratedService E P freshLoadOnChange serviceName content k =
     (let genPath = path_join [cfgDinitGenDir (geConfig E), serviceName];
          linkPath = path_join [cfgDinitServiceDir (geConfig E), serviceName];
          changed = (dkFiles k genPath \<noteq> Some content);
          (k, written) = installFile E genPath content k
      in if \<not> written then (k, False)
      else let linkChanged = (dkLinks k linkPath \<noteq> Some genPath);
               (k, linked) = installLink E genPath linkPath k
        in if \<not> linked then (k, False)
        else if isDinitServiceKnown P k serviceName \<and> (changed \<or> linkChanged) then
          (if freshLoadOnChange serviceName then runDinitctl P [''unload'', ''--ignore-unstarted'', serviceName] k
           else runDinitctl P [''reload'', serviceName] k)
        else (k, True))"

definition installExternalManagedPlaceholder ::
    "genEnv \<Rightarrow> 'd dinitProcess \<Rightarrow> installOptions \<Rightarrow> string \<Rightarrow> 'd disk \<Rightarrow> 'd disk \<times> bool" where
  "installExternalManagedPlaceholder E P opts unitName k =
     installGeneratedService E P opts (externalManagedPlaceholderName E unitName)
       (generateExternalManagedPlaceholderDinit E unitName)
       (emit (MkdirAll (cfgDinitServiceDir (geConfig E)) 493) (emit (MkdirAll (cfgDinitGenDir (geConfig E)) 493) k))"

definition installDBusActivationFile :: "genEnv \<Rightarrow> unitFile option \<Rightarrow> 'd disk \<Rightarrow> 'd disk \<times> bool" where
  "installDBusActivationFile E unit k =
     (case unit of
        None \<Rightarrow> (k, True)
      | Some u \<Rightarrow>
          let dir = cfgDBusServiceDir (geConfig E) in
          if trim_space (uBusName u) = '''' \<or> trim_space dir = '''' then (k, True)
          else if geDiskFails E dir then (k, False)
          else let k = emit (MkdirAll dir 493) k;
                   path = path_join [dir, trim_space (uBusName u) @ ''.service''];
                   content = generateDBusActivationFile E (uName u) (uBusName u)
            in if dkFiles k path = Some content then (k, True)
               else let (k, written) = osWriteFile E path content k
                 in if written then (emit ReloadDBus k, True) else (k, False))"

definition obsoleteManagedServiceNames :: "string \<Rightarrow> managedServiceMode \<Rightarrow> string list" where
  "obsoleteManagedServiceNames unitName currentMode =
     map (managedServiceName unitName) (filter (\<lambda>m. m \<noteq> currentMode) [managedNotifyd, managedSocketd, managedDbusd])"

definition cleanupService :: "genEnv \<Rightarrow> 'd dinitProcess \<Rightarrow> string \<Rightarrow> 'd disk \<Rightarrow> 'd disk" where
  "cleanupService E P serviceName k =
     (let k = (if isDinitServiceKnown P k serviceName
               then fst (runDinitctl P [''unload'', ''--ignore-unstarted'', serviceName] (fst (runDinitctl P [''stop'', serviceName] k)))
               else k)
      in osRemove E (path_join [cfgDinitServiceDir (geConfig E), loggerServiceName serviceName])
           (osRemove E (path_join [cfgDinitServiceDir (geConfig E), serviceName]) k))"

definition cleanupObsoleteManagedServices :: "genEnv \<Rightarrow> 'd dinitProcess \<Rightarrow> string \<Rightarrow> managedServiceMode \<Rightarrow> 'd disk \<Rightarrow> 'd disk" where
  "cleanupObsoleteManagedServices E P unitName currentMode k =
     foldl (\<lambda>k s. cleanupService E P s k) k (obsoleteManagedServiceNames unitName currentMode)"

text \<open>The path of the native cgroup, empty when none is used; the left side is an error.\<close>

definition prepareNativeCgroup :: "genEnv \<Rightarrow> string \<Rightarrow> unit + string" where
  "prepareNativeCgroup E unit =
     (if \<not> cfgNativeCgroups (geConfig E) then Inr ''''
      else case (if userMode (geConfig E) then map_option (Pair ModeUser) (parse_uint 32 (currentUID (geHost E)))
                 else Some (ModeSystem, 0)) of
        None \<Rightarrow> Inl ()
      | Some (mode, uid) \<Rightarrow>
          (case geCgroupDo E \<lparr>reqOperation = OpPrepare, reqMode = mode, reqUID = of_nat uid,
                  reqUnit = trim_suffix unit ''.service'' @ ''.service'', reqPID = 0\<rparr> of
             Inl absent \<Rightarrow> if absent then Inr '''' else Inl ()
           | Inr r \<Rightarrow>
               (case rspUnit r of
                  None \<Rightarrow> Inl ()
                | Some st \<Rightarrow>
                    if usPath st = '''' then Inl ()
                    else case path_rel ''/sys/fs/cgroup'' (usPath st) of
                      None \<Rightarrow> Inl ()
                    | Some relative \<Rightarrow>
                        if relative = ''..'' \<or> has_prefix relative ''../'' then Inl () else Inr (''/'' @ relative))))"

subsection \<open>The recursive installation\<close>

type_synonym 'd installState = "string list \<times> 'd disk"

text \<open>The loop over the dependencies, over the installation of one unit; it stops at the first failure.\<close>

fun installDependencies ::
    "genEnv \<Rightarrow> 'd dinitProcess \<Rightarrow> installOptions \<Rightarrow> (string \<Rightarrow> 'd installState \<Rightarrow> ('d installState \<times> bool) option) \<Rightarrow>
     string list \<Rightarrow> 'd installState \<Rightarrow> ('d installState \<times> bool) option" where
  "installDependencies E P opts install [] s = Some (s, True)"
| "installDependencies E P opts install (d # ds) (visited, k) =
     (let cleanDep = trim_suffix (genAlias E d) ''.service'' in
      if geExternal E cleanDep then
        (let (k, ok) = installExternalManagedPlaceholder E P opts cleanDep k
         in if ok then installDependencies E P opts install ds (visited, k) else Some ((visited, k), False))
      else if resolvedDependencyServiceName E (isDinitServiceKnown P k) d \<noteq> None then
        (case install cleanDep (visited, k) of
           None \<Rightarrow> None
         | Some (s, ok) \<Rightarrow> if ok then installDependencies E P opts install ds s else Some (s, False))
      else installDependencies E P opts install ds (visited, k))"

text \<open>What happens after the dependencies, up to the end of the function.\<close>

definition makeRuntimeDirectories :: "genEnv \<Rightarrow> string \<Rightarrow> managedServiceMode \<Rightarrow> unitFile \<Rightarrow> 'd disk \<Rightarrow> 'd disk \<times> bool" where
  "makeRuntimeDirectories E cleanName mode u k =
     (let k = emit (MkdirAll (cfgDinitServiceDir (geConfig E)) 493) (emit (MkdirAll (cfgDinitGenDir (geConfig E)) 493) k);
          (k, ok) = (if mode \<noteq> managedDirect then ensureManagedRuntimeDir E cleanName mode (Some u) k else (k, True))
      in if \<not> ok then (k, False)
      else let pDir = path_dir (uPIDFile u);
               k = (if uPIDFile u \<noteq> '''' \<and> pDir \<noteq> ''/'' \<and> pDir \<noteq> ''.'' then
                      (let k = emit (MkdirAll pDir 493) k
                       in if cfgIsRoot (geConfig E) \<and> uUser u \<noteq> '''' then emit (Chown pDir (uUser u)) k else k)
                    else k)
        in (ensureServiceDirectories E u k, True))"

definition serviceContent :: "genEnv \<Rightarrow> (string \<Rightarrow> bool) \<Rightarrow> string \<Rightarrow> unitFile \<Rightarrow> managedServiceMode \<Rightarrow> socketUnit option \<Rightarrow> unit + string" where
  "serviceContent E known cleanName u mode socketUnit =
     (let content = (if mode \<noteq> managedDirect then GenerateNotifydDinit E known u mode socketUnit else GenerateDinit E known u) in
      case prepareNativeCgroup E cleanName of
        Inl e \<Rightarrow> Inl e
      | Inr groupPath \<Rightarrow>
          Inr (if groupPath \<noteq> '''' then content @ ''run-in-cgroup = '' @ dinitArg groupPath @ newline else content))"

definition installUnit ::
    "genEnv \<Rightarrow> 'd dinitProcess \<Rightarrow> installOptions \<Rightarrow> string \<Rightarrow> unitFile \<Rightarrow> socketUnit option \<Rightarrow> bool \<Rightarrow> 'd disk \<Rightarrow> 'd disk \<times> bool" where
  "installUnit E P opts cleanName u socketUnit knownToDinit k =
     (let mode = managedServiceModeForUnit (Some u) socketUnit;
          serviceName = managedServiceName cleanName mode;
          loggerName = loggerServiceName serviceName;
          (k, ok) = makeRuntimeDirectories E cleanName mode u k
      in if \<not> ok then (k, False)
      else case serviceContent E (isDinitServiceKnown P k) cleanName u mode socketUnit of
        Inl _ \<Rightarrow> (k, False)
      | Inr content \<Rightarrow>
          let (k, ok) = installGeneratedService E P opts serviceName content k in
          if \<not> ok then (k, False)
          else let (k, ok) = (if trim_space (uBusName u) \<noteq> '''' then installDBusActivationFile E (Some u) k else (k, True)) in
          if \<not> ok then (k, False)
          else let (k, ok) = ensureLoggerSpillDir E (loggerSpillDir E loggerName) (Some u) k in
          if \<not> ok then (k, False)
          else let (k, ok) = installGeneratedService E P opts loggerName (generateLoggerDinit E serviceName cleanName (Some u)) k in
          if \<not> ok then (k, False)
          else ((if knownToDinit \<and> \<not> isDinitServiceKnown P k serviceName then fst (runDinitctl P [''reload'', serviceName] k) else k),
                True))"

fun recursiveInstall ::
    "nat \<Rightarrow> genEnv \<Rightarrow> 'd dinitProcess \<Rightarrow> installOptions \<Rightarrow> string \<Rightarrow> 'd installState \<Rightarrow> ('d installState \<times> bool) option" where
  "recursiveInstall 0 E P opts unitName s = None"
| "recursiveInstall (Suc fuel) E P opts unitName (visited, k) =
     (let cleanName = trim_suffix unitName ''.service'' in
      if cleanName \<in> set visited then Some ((visited, k), True)
      else let visited = visited @ [cleanName] in
        case genParse E cleanName of
          Inl _ \<Rightarrow> Some ((visited, k), False)
        | Inr u \<Rightarrow>
            (case parseOptionalSocketUnit (geConfig E) (geHost E) cleanName of
               Inl _ \<Rightarrow> Some ((visited, k), False)
             | Inr socketUnit \<Rightarrow>
                 if uReadyFD u \<noteq> 0 \<and> socketUnit \<noteq> None then Some ((visited, k), False)
                 else let mode = managedServiceModeForUnit (Some u) socketUnit;
                          knownToDinit = isDinitServiceKnown P k (managedServiceName cleanName mode);
                          k = cleanupObsoleteManagedServices E P cleanName mode k
                   in (case installDependencies E P opts (recursiveInstall fuel E P opts) (hardStartDependencies u) (visited, k) of
                         None \<Rightarrow> None
                       | Some ((visited, k), ok) \<Rightarrow>
                           if \<not> ok then Some ((visited, k), False)
                           else let (k, ok) = installUnit E P opts cleanName u socketUnit knownToDinit k
                             in Some ((visited, k), ok))))"


subsection \<open>Old logger definitions\<close>

datatype split_error = TrailingEscape | UnterminatedQuote | EmptyCommand

record splitState =
  spResult :: "string list"
  spCurrent :: string
  spQuote :: "char option"
  spEscaped :: bool
  spHasToken :: bool

definition splitStart :: splitState where
  "splitStart = \<lparr>spResult = [], spCurrent = '''', spQuote = None, spEscaped = False, spHasToken = False\<rparr>"

definition splitFlush :: "splitState \<Rightarrow> splitState" where
  "splitFlush s =
     (if \<not> spHasToken s then s else s\<lparr>spResult := spResult s @ [spCurrent s], spCurrent := '''', spHasToken := False\<rparr>)"

definition splitWrite :: "char \<Rightarrow> splitState \<Rightarrow> splitState" where
  "splitWrite c s = s\<lparr>spCurrent := spCurrent s @ [c], spHasToken := True\<rparr>"

definition splitByte :: "splitState \<Rightarrow> char \<Rightarrow> splitState" where
  "splitByte s c =
     (if spEscaped s then (splitWrite c s)\<lparr>spEscaped := False\<rparr>
      else if c = CHR 0x5C then s\<lparr>spEscaped := True, spHasToken := True\<rparr>
      else case spQuote s of
        Some q \<Rightarrow> if c = q then s\<lparr>spQuote := None, spHasToken := True\<rparr> else splitWrite c s
      | None \<Rightarrow>
          if c = CHR 0x27 \<or> c = CHR 0x22 then s\<lparr>spQuote := Some c, spHasToken := True\<rparr>
          else if c \<in> {CHR '' '', CHR 0x09, CHR 0x0A, CHR 0x0D} then splitFlush s
          else splitWrite c s)"

definition splitSystemdCommandLine :: "string \<Rightarrow> split_error + string list" where
  "splitSystemdCommandLine command =
     (let s = foldl splitByte splitStart command in
      if spEscaped s then Inl TrailingEscape
      else if spQuote s \<noteq> None then Inl UnterminatedQuote
      else let result = spResult (splitFlush s) in if result = [] then Inl EmptyCommand else Inr result)"

definition validGeneratedServiceName :: "string \<Rightarrow> bool" where
  "validGeneratedServiceName name \<longleftrightarrow>
     \<not> (name = '''' \<or> name = ''.'' \<or> name = ''..'' \<or> path_base name \<noteq> name) \<and>
     \<not> contains_any name [CHR 0x00, CHR 0x0D, CHR 0x0A, CHR 0x09, CHR '' '']"

definition legacyLine :: "string \<times> string \<Rightarrow> string \<Rightarrow> string \<times> string" where
  "legacyLine acc line =
     (let (serviceName, command) = acc; line = trim_space line in
      (if has_prefix line ''consumer-of ='' then trim_space (trim_prefix line ''consumer-of ='') else serviceName,
       if has_prefix line ''command ='' then trim_space (trim_prefix line ''command ='') else command))"

text \<open>The argument after the first \<open>-service\<close> at an index from one on.\<close>

fun serviceArgument :: "string list \<Rightarrow> string" where
  "serviceArgument (a # v # rest) = (if a = ''-service'' \<or> a = ''--service'' then trim_space v else serviceArgument (v # rest))"
| "serviceArgument _ = ''''"

definition parseLegacyLoggerDefinition :: "string \<Rightarrow> (string \<times> string) option" where
  "parseLegacyLoggerDefinition content =
     (let (serviceName, command) = foldl legacyLine ('''', '''') (split_on CHR 0x0A content) in
      if \<not> validGeneratedServiceName serviceName \<or> command = '''' then None
      else case splitSystemdCommandLine command of
        Inl _ \<Rightarrow> None
      | Inr argv \<Rightarrow>
          if argv = [] \<or> path_base (hd argv) \<noteq> ''sys-logd'' then None
          else let logicalName = serviceArgument (tl argv)
            in if logicalName = '''' then None else Some (serviceName, logicalName))"

definition migrateEntry ::
    "genEnv \<Rightarrow> 'd dinitProcess \<Rightarrow> string \<times> bool \<Rightarrow> 'd disk \<Rightarrow> 'd disk \<times> bool" where
  "migrateEntry E P entry k =
     (let (name, isDir) = entry in
      if isDir \<or> \<not> has_suffix name ''-log'' then (k, True)
      else case dkFiles k (path_join [cfgDinitGenDir (geConfig E), name]) of
        None \<Rightarrow> (k, False)
      | Some content \<Rightarrow>
          if contains content '' -worker '' then (k, True)
          else case parseLegacyLoggerDefinition content of
            None \<Rightarrow> (k, True)
          | Some (serviceName, logicalName) \<Rightarrow>
              if loggerServiceName serviceName \<noteq> name then (k, True)
              else case genParse E logicalName of
                Inl _ \<Rightarrow> (k, True)
              | Inr u \<Rightarrow>
                  let (k, ok) = ensureLoggerSpillDir E (loggerSpillDir E name) (Some u) k in
                  if \<not> ok then (k, False)
                  else installGeneratedService E P (\<lambda>_. False) name (generateLoggerDinit E serviceName logicalName (Some u)) k)"

fun migrateEntries :: "genEnv \<Rightarrow> 'd dinitProcess \<Rightarrow> (string \<times> bool) list \<Rightarrow> 'd disk \<Rightarrow> 'd disk \<times> bool" where
  "migrateEntries E P [] k = (k, True)"
| "migrateEntries E P (e # es) k =
     (let (k, ok) = migrateEntry E P e k in if ok then migrateEntries E P es k else (k, False))"

text \<open>The listing of the directory: none when it does not exist.\<close>

definition migrateGeneratedLoggerDefinitions ::
    "genEnv \<Rightarrow> 'd dinitProcess \<Rightarrow> (string \<times> bool) list option \<Rightarrow> 'd disk \<Rightarrow> 'd disk \<times> bool" where
  "migrateGeneratedLoggerDefinitions E P listing k =
     (case listing of None \<Rightarrow> (k, True) | Some entries \<Rightarrow> migrateEntries E P entries k)"

section \<open>Quoting\<close>

text \<open>
  \<open>dinitArg\<close> quotes one argument; the line joins them with blanks. The reference for reading them back is
  \<open>dinitTokens\<close>, how dinit splits a command line.
\<close>

definition dinitPlain :: "char \<Rightarrow> bool" where
  "dinitPlain c \<longleftrightarrow> c \<notin> {CHR '' '', CHR 0x09, CHR 0x0A, CHR 0x0D, CHR 0x22, CHR 0x5C}"

definition escapeByte :: "char \<Rightarrow> string" where
  "escapeByte c = (if c = CHR 0x5C \<or> c = CHR 0x22 then [CHR 0x5C, c] else [c])"

lemma replace_all_map: "replace_all s [c] r = concat (map (\<lambda>d. if d = c then r else [d]) s)"
  by (induction s) (auto simp: replace_all.simps has_prefix_def)

lemma escape_concat:
  "replace_all (replace_all s [CHR 0x5C] [CHR 0x5C, CHR 0x5C]) [CHR 0x22] [CHR 0x5C, CHR 0x22] = concat (map escapeByte s)"
  unfolding replace_all_map by (induction s) (auto simp: escapeByte_def)

lemma dinitArg_alt:
  "dinitArg s = (if s \<noteq> [] \<and> list_all dinitPlain s then s else [CHR 0x22] @ concat (map escapeByte s) @ [CHR 0x22])"
proof -
  have "(\<not> contains_any s [CHR '' '', CHR 0x09, CHR 0x0A, CHR 0x0D, CHR 0x22, CHR 0x5C]) = list_all dinitPlain s"
    by (auto simp: contains_any_iff dinitPlain_def list_all_iff)
  then show ?thesis by (simp add: dinitArg_def escape_concat)
qed

lemma dinitTokens_dinitPlain:
  "list_all dinitPlain s \<Longrightarrow> dinitTokens False (Some w) (s @ t) = dinitTokens False (Some (w @ s)) t"
  by (induction s arbitrary: w) (auto simp: dinitPlain_def)

lemma dinitTokens_escaped:
  "dinitTokens True (Some w) (concat (map escapeByte s) @ t) = dinitTokens True (Some (w @ s)) t"
  by (induction s arbitrary: w) (auto simp: escapeByte_def)

lemma dinitTokens_dinitArg: "dinitTokens False None (dinitArg s @ t) = dinitTokens False (Some s) t"
proof (cases "s \<noteq> [] \<and> list_all dinitPlain s")
  case True
  then obtain c r where s: "s = c # r" "dinitPlain c" "list_all dinitPlain r" by (cases s) auto
  then show ?thesis using True dinitTokens_dinitPlain [of r "[c]" t] by (simp add: dinitArg_alt) (simp add: dinitPlain_def)
next
  case False
  then show ?thesis using dinitTokens_escaped [of "[]" s "CHR 0x22 # t"] by (auto simp: dinitArg_alt)
qed

lemma dinitTokens_dinitArgs: "dinitTokens False None (join '' '' (map dinitArg args)) = args"
proof (induction args)
  case (Cons a args)
  then show ?case using dinitTokens_dinitArg [of a "[]"] dinitTokens_dinitArg [of a]
    by (cases args) (simp_all add: join_Cons)
qed simp


lemma set_dinitArg: "set (dinitArg s) \<subseteq> set s \<union> {CHR 0x22, CHR 0x5C}"
  by (auto simp: dinitArg_alt escapeByte_def split: if_splits)

lemma set_joined_args: "set (join '' '' (map dinitArg args)) \<subseteq> (\<Union>a \<in> set args. set a) \<union> {CHR 0x22, CHR 0x5C, CHR '' ''}"
proof (induction args)
  case (Cons a args)
  then show ?case using set_dinitArg [of a] by (cases args) (auto simp: join_Cons)
qed simp

text \<open>A definition is a list of lines; the values of a setting are what follows its name and the equals sign.\<close>

definition dinitSettings :: "string \<Rightarrow> string \<Rightarrow> string list" where
  "dinitSettings key content =
     map (\<lambda>l. trim_prefix l (key @ '' = '')) (filter (\<lambda>l. has_prefix l (key @ '' = '')) (split_on CHR 0x0A content))"

definition runAs :: "genEnv \<Rightarrow> unitFile option \<Rightarrow> string list" where
  "runAs E unit =
     (case unit of
        Some u \<Rightarrow> if \<not> userMode (geConfig E) \<and> trim_space (uUser u) \<noteq> '''' then [''run-as = '' @ dinitArg (trim_space (uUser u))] else []
      | None \<Rightarrow> [])"

lemma generateLoggerDinit_lines:
  "generateLoggerDinit E s n unit = linesText ([''# Log consumer for '' @ s, ''type = process'', ''consumer-of = '' @ s,
     ''command = '' @ join '' '' (map dinitArg (loggerArgs E s n))] @ runAs E unit @ [''restart = false''])"
  by (simp add: generateLoggerDinit_def linesText_def runAs_def split: option.split)

lemma set_runAs:
  assumes "\<And>u. unit = Some u \<Longrightarrow> CHR 0x0A \<notin> set (uUser u)" and "l \<in> set (runAs E unit)"
  shows "CHR 0x0A \<notin> set l \<and> \<not> has_prefix l ''command = ''"
proof -
  have "CHR 0x0A \<notin> set (dinitArg (trim_space x))" if "CHR 0x0A \<notin> set x" for x
    using that set_dinitArg [of "trim_space x"] set_trim_space [of x] by auto
  then show ?thesis using assms by (auto simp: runAs_def has_prefix_def split: option.splits if_splits)
qed

section \<open>Properties\<close>

lemma validDinit_newline: "validDinitServiceName s \<Longrightarrow> CHR 0x0A \<notin> set s"
  by (auto simp: validDinitServiceName_def list_all_iff Let_def)

lemma logger_settings:
  assumes "CHR 0x0A \<notin> set s" "CHR 0x0A \<notin> set n" "CHR 0x0A \<notin> set (logdBinaryPath E)" "CHR 0x0A \<notin> set (cfgMode (geConfig E))"
    and "CHR 0x0A \<notin> set (loggerSpillDir E (loggerServiceName s))"
    and "\<And>u. unit = Some u \<Longrightarrow> CHR 0x0A \<notin> set (uUser u)"
  shows "dinitSettings ''command'' (generateLoggerDinit E s n unit) = [join '' '' (map dinitArg (loggerArgs E s n))]"
proof -
  have "CHR 0x0A \<notin> set (trim_suffix n ''.service'')" using assms(2) set_trim_suffix [of n "''.service''"] by blast
  then have "\<forall>a \<in> set (loggerArgs E s n). CHR 0x0A \<notin> set a"
    using assms(1-5) by (simp add: loggerArgs_def Let_def) (simp add: loggerServiceName_def)
  then have "CHR 0x0A \<notin> set (join '' '' (map dinitArg (loggerArgs E s n)))"
    using set_joined_args [of "loggerArgs E s n"] by auto
  then have "split_on CHR 0x0A (generateLoggerDinit E s n unit) = ([''# Log consumer for '' @ s, ''type = process'', ''consumer-of = '' @ s,
     ''command = '' @ join '' '' (map dinitArg (loggerArgs E s n))] @ runAs E unit @ [''restart = false'']) @ ['''']"
    unfolding generateLoggerDinit_lines using assms(1) set_runAs [OF assms(6)] by (intro split_linesText) auto
  moreover have "filter (\<lambda>l. has_prefix l ''command = '') (runAs E unit) = []"
    using set_runAs [OF assms(6)] by (auto simp: filter_empty_conv)
  ultimately show ?thesis by (simp add: dinitSettings_def has_prefix_def trim_prefix_def)
qed

lemma worker_route_of_loggerArgs:
  assumes "cfgMode (geConfig E) \<in> {''system'', ''user''}"
    and "canonicalJournalUnit (trim_suffix n ''.service'' @ ''.service'') = Inr unit"
    and "validDinitServiceName (loggerServiceName s)"
  shows "parseWorkerRoute (loggerArgs E s n) =
    Inr \<lparr>wrScope = cfgMode (geConfig E), wrUnit = unit, wrLoggerService = loggerServiceName s\<rparr>"
proof -
  have "parseFlagArgs workerFlags (tl (loggerArgs E s n)) =
    Inr ([(''worker'', ''true''), (''scope'', cfgMode (geConfig E)), (''unit'', trim_suffix n ''.service'' @ ''.service''),
      (''logger-service'', loggerServiceName s), (''service'', trim_suffix n ''.service''),
      (''spill-dir'', loggerSpillDir E (loggerServiceName s))], [])"
    by (simp add: loggerArgs_def classifyArg_def splitFlag_def workerFlags_def Let_def)
  then show ?thesis using assms
    by (simp add: parseWorkerRoute_def loggerArgs_def flagValue_def Let_def)
qed



definition demoGen :: genEnv where
  "demoGen = \<lparr>geConfig = initConfig demoHost, geHost = demoHost, geExecutableDir = '''', geLookPath = (\<lambda>_. None),
     geExternal = (\<lambda>_. False), geLookupUser = (\<lambda>_. None), geLookupGroup = (\<lambda>_. None), geDiskFails = (\<lambda>_. False),
     geCgroupDo = (\<lambda>_. Inl True)\<rparr>"

lemma demoGen_paths:
  "logdBinaryPath demoGen = ''sys-logd''" "cfgMode (geConfig demoGen) = ''system''"
  "loggerSpillDir demoGen ''foo-log'' = ''/run/servicectl/logspill/system/foo-log''"
  by code_simp+


text \<open>The words of the backend's command line before quoting: what the manager is to receive.\<close>

definition listenWords :: "string \<Rightarrow> string \<Rightarrow> string \<Rightarrow> string list" where
  "listenWords inet unix addr = [''-listen'', (if has_prefix addr ''/'' then unix else inet) @ '':'' @ normalizeSocketAddress addr]"

definition flagWords :: "string \<Rightarrow> string \<Rightarrow> string list" where
  "flagWords flag v = (if v \<noteq> '''' then [flag, v] else [])"

definition socketWords :: "socketUnit option \<Rightarrow> string list" where
  "socketWords socketUnit =
     (case socketUnit of
        None \<Rightarrow> []
      | Some s \<Rightarrow>
          concat (map (listenWords ''tcp'' ''unix'') (suListenStreams s)) @
          concat (map (listenWords ''udp'' ''unixgram'') (suListenDgrams s)) @
          flagWords ''-socket-mode'' (suSocketMode s) @
          concat (map (\<lambda>fdName. [''-fdname'', fdName]) (suFDNames s)) @
          flagWords ''-socket-user'' (suSocketUser s) @ flagWords ''-socket-group'' (suSocketGroup s))"

definition notifydWords :: "genEnv \<Rightarrow> unitFile \<Rightarrow> managedServiceMode \<Rightarrow> socketUnit option \<Rightarrow> string list" where
  "notifydWords E u mode socketUnit =
     (let env = mergedServiceEnv (geConfig E) (geHost E) u in
      [notifydBinaryPath E, ''-service'', uName u, ''-service-type'', to_lower (uType u)] @
      (if mode = managedDbusd then [''-bus-name'', uBusName u, ''-control-path'', managedControlPath E (uName u) mode] else []) @
      [''-command'', buildEnvPrefix env @ compileExecStart u env, ''-state-file'', notifydStatePath E (uName u) mode,
       ''-ready-fd'', ''3''] @
      (if userMode (geConfig E) then [''-user''] else []) @
      flagWords ''-stop-command'' (compileExecStop u env) @
      (if equal_fold (uType u) ''notify''
       then [''-notify'', ''-notify-path'', managedNotifySocketPath E (uName u) mode, ''-ready-timeout'', ''30s''] else []) @
      flagWords ''-ready-timeout'' (normalizeTimeoutValue (uTimeoutStartSec u)) @
      flagWords ''-stop-timeout'' (normalizeTimeoutValue (uTimeoutStopSec u)) @
      flagWords ''-kill-signal'' (normalizeSignalName (uKillSignal u)) @
      (if mode = managedSocketd \<or> mode = managedDbusd then socketWords socketUnit else [''-start-now'']))"

lemma dinitArg_plain: "s \<noteq> [] \<Longrightarrow> list_all dinitPlain s \<Longrightarrow> dinitArg s = s"
  by (simp add: dinitArg_alt)

lemma dinitArg_options:
  "dinitArg ''-service'' = ''-service''" "dinitArg ''-service-type'' = ''-service-type''" "dinitArg ''-bus-name'' = ''-bus-name''"
  "dinitArg ''-control-path'' = ''-control-path''" "dinitArg ''-command'' = ''-command''" "dinitArg ''-state-file'' = ''-state-file''"
  "dinitArg ''-ready-fd'' = ''-ready-fd''" "dinitArg ''3'' = ''3''" "dinitArg ''-user'' = ''-user''"
  "dinitArg ''-stop-command'' = ''-stop-command''" "dinitArg ''-notify'' = ''-notify''" "dinitArg ''-notify-path'' = ''-notify-path''"
  "dinitArg ''-ready-timeout'' = ''-ready-timeout''" "dinitArg ''30s'' = ''30s''" "dinitArg ''-stop-timeout'' = ''-stop-timeout''"
  "dinitArg ''-kill-signal'' = ''-kill-signal''" "dinitArg ''-start-now'' = ''-start-now''" "dinitArg ''-listen'' = ''-listen''"
  "dinitArg ''-socket-mode'' = ''-socket-mode''" "dinitArg ''-fdname'' = ''-fdname''" "dinitArg ''-socket-user'' = ''-socket-user''"
  "dinitArg ''-socket-group'' = ''-socket-group''"
  by (simp_all add: dinitArg_plain dinitPlain_def)

lemma map_flagWords: "dinitArg flag = flag \<Longrightarrow> map dinitArg (flagWords flag v) = (if v \<noteq> '''' then [flag, dinitArg v] else [])"
  by (simp add: flagWords_def)

lemma socketListenArgs_words: "socketListenArgs socketUnit = map dinitArg (socketWords socketUnit)"
proof -
  have "listenArgs inet unix = (\<lambda>addr. map dinitArg (listenWords inet unix addr))" for inet unix
    by (rule ext) (simp add: listenArgs_def listenWords_def dinitArg_options)
  then show ?thesis
    by (simp add: socketListenArgs_def socketWords_def map_flagWords dinitArg_options map_concat o_def split: option.split)
qed

lemma notifydArgs_words:
  assumes "notifydBinaryPath E \<noteq> ''''" "list_all dinitPlain (notifydBinaryPath E)"
  shows "notifydArgs E u mode socketUnit = map dinitArg (notifydWords E u mode socketUnit)"
  unfolding notifydArgs_def notifydWords_def Let_def map_append socketListenArgs_words
  by (simp add: map_flagWords dinitArg_options dinitArg_plain [OF assms])




subsection \<open>Installing\<close>

declare path_join.simps [simp del]

abbreviation genPathOf :: "genEnv \<Rightarrow> string \<Rightarrow> string" where
  "genPathOf E name \<equiv> path_join [cfgDinitGenDir (geConfig E), name]"

abbreviation linkPathOf :: "genEnv \<Rightarrow> string \<Rightarrow> string" where
  "linkPathOf E name \<equiv> path_join [cfgDinitServiceDir (geConfig E), name]"

lemma emit_simps [simp]:
  "dkFiles (emit e k) = dkFiles k" "dkLinks (emit e k) = dkLinks k" "dkDinit (emit e k) = dkDinit k"
  "dkEffects (emit e k) = dkEffects k @ [e]"
  by (simp_all add: emit_def)

lemma runDinitctl_disk [simp]:
  "dkFiles (fst (runDinitctl P args k)) = dkFiles k" "dkLinks (fst (runDinitctl P args k)) = dkLinks k"
  "dkEffects (fst (runDinitctl P args k)) = dkEffects k @ [Dinitctl args]"
  by (simp_all add: runDinitctl_def split: prod.split)

text \<open>What the two halves leave, and that telling dinit changes neither.\<close>

lemma installFile_ok: "installFile E p content k = (k', True) \<Longrightarrow> dkFiles k' p = Some content"
  by (auto simp: installFile_def osWriteFile_def split: if_splits)

lemma installFile_frame:
  "q \<noteq> p \<Longrightarrow> dkFiles (fst (installFile E p content k)) q = dkFiles k q" "dkLinks (fst (installFile E p content k)) = dkLinks k"
  by (auto simp: installFile_def osWriteFile_def)

lemma installLink_ok: "installLink E g l k = (k', True) \<Longrightarrow> dkLinks k' l = Some g"
  by (auto simp: installLink_def osSymlink_def osRemove_def split: if_splits)

lemma installLink_frame:
  "q \<noteq> l \<Longrightarrow> dkFiles (fst (installLink E g l k)) q = dkFiles k q"
  "q \<noteq> l \<Longrightarrow> dkLinks (fst (installLink E g l k)) q = dkLinks k q"
  by (auto simp: installLink_def osSymlink_def osRemove_def)

lemma installGeneratedService_disk:
  fixes E P opts name content k
  defines "k1 \<equiv> installFile E (genPathOf E name) content k"
  defines "k2 \<equiv> installLink E (genPathOf E name) (linkPathOf E name) (fst k1)"
  defines "k3 \<equiv> installGeneratedService E P opts name content k"
  shows "dkFiles (fst k3) = dkFiles (if snd k1 then fst k2 else fst k1)" "dkLinks (fst k3) = dkLinks (if snd k1 then fst k2 else fst k1)"
    "snd k3 \<Longrightarrow> snd k1 \<and> snd k2"
  unfolding k3_def installGeneratedService_def Let_def k1_def [symmetric] by (auto simp: k2_def split: prod.split prod.split_asm if_split_asm)

lemma installGeneratedService_ok:
  assumes "installGeneratedService E P opts name content k = (k', True)" and "linkPathOf E name \<noteq> genPathOf E name"
  shows "dkFiles k' (genPathOf E name) = Some content \<and> dkLinks k' (linkPathOf E name) = Some (genPathOf E name)"
proof -
  obtain k1 where k1: "installFile E (genPathOf E name) content k = (k1, True)"
    using installGeneratedService_disk(3) [of E P opts name content k] assms(1) by (metis prod.collapse snd_conv)
  then obtain k2 where k2: "installLink E (genPathOf E name) (linkPathOf E name) k1 = (k2, True)"
    using installGeneratedService_disk(3) [of E P opts name content k] assms(1) by (metis fst_conv prod.collapse snd_conv)
  have "dkFiles k' = dkFiles k2" "dkLinks k' = dkLinks k2"
    using installGeneratedService_disk(1,2) [of E P opts name content k] by (simp_all add: assms(1) k1 k2)
  with installFile_ok [OF k1] installLink_ok [OF k2] installLink_frame(1) [of "genPathOf E name" "linkPathOf E name" E _ k1] assms(2) k2
  show ?thesis by simp (metis fst_conv)
qed

lemma installGeneratedService_again:
  assumes "dkFiles k (genPathOf E name) = Some content" "dkLinks k (linkPathOf E name) = Some (genPathOf E name)"
  shows "installGeneratedService E P opts name content k = (k, True)"
  using assms by (simp add: installGeneratedService_def installFile_def installLink_def Let_def)

text \<open>
  Fact. Installing is idempotent. Once a definition has been installed, its file holds the content,
  its link points to the file, and installing the same content again writes nothing, replaces no link and
  sends dinit no command, with whatever options and whatever dinit knows by then.
\<close>

theorem install_idempotent:
  assumes "installGeneratedService E P opts name content k = (k', True)"
    and "linkPathOf E name \<noteq> genPathOf E name"
  shows "dkFiles k' (genPathOf E name) = Some content \<and> dkLinks k' (linkPathOf E name) = Some (genPathOf E name) \<and>
    installGeneratedService E P opts' name content (k'\<lparr>dkDinit := d\<rparr>) = (k'\<lparr>dkDinit := d\<rparr>, True)"
  using installGeneratedService_ok [OF assms]
  by (simp add: installGeneratedService_again)

definition demoDinit :: "string list dinitProcess" where
  "demoDinit = \<lparr>dpKnown = (\<lambda>d name. name \<in> set d),
     dpCommand = (\<lambda>args d. (if hd args = ''unload'' then removeAll (last args) d else d, True))\<rparr>"

definition demoDisk :: "string list disk" where
  "demoDisk = \<lparr>dkFiles = Map.empty, dkLinks = Map.empty, dkDinit = [''foo''], dkEffects = []\<rparr>"

theorem install_idempotent_witness:
  "let k' = fst (installGeneratedService demoGen demoDinit (\<lambda>_. False) ''foo'' ''x'' demoDisk) in
   dkFiles k' (genPathOf demoGen ''foo'') = Some ''x'' \<and> dkLinks k' (linkPathOf demoGen ''foo'') = Some (genPathOf demoGen ''foo'') \<and>
   installGeneratedService demoGen demoDinit (\<lambda>_. False) ''foo'' ''x'' (k'\<lparr>dkDinit := []\<rparr>) = (k'\<lparr>dkDinit := []\<rparr>, True)"
proof -
  have "snd (installGeneratedService demoGen demoDinit (\<lambda>_. False) ''foo'' ''x'' demoDisk)"
    "linkPathOf demoGen ''foo'' \<noteq> genPathOf demoGen ''foo''" by code_simp+
  then show ?thesis
    unfolding Let_def by (intro install_idempotent [where opts = "\<lambda>_. False"]) (auto simp: prod_eq_iff)
qed

subsection \<open>Migrating\<close>

lemma join_worker: "contains (join '' '' (a # ''-worker'' # b # rest)) '' -worker ''"
  unfolding contains_iff by (rule exI [of _ a], rule exI [of _ "join '' '' (b # rest)"]) (simp add: join_Cons)

lemma contains_append: "contains t sub \<Longrightarrow> contains (s @ t) sub" "contains s sub \<Longrightarrow> contains (s @ t) sub"
  unfolding contains_iff by (metis append.assoc)+

lemma generateLoggerDinit_worker: "contains (generateLoggerDinit E s n unit) '' -worker ''"
proof -
  have "contains (join '' '' (map dinitArg (loggerArgs E s n))) '' -worker ''"
    by (simp add: loggerArgs_def Let_def dinitArg_plain dinitPlain_def del: join.simps) (rule join_worker)
  then show ?thesis unfolding generateLoggerDinit_def by (intro contains_append)
qed

text \<open>The files and links below other names are not touched.\<close>

lemma installGeneratedService_frame:
  assumes "p \<noteq> genPathOf E name" "p \<noteq> linkPathOf E name"
  shows "dkFiles (fst (installGeneratedService E P opts name content k)) p = dkFiles k p"
  using assms installFile_frame(1) [of p "genPathOf E name" E content k]
  by (simp add: installGeneratedService_disk installLink_frame)

lemma chownTo_disk [simp]:
  "dkFiles (fst (chownTo E path u k)) = dkFiles k" "dkLinks (fst (chownTo E path u k)) = dkLinks k"
  "dkDinit (fst (chownTo E path u k)) = dkDinit k"
  by (auto simp: chownTo_def split: option.split)

lemma ensureLoggerSpillDir_disk [simp]:
  "dkFiles (fst (ensureLoggerSpillDir E path u k)) = dkFiles k" "dkLinks (fst (ensureLoggerSpillDir E path u k)) = dkLinks k"
  "dkDinit (fst (ensureLoggerSpillDir E path u k)) = dkDinit k"
  by (auto simp: ensureLoggerSpillDir_def)


text \<open>An entry that the migration leaves alone; this depends on the content of its file only.\<close>

definition leftAlone :: "genEnv \<Rightarrow> string \<Rightarrow> string \<Rightarrow> bool" where
  "leftAlone E name content \<longleftrightarrow> contains content '' -worker '' \<or>
     (case parseLegacyLoggerDefinition content of
        None \<Rightarrow> True
      | Some (s, n) \<Rightarrow> loggerServiceName s \<noteq> name \<or> \<not> is_ok (genParse E n))"

definition quietEntry :: "genEnv \<Rightarrow> string \<times> bool \<Rightarrow> 'd disk \<Rightarrow> bool" where
  "quietEntry E e k \<longleftrightarrow> snd e \<or> \<not> has_suffix (fst e) ''-log'' \<or>
     (\<exists>c. dkFiles k (genPathOf E (fst e)) = Some c \<and> leftAlone E (fst e) c)"

lemma quietEntry_migrate: "quietEntry E e k \<Longrightarrow> migrateEntry E P e k = (k, True)"
  by (cases e) (auto simp: quietEntry_def migrateEntry_def leftAlone_def is_ok_iff split: option.splits sum.splits)

lemma migrateEntry_cases:
  assumes "migrateEntry E P e k = (k', True)"
  obtains "k' = k" "quietEntry E e k"
  | s n u k1 where "installGeneratedService E P (\<lambda>_. False) (fst e) (generateLoggerDinit E s n (Some u)) k1 = (k', True)"
      "dkFiles k1 = dkFiles k"
proof (cases "quietEntry E e k")
  case True
  with assms quietEntry_migrate [of E e k P] that(1) show ?thesis by simp
next
  case False
  then obtain name where e: "e = (name, False)" and log: "has_suffix name ''-log''" by (cases e) (auto simp: quietEntry_def)
  with assms obtain c where c: "dkFiles k (genPathOf E name) = Some c"
    by (auto simp: migrateEntry_def split: option.splits)
  with False e have busy: "\<not> leftAlone E name c" by (simp add: quietEntry_def)
  then obtain s n u where "\<not> contains c '' -worker ''" "parseLegacyLoggerDefinition c = Some (s, n)"
    "loggerServiceName s = name" "genParse E n = Inr u"
    by (auto simp: leftAlone_def is_ok_iff split: option.splits)
  with assms e log c have m: "(let (k, ok) = ensureLoggerSpillDir E (loggerSpillDir E name) (Some u) k in
      if \<not> ok then (k, False)
      else installGeneratedService E P (\<lambda>_. False) name (generateLoggerDinit E s n (Some u)) k) = (k', True)"
    by (simp add: migrateEntry_def)
  show ?thesis
  proof (rule that(2))
    show "installGeneratedService E P (\<lambda>_. False) (fst e) (generateLoggerDinit E s n (Some u))
        (fst (ensureLoggerSpillDir E (loggerSpillDir E name) (Some u) k)) = (k', True)"
      using m e by (auto simp: split_beta Let_def split: if_splits)
  qed simp
qed

lemma generated_leftAlone: "leftAlone E name (generateLoggerDinit E s n unit)"
  by (simp add: leftAlone_def generateLoggerDinit_worker)

lemma migrateEntry_quiet:
  assumes "migrateEntry E P e k = (k', True)" "linkPathOf E (fst e) \<noteq> genPathOf E (fst e)"
  shows "quietEntry E e k'"
  using assms(1)
proof (cases rule: migrateEntry_cases)
  case (2 s n u k1)
  with installGeneratedService_ok [OF 2(1) assms(2)] show ?thesis
    by (simp add: quietEntry_def generated_leftAlone)
qed simp

lemma migrateEntry_keeps_quiet:
  assumes "migrateEntry E P e k = (k', True)" "quietEntry E d k"
    and "linkPathOf E (fst e) \<noteq> genPathOf E (fst d)" "linkPathOf E (fst e) \<noteq> genPathOf E (fst e)"
  shows "quietEntry E d k'"
  using assms(1)
proof (cases rule: migrateEntry_cases)
  case (2 s n u k1)
  show ?thesis
  proof (cases "genPathOf E (fst d) = genPathOf E (fst e)")
    case True
    with installGeneratedService_ok [OF 2(1) assms(4)] show ?thesis
      by (simp add: quietEntry_def generated_leftAlone)
  next
    case False
    with installGeneratedService_frame [of "genPathOf E (fst d)" E "fst e" P "\<lambda>_. False" _ k1] assms(3) 2
    have "dkFiles k' (genPathOf E (fst d)) = dkFiles k (genPathOf E (fst d))" by (metis fst_conv)
    with assms(2) show ?thesis by (simp add: quietEntry_def)
  qed
qed (use assms in simp)

lemma migrateEntries_quiet:
  assumes "migrateEntries E P entries k = (k', True)"
    and "\<And>a b. a \<in> N \<Longrightarrow> b \<in> N \<Longrightarrow> linkPathOf E a \<noteq> genPathOf E b" "fst ` set entries \<subseteq> N"
    and "fst ` set seen \<subseteq> N" "\<forall>d \<in> set seen. quietEntry E d k"
  shows "\<forall>d \<in> set (seen @ entries). quietEntry E d k'"
  using assms
proof (induction entries arbitrary: k seen)
  case (Cons e es)
  obtain k1 where k1: "migrateEntry E P e k = (k1, True)" "migrateEntries E P es k1 = (k', True)"
    using Cons.prems(1) by (auto split: prod.splits if_splits)
  have "\<forall>d \<in> set (seen @ [e]). quietEntry E d k1"
    using migrateEntry_quiet [OF k1(1)] migrateEntry_keeps_quiet [OF k1(1)] Cons.prems(2-5) by auto
  then have "\<forall>d \<in> set ((seen @ [e]) @ es). quietEntry E d k'"
    using Cons.prems(2-4) by (intro Cons.IH [OF k1(2)]) auto
  then show ?case by simp
qed simp

lemma migrateEntries_idle: "\<forall>d \<in> set entries. quietEntry E d k \<Longrightarrow> migrateEntries E P entries k = (k, True)"
  by (induction entries) (simp_all add: quietEntry_migrate)

text \<open>
  Property C38. The migration of old logger definitions settles. After a run that succeeds, a second run over
  the same entries changes no file, no link and no directory and sends dinit no command: what the first run
  wrote is recognised as current, also when entries share files.
\<close>

theorem migration_settles:
  assumes "migrateGeneratedLoggerDefinitions E P (Some entries) k = (k', True)"
    and "\<forall>a \<in> fst ` set entries. \<forall>b \<in> fst ` set entries. linkPathOf E a \<noteq> genPathOf E b"
  shows "migrateGeneratedLoggerDefinitions E P' (Some entries) k' = (k', True)"
proof -
  have "\<forall>d \<in> set ([] @ entries). quietEntry E d k'"
    using assms by (intro migrateEntries_quiet [where N = "fst ` set entries"]) (auto simp: migrateGeneratedLoggerDefinitions_def)
  then show ?thesis by (simp add: migrateGeneratedLoggerDefinitions_def migrateEntries_idle)
qed


definition legacyLogger :: string where
  "legacyLogger = ''consumer-of = foo'' @ newline @ ''command = /usr/bin/sys-logd -service foo'' @ newline"

definition legacyDisk :: "string list disk" where
  "legacyDisk = demoDisk\<lparr>dkFiles := [genPathOf demoGen ''foo-log'' \<mapsto> legacyLogger]\<rparr>"

lemma legacy_facts:
  "parseLegacyLoggerDefinition legacyLogger = Some (''foo'', ''foo'')" "\<not> contains legacyLogger '' -worker ''"
  "genParse demoGen ''foo'' = Inr demoUnit" "genPathOf demoGen ''foo-log'' \<noteq> linkPathOf demoGen ''foo-log''"
  "cfgIsRoot (geConfig demoGen) \<longrightarrow> trim_space (uUser demoUnit) = '''' \<and> trim_space (uGroup demoUnit) = ''''"
  "isDinitServiceKnown demoDinit legacyDisk ''foo-log'' = False"
  by code_simp+

lemma demoGen_disk: "geDiskFails demoGen p = False"
  by (simp add: demoGen_def)

lemma install_on_demo:
  assumes "\<not> isDinitServiceKnown demoDinit k name"
  shows "snd (installGeneratedService demoGen demoDinit opts name content k)"
  using assms by (simp add: installGeneratedService_def installFile_def osWriteFile_def installLink_def osSymlink_def osRemove_def
      demoGen_disk isDinitServiceKnown_def Let_def)

lemma spill_on_demo: "snd (ensureLoggerSpillDir demoGen path (Some demoUnit) k)"
  using legacy_facts(5) by (simp add: ensureLoggerSpillDir_def chownTo_def demoGen_disk)

definition legacyEntries :: "(string \<times> bool) list" where
  "legacyEntries = [(''foo-log'', False), (''d-log'', True)]"

lemma legacy_run: "snd (migrateGeneratedLoggerDefinitions demoGen demoDinit (Some legacyEntries) legacyDisk)"
proof -
  have "dkFiles legacyDisk (genPathOf demoGen ''foo-log'') = Some legacyLogger" by (simp add: legacyDisk_def)
  then have e: "migrateEntry demoGen demoDinit (''foo-log'', False) legacyDisk =
      installGeneratedService demoGen demoDinit (\<lambda>_. False) ''foo-log'' (generateLoggerDinit demoGen ''foo'' ''foo'' (Some demoUnit))
        (fst (ensureLoggerSpillDir demoGen (loggerSpillDir demoGen ''foo-log'') (Some demoUnit) legacyDisk))"
    by (simp add: spill_on_demo migrateEntry_def legacy_facts loggerServiceName_def has_suffix_def split_beta Let_def)
  have "snd (migrateEntry demoGen demoDinit (''foo-log'', False) legacyDisk)"
    unfolding e using legacy_facts(6) by (intro install_on_demo) (simp add: isDinitServiceKnown_def)
  moreover have "migrateEntry demoGen demoDinit (''d-log'', True) k = (k, True)" for k by (simp add: migrateEntry_def)
  ultimately show ?thesis by (simp add: migrateGeneratedLoggerDefinitions_def legacyEntries_def split_beta Let_def)
qed

theorem migration_settles_witness:
  "\<not> quietEntry demoGen (''foo-log'', False) legacyDisk \<and>
   (let k' = fst (migrateGeneratedLoggerDefinitions demoGen demoDinit (Some legacyEntries) legacyDisk)
    in migrateGeneratedLoggerDefinitions demoGen demoDinit (Some legacyEntries) k' = (k', True))"
proof
  show "\<not> quietEntry demoGen (''foo-log'', False) legacyDisk"
    by (simp add: quietEntry_def leftAlone_def legacyDisk_def legacy_facts has_suffix_def loggerServiceName_def)
  have "\<forall>a \<in> fst ` set legacyEntries. \<forall>b \<in> fst ` set legacyEntries. linkPathOf demoGen a \<noteq> genPathOf demoGen b"
    by code_simp
  then show "let k' = fst (migrateGeneratedLoggerDefinitions demoGen demoDinit (Some legacyEntries) legacyDisk)
    in migrateGeneratedLoggerDefinitions demoGen demoDinit (Some legacyEntries) k' = (k', True)"
    unfolding Let_def using legacy_run by (intro migration_settles [where P = demoDinit]) (simp add: prod_eq_iff)
qed

subsection \<open>Obsolete services\<close>

definition commandsTo :: "gen_effect list \<Rightarrow> string set" where
  "commandsTo es = {last args | args. Dinitctl args \<in> set es}"

lemma commandsTo_append [simp]: "commandsTo (es @ fs) = commandsTo es \<union> commandsTo fs"
  by (auto simp: commandsTo_def)

lemma osRemove_effects [simp]: "dkEffects (osRemove E p k) = dkEffects k" "dkDinit (osRemove E p k) = dkDinit k"
  by (simp_all add: osRemove_def)

lemma cleanupService_effects:
  "dkEffects (cleanupService E P s k) = dkEffects k @
     (if isDinitServiceKnown P k s then [Dinitctl [''stop'', s], Dinitctl [''unload'', ''--ignore-unstarted'', s]] else [])"
  by (simp add: cleanupService_def Let_def)

lemma cleanup_commands:
  "commandsTo (dkEffects (foldl (\<lambda>k s. cleanupService E P s k) k names)) \<subseteq> commandsTo (dkEffects k) \<union> set names"
proof (induction names arbitrary: k)
  case (Cons s names)
  have "commandsTo (dkEffects (cleanupService E P s k)) \<subseteq> commandsTo (dkEffects k) \<union> {s}"
    by (auto simp: cleanupService_effects commandsTo_def)
  with Cons.IH [of "cleanupService E P s k"] show ?case by auto
qed simp

text \<open>
  Property C39. When a unit that dinit ran directly changes to a managed mode, its old service is left
  behind. Clearing the obsolete services sends dinit commands about the three managed names only: whatever
  the new mode is, the plain name of the unit is never stopped or unloaded by it, so that the directly
  run service can go on beside the managed one.
\<close>

theorem direct_service_left_behind:
  "commandsTo (dkEffects (cleanupObsoleteManagedServices E P name mode (k\<lparr>dkEffects := []\<rparr>))) \<subseteq>
     {managedServiceName name m | m. m \<noteq> mode \<and> m \<noteq> managedDirect} \<and>
   managedServiceName name managedDirect \<notin>
     commandsTo (dkEffects (cleanupObsoleteManagedServices E P name mode (k\<lparr>dkEffects := []\<rparr>)))"
proof -
  have "commandsTo (dkEffects (k\<lparr>dkEffects := []\<rparr>)) = {}" by (simp add: commandsTo_def)
  then have sub: "commandsTo (dkEffects (cleanupObsoleteManagedServices E P name mode (k\<lparr>dkEffects := []\<rparr>))) \<subseteq>
      set (obsoleteManagedServiceNames name mode)"
    using cleanup_commands [of E P "k\<lparr>dkEffects := []\<rparr>" "obsoleteManagedServiceNames name mode"]
    by (simp add: cleanupObsoleteManagedServices_def)
  have "set (obsoleteManagedServiceNames name mode) \<subseteq> {managedServiceName name m | m. m \<noteq> mode \<and> m \<noteq> managedDirect}"
    by (auto simp: obsoleteManagedServiceNames_def)
  moreover have "managedServiceName name managedDirect \<noteq> managedServiceName name m" if "m \<noteq> managedDirect" for m
    using that by (cases m) (auto simp: managedServiceName_def)
  ultimately show ?thesis using sub by blast
qed

lemma cleanupService_emits: "set (dkEffects k) \<subseteq> set (dkEffects (cleanupService E P s k))"
  by (simp add: cleanupService_effects)

lemma cleanup_emits: "set (dkEffects k) \<subseteq> set (dkEffects (foldl (\<lambda>k s. cleanupService E P s k) k names))"
proof (induction names arbitrary: k)
  case (Cons s names)
  then show ?case using cleanupService_emits [of k E P s] by (force simp del: dual_order.refl)
qed simp

text \<open>
  Property C40. The name of the managed service is no proof of its owner. Installing a unit that is run
  directly stops and unloads the service called like the unit followed by \<open>-notifyd\<close> whenever dinit
  knows it, although a unit of that very name, run directly, is the one whose service it is.
\<close>

theorem cleanup_stops_another_unit:
  assumes "dinitNameForUnit E (name @ ''-notifyd'') = name @ ''-notifyd''" and "\<not> has_suffix name ''.service''"
    and "isDinitServiceKnown P k (name @ ''-notifyd'')"
  shows "Dinitctl [''stop'', dinitNameForUnit E (name @ ''-notifyd'')] \<in>
    set (dkEffects (cleanupObsoleteManagedServices E P name managedDirect k))"
proof -
  have "cleanupObsoleteManagedServices E P name managedDirect k =
      foldl (\<lambda>k s. cleanupService E P s k) (cleanupService E P (name @ ''-notifyd'') k) [name @ ''-socketd'', name @ ''-dbusd'']"
    using assms(2) by (simp add: cleanupObsoleteManagedServices_def obsoleteManagedServiceNames_def managedServiceName_def trim_suffix_def Let_def)
  moreover have "Dinitctl [''stop'', name @ ''-notifyd''] \<in> set (dkEffects (cleanupService E P (name @ ''-notifyd'') k))"
    using assms(3) by (simp add: cleanupService_effects)
  moreover note cleanup_emits [of "cleanupService E P (name @ ''-notifyd'') k" E P "[name @ ''-socketd'', name @ ''-dbusd'']"]
  ultimately show ?thesis unfolding assms(1) by (simp only: subset_iff)
qed


definition twinHost :: host where
  "twinHost = demoHost\<lparr>hStat := (\<lambda>p. p = ''/lib/systemd/system/foo-notifyd.service''),
     hReadFile := (\<lambda>p. if p = ''/lib/systemd/system/foo-notifyd.service'' then Inr ''[Service]'' else Inl ''no such file'')\<rparr>"

definition twinGen :: genEnv where
  "twinGen = demoGen\<lparr>geConfig := initConfig twinHost, geHost := twinHost\<rparr>"

theorem cleanup_stops_another_unit_witness:
  "is_ok (genParse twinGen ''foo-notifyd'') \<and>
   Dinitctl [''stop'', dinitNameForUnit twinGen (''foo'' @ ''-notifyd'')] \<in>
    set (dkEffects (cleanupObsoleteManagedServices twinGen demoDinit ''foo'' managedDirect (demoDisk\<lparr>dkDinit := [''foo-notifyd'']\<rparr>)))"
proof (intro conjI cleanup_stops_another_unit)
  show "is_ok (genParse twinGen ''foo-notifyd'')" "dinitNameForUnit twinGen (''foo'' @ ''-notifyd'') = ''foo'' @ ''-notifyd''"
    "\<not> has_suffix ''foo'' ''.service''" by code_simp+
  show "isDinitServiceKnown demoDinit (demoDisk\<lparr>dkDinit := [''foo-notifyd'']\<rparr>) (''foo'' @ ''-notifyd'')"
    by (simp add: isDinitServiceKnown_def demoDinit_def demoDisk_def)
qed

subsection \<open>The recursive installation\<close>

text \<open>Effects are only ever added.\<close>

definition grew :: "'d disk \<Rightarrow> 'd disk \<Rightarrow> bool" where
  "grew k k' \<longleftrightarrow> set (dkEffects k) \<subseteq> set (dkEffects k')"

lemma grew_refl [simp]: "grew k k"
  by (simp add: grew_def)

lemma grew_trans [trans]: "grew a b \<Longrightarrow> grew b c \<Longrightarrow> grew a c"
  by (auto simp: grew_def)

lemma grew_emit: "grew a k \<Longrightarrow> grew a (emit e k)"
  by (auto simp: grew_def)

lemma grew_runDinitctl: "grew a k \<Longrightarrow> grew a (fst (runDinitctl P args k))"
  by (auto simp: grew_def)

lemma grew_foldl: "(\<And>k x. grew k (f k x)) \<Longrightarrow> grew k (foldl f k xs)"
  by (induction xs arbitrary: k) (auto intro: grew_trans)

lemma grew_chownTo: "grew k (fst (chownTo E path u k))"
  by (auto simp: chownTo_def intro: grew_emit split: option.split)

lemma grew_spill: "grew k (fst (ensureLoggerSpillDir E path u k))"
  unfolding ensureLoggerSpillDir_def by (auto intro!: grew_trans [OF _ grew_chownTo] grew_emit)

lemma grew_runtimeDir: "grew k (fst (ensureManagedRuntimeDir E name mode u k))"
  unfolding ensureManagedRuntimeDir_def Let_def by (auto intro!: grew_trans [OF _ grew_chownTo] grew_emit)

lemma grew_directories: "grew k (ensureManagedDirectories E entries kind mode owner grp k)"
  unfolding ensureManagedDirectories_def Let_def chownPath_def by (rule grew_foldl) (auto intro!: grew_emit)

lemma grew_serviceDirectories: "grew k (ensureServiceDirectories E u k)"
  unfolding ensureServiceDirectories_def by (rule grew_trans [OF grew_trans]; rule grew_directories)

lemma installFile_effects [simp]: "dkEffects (fst (installFile E p c k)) = dkEffects k"
  by (simp add: installFile_def osWriteFile_def)

lemma installLink_effects [simp]: "dkEffects (fst (installLink E g l k)) = dkEffects k"
  by (simp add: installLink_def osSymlink_def)

lemma grew_install: "grew k (fst (installGeneratedService E P opts name content k))"
proof -
  have same: "grew k (fst (installLink E g l (fst (installFile E p c k))))" "grew k (fst (installFile E p c k))" for g l p c
    by (simp_all add: grew_def)
  show ?thesis
    unfolding installGeneratedService_def Let_def split_beta by (simp add: same grew_runDinitctl)
qed

lemma grew_placeholder: "grew k (fst (installExternalManagedPlaceholder E P opts name k))"
  unfolding installExternalManagedPlaceholder_def by (rule grew_trans [OF _ grew_install]) (auto intro!: grew_emit)

lemma grew_cleanup: "grew k (cleanupObsoleteManagedServices E P name mode k)"
  unfolding cleanupObsoleteManagedServices_def by (rule grew_foldl) (simp add: grew_def cleanupService_effects)

lemma grew_dbus: "grew k (fst (installDBusActivationFile E u k))"
  by (auto simp: installDBusActivationFile_def osWriteFile_def Let_def intro!: grew_emit split: option.split)
     (auto simp: grew_def)

lemma grew_makeRuntime: "grew k (fst (makeRuntimeDirectories E name mode u k))"
proof -
  have "grew k (fst (ensureManagedRuntimeDir E name mode (Some u) (emit e (emit f k))))" for e f
    by (rule grew_trans [OF _ grew_runtimeDir]) (auto intro!: grew_emit)
  then show ?thesis
    unfolding makeRuntimeDirectories_def Let_def split_beta
    by (auto intro!: grew_trans [OF _ grew_serviceDirectories] grew_emit)
qed

text \<open>A unit whose installation succeeds has had the spill directory of its logger made.\<close>

definition loggerMade :: "genEnv \<Rightarrow> string \<Rightarrow> managedServiceMode \<Rightarrow> gen_effect" where
  "loggerMade E name mode = MkdirAll (loggerSpillDir E (loggerServiceName (managedServiceName name mode))) 448"

lemma spill_makes: "ensureLoggerSpillDir E path u k = (k', True) \<Longrightarrow> MkdirAll path 448 \<in> set (dkEffects k')"
  using grew_chownTo [of "emit (Chmod path 448) (emit (MkdirAll path 448) k)" E path u]
  by (auto simp: ensureLoggerSpillDir_def grew_def split: if_splits)


lemma installUnit_grew:
  "grew k (fst (installUnit E P opts name u so known k))"
  "snd (installUnit E P opts name u so known k) \<Longrightarrow>
    loggerMade E name (managedServiceModeForUnit (Some u) so) \<in> set (dkEffects (fst (installUnit E P opts name u so known k)))"
proof -
  let ?mode = "managedServiceModeForUnit (Some u) so"
  let ?s = "managedServiceName name ?mode"
  obtain k1 ok1 where k1: "makeRuntimeDirectories E name ?mode u k = (k1, ok1)" by force
  obtain content where content: "serviceContent E (isDinitServiceKnown P k1) name u ?mode so = content" by blast
  obtain k2 ok2 where k2: "installGeneratedService E P opts ?s (projr content) k1 = (k2, ok2)" by force
  obtain k3 ok3 where k3: "(if trim_space (uBusName u) \<noteq> '''' then installDBusActivationFile E (Some u) k2 else (k2, True)) = (k3, ok3)" by force
  obtain k4 ok4 where k4: "ensureLoggerSpillDir E (loggerSpillDir E (loggerServiceName ?s)) (Some u) k3 = (k4, ok4)" by force
  obtain k5 ok5 where k5: "installGeneratedService E P opts (loggerServiceName ?s) (generateLoggerDinit E ?s name (Some u)) k4 = (k5, ok5)" by force
  have g: "grew k k1" "grew k1 k2" "grew k2 k3" "grew k3 k4" "grew k4 k5"
    using grew_makeRuntime [of k E name ?mode u] grew_install [of k1 E P opts ?s "projr content"] grew_dbus [of k2 E "Some u"]
      grew_spill [of k3] grew_install [of k4] k1 k2 k3 k4 k5 by (metis fst_conv grew_refl)+
  define k6 where "k6 = (if known \<and> \<not> isDinitServiceKnown P k5 ?s then fst (runDinitctl P [''reload'', ?s] k5) else k5)"
  have k6: "grew k5 k6" by (simp add: k6_def grew_runDinitctl)
  have result: "installUnit E P opts name u so known k =
     (if \<not> ok1 then (k1, False) else if isl content then (k1, False) else if \<not> ok2 then (k2, False)
      else if \<not> ok3 then (k3, False) else if \<not> ok4 then (k4, False) else if \<not> ok5 then (k5, False) else (k6, True))"
    using k2 by (cases content) (simp_all add: installUnit_def k1 content k3 k4 k5 k6_def Let_def)
  note step = grew_trans
  have all: "grew k k2" "grew k k3" "grew k k4" "grew k k5" "grew k k6" "grew k4 k6"
    using g k6 by (blast intro: step)+
  show "grew k (fst (installUnit E P opts name u so known k))"
    unfolding result using g all by simp
  assume "snd (installUnit E P opts name u so known k)"
  then have ok: "ok4" "fst (installUnit E P opts name u so known k) = k6"
    unfolding result by (simp_all split: if_splits)
  with spill_makes [of E _ "Some u" k3 k4] k4 all(6) show "loggerMade E name ?mode \<in> set (dkEffects (fst (installUnit E P opts name u so known k)))"
    by (auto simp: loggerMade_def grew_def)
qed

text \<open>
  The name a dependency is installed under, whether the recursion has to install it, and what holds of a unit
  once its installation has succeeded.
\<close>

definition depTarget :: "genEnv \<Rightarrow> string \<Rightarrow> string" where
  "depTarget E d = trim_suffix (trim_suffix (genAlias E d) ''.service'') ''.service''"

definition requiredHere :: "genEnv \<Rightarrow> string \<Rightarrow> bool" where
  "requiredHere E d \<longleftrightarrow> \<not> geExternal E (trim_suffix (genAlias E d) ''.service'') \<and>
     includeDependencyName (trim_suffix (trim_space d) ''.service'') \<and>
     is_ok (genParse E (genAlias E (trim_suffix (trim_space d) ''.service'')))"

definition installedIn :: "genEnv \<Rightarrow> string list \<Rightarrow> 'd disk \<Rightarrow> string \<Rightarrow> bool" where
  "installedIn E visited k name \<longleftrightarrow>
     (\<exists>u so. genParse E name = Inr u \<and> parseOptionalSocketUnit (geConfig E) (geHost E) name = Inr so \<and>
        (\<forall>d \<in> set (hardStartDependencies u). requiredHere E d \<longrightarrow> depTarget E d \<in> set visited) \<and>
        loggerMade E name (managedServiceModeForUnit (Some u) so) \<in> set (dkEffects k))"

lemma installedIn_mono: "installedIn E v k x \<Longrightarrow> set v \<subseteq> set v' \<Longrightarrow> grew k k' \<Longrightarrow> installedIn E v' k' x"
  unfolding installedIn_def grew_def by blast

definition progress :: "genEnv \<Rightarrow> 'd installState \<Rightarrow> 'd installState \<Rightarrow> bool \<Rightarrow> bool" where
  "progress E s s' ok \<longleftrightarrow> set (fst s) \<subseteq> set (fst s') \<and> (distinct (fst s) \<longrightarrow> distinct (fst s')) \<and> grew (snd s) (snd s') \<and>
     (ok \<longrightarrow> (\<forall>x \<in> set (fst s') - set (fst s). installedIn E (fst s') (snd s') x))"

lemma progress_refl [simp]: "progress E s s ok"
  by (simp add: progress_def)

lemma progress_trans: "progress E a b True \<Longrightarrow> progress E b c ok \<Longrightarrow> progress E a c ok"
  unfolding progress_def by (auto intro: grew_trans installedIn_mono)

lemma progress_disk: "grew k k' \<Longrightarrow> progress E (v, k) (v, k') ok"
  by (simp add: progress_def)

lemma requiredHere_resolved: "requiredHere E d \<Longrightarrow> resolvedDependencyServiceName E known d \<noteq> None"
  by (simp add: requiredHere_def resolvedDependencyServiceName_def Let_def)

lemma installDependencies_correct:
  assumes inst: "\<And>unit v k. trim_suffix unit ''.service'' \<in> A \<Longrightarrow> card (A - set v) < m \<Longrightarrow>
      \<exists>s' ok. install unit (v, k) = Some (s', ok) \<and> progress E (v, k) s' ok \<and> trim_suffix unit ''.service'' \<in> set (fst s')"
    and A: "finite A"
  shows "\<forall>d \<in> set ds. depTarget E d \<in> A \<Longrightarrow> card (A - set v) < m \<Longrightarrow>
    \<exists>s' ok. installDependencies E P opts install ds (v, k) = Some (s', ok) \<and> progress E (v, k) s' ok \<and>
      (ok \<longrightarrow> (\<forall>d \<in> set ds. requiredHere E d \<longrightarrow> depTarget E d \<in> set (fst s')))"
proof (induction ds arbitrary: v k)
  case (Cons d ds)
  let ?dep = "trim_suffix (genAlias E d) ''.service''"
  have rest: "\<exists>s' ok. installDependencies E P opts install ds (v2, k2) = Some (s', ok) \<and> progress E (v, k) s' ok \<and>
      (ok \<longrightarrow> (\<forall>x \<in> set (d # ds). requiredHere E x \<longrightarrow> depTarget E x \<in> set (fst s')))"
    if p: "progress E (v, k) (v2, k2) True" and here: "requiredHere E d \<longrightarrow> depTarget E d \<in> set v2" for v2 k2
  proof -
    from p A have "card (A - set v2) \<le> card (A - set v)" by (intro card_mono) (auto simp: progress_def)
    with Cons.prems have "card (A - set v2) < m" "\<forall>d \<in> set ds. depTarget E d \<in> A" by auto
    from Cons.IH [OF this(2,1), of k2] obtain s' ok where s': "installDependencies E P opts install ds (v2, k2) = Some (s', ok)"
      "progress E (v2, k2) s' ok" "ok \<longrightarrow> (\<forall>d \<in> set ds. requiredHere E d \<longrightarrow> depTarget E d \<in> set (fst s'))" by blast
    moreover have "set v2 \<subseteq> set (fst s')" using s'(2) by (simp add: progress_def)
    ultimately show ?thesis using progress_trans [OF p s'(2)] here by auto
  qed
  obtain k1 ok1 where k1: "installExternalManagedPlaceholder E P opts ?dep k = (k1, ok1)" by force
  with grew_placeholder [of k E P opts ?dep] have gk1: "progress E (v, k) (v, k1) ok" for ok by (simp add: progress_disk)
  obtain s1 ok2 where s1: "install ?dep (v, k) = Some (s1, ok2)" "progress E (v, k) s1 ok2" "depTarget E d \<in> set (fst s1)"
    using inst [of ?dep v k] Cons.prems by (auto simp: depTarget_def)
  consider (external) "geExternal E ?dep"
    | (install) "\<not> geExternal E ?dep" "resolvedDependencyServiceName E (isDinitServiceKnown P k) d \<noteq> None"
    | (skip) "\<not> geExternal E ?dep" "resolvedDependencyServiceName E (isDinitServiceKnown P k) d = None" by blast
  then show ?case
  proof cases
    case external
    then have "\<not> requiredHere E d" by (simp add: requiredHere_def)
    with rest [of v k1] gk1 show ?thesis by (cases ok1) (auto simp: external k1)
  next
    case install
    show ?thesis
    proof (cases ok2)
      case True
      with rest [of "fst s1" "snd s1"] s1 install show ?thesis by auto
    qed (use s1 install in auto)
  next
    case skip
    with requiredHere_resolved have "\<not> requiredHere E d" by blast
    with rest [of v k] skip show ?thesis by simp
  qed
qed auto


lemma recursiveInstall_correct:
  assumes A: "finite A"
    and closed: "\<And>n u d. genParse E n = Inr u \<Longrightarrow> d \<in> set (hardStartDependencies u) \<Longrightarrow> depTarget E d \<in> A"
  shows "trim_suffix unit ''.service'' \<in> A \<Longrightarrow> card (A - set v) < fuel \<Longrightarrow>
    \<exists>s' ok. recursiveInstall fuel E P opts unit (v, k) = Some (s', ok) \<and> progress E (v, k) s' ok \<and>
      trim_suffix unit ''.service'' \<in> set (fst s')"
proof (induction fuel arbitrary: unit v k)
  case (Suc m)
  let ?n = "trim_suffix unit ''.service''"
  show ?case
  proof (cases "?n \<in> set v")
    case new: False
    have "card (A - set (v @ [?n])) < card (A - set v)"
      using A Suc.prems(1) new by (intro psubset_card_mono) auto
    with Suc.prems(2) have less: "card (A - set (v @ [?n])) < m" by simp
    have stop: "progress E (v, k) (v @ [?n], k') False" if "grew k k'" for k'
      using that new by (auto simp: progress_def)
    show ?thesis
    proof (cases "genParse E ?n")
      case (Inl e)
      then show ?thesis using new stop [of k] by (auto simp: Let_def)
    next
      case u: (Inr u)
      show ?thesis
      proof (cases "parseOptionalSocketUnit (geConfig E) (geHost E) ?n")
        case (Inl e)
        then show ?thesis using new u stop [of k] by (auto simp: Let_def)
      next
        case so: (Inr so)
        show ?thesis
        proof (cases "uReadyFD u \<noteq> 0 \<and> so \<noteq> None")
          case True
          then show ?thesis using new u so stop [of k] by (auto simp: Let_def)
        next
          case plain: False
          let ?mode = "managedServiceModeForUnit (Some u) so"
          let ?known = "isDinitServiceKnown P k (managedServiceName ?n ?mode)"
          let ?k0 = "cleanupObsoleteManagedServices E P ?n ?mode k"
          have "\<forall>d \<in> set (hardStartDependencies u). depTarget E d \<in> A" using closed u by blast
          from installDependencies_correct [OF Suc.IH A this less, of P opts ?k0]
          obtain v1 k1 ok1 where deps: "installDependencies E P opts (recursiveInstall m E P opts) (hardStartDependencies u) (v @ [?n], ?k0) =
              Some ((v1, k1), ok1)" "progress E (v @ [?n], ?k0) (v1, k1) ok1"
            "ok1 \<longrightarrow> (\<forall>d \<in> set (hardStartDependencies u). requiredHere E d \<longrightarrow> depTarget E d \<in> set v1)" by auto
          obtain k2 ok2 where k2: "installUnit E P opts ?n u so ?known k1 = (k2, ok2)" by force
          have run: "recursiveInstall (Suc m) E P opts unit (v, k) = Some (if ok1 then ((v1, k2), ok2) else ((v1, k1), False))"
            using new u so plain deps(1) k2 by (auto simp: Let_def)
          have g: "grew k ?k0" "grew ?k0 k1" "grew k1 k2" and sub: "set (v @ [?n]) \<subseteq> set v1" "distinct (v @ [?n]) \<longrightarrow> distinct v1"
            using grew_cleanup deps(2) installUnit_grew(1) [of k1 E P opts ?n u so ?known] k2 by (simp_all add: progress_def)
          then have grown: "grew k k1" "grew k k2" by (blast intro: grew_trans)+
          show ?thesis
          proof (cases ok1)
            case False
            then show ?thesis using run grown sub new by (auto simp: progress_def)
          next
            case ok: True
            have "installedIn E v1 k2 x" if x: "x \<in> set v1 - set v" and ok2 for x
            proof (cases "x = ?n")
              case True
              with u so deps(3) ok installUnit_grew(2) [of E P opts ?n u so ?known k1] k2 \<open>ok2\<close> show ?thesis
                by (auto simp: installedIn_def)
            next
              case False
              with x deps(2) ok have "installedIn E v1 k1 x" by (simp add: progress_def)
              then show ?thesis using g(3) by (blast intro: installedIn_mono)
            qed
            then show ?thesis using run ok grown sub new by (auto simp: progress_def)
          qed
        qed
      qed
    qed
  qed auto
qed simp

lemma cleanDependencies_words: "set (cleanDependencies names) \<subseteq> trim_space ` set names"
proof -
  have "set (foldl f acc xs) \<subseteq> set acc \<union> trim_space ` set xs"
    if f: "\<And>deps x. set (f deps x) \<subseteq> insert (trim_space x) (set deps)" for f acc xs
  proof (induction xs arbitrary: acc)
    case (Cons x xs)
    with f [of acc x] Cons.IH [of "f acc x"] show ?case by auto
  qed simp
  then have "set (cleanDependencies names) \<subseteq> set [] \<union> trim_space ` set names"
    unfolding cleanDependencies_def by this (auto simp: Let_def)
  then show ?thesis by simp
qed

text \<open>The names a unit's installation can reach are finitely many: they come from words of unit files.\<close>

lemma reachable_names:
  assumes "finite {path. hStat (geHost E) path}"
  shows "finite {depTarget E d | n u d. genParse E n = Inr u \<and> d \<in> set (hardStartDependencies u)}"
proof -
  let ?W = "\<Union>path \<in> {path. hStat (geHost E) path}. case hReadFile (geHost E) path of Inl _ \<Rightarrow> {} | Inr data \<Rightarrow> fileWords data"
  have fin: "finite ?W" using assms by (auto simp: finite_fileWords split: sum.split)
  have "d \<in> trim_space ` ?W" if "genParse E n = Inr u" "d \<in> set (hardStartDependencies u)" for n u d
  proof -
    from that(1) obtain path data where p: "hStat (geHost E) path" "hReadFile (geHost E) path = Inr data"
      "set (dependencyFields u) \<subseteq> fileWords data"
      unfolding genParse_def parseSystemdUnit_def using parsed_dependencies by blast
    from that(2) have "d \<in> trim_space ` set (uRequires u @ uBindsTo u @ uPartOf u)"
      unfolding hardStartDependencies_def using cleanDependencies_words by blast
    then have "d \<in> trim_space ` fileWords data" using p(3) by (auto simp: dependencyFields_def)
    moreover have "x \<in> ?W" if "x \<in> fileWords data" for x using p(1,2) that by (intro UN_I [of path]) simp_all
    ultimately show ?thesis by blast
  qed
  then have "depTarget E d \<in> depTarget E ` trim_space ` ?W" if "genParse E n = Inr u" "d \<in> set (hardStartDependencies u)" for n u d
    using that by (intro imageI)
  then have "{depTarget E d | n u d. genParse E n = Inr u \<and> d \<in> set (hardStartDependencies u)} \<subseteq> depTarget E ` trim_space ` ?W"
    by (intro subsetI) (elim CollectE exE conjE, simp only:)
  then show ?thesis by (rule finite_subset) (intro finite_imageI fin)
qed




subsection \<open>Modes of directories\<close>

text \<open>
  Fact. The special bits of a directory mode are lost. A mode of a unit that parses as an octal number
  below 2^20, such as \<open>2770\<close>, reaches the kernel as its nine permission bits only: the bits for
  set-user-ID, set-group-ID and sticky are dropped, because Go keeps them elsewhere.
\<close>

theorem directory_mode_special_bits:
  assumes "parseOctal (trim_space raw) = Some v" and "v < 2 ^ 20"
  shows "syscallMode (directoryMode raw) = v mod 512"
proof -
  have "trim_space raw \<noteq> []" using assms(1) by (auto simp: parseOctal_def)
  with assms(1) have "directoryMode raw = v" by (simp add: directoryMode_def Let_def)
  moreover have "\<not> bit v n" if "20 \<le> n" for n
  proof -
    have "v < 2 ^ n" using assms(2) power_increasing [OF that, of "2 :: nat"] by simp
    then show ?thesis by (simp add: bit_iff_odd)
  qed
  ultimately show ?thesis by (simp add: syscallMode_def)
qed

theorem directory_mode_special_bits_witness: "syscallMode (directoryMode ''2770'') = 1528 mod 512"
proof (rule directory_mode_special_bits)
  have "trim_space ''2770'' = ''2770''" by code_simp
  then show "parseOctal (trim_space ''2770'') = Some 1528"
    by (simp add: parseOctal_def digitsValue_def is_digit_def digit_val_def)
qed simp

end
