(* ===== verification/Spec2Isabelle.thy ===== *)
theory Spec2Isabelle
  imports Status_Model Unit_Key Cgroup_Proc Cgroup_Protocol Cgroup_Server Cgroup_Migrate Cgroup_FS Cgroup_Scheduler
    Dbus_Server Orchestrator Logd_Spill Notifyd Dinit_Gen
begin

text \<open>
  servicectl: a service manager in the style of systemd on top of the init system dinit. The command
  \<open>servicectl\<close> reads systemd unit files and generates dinit services; a set of daemons supplies
  what dinit has not. This development models the logic of the command and of the daemons as
  functions over explicit states and proves what makes them correct.

  \<^bold>\<open>How the parts work together.\<close> \<open>servicectl\<close> (\<open>src/config.go\<close>, \<open>src/unit_parse.go\<close>,
  \<open>src/enabled_dag.go\<close>, \<open>src/deps.go\<close>, \<open>src/group_order.go\<close>) parses the units, builds the graph of the
  enabled ones and the order of a group, and installs generated
  dinit services (\<open>src/dinit_gen.go\<close>). dinit runs each service; one that needs readiness
  notifications, sockets or a bus name runs under \<open>src/cmd/sys-notifyd\<close>, its output goes through
  \<open>src/cmd/sys-logd\<close> to the journal, its processes are tracked in cgroups by \<open>src/cmd/sys-cgroupd\<close>,
  D-Bus asks \<open>src/cmd/sys-dbusd\<close> to start it, and \<open>src/cmd/sys-orchestrd\<close> starts it (or a
  group) and reacts to its events. The events and socket paths are those of
  \<open>src/internal/visionapi\<close>; \<open>servicectl status\<close> shows the topology of \<open>src/internal/statusview\<close>.

  \<^bold>\<open>Theories and sources.\<close>

    \<^item> \<open>Prelude\<close>, \<open>Go_Path\<close>, \<open>Go_Flag\<close>: what the sources use of Go's library (\<open>strings\<close>, \<open>strconv\<close>,
      \<open>bufio\<close>, \<open>unicode/utf8\<close>, \<open>encoding/binary\<close>, \<open>path/filepath\<close>, \<open>flag\<close>) on strings of bytes,
      errors as sums, and the shared lemmas (\<open>codec_simps\<close> and others).
    \<^item> \<open>Interfaces\<close>: the locales. \<open>machine\<close> (a step function that keeps an invariant), \<open>wire_format\<close> and
      \<open>canonical_format\<close> (writers and readers), \<open>severity\<close> (values combined by rank). Each is interpreted in
      the theories of the components on their own definitions; \<open>Unit_Key\<close>, \<open>Cgroup_FS\<close> and
      \<open>Cgroup_Scheduler\<close> declare the interfaces that only they use.
    \<^item> \<open>Status_Model\<close> (\<open>internal/statusview/model.go\<close>): \<open>validateGraph\<close>, \<open>Finalize\<close> and the order of
      nodes and edges. The validation is equivalent to a well-formedness predicate on the graph.
    \<^item> \<open>Unit_Key\<close> (\<open>internal/cgrouptrack/types.go\<close>, \<open>registry.go\<close>, part of \<open>cgroupfs.go\<close>),
      \<open>Cgroup_Proc\<close> (\<open>internal/procinfo/stat.go\<close>, \<open>internal/cgrouptrack/proc.go\<close>), \<open>Cgroup_Protocol\<close>
      (\<open>protocol.go\<close>, \<open>client.go\<close>), \<open>Cgroup_Server\<close> (\<open>server.go\<close>), \<open>Cgroup_Migrate\<close> (\<open>migrate.go\<close>), \<open>Cgroup_FS\<close>
      (\<open>cgroupfs.go\<close>, \<open>native.go\<close>), \<open>Cgroup_Scheduler\<close> (\<open>cmd/sys-cgroupd/main.go\<close>, \<open>native.go\<close>): identities and
      directories of units, what is read of \<open>/proc\<close>, frames and requests, who may ask for what, the
      migration of processes, every system call of a group operation, and the table of tracked units.
    \<^item> \<open>Dbus_Protocol\<close>, \<open>Dbus_Environment\<close>, \<open>Dbus_Routes\<close>, \<open>Dbus_Engine\<close>, \<open>Dbus_Server\<close>
      (\<open>internal/dbusactivation\<close>, \<open>cmd/sys-dbusd/main.go\<close>): packets, environments, service files and their
      index, routes, activations and their table, sessions and clients.
    \<^item> \<open>Unit_Parse\<close> (\<open>config.go\<close>, \<open>unit_parse.go\<close>), \<open>Vision_Api\<close> (\<open>internal/visionapi/types.go\<close>,
      \<open>internal/util\<close>), \<open>Service_Dag\<close> (\<open>enabled_dag.go\<close>, \<open>deps.go\<close>, \<open>group_order.go\<close>, \<open>s6_backend_group.go\<close>),
      \<open>Orchestrator\<close> (\<open>cmd/sys-orchestrd\<close>): unit files, the shared vocabulary, the dependency graph with its
      orders, and the daemon that starts units and groups with its fuse.
    \<^item> \<open>Logd_Broker\<close> (\<open>cmd/sys-logd/protocol.go\<close>, \<open>journal.go\<close>, \<open>route.go\<close>, \<open>broker.go\<close>, \<open>worker.go\<close>, \<open>fallback.go\<close>),
      \<open>Logd_Spill\<close> (\<open>spill.go\<close>, \<open>main.go\<close>): the log broker and its clients, the spill files over an explicit
      file store, and the reader and writer of a worker.
    \<^item> \<open>Notifyd\<close> (\<open>cmd/sys-notifyd/main.go\<close>): the supervisor of one backend.
    \<^item> \<open>Dinit_Gen\<close> (\<open>dinit_gen.go\<close>, \<open>binary_paths.go\<close>, \<open>managed_runtime.go\<close>, \<open>external_management_dinit.go\<close>,
      \<open>dinit_cgroup.go\<close>): the text of the dinit services of a unit, of its logger and of its bus name, and
      their installation, dependencies first, over a disk and a running dinit.

  \<^bold>\<open>Conventions.\<close> A Go struct is a record whose fields have a prefix, an error is the left side of a sum or an
  option, a map is a function or an association list, a \<open>uint64\<close> is a word. Code outside the
  sources (JSON, the kernel, dinit, the bus, the accounts, clocks) is an argument of the definitions that
  use it, so that every theorem holds for each behaviour of it; a hypothesis says where more is needed.
  Goroutines are steps: a critical section of the source is one step of the model, and a theorem about
  runs quantifies over all sequences of steps. What a daemon does to the outside is a trace or a log in
  the state. The definitions evaluate, and the witnesses evaluate them on concrete inputs.

  \<^bold>\<open>What the lemmas show.\<close> In this theory: an unprivileged user only ever sees its own units through the
  cgroup daemon, composed of the socket handler, the authorization, the dispatcher and the
  scheduler's invariant. In the component theories: exact conditions of the checks (status graphs, attach
  authorization, notification senders), invariants of the daemons' states under all events (registry,
  jobs, sessions, fuse, backends, connection limits), round trips of the encodings (frames, packets,
  directories, quoting for dinit and for the shell, journal records, state and spill files; the command line
  generated for a logger is the one from which the broker finds the logger's unit), refinements
  (a group is started in the computed order, the spill files are a bounded log, a client sees
  what the engine did), termination (the worklist over unit files, the topological sort, the
  recursive installation, every activation), and, where the code does not do what it means to, theorems that say what it does instead.

  \<^bold>\<open>Bounds and fuel.\<close> \<open>topoVisit\<close> gets one more than the number of nodes and \<open>closureVisit\<close> one more
  than the number of candidates: each nested call marks a new name, and the correctness theorems show
  that the fuel is never used up. \<open>recursiveInstall\<close> takes any fuel; one above the number of names in the
  unit files is enough, which its theorem shows. \<open>ownsFrom\<close> has the 64 steps of the source. \<open>visitQueue\<close>,
  \<open>initialSync\<close> and \<open>replaySpill\<close> are loops of the source that could go on for ever; they are partial
  functions with \<open>None\<close> for that, and termination is a theorem about them. Sizes of packets, frames,
  lines, queues and tables are those of the source.

  \<^bold>\<open>Not modelled.\<close> The command line and the output of \<open>servicectl\<close> (\<open>main.go\<close>, \<open>ui.go\<close>, \<open>display.go\<close>,
  \<open>status_render.go\<close>, \<open>group_cli.go\<close>, \<open>cgroup_cli.go\<close>, \<open>dbus_activation_cli.go\<close>): they parse arguments, call the
  parts above and print. The collection of the status (\<open>status_collect.go\<close>, \<open>status_probe.go\<close>, \<open>status_logs.go\<close>,
  \<open>status_manifest.go\<close>) and the HTTP services (\<open>servicectl_api.go\<close>, \<open>cmd/sysvisiond\<close>, \<open>cmd/sys-propertyd\<close>):
  their content is queries to other processes over JSON and HTTP. The client of dinit's control
  socket and the bus (\<open>internal/dinit\<close>, \<open>internal/dbusmanager\<close>), the installation on s6
  (\<open>s6_backend.go\<close>) and the holders of sockets (\<open>socket_holder_policy.go\<close>). Log lines, the start-up debug files,
  contexts and deadlines of single system calls; the accept loops and the set-up of sockets; the helper
  programs and echo daemons under \<open>cmd\<close>, and the C helper of sys-dbusd. The manifest lists each part.
\<close>

section \<open>The cgroup daemon end to end\<close>

lemma unprivileged_scope:
  assumes "authorizeRequestWithRoot p req ns ins rc root = Inr sc" "peerUID p \<noteq> 0"
  shows "sc = \<lparr>scMode = ModeUser, scUID = peerUID p, scGlobal = False\<rparr>"
  using assms by (auto simp: authorizeRequestWithRoot_def Let_def bind_err_Inr_iff split: sum.splits if_splits)

text \<open>
  Property C1. Isolation of users, through socket, authorization, dispatch and scheduler: whatever
  the daemon did before (events, timers, migrations, other requests), the handler never shows an
  unprivileged peer a unit that is not a user unit of the peer's own UID.
\<close>

theorem socket_shows_own_units:
  assumes "validateRegistry reg = Inr ()" "\<forall>uid. 0 \<le> svActiveByUID srv uid"
    and "foldl (schedStep (linuxWorld S f B)) (LoadRegistry W (newScheduler boot path) reg, w, []) evs = (s, w', running)"
    and "handleConnection txt (schedulerService (linuxWorld S f B)) srv (s, w') i = (srv', sw, r)"
    and "inPeer i = Inr p" "peerUID p \<noteq> 0"
    and "u \<in> set (rspUnits r) \<union> set_option (rspUnit r)"
  shows "keyMode (idKey (usIdentity u)) = ModeUser \<and> keyUID (idKey (usIdentity u)) = peerUID p"
proof -
  have "schInv (newScheduler boot path)" by (simp add: schInv_def newScheduler_def)
  then have "daemonInv (LoadRegistry W (newScheduler boot path) reg, w, [])"
    using LoadRegistry_inv assms(1) by (simp add: daemonInv_def)
  from linux.daemon.run_inv [OF this, of S f B evs] assms(3) have inv: "schInv (fst (s, w'))"
    by (simp add: daemonInv_def)
  from handleConnection_cases [OF assms(2,4)] assms(5,7)
  obtain req sc where d: "dispatch (schedulerService (linuxWorld S f B)) sc req (s, w') = (sw, r)"
    and auth: "authorizeRequestWithRoot p req (inNamespace i) (inInspect i) (inReadCgroup i) (svManagedPath srv) = Inr sc"
    by (auto simp: failureResponse_def emptyResponse_def)
  from unprivileged_scope [OF auth assms(6)] dispatch_units [OF inv d _ assms(7)] show ?thesis by simp
qed


text \<open>A kernel without a hierarchy below the root, a registry with one user unit, a request for it.\<close>

definition emptyHierarchy :: "nat sworld" where
  "emptyHierarchy = linuxWorld (agreeableKernel\<lparr>sysDup := \<lambda>n. (n + 1, Some NotExist)\<rparr>)
     \<lparr>fsRoot = ''/'', fsSynthetic = False\<rparr> quietWorld"

definition fooIdentity :: instanceIdentity where
  "fooIdentity = systemIdentity\<lparr>idKey := fooKey\<rparr>"

definition userRegistry :: registry where
  "userRegistry = \<lparr>regVersion = 1,
     regUnits = [\<lparr>recIdentity = fooIdentity, recState = StateTracked, recLastMigration = '''', recRetryCount = 0, recLastError = ''''\<rparr>],
     regNative = []\<rparr>"

definition getRequest :: "unit incoming" where
  "getRequest = foreignAttach\<lparr>inRequest := Inr (attachRequest\<lparr>reqOperation := OpGetUnit, reqPID := 0\<rparr>)\<rparr>"

lemma fooIdentity_valid: "validateIdentity fooIdentity = Inr ()"
  using validateKey_foo by (simp add: validateIdentity_def fooIdentity_def systemIdentity_def space_eval)

lemma userRegistry_valid: "validateRegistry userRegistry = Inr ()"
  using fooIdentity_valid by (simp add: validateRegistry_def userRegistry_def)

lemma getUnit_foo:
  "snd (GetUnit emptyHierarchy \<lparr>scMode = ModeUser, scUID = 1000, scGlobal = False\<rparr> ''foo.service''
    (LoadRegistry emptyHierarchy (newScheduler ''b'' '''') userRegistry, 0)) =
   Inr \<lparr>usIdentity = fooIdentity, usState = StateTracked, usPath = groupPath emptyHierarchy fooKey,
     usMemberCount = 0, usLastMigration = '''', usLastError = ''''\<rparr>"
proof -
  have key: "scopeKey \<lparr>scMode = ModeUser, scUID = 1000, scGlobal = False\<rparr> ''foo.service'' = fooKey"
    by (simp add: scopeKey_def fooKey_def canonicalUnit_def) code_simp
  show ?thesis
    using fooIdentity_valid validateKey_foo groupComponents_foo
    by (simp add: GetUnit_def key statusForKey_def LoadRegistry_def userRegistry_def newScheduler_def unitOf_def putUnit_def
      fooIdentity_def systemIdentity_def currentPIDs_def unitStatusOf_def currentPath_def Cgroup_Scheduler.groupMissing_def)
     (simp add: emptyHierarchy_def linuxWorld_def agreeableKernel_def PIDs_def pidsLocked_def openGroupLocked_def openComponents_def unitStatusOf_def currentPath_def Cgroup_Scheduler.groupMissing_def)
qed

lemma getRequest_shows:
  "\<exists>srv sw r u. handleConnection quietTexts (schedulerService emptyHierarchy) (NewServer '''' 0 0 0 '''')
      (LoadRegistry emptyHierarchy (newScheduler ''b'' '''') userRegistry, 0) getRequest = (srv, sw, r) \<and>
    rspUnit r = Some u"
proof -
  have "validateRequest (attachRequest\<lparr>reqOperation := OpGetUnit, reqPID := 0\<rparr>) = Inr ()"
    using validateKey_foo by (simp add: validateRequest_def attachRequest_def validateUnitFields_def liftKey_def fooKey_def)
  then have "snd (admit quietTexts (NewServer '''' 0 0 0 '''') getRequest) =
    Inr (\<lparr>scMode = ModeUser, scUID = 1000, scGlobal = False\<rparr>, attachRequest\<lparr>reqOperation := OpGetUnit, reqPID := 0\<rparr>, 1000)"
    by (simp add: admit_def getRequest_def foreignAttach_def authorizeRequestWithRoot_def userPeer_def attachRequest_def
        Let_def acquireUID_def NewServer_def)
  with getUnit_foo show ?thesis
    by (auto simp: handleConnection_def dispatch_def schedulerService_def reply_def attachRequest_def split: prod.split)
qed

theorem socket_shows_own_units_witness:
  "\<exists>srv sw r u. handleConnection quietTexts (schedulerService emptyHierarchy) (NewServer '''' 0 0 0 '''')
      (LoadRegistry emptyHierarchy (newScheduler ''b'' '''') userRegistry, 0) getRequest = (srv, sw, r) \<and>
    rspUnit r = Some u \<and> keyUID (idKey (usIdentity u)) = 1000"
proof -
  from getRequest_shows obtain srv sw r u where
    h: "handleConnection quietTexts (schedulerService emptyHierarchy) (NewServer '''' 0 0 0 '''')
      (LoadRegistry emptyHierarchy (newScheduler ''b'' '''') userRegistry, 0) getRequest = (srv, sw, r)"
    and u: "rspUnit r = Some u" by blast
  have "keyMode (idKey (usIdentity u)) = ModeUser \<and> keyUID (idKey (usIdentity u)) = peerUID userPeer"
    by (rule socket_shows_own_units [OF userRegistry_valid _ _ h [unfolded emptyHierarchy_def], of quietWorld "''b''" "''''" 0 "[]" "[]"])
       (use u in \<open>simp_all add: NewServer_def getRequest_def foreignAttach_def userPeer_def emptyHierarchy_def LoadRegistry_def userRegistry_def\<close>)
  with h u show ?thesis by (auto simp: userPeer_def)
qed

end
